(* ===== verification/Omni_Prelude.thy ===== *)
theory Omni_Prelude
  imports Main "HOL-Library.Word" "HOL-Library.Sublist" "HOL-Library.AList"
begin

text \<open>
  Shared vocabulary of the development: the result type of fallible Go
  functions, the generic lemmas on lists, options and maps that the component
  theories use, the named collections that carry their proofs, and the
  generic locale of guarded state machines (a step function with an invariant)
  that the stateful components interpret.

  A Go function returning \<^verbatim>\<open>(T, error)\<close> is modelled with the result type
  \<open>'e + 'a\<close>, \<open>Inl\<close> being the error.  Go strings and byte slices are byte
  sequences, which is what HOL's \<open>string\<close> (a list of 8-bit characters) is.
\<close>

section \<open>Result values\<close>

type_synonym ('e, 'a) result = "'e + 'a"

definition is_ok :: "('e, 'a) result \<Rightarrow> bool" where
  "is_ok r = (case r of Inl _ \<Rightarrow> False | Inr _ \<Rightarrow> True)"

lemma is_ok_simps [simp]: "is_ok (Inl e) = False" "is_ok (Inr a) = True"
  by (simp_all add: is_ok_def)

lemma is_ok_iff: "is_ok r \<longleftrightarrow> (\<exists>a. r = Inr a)"
  by (cases r) auto

section \<open>Named collections\<close>

named_theorems go_defs \<open>definitions of the modelled Go standard library\<close>
named_theorems branch_defs \<open>definitions unfolded to walk the branches of a handler\<close>
named_theorems inv_intro \<open>an operation keeps the invariant of its component\<close>

section \<open>Searching a list in order, as a loop with an early return does\<close>

lemma find_Some_in_set: "List.find P xs = Some x \<Longrightarrow> x \<in> set xs \<and> P x"
  by (auto simp: find_Some_iff)

lemma find_None_all: "List.find P xs = None \<longleftrightarrow> (\<forall>x\<in>set xs. \<not> P x)"
  by (auto simp: find_None_iff)

lemma find_not_None_ex: "List.find P xs \<noteq> None \<longleftrightarrow> (\<exists>x\<in>set xs. P x)"
  by (auto simp: find_None_iff)

lemma find_cong_set: "(\<And>x. x \<in> set xs \<Longrightarrow> P x = Q x) \<Longrightarrow> List.find P xs = List.find Q xs"
  by (induction xs) auto

lemma find_append: "List.find P (xs @ ys) = (case List.find P xs of None \<Rightarrow> List.find P ys | Some x \<Rightarrow> Some x)"
  by (induction xs) auto

lemma set_update_subset: "set (AList.update k v xs) \<subseteq> insert (k, v) (set xs)"
  by (induction xs) auto

lemma find_filter_singleton:
  "filter P xs = [x] \<Longrightarrow> (\<And>y. y \<in> set xs \<Longrightarrow> Q y \<Longrightarrow> P y) \<Longrightarrow> Q x \<Longrightarrow> List.find Q xs = Some x"
proof (induction xs)
  case Nil
  then show ?case by simp
next
  case (Cons y ys)
  show ?case
  proof (cases "P y")
    case True
    with Cons.prems(1,3) show ?thesis by simp
  next
    case False
    with Cons.prems have "List.find Q ys = Some x" by (intro Cons.IH) auto
    moreover from False Cons.prems(2) have "\<not> Q y" by auto
    ultimately show ?thesis by simp
  qed
qed

lemma filter_singletonD: "filter P xs = [x] \<Longrightarrow> P x \<and> x \<in> set xs"
  by (auto dest: filter_eq_ConsD)

lemma filter_conv_find: "filter P xs = [] \<longleftrightarrow> List.find P xs = None"
  by (auto simp: filter_empty_conv find_None_iff)

lemma map_of_filter_val:
  "distinct (map fst xs) \<Longrightarrow> map_of (filter (\<lambda>x. P (snd x)) xs) k =
    (case map_of xs k of None \<Rightarrow> None | Some v \<Rightarrow> if P v then Some v else None)"
proof (induction xs)
  case Nil
  show ?case by simp
next
  case (Cons x xs)
  show ?case
  proof (cases "fst x = k")
    case True
    with Cons.prems have "map_of xs k = None" by (auto simp: map_of_eq_None_iff)
    with Cons True show ?thesis by simp
  next
    case False
    with Cons show ?thesis by simp
  qed
qed

section \<open>Runs of a step function\<close>

primrec run_steps :: "('s \<Rightarrow> 'e \<Rightarrow> 's) \<Rightarrow> 's \<Rightarrow> 'e list \<Rightarrow> 's" where
  "run_steps f s [] = s"
| "run_steps f s (e # es) = run_steps f (f s e) es"

lemma run_steps_append: "run_steps f s (es @ es') = run_steps f (run_steps f s es) es'"
  by (induction es arbitrary: s) auto

text \<open>
  The contract of a stateful component: its step function keeps an invariant.
  Every stateful component of the development interprets this locale on its
  own step function, which lifts the one-step lemmas to arbitrary histories.
\<close>

locale guarded_machine =
  fixes step :: "'s \<Rightarrow> 'e \<Rightarrow> 's"
    and invar :: "'s \<Rightarrow> bool"
  assumes step_invar: "invar s \<Longrightarrow> invar (step s e)"
begin

lemma run_invar: "invar s \<Longrightarrow> invar (run_steps step s es)"
  by (induction es arbitrary: s) (auto intro: step_invar)

end

text \<open>
  A component with a quantity that its steps never decrease (a sequence
  counter, a log length, an epoch).
\<close>

locale monotone_machine = guarded_machine step invar
  for step :: "'s \<Rightarrow> 'e \<Rightarrow> 's" and invar :: "'s \<Rightarrow> bool" +
  fixes level :: "'s \<Rightarrow> nat"
  assumes step_level: "invar s \<Longrightarrow> level s \<le> level (step s e)"
begin

lemma run_level: "invar s \<Longrightarrow> level s \<le> level (run_steps step s es)"
proof (induction es arbitrary: s)
  case Nil
  show ?case by simp
next
  case (Cons e es)
  from Cons.prems have "level s \<le> level (step s e)" by (rule step_level)
  also have "\<dots> \<le> level (run_steps step (step s e) es)"
    using Cons.prems by (intro Cons.IH step_invar)
  finally show ?case by simp
qed

end

text \<open>
  A bounded queue in front of a consumer that must never block its producers:
  an element is taken in while there is room and dropped otherwise.  The
  exporters' buffers, the supervision streams and the tunnel notices are such
  queues.
\<close>

locale bounded_queue =
  fixes put :: "'q \<Rightarrow> 'a \<Rightarrow> 'q"
    and contents :: "'q \<Rightarrow> 'a list"
    and capacity :: "'q \<Rightarrow> nat"
  assumes put_room: "length (contents q) < capacity q \<Longrightarrow> contents (put q x) = contents q @ [x]"
    and put_full: "\<not> length (contents q) < capacity q \<Longrightarrow> contents (put q x) = contents q"
    and put_capacity: "capacity (put q x) = capacity q"
begin

lemma put_bounded: "length (contents q) \<le> capacity q \<Longrightarrow> length (contents (put q x)) \<le> capacity (put q x)"
  by (cases "length (contents q) < capacity q") (simp_all add: put_room put_full put_capacity)

lemma puts_bounded: "length (contents q) \<le> capacity q \<Longrightarrow> length (contents (foldl put q xs)) \<le> capacity q"
proof (induction xs arbitrary: q)
  case (Cons x xs)
  from Cons.IH [OF put_bounded [OF Cons.prems]] show ?case by (simp add: put_capacity)
qed simp

lemma puts_take:
  "length (contents q) \<le> capacity q \<Longrightarrow> contents (foldl put q xs) = contents q @ take (capacity q - length (contents q)) xs"
proof (induction xs arbitrary: q)
  case (Cons x xs)
  show ?case
  proof (cases "length (contents q) < capacity q")
    case True
    then have "capacity q - length (contents q) = Suc (capacity q - Suc (length (contents q)))" by simp
    with Cons.IH [of "put q x"] True show ?thesis by (simp add: put_room put_capacity)
  next
    case False
    with Cons.prems Cons.IH [of "put q x"] show ?thesis by (simp add: put_full put_capacity)
  qed
qed simp

end

end
