(* ===== verification/Go_Std.thy ===== *)
theory Go_Std
  imports Omni_Prelude "HOL-Library.Char_ord"
begin

text \<open>
  What the gateway uses of Go's standard library, outside the network types:
  byte-string functions of \<^verbatim>\<open>strings\<close>, decimal conversion of \<^verbatim>\<open>strconv\<close> and
  \<^verbatim>\<open>fmt\<close>, 64-bit signed arithmetic, and the instants and durations of
  \<^verbatim>\<open>time\<close>.

  Case mapping is the ASCII part of \<^verbatim>\<open>strings.ToLower\<close> and
  \<^verbatim>\<open>strings.EqualFold\<close>: bytes from 128 up are compared as they are, so the
  development speaks about ASCII group, role, host and user names.

  An instant is the number of nanoseconds since the zero \<^verbatim>\<open>time.Time\<close>, so
  \<open>IsZero\<close> is equality with 0; a duration is a signed 64-bit number of
  nanoseconds, kept as an \<open>int\<close> with the wrap-around of \<open>int64\<close> written out
  where the source multiplies it.
\<close>

section \<open>Byte strings\<close>

definition byte :: "char \<Rightarrow> nat" where
  "byte c = of_char c"

definition lower_byte :: "char \<Rightarrow> char" where
  "lower_byte c = (if 65 \<le> byte c \<and> byte c \<le> 90 then char_of (byte c + 32) else c)"

definition ToLower :: "string \<Rightarrow> string" where
  "ToLower s = map lower_byte s"

definition EqualFold :: "string \<Rightarrow> string \<Rightarrow> bool" where
  "EqualFold s t = list_all2 (\<lambda>a b. lower_byte a = lower_byte b) s t"

lemma EqualFold_iff: "EqualFold s t \<longleftrightarrow> ToLower s = ToLower t"
  by (auto simp: EqualFold_def ToLower_def list_all2_conv_all_nth list_eq_iff_nth_eq)

lemma EqualFold_refl [simp]: "EqualFold s s"
  by (simp add: EqualFold_iff)

lemma EqualFold_sym: "EqualFold s t \<longleftrightarrow> EqualFold t s"
  by (auto simp: EqualFold_iff)

lemma EqualFold_trans: "EqualFold s t \<Longrightarrow> EqualFold t u \<Longrightarrow> EqualFold s u"
  by (simp add: EqualFold_iff)

lemma byte_less: "byte c < 256"
  by (simp add: byte_def)

lemma char_of_byte [simp]: "char_of (byte c) = c"
  by (simp add: byte_def)

lemma byte_char_of: "n < 256 \<Longrightarrow> byte (char_of n) = n"
  by (simp add: byte_def of_char_of)

lemma lower_byte_idem [simp]: "lower_byte (lower_byte c) = lower_byte c"
  by (auto simp: lower_byte_def byte_char_of)

lemma ToLower_idem [simp]: "ToLower (ToLower s) = ToLower s"
  by (simp add: ToLower_def)

definition is_space :: "char \<Rightarrow> bool" where
  "is_space c = (byte c \<in> {9, 10, 11, 12, 13, 32})"

definition TrimSpace :: "string \<Rightarrow> string" where
  "TrimSpace s = rev (dropWhile is_space (rev (dropWhile is_space s)))"

text \<open>\<^verbatim>\<open>strings.IndexByte\<close>: the first position of a byte, \<open>None\<close> for -1.\<close>

fun IndexByte :: "string \<Rightarrow> char \<Rightarrow> nat option" where
  "IndexByte [] c = None"
| "IndexByte (x # xs) c = (if x = c then Some 0 else map_option Suc (IndexByte xs c))"

lemma IndexByte_None_iff: "IndexByte s c = None \<longleftrightarrow> c \<notin> set s"
  by (induction s) auto

lemma IndexByte_SomeD:
  "IndexByte s c = Some i \<Longrightarrow> i < length s \<and> s ! i = c \<and> c \<notin> set (take i s)"
  by (induction s arbitrary: i) (auto split: if_splits)

lemma IndexByte_Some_split:
  "IndexByte s c = Some i \<Longrightarrow> s = take i s @ c # drop (Suc i) s"
  by (metis IndexByte_SomeD id_take_nth_drop)

lemma IndexByte_append_first: "c \<notin> set u \<Longrightarrow> IndexByte (u @ c # v) c = Some (length u)"
  by (induction u) auto

text \<open>\<^verbatim>\<open>strings.LastIndexByte\<close>.\<close>

definition LastIndexByte :: "string \<Rightarrow> char \<Rightarrow> nat option" where
  "LastIndexByte s c = map_option (\<lambda>i. length s - 1 - i) (IndexByte (rev s) c)"

fun HasPrefix :: "string \<Rightarrow> string \<Rightarrow> bool" where
  "HasPrefix s [] = True"
| "HasPrefix [] (p # ps) = False"
| "HasPrefix (x # xs) (p # ps) = (x = p \<and> HasPrefix xs ps)"

lemma HasPrefix_iff: "HasPrefix s p \<longleftrightarrow> prefix p s"
  by (induction s p rule: HasPrefix.induct) auto

definition HasSuffix :: "string \<Rightarrow> string \<Rightarrow> bool" where
  "HasSuffix s p = HasPrefix (rev s) (rev p)"

lemma HasSuffix_iff: "HasSuffix s p \<longleftrightarrow> suffix p s"
  by (simp add: HasSuffix_def HasPrefix_iff suffix_to_prefix)

definition TrimPrefix :: "string \<Rightarrow> string \<Rightarrow> string" where
  "TrimPrefix s p = (if HasPrefix s p then drop (length p) s else s)"

definition TrimSuffix :: "string \<Rightarrow> string \<Rightarrow> string" where
  "TrimSuffix s p = (if HasSuffix s p then take (length s - length p) s else s)"

text \<open>\<^verbatim>\<open>strings.Contains\<close>, and \<^verbatim>\<open>bytes.Contains\<close>.\<close>

fun Contains :: "string \<Rightarrow> string \<Rightarrow> bool" where
  "Contains [] p = (p = [])"
| "Contains (x # xs) p = (HasPrefix (x # xs) p \<or> Contains xs p)"

lemma Contains_iff: "Contains s p \<longleftrightarrow> sublist p s"
  by (induction s) (auto simp: HasPrefix_iff sublist_Cons_right)

text \<open>\<^verbatim>\<open>strings.Split\<close> with a one-byte separator, and \<^verbatim>\<open>strings.Join\<close>.\<close>

fun split_byte :: "char \<Rightarrow> string \<Rightarrow> string list" where
  "split_byte c [] = [[]]"
| "split_byte c (x # xs) =
     (if x = c then [] # split_byte c xs
      else (case split_byte c xs of [] \<Rightarrow> [[x]] | y # ys \<Rightarrow> (x # y) # ys))"

fun Join :: "string list \<Rightarrow> string \<Rightarrow> string" where
  "Join [] sep = []"
| "Join [x] sep = x"
| "Join (x # y # ys) sep = x @ sep @ Join (y # ys) sep"

lemma split_byte_nonempty [simp]: "split_byte c s \<noteq> []"
  by (induction s) (auto split: list.splits)

lemma Join_split_byte: "Join (split_byte c s) [c] = s"
proof (induction s)
  case Nil
  show ?case by simp
next
  case (Cons x xs)
  obtain y ys where "split_byte c xs = y # ys"
    by (cases "split_byte c xs") auto
  with Cons show ?case by (cases ys) auto
qed

lemma split_byte_no_sep: "c \<notin> set s \<Longrightarrow> split_byte c s = [s]"
  by (induction s) auto

lemma split_byte_append: "c \<notin> set u \<Longrightarrow> split_byte c (u @ c # v) = u # split_byte c v"
  by (induction u) auto

section \<open>Decimal numbers\<close>

definition digit_char :: "nat \<Rightarrow> char" where
  "digit_char d = char_of (48 + d)"

fun show_nat :: "nat \<Rightarrow> string" where
  "show_nat n = (if n < 10 then [digit_char n] else show_nat (n div 10) @ [digit_char (n mod 10)])"

declare show_nat.simps [simp del]

definition show_int :: "int \<Rightarrow> string" where
  "show_int i = (if i < 0 then CHR ''-'' # show_nat (nat (- i)) else show_nat (nat i))"

definition is_digit :: "char \<Rightarrow> bool" where
  "is_digit c = (48 \<le> byte c \<and> byte c \<le> 57)"

definition digit_val :: "char \<Rightarrow> nat" where
  "digit_val c = byte c - 48"

definition read_digits :: "string \<Rightarrow> nat" where
  "read_digits s = foldl (\<lambda>n c. 10 * n + digit_val c) 0 s"

definition parse_digits :: "string \<Rightarrow> nat option" where
  "parse_digits s = (if s \<noteq> [] \<and> list_all is_digit s then Some (read_digits s) else None)"

lemma digit_char_digit [simp]: "d < 10 \<Longrightarrow> is_digit (digit_char d)"
  by (simp add: is_digit_def digit_char_def byte_char_of)

lemma digit_val_char [simp]: "d < 10 \<Longrightarrow> digit_val (digit_char d) = d"
  by (simp add: digit_val_def digit_char_def byte_char_of)

lemma read_digits_snoc [simp]: "read_digits (s @ [c]) = 10 * read_digits s + digit_val c"
  by (simp add: read_digits_def)

lemma show_nat_nonempty [simp]: "show_nat n \<noteq> []"
  by (subst show_nat.simps) simp

lemma show_nat_digits: "list_all is_digit (show_nat n)"
proof (induction n rule: show_nat.induct)
  case (1 n)
  then show ?case by (cases "n < 10") (simp_all add: show_nat.simps [of n])
qed

lemma read_show_nat [simp]: "read_digits (show_nat n) = n"
proof (induction n rule: show_nat.induct)
  case (1 n)
  show ?case
  proof (cases "n < 10")
    case True
    then show ?thesis by (simp add: show_nat.simps [of n] read_digits_def)
  next
    case False
    with 1 show ?thesis by (simp add: show_nat.simps [of n])
  qed
qed

lemma parse_show_nat [simp]: "parse_digits (show_nat n) = Some n"
  by (simp add: parse_digits_def show_nat_digits)

lemma show_nat_inj: "show_nat m = show_nat n \<longleftrightarrow> m = n"
  by (metis read_show_nat)

lemma show_nat_hd: "hd (show_nat n) \<in> set (show_nat n)"
  by simp

lemma show_nat_notin: "\<not> is_digit c \<Longrightarrow> c \<notin> set (show_nat n)"
  using show_nat_digits by (auto simp: list_all_iff)

text \<open>\<^verbatim>\<open>strconv.Atoi\<close> on a 64-bit platform: optional sign, digits, range.\<close>

definition int64_max :: int where
  "int64_max = 2 ^ 63 - 1"

definition int64_min :: int where
  "int64_min = - (2 ^ 63)"

definition Atoi_abs :: "string \<Rightarrow> int option" where
  "Atoi_abs s = (case s of [] \<Rightarrow> None
     | c # cs \<Rightarrow>
         if c = CHR ''-'' then map_option (\<lambda>n. - int n) (parse_digits cs)
         else if c = CHR ''+'' then map_option int (parse_digits cs)
         else map_option int (parse_digits s))"

definition Atoi :: "string \<Rightarrow> int option" where
  "Atoi s = (case Atoi_abs s of None \<Rightarrow> None
     | Some i \<Rightarrow> if int64_min \<le> i \<and> i \<le> int64_max then Some i else None)"

lemma Atoi_abs_show_nat: "Atoi_abs (show_nat n) = Some (int n)"
proof -
  obtain c cs where s: "show_nat n = c # cs" by (cases "show_nat n") auto
  then have "is_digit c" using show_nat_digits [of n] by simp
  then have "c \<noteq> CHR ''-''" and "c \<noteq> CHR ''+''"
    by (auto simp: is_digit_def byte_def)
  then show ?thesis using parse_show_nat [of n] by (simp add: s Atoi_abs_def)
qed

lemma Atoi_show_int: "0 \<le> i \<Longrightarrow> i \<le> int64_max \<Longrightarrow> Atoi (show_int i) = Some i"
  by (simp add: Atoi_def show_int_def Atoi_abs_show_nat int64_min_def)

section \<open>64-bit signed arithmetic\<close>

definition wrap64 :: "int \<Rightarrow> int" where
  "wrap64 i = (i + 2 ^ 63) mod 2 ^ 64 - 2 ^ 63"

lemma wrap64_id: "int64_min \<le> i \<Longrightarrow> i \<le> int64_max \<Longrightarrow> wrap64 i = i"
  by (simp add: wrap64_def int64_min_def int64_max_def)

lemma wrap64_range: "int64_min \<le> wrap64 i \<and> wrap64 i \<le> int64_max"
proof -
  have "0 \<le> (i + 2 ^ 63) mod 2 ^ 64" "(i + 2 ^ 63) mod 2 ^ 64 < (2 ^ 64 :: int)"
    by simp_all
  then show ?thesis unfolding wrap64_def int64_min_def int64_max_def by simp
qed

section \<open>Instants and durations\<close>

type_synonym time = int
type_synonym duration = int

definition IsZero :: "time \<Rightarrow> bool" where
  "IsZero t = (t = 0)"

definition Before :: "time \<Rightarrow> time \<Rightarrow> bool" where
  "Before a b = (a < b)"

definition After :: "time \<Rightarrow> time \<Rightarrow> bool" where
  "After a b = (b < a)"

text \<open>\<^verbatim>\<open>Time.Sub\<close> saturates at the bounds of a duration.\<close>

definition time_sub :: "time \<Rightarrow> time \<Rightarrow> duration" where
  "time_sub a b = max int64_min (min int64_max (a - b))"

definition time_add :: "time \<Rightarrow> duration \<Rightarrow> time" where
  "time_add t d = t + d"

abbreviation Second :: duration where "Second \<equiv> 1000000000"
abbreviation Minute :: duration where "Minute \<equiv> 60000000000"
abbreviation Hour :: duration where "Hour \<equiv> 3600000000000"

lemmas time_defs = IsZero_def Before_def After_def time_add_def

declare IsZero_def [go_defs] Before_def [go_defs] After_def [go_defs] time_add_def [go_defs]

lemma time_sub_gt_iff: "0 \<le> w \<Longrightarrow> w < int64_max \<Longrightarrow> time_sub a b > w \<longleftrightarrow> a - b > w"
  by (auto simp: time_sub_def int64_min_def int64_max_def)

end
