(* ===== verification/Net_IP.thy ===== *)
theory Net_IP
  imports Go_Std
begin

unbundle bit_operations_syntax

text \<open>
  What the gateway uses of Go's \<^verbatim>\<open>net\<close> package: addresses as byte slices of
  length 4 or 16, their textual forms (\<^verbatim>\<open>net.ParseIP\<close>, \<^verbatim>\<open>net.ParseCIDR\<close>,
  \<^verbatim>\<open>net.SplitHostPort\<close>, \<^verbatim>\<open>net.JoinHostPort\<close>), range containment
  (\<^verbatim>\<open>IPNet.Contains\<close>) and the address classes the dial guard tests.
\<close>

type_synonym ip = "8 word list"

section \<open>Textual IPv4\<close>

text \<open>One decimal octet: digits, no leading zero, at most 255.\<close>

definition parse_octet :: "string \<Rightarrow> 8 word option" where
  "parse_octet s = (case parse_digits s of None \<Rightarrow> None
     | Some n \<Rightarrow> if n \<le> 255 \<and> (length s = 1 \<or> hd s \<noteq> CHR ''0'') then Some (word_of_nat n) else None)"

fun parse_octets :: "string list \<Rightarrow> ip option" where
  "parse_octets [] = Some []"
| "parse_octets (x # xs) = (case parse_octet x of None \<Rightarrow> None
     | Some b \<Rightarrow> map_option ((#) b) (parse_octets xs))"

definition parse_v4_fields :: "string \<Rightarrow> ip option" where
  "parse_v4_fields s =
     (let parts = split_byte (CHR ''.'') s
      in if length parts = 4 then parse_octets parts else None)"

lemma parse_octets_length: "parse_octets xs = Some bs \<Longrightarrow> length bs = length xs"
  by (induction xs arbitrary: bs) (auto split: option.splits)

lemma parse_v4_fields_length: "parse_v4_fields s = Some bs \<Longrightarrow> length bs = 4"
  by (auto simp: parse_v4_fields_def Let_def dest: parse_octets_length split: if_splits)

section \<open>Textual IPv6\<close>

definition is_hex :: "char \<Rightarrow> bool" where
  "is_hex c = (is_digit c \<or> (97 \<le> byte c \<and> byte c \<le> 102) \<or> (65 \<le> byte c \<and> byte c \<le> 70))"

definition hex_val :: "char \<Rightarrow> nat" where
  "hex_val c = (if is_digit c then byte c - 48
                else if 97 \<le> byte c then byte c - 97 + 10 else byte c - 65 + 10)"

definition read_hex :: "string \<Rightarrow> nat" where
  "read_hex s = foldl (\<lambda>n c. 16 * n + hex_val c) 0 s"

lemma dropWhile_Cons_length:
  assumes "c # rs = dropWhile P s"
  shows "length rs < length s"
  using length_dropWhile_le [of P s] by (simp flip: assms)

text \<open>
  The group loop of \<^verbatim>\<open>netip.parseIPv6\<close>: the bytes so far, where the ellipsis
  was seen, and the rest of the text.
\<close>

function v6_groups :: "ip \<Rightarrow> nat option \<Rightarrow> string \<Rightarrow> (ip \<times> nat option \<times> string) option" where
  "v6_groups ip ell s =
    (if 16 \<le> length ip then Some (ip, ell, s)
     else let run = takeWhile is_hex s; rest = dropWhile is_hex s in
       if run = [] \<or> 4 < length run then None
       else if rest \<noteq> [] \<and> hd rest = CHR ''.'' then
         (if ell = None \<and> length ip \<noteq> 12 then None
          else if 16 < length ip + 4 then None
          else case parse_v4_fields s of None \<Rightarrow> None | Some f \<Rightarrow> Some (ip @ f, ell, []))
       else let v = read_hex run;
                ip' = ip @ [word_of_nat (v div 256), word_of_nat (v mod 256)] in
         case rest of [] \<Rightarrow> Some (ip', ell, [])
         | c # rs \<Rightarrow>
             if c \<noteq> CHR '':'' then None
             else case rs of [] \<Rightarrow> None
             | r # rs' \<Rightarrow>
                 if r = CHR '':'' then
                   (if ell \<noteq> None then None
                    else if rs' = [] then Some (ip', Some (length ip'), [])
                    else v6_groups ip' (Some (length ip')) rs')
                 else v6_groups ip' ell rs)"
  by pat_completeness auto

termination
  by (relation "measure (\<lambda>(ip, ell, s). length s)")
     (auto dest: dropWhile_Cons_length)

declare v6_groups.simps [simp del]

definition expand_ellipsis :: "ip \<Rightarrow> nat \<Rightarrow> ip" where
  "expand_ellipsis ip e = take e ip @ replicate (16 - length ip) 0 @ drop e ip"

definition parse_v6 :: "string \<Rightarrow> ip option" where
  "parse_v6 s =
    (let ell0 = (if HasPrefix s ''::'' then Some 0 else None);
         s0 = (if HasPrefix s ''::'' then drop 2 s else s)
     in if ell0 \<noteq> None \<and> s0 = [] then Some (replicate 16 0)
        else case v6_groups [] ell0 s0 of None \<Rightarrow> None
        | Some (ip, ell, rest) \<Rightarrow>
            if rest \<noteq> [] then None
            else if length ip < 16 then map_option (expand_ellipsis ip) ell
            else if ell \<noteq> None then None else Some ip)"

section \<open>net.ParseIP\<close>

definition v4_in_v6_prefix :: ip where
  "v4_in_v6_prefix = [0,0,0,0,0,0,0,0,0,0,255,255]"

text \<open>
  \<^verbatim>\<open>netip.ParseAddr\<close> chooses the family by the first dot, colon or percent
  sign; an address with a zone is refused by \<^verbatim>\<open>net.ParseIP\<close>.  The flag says
  that the text was an IPv4 one.
\<close>

definition parse_addr :: "string \<Rightarrow> (bool \<times> ip) option" where
  "parse_addr s =
    (if CHR ''%'' \<in> set s then None
     else case List.find (\<lambda>c. c \<in> {CHR ''.'', CHR '':''}) s of
       None \<Rightarrow> None
     | Some c \<Rightarrow>
         if c = CHR ''.'' then map_option (\<lambda>b. (True, v4_in_v6_prefix @ b)) (parse_v4_fields s)
         else map_option (Pair False) (parse_v6 s))"

definition ParseIP :: "string \<Rightarrow> ip option" where
  "ParseIP s = map_option snd (parse_addr s)"

text \<open>\<^verbatim>\<open>IP.To4\<close>: the 4-byte form, if the address is an IPv4 one.\<close>

definition To4 :: "ip \<Rightarrow> ip option" where
  "To4 ip =
    (if length ip = 4 then Some ip
     else if length ip = 16 \<and> take 12 ip = v4_in_v6_prefix then Some (drop 12 ip)
     else None)"

definition norm4 :: "ip \<Rightarrow> ip" where
  "norm4 ip = (case To4 ip of None \<Rightarrow> ip | Some v4 \<Rightarrow> v4)"

lemma To4_length: "To4 ip = Some v \<Longrightarrow> length v = 4"
  by (auto simp: To4_def split: if_splits)

lemma length_v4_in_v6_prefix [simp]: "length v4_in_v6_prefix = 12"
  by (simp add: v4_in_v6_prefix_def)

lemma To4_mapped [simp]: "length b = 4 \<Longrightarrow> To4 (v4_in_v6_prefix @ b) = Some b"
  by (simp add: To4_def)

lemma To4_self [simp]: "length b = 4 \<Longrightarrow> To4 b = Some b"
  by (simp add: To4_def)

lemma To4_norm4 [simp]: "To4 (norm4 ip) = To4 ip"
  by (auto simp: norm4_def To4_def split: option.splits)

lemma norm4_idem [simp]: "norm4 (norm4 ip) = norm4 ip"
  by (auto simp: norm4_def To4_def split: option.splits)

section \<open>net.ParseCIDR and IPNet.Contains\<close>

record ipnet =
  net_IP :: ip
  net_Mask :: ip

definition cidr_mask_byte :: "nat \<Rightarrow> 8 word" where
  "cidr_mask_byte n = (if 8 \<le> n then 255 else NOT (drop_bit n 255))"

definition CIDRMask :: "nat \<Rightarrow> nat \<Rightarrow> ip" where
  "CIDRMask ones bytes = map (\<lambda>i. cidr_mask_byte (ones - 8 * i)) [0..<bytes]"

definition mask_ip :: "ip \<Rightarrow> ip \<Rightarrow> ip" where
  "mask_ip ip m = map2 (\<lambda>a b. a AND b) ip m"

definition ParseCIDR :: "string \<Rightarrow> ipnet option" where
  "ParseCIDR s =
    (case IndexByte s (CHR ''/'') of None \<Rightarrow> None
     | Some i \<Rightarrow>
        (case parse_addr (take i s) of None \<Rightarrow> None
         | Some (is4, ip) \<Rightarrow>
            (case parse_digits (drop (Suc i) s) of None \<Rightarrow> None
             | Some n \<Rightarrow>
                if n > (if is4 then 32 else 128) then None
                else let m = CIDRMask n (if is4 then 4 else 16)
                     in Some \<lparr>net_IP = mask_ip (if is4 then drop 12 ip else ip) m, net_Mask = m\<rparr>)))"

text \<open>\<^verbatim>\<open>networkNumberAndMask\<close>: the number and mask at one length.\<close>

definition network_number_and_mask :: "ipnet \<Rightarrow> (ip \<times> ip) option" where
  "network_number_and_mask n =
    (let num = norm4 (net_IP n); m = net_Mask n
     in if length num \<noteq> 4 \<and> length num \<noteq> 16 then None
        else if length m = length num then Some (num, m)
        else if length m = 16 \<and> length num = 4 then Some (num, drop 12 m)
        else None)"

definition net_contains :: "ipnet \<Rightarrow> ip \<Rightarrow> bool" where
  "net_contains n ip =
    (case network_number_and_mask n of None \<Rightarrow> False
     | Some (num, m) \<Rightarrow>
        (let x = norm4 ip
         in length x = length num \<and> list_all2 (=) (mask_ip num m) (mask_ip x m)))"

lemma net_contains_norm4 [simp]: "net_contains n (norm4 ip) = net_contains n ip"
  unfolding net_contains_def norm4_idem by (rule refl)

section \<open>Address classes\<close>

definition IPv6loopback :: ip where "IPv6loopback = replicate 15 0 @ [1]"
definition IPv6unspecified :: ip where "IPv6unspecified = replicate 16 0"
definition IPv4zero :: ip where "IPv4zero = v4_in_v6_prefix @ [0,0,0,0]"
definition IPv4bcast :: ip where "IPv4bcast = v4_in_v6_prefix @ [255,255,255,255]"

text \<open>\<^verbatim>\<open>IP.Equal\<close>: an IPv4 address and its mapped IPv6 form are equal.\<close>

definition ip_Equal :: "ip \<Rightarrow> ip \<Rightarrow> bool" where
  "ip_Equal a b = (norm4 a = norm4 b)"

definition IsUnspecified :: "ip \<Rightarrow> bool" where
  "IsUnspecified ip = (ip_Equal ip IPv4zero \<or> ip_Equal ip IPv6unspecified)"

definition IsLoopback :: "ip \<Rightarrow> bool" where
  "IsLoopback ip = (case To4 ip of Some v \<Rightarrow> v ! 0 = 127 | None \<Rightarrow> ip_Equal ip IPv6loopback)"

definition IsMulticast :: "ip \<Rightarrow> bool" where
  "IsMulticast ip = (case To4 ip of Some v \<Rightarrow> v ! 0 AND 0xf0 = 0xe0
     | None \<Rightarrow> length ip = 16 \<and> ip ! 0 = 0xff)"

definition IsInterfaceLocalMulticast :: "ip \<Rightarrow> bool" where
  "IsInterfaceLocalMulticast ip = (length ip = 16 \<and> ip ! 0 = 0xff \<and> ip ! 1 AND 0x0f = 0x01)"

definition IsLinkLocalMulticast :: "ip \<Rightarrow> bool" where
  "IsLinkLocalMulticast ip = (case To4 ip of Some v \<Rightarrow> v ! 0 = 224 \<and> v ! 1 = 0 \<and> v ! 2 = 0
     | None \<Rightarrow> length ip = 16 \<and> ip ! 0 = 0xff \<and> ip ! 1 AND 0x0f = 0x02)"

definition IsLinkLocalUnicast :: "ip \<Rightarrow> bool" where
  "IsLinkLocalUnicast ip = (case To4 ip of Some v \<Rightarrow> v ! 0 = 169 \<and> v ! 1 = 254
     | None \<Rightarrow> length ip = 16 \<and> ip ! 0 = 0xfe \<and> ip ! 1 AND 0xc0 = 0x80)"

section \<open>net.SplitHostPort\<close>

text \<open>
  The last colon separates the port; a bracketed host ends right before it,
  and an unbracketed host holds no other colon; stray brackets are errors.
\<close>

definition SplitHostPort :: "string \<Rightarrow> (string \<times> string) option" where
  "SplitHostPort hp =
    (case LastIndexByte hp (CHR '':'') of None \<Rightarrow> None
     | Some i \<Rightarrow>
        let port = drop (Suc i) hp in
        if hp ! 0 = CHR ''['' then
          (case IndexByte hp (CHR '']'') of None \<Rightarrow> None
           | Some e \<Rightarrow>
              if Suc e \<noteq> i then None
              else let host = take (e - 1) (drop 1 hp) in
                if CHR ''['' \<in> set (drop 1 hp) \<or> CHR '']'' \<in> set (drop (Suc e) hp) then None
                else Some (host, port))
        else
          let host = take i hp in
          if CHR '':'' \<in> set host then None
          else if CHR ''['' \<in> set hp \<or> CHR '']'' \<in> set hp then None
          else Some (host, port))"

lemma LastIndexByte_append:
  "c \<notin> set v \<Longrightarrow> LastIndexByte (u @ c # v) c = Some (length u)"
  by (simp add: LastIndexByte_def IndexByte_append_first)

lemma SplitHostPort_plain:
  assumes "CHR '':'' \<notin> set h" "CHR ''['' \<notin> set h" "CHR '']'' \<notin> set h"
    and "CHR '':'' \<notin> set p" "CHR ''['' \<notin> set p" "CHR '']'' \<notin> set p"
  shows "SplitHostPort (h @ CHR '':'' # p) = Some (h, p)"
proof -
  have "(h @ CHR '':'' # p) ! 0 \<noteq> CHR ''[''"
    using assms(2) by (cases h) auto
  then show ?thesis
    using assms by (simp add: SplitHostPort_def LastIndexByte_append Let_def)
qed

lemma SplitHostPort_bracket:
  assumes "CHR ''['' \<notin> set h" "CHR '']'' \<notin> set h"
    and "CHR '':'' \<notin> set p" "CHR ''['' \<notin> set p" "CHR '']'' \<notin> set p"
  shows "SplitHostPort (CHR ''['' # h @ CHR '']'' # CHR '':'' # p) = Some (h, p)"
proof -
  have a: "LastIndexByte (CHR ''['' # h @ CHR '']'' # CHR '':'' # p) (CHR '':'')
           = Some (Suc (Suc (length h)))"
    using LastIndexByte_append [OF assms(3), of "CHR ''['' # h @ [CHR '']'']"] by simp
  have b: "IndexByte (CHR ''['' # h @ CHR '']'' # CHR '':'' # p) (CHR '']'') = Some (Suc (length h))"
    using IndexByte_append_first [of "CHR '']''" "CHR ''['' # h" "CHR '':'' # p"] assms(2) by simp
  show ?thesis unfolding SplitHostPort_def a b using assms by (simp add: Let_def)
qed

text \<open>\<^verbatim>\<open>net.JoinHostPort\<close>: brackets around a host with a colon.\<close>

definition JoinHostPort :: "string \<Rightarrow> string \<Rightarrow> string" where
  "JoinHostPort h p =
    (if CHR '':'' \<in> set h then CHR ''['' # h @ CHR '']'' # CHR '':'' # p
     else h @ CHR '':'' # p)"

lemma Split_JoinHostPort:
  assumes "CHR ''['' \<notin> set h" "CHR '']'' \<notin> set h"
    and "CHR '':'' \<notin> set p" "CHR ''['' \<notin> set p" "CHR '']'' \<notin> set p"
  shows "SplitHostPort (JoinHostPort h p) = Some (h, p)"
  using assms SplitHostPort_plain SplitHostPort_bracket by (simp add: JoinHostPort_def)

lemmas ip_class_defs =
  IsUnspecified_def IsLoopback_def IsMulticast_def IsInterfaceLocalMulticast_def
  IsLinkLocalMulticast_def IsLinkLocalUnicast_def

section \<open>Bit masks as ranges\<close>

lemma high_bits: "(x::8 word) AND NOT (mask n) = push_bit n (drop_bit n x)"
  by (rule bit_word_eqI) (auto simp: bit_simps)

lemma class_high_bits:
  assumes "n < 8" and m: "m = push_bit n (mask (8 - n))"
  shows "unat ((x::8 word) AND m) = unat x div 2 ^ n * 2 ^ n"
proof -
  have "m = NOT (mask n)" unfolding m by (rule bit_word_eqI) (auto simp: bit_simps)
  then have "unat (x AND m) = unat (push_bit n (drop_bit n x))" by (simp add: high_bits)
  also have "\<dots> = unat (drop_bit n x) * 2 ^ n mod 2 ^ 8"
    by (simp add: unsigned_push_bit_eq) (simp add: push_bit_eq_mult take_bit_eq_mod)
  also have "unat (drop_bit n x) * 2 ^ n mod 2 ^ 8 = unat x div 2 ^ n * 2 ^ n"
  proof -
    have "unat (drop_bit n x) = unat x div 2 ^ n" by (simp add: unat_drop_bit_eq) (simp add: drop_bit_eq_div)
    moreover have "unat x div 2 ^ n * 2 ^ n < 2 ^ 8"
      by (rule le_less_trans [OF div_times_less_eq_dividend]) (use unsigned_less [of x, where ?'a=nat] in simp)
    ultimately show ?thesis by simp
  qed
  finally show ?thesis .
qed

lemma multicast_nibble: "(x::8 word) AND 0xf0 = 0xe0 \<longleftrightarrow> 0xe0 \<le> x \<and> x \<le> 0xef"
  using class_high_bits [of 4 "0xf0" x] unsigned_less [of x, where ?'a=nat]
  by (auto simp: word_le_nat_alt word_unat_eq_iff mask_eq_exp_minus_1)
lemma link_local_bits: "(x::8 word) AND 0xc0 = 0x80 \<longleftrightarrow> 0x80 \<le> x \<and> x \<le> 0xbf"
  using class_high_bits [of 6 "0xc0" x] unsigned_less [of x, where ?'a=nat]
  by (auto simp: word_le_nat_alt word_unat_eq_iff mask_eq_exp_minus_1)

end
