(* ===== verification/Policy.thy ===== *)
theory Policy
  imports Net_IP
begin

text \<open>
  The authorization engine, \<^verbatim>\<open>internal/policy/policy.go\<close>, \<^verbatim>\<open>targetuser.go\<close> and
  \<^verbatim>\<open>holder.go\<close>: roles bound to directory groups, allow rules over host and
  port, the pure decision functions \<open>Decide\<close> (host and port) and
  \<open>DecideHost\<close> (host only), and the resolution of the account used on the
  target.  Specification: \<open>grants\<close>, what it means for a role the principal
  holds to permit a target.
\<close>

section \<open>Data\<close>

record Target =
  t_Host :: string
  t_Port :: int

definition Target_String :: "Target \<Rightarrow> string" where
  "Target_String t = t_Host t @ '':'' @ show_int (t_Port t)"

record Principal =
  pr_User :: string
  pr_Groups :: "string list"
  pr_TargetHost :: string
  pr_TargetSecretToken :: string
  pr_TargetPort :: int
  pr_RequestedTargetUser :: string
  pr_SelectedRole :: string

text \<open>\<^verbatim>\<open>type RecordMode string\<close> with its three constants.\<close>

type_synonym RecordMode = string

definition RecordNone :: RecordMode where "RecordNone = ''none''"
definition RecordMetadataOnly :: RecordMode where "RecordMetadataOnly = ''metadata-only''"
definition RecordFull :: RecordMode where "RecordFull = ''full''"

definition RecordMode_Normalize :: "RecordMode \<Rightarrow> RecordMode" where
  "RecordMode_Normalize m =
     (if m = RecordFull \<or> m = RecordMetadataOnly \<or> m = RecordNone then m else RecordNone)"

record Rule =
  ru_Host :: string
  ru_Ports :: "int list"
  ru_Record :: RecordMode
  ru_Credential :: string
  ru_RequireApproval :: bool
  ru_TargetUser :: string
  ru_AllowTargetUsers :: "string list"
  ru_ExpectProtocol :: "string list"

record Role =
  ro_Name :: string
  ro_Groups :: "string list"
  ro_Allow :: "Rule list"

record Policy =
  po_Roles :: "Role list"

record Decision =
  d_Allow :: bool
  d_Reason :: string
  d_MatchedRole :: string
  d_RecordMode :: RecordMode
  d_CredentialMode :: string
  d_RequireApproval :: bool
  d_TargetUser :: string
  d_AllowTargetUsers :: "string list"
  d_MatchedGroups :: "string list"
  d_Port :: int
  d_MatchedCIDR :: "ipnet option"
  d_ExpectProtocol :: "string list"

definition ForwardingAllowed :: "Decision \<Rightarrow> bool" where
  "ForwardingAllowed d = (d_RecordMode d \<noteq> RecordFull)"

section \<open>Roles\<close>

definition rolesFor :: "Policy \<Rightarrow> Principal \<Rightarrow> Role list" where
  "rolesFor p pr =
    (let have_groups = map ToLower (pr_Groups pr)
     in filter (\<lambda>r. list_ex (\<lambda>g. ToLower g \<in> set have_groups) (ro_Groups r)) (po_Roles p))"

definition selectorDeniedReason :: string where
  "selectorDeniedReason = ''access denied: the selected pcode is not available for this session''"

text \<open>\<open>None\<close> stands for \<^verbatim>\<open>selectorSatisfied = false\<close>.\<close>

definition selectRoles :: "Policy \<Rightarrow> Principal \<Rightarrow> Role list option" where
  "selectRoles p pr =
    (let held = rolesFor p pr
     in if pr_SelectedRole pr = [] then Some held
        else case List.find (\<lambda>r. EqualFold (ro_Name r) (pr_SelectedRole pr)) held of
               Some r \<Rightarrow> Some [r] | None \<Rightarrow> None)"

definition intersectGroups :: "string list \<Rightarrow> string list \<Rightarrow> string list" where
  "intersectGroups principalGroups roleGroups =
    (let want = map ToLower roleGroups
     in filter (\<lambda>g. ToLower g \<in> set want) principalGroups)"

section \<open>Rules\<close>

definition matchesPort :: "Rule \<Rightarrow> int \<Rightarrow> bool" where
  "matchesPort r port = (ru_Ports r = [] \<or> list_ex (\<lambda>p. p = port) (ru_Ports r))"

definition matches :: "Rule \<Rightarrow> Target \<Rightarrow> bool" where
  "matches r t =
    (if ru_Host r \<noteq> ''*'' \<and> \<not> EqualFold (ru_Host r) (t_Host t) then False
     else matchesPort r (t_Port t))"

definition matchesHost :: "Rule \<Rightarrow> string \<Rightarrow> bool" where
  "matchesHost r host = (ru_Host r = ''*'' \<or> EqualFold (ru_Host r) host)"

definition rule_cidr :: "Rule \<Rightarrow> ipnet option" where
  "rule_cidr r =
    (if ru_Host r = ''*'' \<or> \<not> Contains (ru_Host r) ''/'' then None else ParseCIDR (ru_Host r))"

text \<open>
  \<^verbatim>\<open>type ResolverFunc func(host string) ([]net.IP, error)\<close>; the resolver
  itself is a parameter (DNS), \<open>None\<close> being the nil function, and the inner
  \<open>None\<close> its error.
\<close>

type_synonym ResolverFunc = "string \<Rightarrow> ip list option"

definition targetIPs :: "string \<Rightarrow> ResolverFunc option \<Rightarrow> ip list" where
  "targetIPs host resolve =
    (case ParseIP host of Some ip \<Rightarrow> [ip]
     | None \<Rightarrow> (case resolve of None \<Rightarrow> []
         | Some f \<Rightarrow> (case f host of None \<Rightarrow> [] | Some ips \<Rightarrow> ips)))"

definition allIn :: "ip list \<Rightarrow> ipnet \<Rightarrow> bool" where
  "allIn ips n = (ips \<noteq> [] \<and> list_all (\<lambda>ip. net_contains n (norm4 ip)) ips)"

section \<open>Decisions\<close>

definition deny :: "string \<Rightarrow> Decision" where
  "deny reason =
    \<lparr>d_Allow = False, d_Reason = reason, d_MatchedRole = [], d_RecordMode = RecordNone,
     d_CredentialMode = [], d_RequireApproval = False, d_TargetUser = [], d_AllowTargetUsers = [],
     d_MatchedGroups = [], d_Port = 0, d_MatchedCIDR = None, d_ExpectProtocol = []\<rparr>"

definition allow_by :: "Principal \<Rightarrow> Role \<Rightarrow> Rule \<Rightarrow> ipnet option \<Rightarrow> Decision" where
  "allow_by pr r rule n =
    \<lparr>d_Allow = True, d_Reason = ''allowed by role '' @ ro_Name r, d_MatchedRole = ro_Name r,
     d_RecordMode = RecordMode_Normalize (ru_Record rule), d_CredentialMode = ru_Credential rule,
     d_RequireApproval = ru_RequireApproval rule, d_TargetUser = ru_TargetUser rule,
     d_AllowTargetUsers = ru_AllowTargetUsers rule,
     d_MatchedGroups = intersectGroups (pr_Groups pr) (ro_Groups r),
     d_Port = 0, d_MatchedCIDR = n, d_ExpectProtocol = ru_ExpectProtocol rule\<rparr>"

definition roleNames :: "Role list \<Rightarrow> string" where
  "roleNames roles = Join (map ro_Name roles) '',''"

text \<open>The pairs the nested loops over roles and their rules visit, in order.\<close>

definition role_rules :: "Role list \<Rightarrow> (Role \<times> Rule) list" where
  "role_rules roles = concat (map (\<lambda>r. map (Pair r) (ro_Allow r)) roles)"

definition no_role_reason :: string where
  "no_role_reason = ''no role: principal holds no role granting any access''"

definition Decide :: "Policy \<Rightarrow> Principal \<Rightarrow> Target \<Rightarrow> ResolverFunc option \<Rightarrow> Decision" where
  "Decide p pr t resolve =
    (case selectRoles p pr of None \<Rightarrow> deny selectorDeniedReason
     | Some roles \<Rightarrow>
        if roles = [] then deny no_role_reason
        else case List.find (\<lambda>(r, rule). matches rule t) (role_rules roles) of
          Some (r, rule) \<Rightarrow> allow_by pr r rule None
        | None \<Rightarrow>
           (case List.find (\<lambda>(r, rule). case rule_cidr rule of None \<Rightarrow> False
                   | Some n \<Rightarrow> allIn (targetIPs (t_Host t) resolve) n \<and> matchesPort rule (t_Port t))
                 (role_rules roles) of
              Some (r, rule) \<Rightarrow> allow_by pr r rule (rule_cidr rule)
            | None \<Rightarrow> deny (''no rule in roles '' @ roleNames roles @ '' permits '' @ Target_String t)))"

definition em_dash :: string where
  "em_dash = [CHR 0xE2, CHR 0x80, CHR 0x94]"

definition hostMatches :: "Role list \<Rightarrow> string \<Rightarrow> ResolverFunc option \<Rightarrow> (Role \<times> Rule \<times> ipnet option) list" where
  "hostMatches roles host resolve =
    (let exact = map (\<lambda>(r, rule). (r, rule, None))
                   (filter (\<lambda>(r, rule). matchesHost rule host) (role_rules roles))
     in if exact \<noteq> [] then exact
        else map (\<lambda>(r, rule). (r, rule, rule_cidr rule))
               (filter (\<lambda>(r, rule). case rule_cidr rule of None \<Rightarrow> False
                   | Some n \<Rightarrow> allIn (targetIPs host resolve) n) (role_rules roles)))"

definition DecideHost :: "Policy \<Rightarrow> Principal \<Rightarrow> string \<Rightarrow> ResolverFunc option \<Rightarrow> Decision" where
  "DecideHost p pr host resolve =
    (case selectRoles p pr of None \<Rightarrow> deny selectorDeniedReason
     | Some roles \<Rightarrow>
        if roles = [] then deny no_role_reason
        else if pr_TargetPort pr > 0 then
          (let d = Decide p pr \<lparr>t_Host = host, t_Port = pr_TargetPort pr\<rparr> resolve
           in if d_Allow d then d\<lparr>d_Port := pr_TargetPort pr\<rparr> else d)
        else case hostMatches roles host resolve of
          [] \<Rightarrow> deny (''no rule in roles '' @ roleNames roles @ '' permits host '' @ host)
        | [(r, rule, n)] \<Rightarrow>
           (case ru_Ports rule of
              [port] \<Rightarrow> (allow_by pr r rule n)\<lparr>d_Port := port, d_ExpectProtocol := []\<rparr>
            | ports \<Rightarrow> deny (''ambiguous: the rule matching host '' @ host @ '' has '' @
                show_nat (length ports) @ '' configured ports '' @ em_dash @
                '' the real-target shell/SFTP flow requires exactly one''))
        | ms \<Rightarrow>
           (let pcodes = rev (remdups (rev (map (\<lambda>(r, _). ro_Name r) ms)))
            in if length pcodes > 1
               then deny (''ambiguous: host '' @ host @ '' is permitted by multiple pcodes ('' @
                 Join pcodes '', '' @ '') '' @ em_dash @ '' reconnect as <user>+<pcode>%'' @ host @
                 '' to select one'')
               else deny (''ambiguous: '' @ show_nat (length ms) @ '' rules in pcode '' @ hd pcodes @
                 '' match host '' @ host @ '' '' @ em_dash @
                 '' a rule for the shell/SFTP flow must name exactly one host and one port'')))"

section \<open>The account on the target\<close>

datatype TargetUserError =
    RulePins string string        \<comment> \<open>pinned account, requested account\<close>
  | ModeNeverAccepts string       \<comment> \<open>credential mode\<close>
  | NotListed string              \<comment> \<open>requested account\<close>

definition allowsTargetUser :: "string list \<Rightarrow> string \<Rightarrow> bool" where
  "allowsTargetUser allow requested = list_ex (\<lambda>a. a = ''*'' \<or> a = requested) allow"

definition ResolveTargetUser ::
  "string \<Rightarrow> Decision \<Rightarrow> string \<Rightarrow> (TargetUserError, string) result" where
  "ResolveTargetUser requested d loginUser =
    (if requested = [] then
       (if d_TargetUser d \<noteq> [] then Inr (d_TargetUser d) else Inr loginUser)
     else if d_TargetUser d \<noteq> [] then
       (if requested = d_TargetUser d then Inr (d_TargetUser d)
        else Inl (RulePins (d_TargetUser d) requested))
     else if \<not> (d_CredentialMode d = ''prompt'' \<or> d_CredentialMode d = ''passthrough''
                \<or> d_CredentialMode d = []) then
       Inl (ModeNeverAccepts (d_CredentialMode d))
     else if \<not> allowsTargetUser (d_AllowTargetUsers d) requested then Inl (NotListed requested)
     else Inr requested)"

section \<open>The swappable policy\<close>

record Holder =
  h_p :: "Policy option"

definition Holder_Store :: "Holder \<Rightarrow> Policy \<Rightarrow> Holder" where
  "Holder_Store h p = h\<lparr>h_p := Some p\<rparr>"

definition NewHolder :: "Policy \<Rightarrow> Holder" where
  "NewHolder p = Holder_Store \<lparr>h_p = None\<rparr> p"

definition Holder_Load :: "Holder \<Rightarrow> Policy" where
  "Holder_Load h = (case h_p h of Some p \<Rightarrow> p | None \<Rightarrow> \<lparr>po_Roles = []\<rparr>)"

section \<open>Specification: what it means to be permitted\<close>

text \<open>
  Written without the loops: a role is held when one of its groups is one of
  the principal's, up to case; it is active when the selector is empty or it is
  the first held role the selector names; a rule permits a target when its host
  pattern covers the host (literally, by wildcard, or by a range that holds
  every address of the host) and its port list covers the port.
\<close>

definition holds_role :: "Principal \<Rightarrow> Role \<Rightarrow> bool" where
  "holds_role pr r = (\<exists>g\<in>set (ro_Groups r). \<exists>h\<in>set (pr_Groups pr). EqualFold g h)"

definition active_role :: "Policy \<Rightarrow> Principal \<Rightarrow> Role \<Rightarrow> bool" where
  "active_role p pr r =
    (r \<in> set (po_Roles p) \<and> holds_role pr r \<and>
     (pr_SelectedRole pr = [] \<or>
      List.find (\<lambda>q. holds_role pr q \<and> EqualFold (ro_Name q) (pr_SelectedRole pr)) (po_Roles p) = Some r))"

definition covers_range :: "Rule \<Rightarrow> string \<Rightarrow> ResolverFunc option \<Rightarrow> bool" where
  "covers_range rule host resolve =
    (\<exists>n. rule_cidr rule = Some n \<and> targetIPs host resolve \<noteq> [] \<and>
         (\<forall>ip\<in>set (targetIPs host resolve). net_contains n ip))"

definition covers_port :: "Rule \<Rightarrow> int \<Rightarrow> bool" where
  "covers_port rule port = (ru_Ports rule = [] \<or> port \<in> set (ru_Ports rule))"

definition permits :: "Rule \<Rightarrow> Target \<Rightarrow> ResolverFunc option \<Rightarrow> bool" where
  "permits rule t resolve =
    ((matchesHost rule (t_Host t) \<or> covers_range rule (t_Host t) resolve)
     \<and> covers_port rule (t_Port t))"

section \<open>Basic facts\<close>

lemma RecordMode_Normalize_idem [simp]:
  "RecordMode_Normalize (RecordMode_Normalize m) = RecordMode_Normalize m"
  by (simp add: RecordMode_Normalize_def)

lemma deny_simps [simp]:
  "d_Allow (deny s) = False" "d_MatchedCIDR (deny s) = None" "d_MatchedGroups (deny s) = []"
  "d_RequireApproval (deny s) = False" "d_Port (deny s) = 0" "d_RecordMode (deny s) = RecordNone"
  by (simp_all add: deny_def)

lemma allow_by_simps [simp]:
  "d_Allow (allow_by pr r rule n)"
  "d_MatchedCIDR (allow_by pr r rule n) = n"
  "d_MatchedRole (allow_by pr r rule n) = ro_Name r"
  "d_RequireApproval (allow_by pr r rule n) = ru_RequireApproval rule"
  "d_CredentialMode (allow_by pr r rule n) = ru_Credential rule"
  "d_MatchedGroups (allow_by pr r rule n) = intersectGroups (pr_Groups pr) (ro_Groups r)"
  "d_RecordMode (allow_by pr r rule n) = RecordMode_Normalize (ru_Record rule)"
  "d_ExpectProtocol (allow_by pr r rule n) = ru_ExpectProtocol rule"
  "d_Port (allow_by pr r rule n) = 0"
  by (simp_all add: allow_by_def)

lemma matchesPort_iff: "matchesPort r port \<longleftrightarrow> covers_port r port"
  by (auto simp: matchesPort_def covers_port_def list_ex_iff)

lemma matches_iff: "matches r t \<longleftrightarrow> matchesHost r (t_Host t) \<and> covers_port r (t_Port t)"
  by (auto simp: matches_def matchesHost_def matchesPort_iff)

lemma allIn_iff: "allIn ips n \<longleftrightarrow> ips \<noteq> [] \<and> (\<forall>ip\<in>set ips. net_contains n ip)"
  by (simp add: allIn_def list_all_iff)

lemma rolesFor_eq: "rolesFor p pr = filter (holds_role pr) (po_Roles p)"
  unfolding rolesFor_def Let_def holds_role_def
  by (rule filter_cong) (auto simp: list_ex_iff EqualFold_iff)

lemma selectRoles_eq:
  "selectRoles p pr =
    (if pr_SelectedRole pr = [] then Some (filter (holds_role pr) (po_Roles p))
     else map_option (\<lambda>r. [r])
       (List.find (\<lambda>q. holds_role pr q \<and> EqualFold (ro_Name q) (pr_SelectedRole pr)) (po_Roles p)))"
proof -
  have "List.find P (filter Q xs) = List.find (\<lambda>x. Q x \<and> P x) xs" for P Q and xs :: "Role list"
    by (induction xs) auto
  then show ?thesis
    by (simp add: selectRoles_def rolesFor_eq Let_def split: option.splits)
qed

lemma set_selectRoles:
  "selectRoles p pr = Some roles \<Longrightarrow> r \<in> set roles \<longleftrightarrow> active_role p pr r"
  by (auto simp: selectRoles_eq active_role_def split: if_splits dest: find_Some_in_set)

lemma selectRoles_None: "selectRoles p pr = None \<Longrightarrow> \<not> active_role p pr r"
  by (auto simp: selectRoles_eq active_role_def split: if_splits)

lemma set_role_rules: "set (role_rules roles) = {(r, rule). r \<in> set roles \<and> rule \<in> set (ro_Allow r)}"
  by (auto simp: role_rules_def)

lemma intersectGroups_sound:
  "g \<in> set (intersectGroups gs rgs) \<longleftrightarrow> g \<in> set gs \<and> (\<exists>h\<in>set rgs. EqualFold h g)"
  by (auto simp: intersectGroups_def EqualFold_iff image_iff eq_commute)

lemma active_role_matched_group:
  assumes "active_role p pr r"
  shows "intersectGroups (pr_Groups pr) (ro_Groups r) \<noteq> []"
proof -
  from assms obtain g h where "g \<in> set (ro_Groups r)" "h \<in> set (pr_Groups pr)" "EqualFold g h"
    by (auto simp: active_role_def holds_role_def)
  then have "h \<in> set (intersectGroups (pr_Groups pr) (ro_Groups r))"
    by (auto simp: intersectGroups_sound)
  then show ?thesis by auto
qed

text \<open>The two searches of \<open>Decide\<close>, as one predicate on the chosen pair.\<close>

definition range_hit :: "Target \<Rightarrow> ResolverFunc option \<Rightarrow> Role \<times> Rule \<Rightarrow> bool" where
  "range_hit t resolve x =
    (case rule_cidr (snd x) of None \<Rightarrow> False
     | Some n \<Rightarrow> allIn (targetIPs (t_Host t) resolve) n \<and> matchesPort (snd x) (t_Port t))"

lemma range_hit_iff:
  "range_hit t resolve x \<longleftrightarrow> covers_range (snd x) (t_Host t) resolve \<and> covers_port (snd x) (t_Port t)"
  by (auto simp: range_hit_def covers_range_def allIn_iff matchesPort_iff split: option.splits)

lemma Decide_eq:
  "Decide p pr t resolve =
    (case selectRoles p pr of None \<Rightarrow> deny selectorDeniedReason
     | Some roles \<Rightarrow>
        if roles = [] then deny no_role_reason
        else case List.find (\<lambda>x. matches (snd x) t) (role_rules roles) of
          Some x \<Rightarrow> allow_by pr (fst x) (snd x) None
        | None \<Rightarrow>
           (case List.find (range_hit t resolve) (role_rules roles) of
              Some x \<Rightarrow> allow_by pr (fst x) (snd x) (rule_cidr (snd x))
            | None \<Rightarrow> deny (''no rule in roles '' @ roleNames roles @ '' permits '' @ Target_String t)))"
  unfolding Decide_def range_hit_def [abs_def] split_def by (rule refl)

lemma Decide_cases:
  obtains (denied) reason where "Decide p pr t resolve = deny reason"
      "\<And>r rule. active_role p pr r \<Longrightarrow> rule \<in> set (ro_Allow r) \<Longrightarrow> \<not> permits rule t resolve"
  | (exact) r rule where "Decide p pr t resolve = allow_by pr r rule None" "active_role p pr r"
      "rule \<in> set (ro_Allow r)" "matchesHost rule (t_Host t)" "covers_port rule (t_Port t)"
  | (range) r rule where "Decide p pr t resolve = allow_by pr r rule (rule_cidr rule)"
      "active_role p pr r" "rule \<in> set (ro_Allow r)" "covers_range rule (t_Host t) resolve"
      "covers_port rule (t_Port t)" "\<not> matchesHost rule (t_Host t)"
proof (cases "selectRoles p pr")
  case None
  then show ?thesis by (intro denied) (auto simp: Decide_eq dest: selectRoles_None)
next
  case sel: (Some roles)
  note act = set_selectRoles [OF sel]
  show ?thesis
  proof (cases "roles = []")
    case True
    then show ?thesis using sel act by (intro denied) (auto simp: Decide_eq)
  next
    case ne: False
    let ?ex = "List.find (\<lambda>x. matches (snd x) t) (role_rules roles)"
    let ?ra = "List.find (range_hit t resolve) (role_rules roles)"
    show ?thesis
    proof (cases ?ex)
      case (Some x)
      then have x: "x \<in> set (role_rules roles) \<and> matches (snd x) t" by (rule find_Some_in_set)
      then have "active_role p pr (fst x)" "snd x \<in> set (ro_Allow (fst x))"
        using act [of "fst x"] by (auto simp: set_role_rules)
      moreover have "Decide p pr t resolve = allow_by pr (fst x) (snd x) None"
        using sel ne Some by (simp add: Decide_eq)
      ultimately show ?thesis using x by (intro exact [of "fst x" "snd x"]) (auto simp: matches_iff)
    next
      case noex: None
      show ?thesis
      proof (cases ?ra)
        case (Some x)
        then have x: "x \<in> set (role_rules roles) \<and> range_hit t resolve x" by (rule find_Some_in_set)
        with noex have "\<not> matches (snd x) t" unfolding find_None_all by blast
        moreover have "active_role p pr (fst x)" "snd x \<in> set (ro_Allow (fst x))"
          using act [of "fst x"] x by (auto simp: set_role_rules)
        moreover have "Decide p pr t resolve = allow_by pr (fst x) (snd x) (rule_cidr (snd x))"
          using sel ne Some noex by (simp add: Decide_eq)
        ultimately show ?thesis using x
          by (intro range [of "fst x" "snd x"]) (auto simp: range_hit_iff matches_iff)
      next
        case None
        have "\<not> permits rule t resolve" if "active_role p pr r" "rule \<in> set (ro_Allow r)" for r rule
        proof -
          from that act have m: "(r, rule) \<in> set (role_rules roles)" by (simp add: set_role_rules)
          with noex have "\<not> matches (snd (r, rule)) t" unfolding find_None_all by blast
          moreover from m None have "\<not> range_hit t resolve (r, rule)" unfolding find_None_all by blast
          ultimately show ?thesis by (auto simp: permits_def matches_iff range_hit_iff)
        qed
        then show ?thesis using sel ne noex None by (intro denied) (auto simp: Decide_eq)
      qed
    qed
  qed
qed

text \<open>The host-only search, and the one shape of it that is allowed.\<close>

definition range_host :: "string \<Rightarrow> ResolverFunc option \<Rightarrow> Role \<times> Rule \<Rightarrow> bool" where
  "range_host host resolve x =
    (case rule_cidr (snd x) of None \<Rightarrow> False | Some n \<Rightarrow> allIn (targetIPs host resolve) n)"

lemma range_hit_range_host:
  "range_hit t resolve x \<longleftrightarrow> range_host (t_Host t) resolve x \<and> covers_port (snd x) (t_Port t)"
  by (auto simp: range_hit_def range_host_def matchesPort_iff split: option.splits)

lemma hostMatches_eq:
  "hostMatches roles host resolve =
    (let exact = filter (\<lambda>x. matchesHost (snd x) host) (role_rules roles)
     in if exact \<noteq> [] then map (\<lambda>x. (fst x, snd x, None)) exact
        else map (\<lambda>x. (fst x, snd x, rule_cidr (snd x)))
               (filter (range_host host resolve) (role_rules roles)))"
  unfolding hostMatches_def range_host_def [abs_def] split_def Let_def by simp

lemma DecideHost_host_only:
  assumes "d_Allow (DecideHost p pr host resolve)" and "\<not> 0 < pr_TargetPort pr"
  obtains roles r rule n port where
    "selectRoles p pr = Some roles" "roles \<noteq> []"
    "hostMatches roles host resolve = [(r, rule, n)]" "ru_Ports rule = [port]"
    "DecideHost p pr host resolve = (allow_by pr r rule n)\<lparr>d_Port := port, d_ExpectProtocol := []\<rparr>"
proof (cases "selectRoles p pr")
  case None
  with assms show ?thesis by (simp add: DecideHost_def)
next
  case sel: (Some roles)
  with assms have ne: "roles \<noteq> []" by (auto simp: DecideHost_def)
  note unf = DecideHost_def [of p pr host resolve] sel ne assms(2)
  show ?thesis
  proof (cases "hostMatches roles host resolve" rule: remdups_adj.cases)
    case 1
    with assms(1) show ?thesis by (simp add: unf)
  next
    case (3 x y zs)
    with assms(1) show ?thesis by (auto simp: unf Let_def split: prod.splits if_splits)
  next
    case (2 m)
    obtain r rule n where m: "m = (r, rule, n)" by (cases m)
    show ?thesis
    proof (cases "ru_Ports rule" rule: remdups_adj.cases)
      case (2 port)
      with \<open>hostMatches roles host resolve = [m]\<close> m show ?thesis
        by (intro that [of roles r rule n port]) (auto simp: unf)
    qed (use \<open>hostMatches roles host resolve = [m]\<close> m assms(1) in \<open>auto simp: unf\<close>)
  qed
qed

lemma Decide_unique_exact:
  assumes "selectRoles p pr = Some roles"
    and "filter (\<lambda>x. matchesHost (snd x) host) (role_rules roles) = [x]"
    and "covers_port (snd x) port"
  shows "Decide p pr \<lparr>t_Host = host, t_Port = port\<rparr> resolve = allow_by pr (fst x) (snd x) None"
proof -
  have "matchesHost (snd x) host"
    using filter_singletonD [OF assms(2)] by simp
  then have "List.find (\<lambda>y. matches (snd y) \<lparr>t_Host = host, t_Port = port\<rparr>) (role_rules roles) = Some x"
    using assms(2,3) by (intro find_filter_singleton [OF assms(2)]) (auto simp: matches_iff)
  moreover have "roles \<noteq> []" using assms(2) by (auto simp: role_rules_def)
  ultimately show ?thesis using assms(1) by (simp add: Decide_eq)
qed

lemma Decide_unique_range:
  assumes "selectRoles p pr = Some roles"
    and "filter (\<lambda>x. matchesHost (snd x) host) (role_rules roles) = []"
    and "filter (range_host host resolve) (role_rules roles) = [x]"
    and "covers_port (snd x) port"
  shows "Decide p pr \<lparr>t_Host = host, t_Port = port\<rparr> resolve
           = allow_by pr (fst x) (snd x) (rule_cidr (snd x))"
proof -
  have "List.find (\<lambda>y. matches (snd y) \<lparr>t_Host = host, t_Port = port\<rparr>) (role_rules roles) = None"
    using assms(2) by (auto simp: find_None_all filter_empty_conv matches_iff)
  moreover have "range_host host resolve x"
    using filter_singletonD [OF assms(3)] by simp
  then have "List.find (range_hit \<lparr>t_Host = host, t_Port = port\<rparr> resolve) (role_rules roles) = Some x"
    using assms(4) by (intro find_filter_singleton [OF assms(3)]) (auto simp: range_hit_range_host)
  moreover have "roles \<noteq> []" using assms(3) by (auto simp: role_rules_def)
  ultimately show ?thesis using assms(1) by (simp add: Decide_eq)
qed

lemma DecideHost_host_only_refines:
  assumes "d_Allow (DecideHost p pr host resolve)" and "\<not> 0 < pr_TargetPort pr"
  shows "\<exists>ep. Decide p pr \<lparr>t_Host = host, t_Port = d_Port (DecideHost p pr host resolve)\<rparr> resolve
           = (DecideHost p pr host resolve)\<lparr>d_Port := 0, d_ExpectProtocol := ep\<rparr>"
  using assms
proof (rule DecideHost_host_only)
  fix roles r rule n port
  assume sel: "selectRoles p pr = Some roles" and hm: "hostMatches roles host resolve = [(r, rule, n)]"
    and port: "ru_Ports rule = [port]"
    and d: "DecideHost p pr host resolve = (allow_by pr r rule n)\<lparr>d_Port := port, d_ExpectProtocol := []\<rparr>"
  have cov: "covers_port rule port" using port by (simp add: covers_port_def)
  have "Decide p pr \<lparr>t_Host = host, t_Port = port\<rparr> resolve = allow_by pr r rule n"
  proof (cases "filter (\<lambda>x. matchesHost (snd x) host) (role_rules roles) = []")
    case True
    then obtain x where "filter (range_host host resolve) (role_rules roles) = [x]"
        "x = (r, rule)" "n = rule_cidr rule"
      using hm by (auto simp: hostMatches_eq Let_def)
    then show ?thesis using Decide_unique_range [OF sel True, of resolve x port] cov by simp
  next
    case False
    then obtain x where "filter (\<lambda>x. matchesHost (snd x) host) (role_rules roles) = [x]"
        "x = (r, rule)" "n = None"
      using hm by (auto simp: hostMatches_eq Let_def)
    then show ?thesis using Decide_unique_exact [OF sel, of host x port] cov by simp
  qed
  then show ?thesis by (simp add: d allow_by_def)
qed

lemma DecideHost_with_port:
  assumes "d_Allow (DecideHost p pr host resolve)" and "0 < pr_TargetPort pr"
  shows "DecideHost p pr host resolve
           = (Decide p pr \<lparr>t_Host = host, t_Port = pr_TargetPort pr\<rparr> resolve)\<lparr>d_Port := pr_TargetPort pr\<rparr>"
  using assms by (auto simp: DecideHost_def Let_def split: option.splits if_splits)

lemma Decide_port_zero: "d_Port (Decide p pr t resolve) = 0"
  by (rule Decide_cases [of p pr t resolve]) auto

lemma DecideHost_refines_ex:
  assumes "d_Allow (DecideHost p pr host resolve)"
  shows "\<exists>ep. Decide p pr \<lparr>t_Host = host, t_Port = d_Port (DecideHost p pr host resolve)\<rparr> resolve
           = (DecideHost p pr host resolve)\<lparr>d_Port := 0, d_ExpectProtocol := ep\<rparr>"
proof (cases "0 < pr_TargetPort pr")
  case True
  let ?d = "Decide p pr \<lparr>t_Host = host, t_Port = pr_TargetPort pr\<rparr> resolve"
  have "?d = ?d\<lparr>d_Port := 0, d_ExpectProtocol := d_ExpectProtocol ?d\<rparr>"
    using Decide_port_zero [of p pr "\<lparr>t_Host = host, t_Port = pr_TargetPort pr\<rparr>" resolve] by simp
  then show ?thesis using DecideHost_with_port [OF assms True]
    by (intro exI [of _ "d_ExpectProtocol ?d"]) simp
next
  case False
  then show ?thesis using assms by (rule_tac DecideHost_host_only_refines)
qed

section \<open>Unheld roles\<close>

lemma find_skip: "\<not> P x \<Longrightarrow> List.find P (xs @ x # ys) = List.find P (xs @ ys)"
  by (induction xs) auto

lemma selectRoles_skip:
  assumes "\<not> holds_role pr r"
  shows "selectRoles \<lparr>po_Roles = rs @ r # rs'\<rparr> pr = selectRoles \<lparr>po_Roles = rs @ rs'\<rparr> pr"
  using assms by (simp add: selectRoles_eq find_skip)

lemma Decide_cong: "selectRoles p pr = selectRoles p' pr \<Longrightarrow> Decide p pr t resolve = Decide p' pr t resolve"
  by (simp add: Decide_eq)

lemma DecideHost_cong:
  assumes "selectRoles p pr = selectRoles p' pr"
  shows "DecideHost p pr host resolve = DecideHost p' pr host resolve"
  unfolding DecideHost_def Decide_cong [OF assms] unfolding assms by (rule refl)

section \<open>A sample policy\<close>

text \<open>The lab policy of the project's README, used by the witnesses.\<close>

definition lab_rule :: Rule where
  "lab_rule = \<lparr>ru_Host = ''db1.lab.local'', ru_Ports = [5432], ru_Record = RecordNone,
     ru_Credential = ''passthrough'', ru_RequireApproval = False, ru_TargetUser = [],
     ru_AllowTargetUsers = [], ru_ExpectProtocol = [''postgres'']\<rparr>"

definition lab_range_rule :: Rule where
  "lab_range_rule = lab_rule\<lparr>ru_Host := ''10.0.0.0/8'', ru_Ports := [22]\<rparr>"

definition dba_role :: Role where
  "dba_role = \<lparr>ro_Name = ''dba'', ro_Groups = [''DBA''], ro_Allow = [lab_rule, lab_range_rule]\<rparr>"

definition ops_role :: Role where
  "ops_role = \<lparr>ro_Name = ''ops'', ro_Groups = [''ops''], ro_Allow = [lab_rule]\<rparr>"

definition lab_policy :: Policy where
  "lab_policy = \<lparr>po_Roles = [dba_role, ops_role]\<rparr>"

definition lab_user :: "string list \<Rightarrow> Principal" where
  "lab_user groups = \<lparr>pr_User = ''alice'', pr_Groups = groups, pr_TargetHost = [],
     pr_TargetSecretToken = [], pr_TargetPort = 0, pr_RequestedTargetUser = [], pr_SelectedRole = []\<rparr>"

lemma lab_decide: "d_Allow (Decide lab_policy (lab_user [''dba'']) \<lparr>t_Host = ''DB1.lab.local'', t_Port = 5432\<rparr> None)"
  by code_simp

lemma lab_decide_host: "d_Allow (DecideHost lab_policy (lab_user [''dba'']) ''DB1.lab.local'' None)"
  by code_simp

lemma lab_ops_not_held: "\<not> holds_role (lab_user [''dba'']) ops_role"
  by code_simp

section \<open>Properties of the decision functions\<close>

text \<open>
  C1.  Default deny, exactly: \<open>Decide\<close> allows a target if and only if some
  active role of the principal has a rule that permits it.
\<close>

theorem Decide_allow_iff:
  "d_Allow (Decide p pr t resolve) \<longleftrightarrow>
    (\<exists>r rule. active_role p pr r \<and> rule \<in> set (ro_Allow r) \<and> permits rule t resolve)"
  by (rule Decide_cases [of p pr t resolve]) (auto simp: permits_def)

text \<open>
  C2.  The shell/SFTP decision never grants more than the forwarding decision:
  when \<open>DecideHost\<close> allows a host, \<open>Decide\<close> on that host and the port
  \<open>DecideHost\<close> reports returns the same decision, field by field, up to the
  port and the tunnel protocol list.
\<close>

theorem DecideHost_refines_Decide:
  assumes "d_Allow (DecideHost p pr host resolve)"
  shows "\<exists>ep. Decide p pr \<lparr>t_Host = host, t_Port = d_Port (DecideHost p pr host resolve)\<rparr> resolve
           = (DecideHost p pr host resolve)\<lparr>d_Port := 0, d_ExpectProtocol := ep\<rparr>"
  using assms by (rule DecideHost_refines_ex)

theorem DecideHost_refines_Decide_witness:
  "d_Allow (DecideHost lab_policy (lab_user [''dba'']) ''DB1.lab.local'' None) \<and>
   (\<exists>ep. Decide lab_policy (lab_user [''dba''])
            \<lparr>t_Host = ''DB1.lab.local'',
             t_Port = d_Port (DecideHost lab_policy (lab_user [''dba'']) ''DB1.lab.local'' None)\<rparr> None
         = (DecideHost lab_policy (lab_user [''dba'']) ''DB1.lab.local'' None)\<lparr>d_Port := 0, d_ExpectProtocol := ep\<rparr>)"
  using lab_decide_host DecideHost_refines_Decide [OF lab_decide_host] by blast

text \<open>
  Ambiguity fails closed: when the client gave no port and two rules match
  the host, or the one matching rule does not name exactly one port,
  \<open>DecideHost\<close> denies.
\<close>

theorem DecideHost_ambiguous_denied:
  assumes "\<not> 0 < pr_TargetPort pr" and "selectRoles p pr = Some roles"
    and "length (hostMatches roles host resolve) \<noteq> 1
         \<or> (\<exists>x\<in>set (hostMatches roles host resolve). length (ru_Ports (fst (snd x))) \<noteq> 1)"
  shows "\<not> d_Allow (DecideHost p pr host resolve)"
  using assms by (auto elim!: DecideHost_host_only)

theorem DecideHost_ambiguous_denied_witness:
  "length (hostMatches [dba_role, ops_role] ''db1.lab.local'' None) = 2 \<and>
   \<not> d_Allow (DecideHost lab_policy (lab_user [''dba'', ''ops'']) ''db1.lab.local'' None)"
proof -
  have two: "length (hostMatches [dba_role, ops_role] ''db1.lab.local'' None) = 2" by code_simp
  have sel: "selectRoles lab_policy (lab_user [''dba'', ''ops'']) = Some [dba_role, ops_role]"
    by code_simp
  have port: "\<not> 0 < pr_TargetPort (lab_user [''dba'', ''ops''])" by (simp add: lab_user_def)
  show ?thesis
    using two DecideHost_ambiguous_denied [OF port sel, of "''db1.lab.local''" None] by simp
qed

text \<open>
  A role the principal does not hold is invisible: adding it to the policy
  anywhere changes no decision, not even a reason text, with or without a
  selector that names it.
\<close>

theorem unheld_role_invisible:
  assumes "\<not> holds_role pr r"
  shows "Decide \<lparr>po_Roles = rs @ r # rs'\<rparr> pr t resolve = Decide \<lparr>po_Roles = rs @ rs'\<rparr> pr t resolve
    \<and> DecideHost \<lparr>po_Roles = rs @ r # rs'\<rparr> pr host resolve = DecideHost \<lparr>po_Roles = rs @ rs'\<rparr> pr host resolve"
  using Decide_cong [OF selectRoles_skip [OF assms]] DecideHost_cong [OF selectRoles_skip [OF assms]]
  by blast

theorem unheld_role_invisible_witness:
  "\<not> holds_role (lab_user [''dba'']) ops_role \<and>
   Decide \<lparr>po_Roles = [dba_role] @ ops_role # []\<rparr> (lab_user [''dba'']) \<lparr>t_Host = ''h'', t_Port = 22\<rparr> None
     = Decide \<lparr>po_Roles = [dba_role] @ []\<rparr> (lab_user [''dba'']) \<lparr>t_Host = ''h'', t_Port = 22\<rparr> None"
  using lab_ops_not_held unheld_role_invisible [OF lab_ops_not_held] by blast

text \<open>
  An allow names the groups that granted it: the matched groups are
  non-empty, all of them are the principal's own and match a group of an active
  role with the matched name.
\<close>

theorem Decide_matched_groups:
  assumes "d_Allow (Decide p pr t resolve)"
  shows "d_MatchedGroups (Decide p pr t resolve) \<noteq> [] \<and>
    (\<exists>r. active_role p pr r \<and> ro_Name r = d_MatchedRole (Decide p pr t resolve) \<and>
      (\<forall>g\<in>set (d_MatchedGroups (Decide p pr t resolve)).
         g \<in> set (pr_Groups pr) \<and> (\<exists>h\<in>set (ro_Groups r). EqualFold h g)))"
  using assms
  by (rule_tac Decide_cases [of p pr t resolve])
     (auto simp: intersectGroups_sound dest: active_role_matched_group)

theorem Decide_matched_groups_witness:
  "d_MatchedGroups (Decide lab_policy (lab_user [''dba'']) \<lparr>t_Host = ''DB1.lab.local'', t_Port = 5432\<rparr> None) \<noteq> []"
  using Decide_matched_groups [OF lab_decide] by blast

text \<open>
  The account on the target: a client-named account is used only when the
  rule pins that very account, or pins none, injects nothing and lists it;
  otherwise the account is the pinned one or the login user.
\<close>

theorem ResolveTargetUser_Ok_iff:
  "ResolveTargetUser requested d login = Inr u \<longleftrightarrow>
    (if d_TargetUser d \<noteq> [] then u = d_TargetUser d \<and> requested \<in> {[], d_TargetUser d}
     else if requested = [] then u = login
     else u = requested \<and> d_CredentialMode d \<in> {[], ''prompt'', ''passthrough''}
          \<and> (''*'' \<in> set (d_AllowTargetUsers d) \<or> requested \<in> set (d_AllowTargetUsers d)))"
  by (auto simp: ResolveTargetUser_def allowsTargetUser_def list_ex_iff)

end
