(* ===== verification/Ratelimit.thy ===== *)
theory Ratelimit
  imports Go_Std "HOL-Library.AList"
begin

text \<open>
  The brute-force limiter, \<^verbatim>\<open>internal/ratelimit/bruteforce.go\<close>: failures per
  source address in a sliding window, lockouts with exponential backoff, and a
  bounded table of tracked sources.  Each operation takes the clock readings the
  code makes (\<open>l.now()\<close>) as arguments.  The Go map is an association list
  with distinct keys; no operation depends on its order.
\<close>

section \<open>State\<close>

record RLConfig =
  MaxFailures :: int
  Window :: duration
  BaseBackoff :: duration
  MaxBackoff :: duration
  MaxEntries :: int

definition DefaultConfig :: RLConfig where
  "DefaultConfig = \<lparr>MaxFailures = 5, Window = 15 * Minute, BaseBackoff = 30 * Second,
     MaxBackoff = 15 * Minute, MaxEntries = 100000\<rparr>"

record rl_entry =
  e_failures :: int
  e_windowStart :: time
  e_lockedUntil :: time
  e_level :: int
  e_lastSeen :: time

record Limiter =
  l_cfg :: RLConfig
  l_entries :: "(string \<times> rl_entry) list"

definition rl_New :: "RLConfig \<Rightarrow> Limiter" where
  "rl_New cfg0 =
    (let d = DefaultConfig;
         cfg1 = (if MaxFailures cfg0 \<le> 0 then cfg0\<lparr>MaxFailures := MaxFailures d\<rparr> else cfg0);
         cfg2 = (if Window cfg1 \<le> 0 then cfg1\<lparr>Window := Window d\<rparr> else cfg1);
         cfg3 = (if BaseBackoff cfg2 \<le> 0 then cfg2\<lparr>BaseBackoff := BaseBackoff d\<rparr> else cfg2);
         cfg4 = (if MaxBackoff cfg3 < BaseBackoff cfg3 then cfg3\<lparr>MaxBackoff := BaseBackoff cfg3\<rparr> else cfg3);
         cfg5 = (if MaxEntries cfg4 \<le> 0 then cfg4\<lparr>MaxEntries := MaxEntries d\<rparr> else cfg4)
     in \<lparr>l_cfg = cfg5, l_entries = []\<rparr>)"

section \<open>Operations\<close>

definition rl_Allow :: "Limiter \<Rightarrow> string \<Rightarrow> time \<Rightarrow> Limiter \<times> bool \<times> duration" where
  "rl_Allow l key now =
    (if key = [] then (l, True, 0)
     else case map_of (l_entries l) key of
       None \<Rightarrow> (l, True, 0)
     | Some e \<Rightarrow>
         let l' = l\<lparr>l_entries := AList.update key (e\<lparr>e_lastSeen := now\<rparr>) (l_entries l)\<rparr>
         in if Before now (e_lockedUntil e) then (l', False, time_sub (e_lockedUntil e) now)
            else (l', True, 0))"

text \<open>The doubling loop with its early return; \<open>n\<close> counts the iterations left.\<close>

fun backoff_loop :: "duration \<Rightarrow> duration \<Rightarrow> nat \<Rightarrow> duration" where
  "backoff_loop mx b 0 = (if b > mx then mx else b)"
| "backoff_loop mx b (Suc n) =
     (let b' = wrap64 (b * 2) in if b' \<ge> mx then mx else backoff_loop mx b' n)"

definition backoffFor :: "RLConfig \<Rightarrow> int \<Rightarrow> duration" where
  "backoffFor c level = backoff_loop (MaxBackoff c) (BaseBackoff c) (nat (level - 1))"

definition reclaimStaleLocked :: "Limiter \<Rightarrow> time \<Rightarrow> Limiter" where
  "reclaimStaleLocked l now =
     l\<lparr>l_entries := filter (\<lambda>(k, v). Before now (e_lockedUntil v)
         \<or> \<not> (time_sub now (e_lastSeen v) > Window (l_cfg l))) (l_entries l)\<rparr>"

text \<open>\<open>None\<close> is the \<open>false\<close> return: the key is not tracked.\<close>

definition insertLocked :: "Limiter \<Rightarrow> string \<Rightarrow> rl_entry \<Rightarrow> time \<Rightarrow> Limiter \<times> bool" where
  "insertLocked l key e now =
    (let l' = (if int (length (l_entries l)) \<ge> MaxEntries (l_cfg l) then reclaimStaleLocked l now else l)
     in if int (length (l_entries l')) \<ge> MaxEntries (l_cfg l) then (l', False)
        else (l'\<lparr>l_entries := AList.update key e (l_entries l')\<rparr>, True))"

definition fail_entry :: "RLConfig \<Rightarrow> rl_entry \<Rightarrow> time \<Rightarrow> rl_entry" where
  "fail_entry c e0 now =
    (let e = e0\<lparr>e_lastSeen := now\<rparr> in
     if Before now (e_lockedUntil e) then e
     else
       let e1 = (if time_sub now (e_windowStart e) > Window c
                 then e\<lparr>e_failures := 0, e_windowStart := now\<rparr> else e);
           e2 = e1\<lparr>e_failures := e_failures e1 + 1\<rparr>
       in if e_failures e2 \<ge> MaxFailures c
          then e2\<lparr>e_level := e_level e2 + 1,
                  e_lockedUntil := time_add now (backoffFor c (e_level e2 + 1)),
                  e_failures := 0, e_windowStart := now\<rparr>
          else e2)"

definition rl_RecordFailure :: "Limiter \<Rightarrow> string \<Rightarrow> time \<Rightarrow> time \<Rightarrow> Limiter" where
  "rl_RecordFailure l key now now2 =
    (if key = [] then l
     else case map_of (l_entries l) key of
       Some e \<Rightarrow> l\<lparr>l_entries := AList.update key (fail_entry (l_cfg l) e now) (l_entries l)\<rparr>
     | None \<Rightarrow>
         let e = \<lparr>e_failures = 0, e_windowStart = now, e_lockedUntil = 0, e_level = 0, e_lastSeen = now\<rparr>
         in case insertLocked l key e now2 of
              (l', False) \<Rightarrow> l'
            | (l', True) \<Rightarrow>
                l'\<lparr>l_entries := AList.update key (fail_entry (l_cfg l) e now) (l_entries l')\<rparr>)"

definition rl_RecordSuccess :: "Limiter \<Rightarrow> string \<Rightarrow> Limiter" where
  "rl_RecordSuccess l key =
    (if key = [] then l else l\<lparr>l_entries := AList.delete key (l_entries l)\<rparr>)"

definition rl_Len :: "Limiter \<Rightarrow> nat" where
  "rl_Len l = length (l_entries l)"

section \<open>Histories\<close>

text \<open>
  A history of calls under a clock that never runs backwards: each call comes
  some nanoseconds after the one before.
\<close>

datatype rl_op = OpAllow string | OpFailure string nat | OpSuccess string

record rl_sys =
  s_lim :: Limiter
  s_now :: time

fun rl_step :: "rl_sys \<Rightarrow> nat \<times> rl_op \<Rightarrow> rl_sys" where
  "rl_step s (dt, OpAllow k) =
     (let t = s_now s + int dt in \<lparr>s_lim = fst (rl_Allow (s_lim s) k t), s_now = t\<rparr>)"
| "rl_step s (dt, OpFailure k dt2) =
     (let t = s_now s + int dt; t2 = t + int dt2
      in \<lparr>s_lim = rl_RecordFailure (s_lim s) k t t2, s_now = t2\<rparr>)"
| "rl_step s (dt, OpSuccess k) =
     (let t = s_now s + int dt in \<lparr>s_lim = rl_RecordSuccess (s_lim s) k, s_now = t\<rparr>)"

section \<open>The configuration\<close>

definition cfg_ok :: "RLConfig \<Rightarrow> bool" where
  "cfg_ok c = (0 < MaxFailures c \<and> 0 < Window c \<and> 0 < BaseBackoff c
     \<and> BaseBackoff c \<le> MaxBackoff c \<and> 0 < MaxEntries c)"

lemma rl_New_ok: "cfg_ok (l_cfg (rl_New c)) \<and> l_entries (rl_New c) = []"
  by (simp add: rl_New_def Let_def cfg_ok_def DefaultConfig_def)

section \<open>Backoff\<close>

lemma backoff_loop_le: "backoff_loop mx b n \<le> mx"
  by (induction n arbitrary: b) (auto simp: Let_def)

lemma backoffFor_le: "backoffFor c level \<le> MaxBackoff c"
  by (simp add: backoffFor_def backoff_loop_le)

lemma backoff_loop_pow:
  assumes "0 < b" "b \<le> mx" "mx < 2 ^ 62"
  shows "backoff_loop mx b n = min mx (b * 2 ^ n)"
  using assms
proof (induction n arbitrary: b)
  case 0
  then show ?case by simp
next
  case (Suc n)
  then have w: "wrap64 (b * 2) = b * 2"
    by (intro wrap64_id) (auto simp: int64_min_def int64_max_def)
  show ?case
  proof (cases "b * 2 \<ge> mx")
    case True
    have "b * 2 \<le> b * 2 ^ Suc n" using Suc.prems(1) by simp
    with True w show ?thesis by (simp add: Let_def)
  next
    case False
    with Suc.prems have "backoff_loop mx (b * 2) n = min mx (b * 2 * 2 ^ n)"
      by (intro Suc.IH) auto
    with False w show ?thesis by (simp add: Let_def mult.assoc)
  qed
qed

section \<open>Invariant\<close>

definition entry_ok :: "RLConfig \<Rightarrow> time \<Rightarrow> rl_entry \<Rightarrow> bool" where
  "entry_ok c now e = (0 \<le> e_failures e \<and> e_failures e < MaxFailures c \<and> 0 \<le> e_level e
     \<and> e_lastSeen e \<le> now \<and> e_windowStart e \<le> now
     \<and> e_lockedUntil e \<le> now + MaxBackoff c)"

definition rl_inv :: "rl_sys \<Rightarrow> bool" where
  "rl_inv s = (cfg_ok (l_cfg (s_lim s)) \<and> 0 \<le> s_now s
     \<and> distinct (map fst (l_entries (s_lim s)))
     \<and> int (length (l_entries (s_lim s))) \<le> MaxEntries (l_cfg (s_lim s))
     \<and> (\<forall>(k, e)\<in>set (l_entries (s_lim s)). entry_ok (l_cfg (s_lim s)) (s_now s) e))"

lemma entry_ok_mono: "entry_ok c t e \<Longrightarrow> t \<le> t' \<Longrightarrow> entry_ok c t' e"
  by (auto simp: entry_ok_def)

lemma fail_entry_ok:
  assumes "entry_ok c t e" "t \<le> now" "cfg_ok c"
  shows "entry_ok c now (fail_entry c e now)"
  using assms backoffFor_le [of c "e_level e + 1"]
  by (auto simp: fail_entry_def Let_def entry_ok_def cfg_ok_def go_defs)

lemma length_update: "length (AList.update k v xs) = (if k \<in> fst ` set xs then length xs else Suc (length xs))"
  by (induction xs) auto

lemma map_of_notin: "map_of xs k = None \<Longrightarrow> k \<notin> fst ` set xs"
  by (simp add: map_of_eq_None_iff)

lemma map_of_in: "map_of xs k = Some v \<Longrightarrow> k \<in> fst ` set xs"
  by (metis map_of_eq_None_iff not_None_eq option.distinct(1))

lemma rl_inv_update:
  assumes "rl_inv \<lparr>s_lim = l, s_now = t\<rparr>" "t \<le> t'" "entry_ok (l_cfg l) t' e"
    and "k \<in> fst ` set (l_entries l) \<or> int (length (l_entries l)) < MaxEntries (l_cfg l)"
  shows "rl_inv \<lparr>s_lim = l\<lparr>l_entries := AList.update k e (l_entries l)\<rparr>, s_now = t'\<rparr>"
proof -
  have "entry_ok (l_cfg l) t' e'" if "(k', e') \<in> set (AList.update k e (l_entries l))" for k' e'
  proof -
    from that set_update_subset [of k e "l_entries l"]
    consider "e' = e" | "(k', e') \<in> set (l_entries l)" by blast
    then show ?thesis
      using assms(1,3) entry_ok_mono [OF _ assms(2)] by cases (auto simp: rl_inv_def)
  qed
  then show ?thesis using assms(1,2,4) by (auto simp: rl_inv_def length_update distinct_update)
qed

lemma rl_inv_later: "rl_inv \<lparr>s_lim = l, s_now = t\<rparr> \<Longrightarrow> t \<le> t' \<Longrightarrow> rl_inv \<lparr>s_lim = l, s_now = t'\<rparr>"
  by (auto simp: rl_inv_def entry_ok_def)

lemma rl_inv_filter:
  assumes "rl_inv \<lparr>s_lim = l, s_now = t\<rparr>"
  shows "rl_inv \<lparr>s_lim = l\<lparr>l_entries := filter P (l_entries l)\<rparr>, s_now = t\<rparr>"
proof -
  have "int (length (filter P (l_entries l))) \<le> int (length (l_entries l))" by simp
  also have "\<dots> \<le> MaxEntries (l_cfg l)" using assms by (simp add: rl_inv_def)
  finally show ?thesis using assms by (auto simp: rl_inv_def distinct_map_filter)
qed

lemma rl_inv_entry:
  "rl_inv \<lparr>s_lim = l, s_now = t\<rparr> \<Longrightarrow> map_of (l_entries l) k = Some e \<Longrightarrow> entry_ok (l_cfg l) t e"
  by (auto simp: rl_inv_def dest: map_of_SomeD)

lemma rl_inv_cfg: "rl_inv \<lparr>s_lim = l, s_now = t\<rparr> \<Longrightarrow> cfg_ok (l_cfg l)"
  by (simp add: rl_inv_def)

lemma rl_Allow_inv:
  assumes "rl_inv \<lparr>s_lim = l, s_now = t\<rparr>" "t \<le> t'"
  shows "rl_inv \<lparr>s_lim = fst (rl_Allow l k t'), s_now = t'\<rparr>"
proof (cases "k = [] \<or> map_of (l_entries l) k = None")
  case True
  then show ?thesis using rl_inv_later [OF assms] by (auto simp: rl_Allow_def)
next
  case False
  then obtain e where e: "map_of (l_entries l) k = Some e" and k: "k \<noteq> []" by auto
  from rl_inv_entry [OF assms(1) e] assms(2)
  have "entry_ok (l_cfg l) t' (e\<lparr>e_lastSeen := t'\<rparr>)" by (auto simp: entry_ok_def)
  then show ?thesis using rl_inv_update [OF assms, of _ k] map_of_in [OF e] e k
    by (simp add: rl_Allow_def Let_def)
qed

definition new_entry :: "time \<Rightarrow> rl_entry" where
  "new_entry now = \<lparr>e_failures = 0, e_windowStart = now, e_lockedUntil = 0, e_level = 0, e_lastSeen = now\<rparr>"

lemma new_entry_ok: "cfg_ok c \<Longrightarrow> 0 \<le> now \<Longrightarrow> entry_ok c now (new_entry now)"
  by (auto simp: new_entry_def entry_ok_def cfg_ok_def)

lemma insertLocked_cases:
  assumes "insertLocked l k e now = (l', b)"
  obtains l1 where "l1 = l \<or> l1 = reclaimStaleLocked l now"
    "b \<longleftrightarrow> int (length (l_entries l1)) < MaxEntries (l_cfg l)"
    "l' = (if b then l1\<lparr>l_entries := AList.update k e (l_entries l1)\<rparr> else l1)"
  using assms
  by (intro that [of "if int (length (l_entries l)) \<ge> MaxEntries (l_cfg l) then reclaimStaleLocked l now else l"])
     (auto simp: insertLocked_def Let_def not_le split: if_splits)

lemma reclaim_cfg [simp]: "l_cfg (reclaimStaleLocked l now) = l_cfg l"
  by (simp add: reclaimStaleLocked_def)

lemma update_update_same: "AList.update k v (AList.update k u xs) = AList.update k v xs"
  by (induction xs) auto

text \<open>The failure path in one equation per outcome.\<close>

lemma rl_RecordFailure_new:
  assumes "k \<noteq> []" "map_of (l_entries l) k = None"
  obtains l1 where "l1 = l \<or> l1 = reclaimStaleLocked l now2"
    "rl_RecordFailure l k now now2 =
      (if int (length (l_entries l1)) < MaxEntries (l_cfg l)
       then l1\<lparr>l_entries := AList.update k (fail_entry (l_cfg l) (new_entry now) now) (l_entries l1)\<rparr>
       else l1)"
proof -
  obtain l' b where ins: "insertLocked l k (new_entry now) now2 = (l', b)" by fastforce
  from ins obtain l1 where l1: "l1 = l \<or> l1 = reclaimStaleLocked l now2"
    and b: "b \<longleftrightarrow> int (length (l_entries l1)) < MaxEntries (l_cfg l)"
    and l': "l' = (if b then l1\<lparr>l_entries := AList.update k (new_entry now) (l_entries l1)\<rparr> else l1)"
    by (rule insertLocked_cases)
  have "rl_RecordFailure l k now now2 =
      (if b then l1\<lparr>l_entries := AList.update k (fail_entry (l_cfg l) (new_entry now) now) (l_entries l1)\<rparr>
       else l1)"
    using assms ins l' by (simp add: rl_RecordFailure_def new_entry_def Let_def update_update_same)
  then show ?thesis using that l1 b by simp
qed

lemma rl_RecordFailure_inv:
  assumes inv: "rl_inv \<lparr>s_lim = l, s_now = t\<rparr>" and le: "t \<le> now" "now \<le> now2"
  shows "rl_inv \<lparr>s_lim = rl_RecordFailure l k now now2, s_now = now2\<rparr>"
proof (cases "k = []")
  case True
  then show ?thesis using rl_inv_later [OF inv] le by (simp add: rl_RecordFailure_def)
next
  case k: False
  from inv le have t0: "0 \<le> now" by (simp add: rl_inv_def)
  note cok = rl_inv_cfg [OF inv]
  show ?thesis
  proof (cases "map_of (l_entries l) k")
    case (Some e)
    have "entry_ok (l_cfg l) now2 (fail_entry (l_cfg l) e now)"
      using fail_entry_ok [OF rl_inv_entry [OF inv Some] le(1) cok] le(2) by (rule entry_ok_mono)
    then show ?thesis using rl_inv_update [OF inv, of now2 _ k] map_of_in [OF Some] Some k le
      by (simp add: rl_RecordFailure_def)
  next
    case None
    with k obtain l1 where l1: "l1 = l \<or> l1 = reclaimStaleLocked l now2"
      and eq: "rl_RecordFailure l k now now2 =
        (if int (length (l_entries l1)) < MaxEntries (l_cfg l)
         then l1\<lparr>l_entries := AList.update k (fail_entry (l_cfg l) (new_entry now) now) (l_entries l1)\<rparr>
         else l1)"
      by (rule rl_RecordFailure_new)
    have inv1: "rl_inv \<lparr>s_lim = l1, s_now = now2\<rparr>"
      using l1 rl_inv_later [OF inv, of now2] le rl_inv_filter [of l now2]
      by (auto simp: reclaimStaleLocked_def)
    have c1: "l_cfg l1 = l_cfg l" using l1 by auto
    have "entry_ok (l_cfg l) now2 (fail_entry (l_cfg l) (new_entry now) now)"
      using fail_entry_ok [OF new_entry_ok [OF cok t0] order_refl cok] le(2) by (rule entry_ok_mono)
    then show ?thesis using eq inv1 c1 rl_inv_update [OF inv1 order_refl, of _ k] by auto
  qed
qed

lemma rl_RecordSuccess_inv:
  assumes "rl_inv \<lparr>s_lim = l, s_now = t\<rparr>" "t \<le> t'"
  shows "rl_inv \<lparr>s_lim = rl_RecordSuccess l k, s_now = t'\<rparr>"
  using rl_inv_filter [OF rl_inv_later [OF assms]]
  by (simp add: rl_RecordSuccess_def AList.delete_eq rl_inv_later [OF assms])

lemma rl_step_inv:
  assumes "rl_inv s"
  shows "rl_inv (rl_step s ev)"
proof -
  have inv: "rl_inv \<lparr>s_lim = s_lim s, s_now = s_now s\<rparr>" using assms by (cases s) simp
  show ?thesis
  proof (cases "(s, ev)" rule: rl_step.cases)
    case (1 s' dt k)
    then show ?thesis using rl_Allow_inv [OF inv, of "s_now s + int dt" k] by (simp add: Let_def)
  next
    case (2 s' dt k dt2)
    then show ?thesis
      using rl_RecordFailure_inv [OF inv, of "s_now s + int dt" "s_now s + int dt + int dt2" k]
      by (simp add: Let_def)
  next
    case (3 s' dt k)
    then show ?thesis using rl_RecordSuccess_inv [OF inv, of "s_now s + int dt" k] by (simp add: Let_def)
  qed
qed

interpretation rl: guarded_machine rl_step rl_inv
  by unfold_locales (rule rl_step_inv)

lemma rl_run_inv: "0 \<le> t0 \<Longrightarrow> rl_inv (run_steps rl_step \<lparr>s_lim = rl_New c, s_now = t0\<rparr> evs)"
  using rl_New_ok [of c] by (intro rl.run_invar) (simp add: rl_inv_def cfg_ok_def)

lemma rl_inv_allow:
  assumes "rl_inv s" and "s_now s \<le> t"
  shows "snd (snd (rl_Allow (s_lim s) k t)) \<le> MaxBackoff (l_cfg (s_lim s))
    \<and> (s_now s + MaxBackoff (l_cfg (s_lim s)) \<le> t \<longrightarrow> fst (snd (rl_Allow (s_lim s) k t)))"
proof (cases "k = [] \<or> map_of (l_entries (s_lim s)) k = None")
  case True
  then show ?thesis using assms by (auto simp: rl_Allow_def rl_inv_def cfg_ok_def)
next
  case False
  then obtain e where e: "map_of (l_entries (s_lim s)) k = Some e" "k \<noteq> []" by auto
  then have "entry_ok (l_cfg (s_lim s)) (s_now s) e"
    using assms(1) by (auto simp: rl_inv_def dest: map_of_SomeD)
  then have "e_lockedUntil e \<le> s_now s + MaxBackoff (l_cfg (s_lim s))" by (simp add: entry_ok_def)
  moreover have "0 < MaxBackoff (l_cfg (s_lim s))" using assms(1) by (auto simp: rl_inv_def cfg_ok_def)
  ultimately show ?thesis
    using e assms(2) by (auto simp: rl_Allow_def Let_def Before_def time_sub_def int64_min_def)
qed

section \<open>Tripping the lockout\<close>

definition fail_run :: "Limiter \<Rightarrow> string \<Rightarrow> time list \<Rightarrow> Limiter" where
  "fail_run l k ts = foldl (\<lambda>l t. rl_RecordFailure l k t t) l ts"

definition counting :: "Limiter \<Rightarrow> string \<Rightarrow> time \<Rightarrow> int \<Rightarrow> bool" where
  "counting l k t0 n = (\<exists>e. map_of (l_entries l) k = Some e \<and> e_failures e = n \<and> e_windowStart e = t0
     \<and> e_lockedUntil e \<le> t0 \<and> e_level e = 0)"

lemma RecordFailure_cfg [simp]: "l_cfg (rl_RecordFailure l k now now2) = l_cfg l"
  by (auto simp: rl_RecordFailure_def insertLocked_def Let_def split: option.splits bool.splits prod.splits if_splits)

lemma fail_entry_within:
  assumes "e_lockedUntil e \<le> now" "now - e_windowStart e \<le> Window c" "0 < Window c" "Window c < int64_max"
  shows "fail_entry c e now =
    (if e_failures e + 1 \<ge> MaxFailures c
     then e\<lparr>e_lastSeen := now, e_level := e_level e + 1,
            e_lockedUntil := now + backoffFor c (e_level e + 1), e_failures := 0, e_windowStart := now\<rparr>
     else e\<lparr>e_lastSeen := now, e_failures := e_failures e + 1\<rparr>)"
  using assms by (auto simp: fail_entry_def Let_def go_defs time_sub_gt_iff not_less)

lemma RecordFailure_first:
  assumes "k \<noteq> []" "map_of (l_entries l) k = None" "int (length (l_entries l)) < MaxEntries (l_cfg l)"
  shows "map_of (l_entries (rl_RecordFailure l k now now2)) k
           = Some (fail_entry (l_cfg l) (new_entry now) now)"
  using assms by (simp add: rl_RecordFailure_def insertLocked_def Let_def new_entry_def update_conv')

lemma RecordFailure_next:
  assumes "k \<noteq> []" "map_of (l_entries l) k = Some e"
  shows "map_of (l_entries (rl_RecordFailure l k now now2)) k = Some (fail_entry (l_cfg l) e now)"
  using assms by (simp add: rl_RecordFailure_def update_conv')

lemma fail_run_counting:
  assumes "k \<noteq> []" "counting l k t0 n" "0 \<le> n" "n + int (length ts) < MaxFailures (l_cfg l)"
    and "\<forall>t\<in>set ts. t0 \<le> t \<and> t - t0 \<le> Window (l_cfg l)" "0 < Window (l_cfg l)"
    and "Window (l_cfg l) < int64_max"
  shows "counting (fail_run l k ts) k t0 (n + int (length ts)) \<and> l_cfg (fail_run l k ts) = l_cfg l"
  using assms(2-)
proof (induction ts arbitrary: l n)
  case Nil
  then show ?case by (simp add: fail_run_def)
next
  case (Cons t ts)
  let ?l = "rl_RecordFailure l k t t"
  from Cons.prems(1) obtain e where e: "map_of (l_entries l) k = Some e" "e_failures e = n"
    "e_windowStart e = t0" "e_lockedUntil e \<le> t0" "e_level e = 0"
    by (auto simp: counting_def)
  have "fail_entry (l_cfg l) e t = e\<lparr>e_lastSeen := t, e_failures := n + 1\<rparr>"
    using fail_entry_within [of e t "l_cfg l"] e Cons.prems by simp
  then have "counting ?l k t0 (n + 1)"
    using RecordFailure_next [OF assms(1) e(1), of t t] e by (simp add: counting_def)
  with Cons.prems have "counting (fail_run ?l k ts) k t0 (n + 1 + int (length ts))
      \<and> l_cfg (fail_run ?l k ts) = l_cfg ?l"
    by (intro Cons.IH) auto
  then show ?case by (simp add: fail_run_def add.assoc)
qed

lemma backoffFor_first: "cfg_ok c \<Longrightarrow> backoffFor c 1 = BaseBackoff c"
  by (auto simp: backoffFor_def cfg_ok_def)

lemma fail_run_append: "fail_run l k (ts @ ts') = fail_run (fail_run l k ts) k ts'"
  by (simp add: fail_run_def)

lemma lockout_from_counting:
  assumes "k \<noteq> []" "counting l k t0 n" "cfg_ok (l_cfg l)" "n + 1 = MaxFailures (l_cfg l)"
    and "t0 \<le> t" "t - t0 \<le> Window (l_cfg l)" "Window (l_cfg l) < int64_max"
    and "BaseBackoff (l_cfg l) \<le> int64_max"
  shows "snd (rl_Allow (rl_RecordFailure l k t t) k t) = (False, BaseBackoff (l_cfg l))"
proof -
  from assms(2) obtain e where e: "map_of (l_entries l) k = Some e" "e_failures e = n"
    "e_windowStart e = t0" "e_lockedUntil e \<le> t0" "e_level e = 0"
    by (auto simp: counting_def)
  have "e_lockedUntil (fail_entry (l_cfg l) e t) = t + BaseBackoff (l_cfg l)"
    using fail_entry_within [of e t "l_cfg l"] e assms backoffFor_first [OF assms(3)]
    by (simp add: cfg_ok_def)
  then show ?thesis
    using RecordFailure_next [OF assms(1) e(1), of t t] assms
    by (simp add: rl_Allow_def Let_def Before_def time_sub_def cfg_ok_def int64_min_def)
qed

lemma first_failure_counts:
  assumes "k \<noteq> []" "map_of (l_entries l) k = None" "int (length (l_entries l)) < MaxEntries (l_cfg l)"
    and "cfg_ok (l_cfg l)" "1 < MaxFailures (l_cfg l)" "0 \<le> t" "Window (l_cfg l) < int64_max"
  shows "counting (rl_RecordFailure l k t t) k t 1"
  using RecordFailure_first [OF assms(1-3), of t t] assms(4-) fail_entry_within [of "new_entry t" t "l_cfg l"]
  by (simp add: counting_def new_entry_def cfg_ok_def)

lemma first_failure_locks:
  assumes "k \<noteq> []" "map_of (l_entries l) k = None" "int (length (l_entries l)) < MaxEntries (l_cfg l)"
    and "cfg_ok (l_cfg l)" "MaxFailures (l_cfg l) = 1" "0 \<le> t" "Window (l_cfg l) < int64_max"
    and "BaseBackoff (l_cfg l) \<le> int64_max"
  shows "snd (rl_Allow (rl_RecordFailure l k t t) k t) = (False, BaseBackoff (l_cfg l))"
proof -
  have "e_lockedUntil (fail_entry (l_cfg l) (new_entry t) t) = t + BaseBackoff (l_cfg l)"
    using assms(4-) fail_entry_within [of "new_entry t" t "l_cfg l"] backoffFor_first [OF assms(4)]
    by (simp add: new_entry_def cfg_ok_def)
  then show ?thesis using RecordFailure_first [OF assms(1-3), of t t] assms
    by (simp add: rl_Allow_def Let_def Before_def time_sub_def cfg_ok_def int64_min_def)
qed

section \<open>Isolation\<close>

lemma Allow_bool:
  "fst (snd (rl_Allow l k t)) \<longleftrightarrow>
    k = [] \<or> (\<forall>e. map_of (l_entries l) k = Some e \<longrightarrow> e_lockedUntil e \<le> t)"
  by (auto simp: rl_Allow_def Let_def Before_def split: option.splits)

lemma map_of_reclaim:
  assumes "distinct (map fst (l_entries l))"
  shows "map_of (l_entries (reclaimStaleLocked l now)) k =
    (case map_of (l_entries l) k of None \<Rightarrow> None
     | Some v \<Rightarrow> if now < e_lockedUntil v \<or> \<not> (time_sub now (e_lastSeen v) > Window (l_cfg l))
                then Some v else None)"
  using map_of_filter_val [OF assms, of "\<lambda>v. now < e_lockedUntil v \<or> \<not> (time_sub now (e_lastSeen v) > Window (l_cfg l))"]
  by (simp add: reclaimStaleLocked_def Before_def split_def)

lemma Allow_reclaim:
  assumes "distinct (map fst (l_entries l))" "now \<le> t"
  shows "fst (snd (rl_Allow (reclaimStaleLocked l now) k t)) = fst (snd (rl_Allow l k t))"
  using assms by (cases "map_of (l_entries l) k") (simp_all add: Allow_bool map_of_reclaim)

lemma Allow_update_other:
  "k \<noteq> k' \<Longrightarrow> fst (snd (rl_Allow (l\<lparr>l_entries := AList.update k e (l_entries l)\<rparr>) k' t))
     = fst (snd (rl_Allow l k' t))"
  by (simp add: Allow_bool update_conv')

section \<open>Properties\<close>



text \<open>
  The table of tracked sources stays within \<open>MaxEntries\<close> after any history
  of calls, whatever the keys, and holds no source twice.
\<close>

theorem table_bounded:
  assumes "0 \<le> t0" and "s = run_steps rl_step \<lparr>s_lim = rl_New c, s_now = t0\<rparr> evs"
  shows "int (rl_Len (s_lim s)) \<le> MaxEntries (l_cfg (s_lim s)) \<and> distinct (map fst (l_entries (s_lim s)))"
  using rl_run_inv [OF assms(1), of c evs] assms(2) by (simp add: rl_inv_def rl_Len_def)

theorem table_bounded_witness:
  "int (rl_Len (s_lim (run_steps rl_step \<lparr>s_lim = rl_New (DefaultConfig\<lparr>MaxEntries := 1\<rparr>), s_now = 0\<rparr>
      [(0, OpFailure ''10.0.0.1'' 0), (0, OpFailure ''10.0.0.2'' 0)]))) \<le> 1"
proof -
  let ?s = "run_steps rl_step \<lparr>s_lim = rl_New (DefaultConfig\<lparr>MaxEntries := 1\<rparr>), s_now = 0\<rparr>
      [(0, OpFailure ''10.0.0.1'' 0), (0, OpFailure ''10.0.0.2'' 0)]"
  have "MaxEntries (l_cfg (s_lim ?s)) = 1" by code_simp
  then show ?thesis using table_bounded [OF order_refl refl, of "DefaultConfig\<lparr>MaxEntries := 1\<rparr>"
      "[(0, OpFailure ''10.0.0.1'' 0), (0, OpFailure ''10.0.0.2'' 0)]"] by simp
qed

text \<open>
  Brute force trips the lockout: \<open>MaxFailures\<close> failures of an untracked
  source within one window, with room in the table, lock it for exactly
  \<open>BaseBackoff\<close> from the last failure.
\<close>

theorem lockout_trips:
  assumes "k \<noteq> []" "map_of (l_entries l) k = None" "int (length (l_entries l)) < MaxEntries (l_cfg l)"
    and "cfg_ok (l_cfg l)" "Window (l_cfg l) < int64_max" "BaseBackoff (l_cfg l) \<le> int64_max"
    and "int (length ts) = MaxFailures (l_cfg l)" "0 \<le> hd ts"
    and "\<forall>t\<in>set ts. hd ts \<le> t \<and> t - hd ts \<le> Window (l_cfg l)"
  shows "snd (rl_Allow (fail_run l k ts) k (last ts)) = (False, BaseBackoff (l_cfg l))"
proof -
  have "ts \<noteq> []" using assms(4,7) by (auto simp: cfg_ok_def)
  then obtain t0 ts1 where ts: "ts = t0 # ts1" by (cases ts) auto
  show ?thesis
  proof (cases ts1 rule: rev_cases)
    case Nil
    then show ?thesis using first_failure_locks [OF assms(1-4)] assms(5-) ts by (simp add: fail_run_def)
  next
    case (snoc mid t)
    let ?l1 = "rl_RecordFailure l k t0 t0" and ?l2 = "fail_run (rl_RecordFailure l k t0 t0) k mid"
    have many: "1 < MaxFailures (l_cfg l)" using assms(7) ts snoc by simp
    have "counting ?l1 k t0 1" using first_failure_counts [OF assms(1-4) many] assms(5,8) ts by simp
    then have "counting ?l2 k t0 (1 + int (length mid)) \<and> l_cfg ?l2 = l_cfg ?l1"
      using assms ts snoc by (intro fail_run_counting) (auto simp: cfg_ok_def)
    then have cnt: "counting ?l2 k t0 (1 + int (length mid))" and cfg: "l_cfg ?l2 = l_cfg l"
      by simp_all
    have "snd (rl_Allow (rl_RecordFailure ?l2 k t t) k t) = (False, BaseBackoff (l_cfg l))"
      using lockout_from_counting [OF assms(1) cnt, of t] assms(4-) ts snoc by (simp add: cfg)
    moreover have "fail_run l k ts = rl_RecordFailure ?l2 k t t"
      using ts snoc by (simp add: fail_run_def)
    ultimately show ?thesis using ts snoc by simp
  qed
qed

theorem lockout_trips_witness:
  "snd (rl_Allow (fail_run (rl_New DefaultConfig) ''10.0.0.1'' [1, 2, 3, 4, 5]) ''10.0.0.1'' 5)
     = (False, 30 * Second)"
proof -
  have cfg: "l_cfg (rl_New DefaultConfig) = DefaultConfig"
    by (simp add: rl_New_def Let_def DefaultConfig_def)
  show ?thesis
    using lockout_trips [of "''10.0.0.1''" "rl_New DefaultConfig" "[1, 2, 3, 4, 5]"] rl_New_ok [of DefaultConfig]
    by (simp add: cfg) (simp add: DefaultConfig_def int64_max_def)
qed

text \<open>
  Sources are isolated: failures of one source never lock out or release
  another, whether or not the table is full.
\<close>

theorem failures_isolated:
  assumes "distinct (map fst (l_entries l))" "k \<noteq> k'" "now2 \<le> t"
  shows "fst (snd (rl_Allow (rl_RecordFailure l k now now2) k' t)) = fst (snd (rl_Allow l k' t))"
proof (cases "k = []")
  case True
  then show ?thesis by (simp add: rl_RecordFailure_def)
next
  case k: False
  show ?thesis
  proof (cases "map_of (l_entries l) k")
    case (Some e)
    then show ?thesis using Allow_update_other [OF assms(2)] k by (simp add: rl_RecordFailure_def)
  next
    case None
    with k obtain l1 where l1: "l1 = l \<or> l1 = reclaimStaleLocked l now2"
      and eq: "rl_RecordFailure l k now now2 =
        (if int (length (l_entries l1)) < MaxEntries (l_cfg l)
         then l1\<lparr>l_entries := AList.update k (fail_entry (l_cfg l) (new_entry now) now) (l_entries l1)\<rparr>
         else l1)"
      by (rule rl_RecordFailure_new)
    have "fst (snd (rl_Allow l1 k' t)) = fst (snd (rl_Allow l k' t))"
      using l1 Allow_reclaim [OF assms(1,3)] by auto
    then show ?thesis using eq Allow_update_other [OF assms(2)] by simp
  qed
qed

theorem failures_isolated_witness:
  "fst (snd (rl_Allow (rl_RecordFailure (rl_New DefaultConfig) ''10.0.0.1'' 1 1) ''10.0.0.2'' 2))
     = fst (snd (rl_Allow (rl_New DefaultConfig) ''10.0.0.2'' 2))"
  using rl_New_ok [of DefaultConfig]
  by (intro failures_isolated) simp_all

text \<open>
  The doubling loop computes the capped exponential: below a cap of
  \<^term>\<open>2 ^ 62\<close> nanoseconds the backoff of lockout number \<open>level\<close> is
  \<open>BaseBackoff\<close> times two to the \<open>level - 1\<close>, or \<open>MaxBackoff\<close> if that is
  smaller, and the 64-bit multiplication never wraps.
\<close>

theorem backoffFor_exponential:
  assumes "0 < BaseBackoff c" "BaseBackoff c \<le> MaxBackoff c" "MaxBackoff c < 2 ^ 62" "1 \<le> level"
  shows "backoffFor c level = min (MaxBackoff c) (BaseBackoff c * 2 ^ nat (level - 1))"
  using backoff_loop_pow [OF assms(1-3)] by (simp add: backoffFor_def)

theorem backoffFor_exponential_witness: "backoffFor DefaultConfig 4 = 240 * Second"
  using backoffFor_exponential [of DefaultConfig 4] by (simp add: DefaultConfig_def)

text \<open>Above that bound the multiplication wraps and the loop can return a negative lockout.\<close>

lemma backoffFor_wraps:
  "backoffFor (DefaultConfig\<lparr>BaseBackoff := 2 ^ 62, MaxBackoff := 2 ^ 63 - 1\<rparr>) 2 < 0"
  by code_simp

text \<open>
  A full table of fresh entries admits no new source, locked or not: the failure
  of an untracked source is then not recorded at all.
\<close>

lemma full_table_skips:
  assumes "k \<noteq> []" "map_of (l_entries l) k = None" "MaxEntries (l_cfg l) \<le> int (length (l_entries l))"
    and "\<forall>(k', e)\<in>set (l_entries l). \<not> (time_sub now2 (e_lastSeen e) > Window (l_cfg l))"
  shows "rl_RecordFailure l k now now2 = l"
proof -
  have "filter (\<lambda>(k, v). Before now2 (e_lockedUntil v) \<or> \<not> (time_sub now2 (e_lastSeen v) > Window (l_cfg l)))
      (l_entries l) = l_entries l"
    using assms(4) by (auto simp: filter_id_conv)
  then have "reclaimStaleLocked l now2 = l" by (simp add: reclaimStaleLocked_def)
  then show ?thesis using assms(1-3) by (simp add: rl_RecordFailure_def insertLocked_def)
qed

end
