(* ===== verification/Credential.thy ===== *)
theory Credential
  imports Net_IP
begin

text \<open>
  Target credentials, \<^verbatim>\<open>internal/credential\<close>: the circuit breaker
  (\<^verbatim>\<open>breaker.go\<close>), the four-mode provider (\<^verbatim>\<open>credential.go\<close>), the wipeable
  secret (\<^verbatim>\<open>secret.go\<close>), redaction (\<^verbatim>\<open>redact.go\<close>), the CyberArk query and
  response decoding (\<^verbatim>\<open>cyberark_provider.go\<close>, \<^verbatim>\<open>ccp.go\<close>).  The HTTP exchange
  with CyberArk and \<^verbatim>\<open>json.Unmarshal\<close> into a map are parameters.
\<close>

section \<open>Circuit breaker\<close>

record Breaker =
  b_threshold :: int
  b_cooldown :: duration
  b_failures :: int
  b_openUntil :: time
  b_halfOpen :: bool

definition NewBreaker :: "int \<Rightarrow> duration \<Rightarrow> Breaker" where
  "NewBreaker threshold cooldown =
    \<lparr>b_threshold = (if threshold \<le> 0 then 3 else threshold),
     b_cooldown = (if cooldown \<le> 0 then 30 * Second else cooldown),
     b_failures = 0, b_openUntil = 0, b_halfOpen = False\<rparr>"

definition b_Allow :: "Breaker \<Rightarrow> time \<Rightarrow> Breaker \<times> bool" where
  "b_Allow b now =
    (if IsZero (b_openUntil b) then (b, True)
     else if b_halfOpen b then (b, False)
     else if Before now (b_openUntil b) then (b, False)
     else (b\<lparr>b_halfOpen := True\<rparr>, True))"

definition b_Success :: "Breaker \<Rightarrow> Breaker" where
  "b_Success b = b\<lparr>b_failures := 0, b_openUntil := 0, b_halfOpen := False\<rparr>"

definition b_Fail :: "Breaker \<Rightarrow> time \<Rightarrow> Breaker" where
  "b_Fail b now =
    (if b_halfOpen b then b\<lparr>b_halfOpen := False, b_openUntil := time_add now (b_cooldown b)\<rparr>
     else let b' = b\<lparr>b_failures := b_failures b + 1\<rparr>
          in if b_failures b' \<ge> b_threshold b'
             then b'\<lparr>b_openUntil := time_add now (b_cooldown b')\<rparr> else b')"

section \<open>Secrets\<close>

record Secret =
  sec_b :: string
  sec_dead :: bool

definition Secret_New :: "string \<Rightarrow> Secret" where
  "Secret_New b = \<lparr>sec_b = b, sec_dead = False\<rparr>"

text \<open>A nil \<^verbatim>\<open>*Secret\<close> is \<open>None\<close>; \<^verbatim>\<open>Bytes\<close> and \<^verbatim>\<open>Len\<close> accept it.\<close>

definition Secret_Bytes :: "Secret option \<Rightarrow> string" where
  "Secret_Bytes s = (case s of None \<Rightarrow> [] | Some x \<Rightarrow> if sec_dead x then [] else sec_b x)"

definition Secret_Len :: "Secret option \<Rightarrow> nat" where
  "Secret_Len s = (case s of None \<Rightarrow> 0 | Some x \<Rightarrow> length (sec_b x))"

definition Secret_Destroy :: "Secret option \<Rightarrow> Secret option" where
  "Secret_Destroy s = map_option (\<lambda>x. x\<lparr>sec_b := map (\<lambda>_. CHR 0x00) (sec_b x), sec_dead := True\<rparr>) s"

definition Secret_redacted :: "Secret \<Rightarrow> string" where
  "Secret_redacted s = ''credential.Secret(len='' @ show_nat (length (sec_b s)) @ '', REDACTED)''"

section \<open>Redaction\<close>

text \<open>\<^verbatim>\<open>bytes.ReplaceAll\<close> for a non-empty pattern: leftmost, non-overlapping.\<close>

function ReplaceAll :: "string \<Rightarrow> string \<Rightarrow> string \<Rightarrow> string" where
  "ReplaceAll s old new =
    (if old = [] then s
     else case s of [] \<Rightarrow> []
     | c # cs \<Rightarrow> if HasPrefix s old then new @ ReplaceAll (drop (length old) s) old new
               else c # ReplaceAll cs old new)"
  by pat_completeness auto
termination
  by (relation "measure (\<lambda>(s, old, new). length s)") (auto simp: less_Suc_eq_le neq_Nil_conv)

declare ReplaceAll.simps [simp del]

definition Redact :: "string \<Rightarrow> Secret option list \<Rightarrow> string" where
  "Redact data secrets =
     foldl (\<lambda>out s. let b = Secret_Bytes s in
              if b = [] then out else ReplaceAll out b (replicate (length b) (CHR ''*'')))
           data secrets"

section \<open>Provider\<close>

type_synonym Mode = string

abbreviation ModeInject :: Mode where "ModeInject \<equiv> ''inject''"
abbreviation ModePrompt :: Mode where "ModePrompt \<equiv> ''prompt''"
abbreviation ModePassthrough :: Mode where "ModePassthrough \<equiv> ''passthrough''"
abbreviation ModeDeny :: Mode where "ModeDeny \<equiv> ''deny''"

definition Mode_Normalize :: "Mode \<Rightarrow> Mode" where
  "Mode_Normalize m =
    (if m = ModeInject \<or> m = ModePrompt \<or> m = ModePassthrough \<or> m = ModeDeny then m
     else if m = [] then ModePassthrough else m)"

datatype Outcome = NoOutcome | OutcomeInjected | OutcomePrompt | OutcomePassthrough | OutcomeDenied

record CredRequest =
  cr_User :: string
  cr_Target :: string
  cr_Mode :: Mode

record CredResult =
  rs_Outcome :: Outcome
  rs_Secret :: "Secret option"
  rs_Reason :: string

definition no_result :: CredResult where
  "no_result = \<lparr>rs_Outcome = NoOutcome, rs_Secret = None, rs_Reason = []\<rparr>"

datatype CredError =
    ErrDenied
  | ErrFailClosed string      \<comment> \<open>every failure of an inject resolution, with its reason\<close>
  | NilBreaker                \<comment> \<open>the nil dereference a Provider without a breaker would panic on\<close>

record Query =
  q_AppID :: string
  q_Safe :: string
  q_Object :: string

text \<open>What the fetcher returns: an error, or a possibly nil secret.\<close>

type_synonym Fetcher = "Query \<Rightarrow> (string, Secret option) result"

record Provider =
  p_fetcher :: "Fetcher option"
  p_query :: "(CredRequest \<Rightarrow> Query) option"
  p_breaker :: "Breaker option"

definition NewProvider :: "Fetcher option \<Rightarrow> (CredRequest \<Rightarrow> Query) option \<Rightarrow> Breaker option \<Rightarrow> Provider" where
  "NewProvider fetcher query breaker =
    \<lparr>p_fetcher = fetcher, p_query = query,
     p_breaker = (if fetcher \<noteq> None \<and> breaker = None then Some (NewBreaker 0 0) else breaker)\<rparr>"

text \<open>
  \<open>inject\<close> returns the provider with its breaker updated, the query it sent to
  the fetcher (if it sent one), the result and the error.
\<close>

type_synonym resolution = "Provider \<times> Query option \<times> CredResult \<times> CredError option"

definition inject :: "Provider \<Rightarrow> CredRequest \<Rightarrow> time \<Rightarrow> time \<Rightarrow> resolution" where
  "inject p req now now2 =
    (case (p_fetcher p, p_query p) of
       (Some fetch, Some query) \<Rightarrow>
        (case p_breaker p of None \<Rightarrow> (p, None, no_result, Some NilBreaker)
         | Some b \<Rightarrow>
            (case b_Allow b now of
               (b1, False) \<Rightarrow> (p\<lparr>p_breaker := Some b1\<rparr>, None, no_result,
                  Some (ErrFailClosed (''CyberArk circuit open for '' @ cr_Target req)))
             | (b1, True) \<Rightarrow>
                (let q = query req in
                 case fetch q of
                   Inl err \<Rightarrow> (p\<lparr>p_breaker := Some (b_Fail b1 now2)\<rparr>, Some q, no_result,
                      Some (ErrFailClosed (''CyberArk fetch failed for '' @ cr_Target req @ '': '' @ err)))
                 | Inr sec \<Rightarrow>
                    if sec = None \<or> Secret_Len sec = 0
                    then (p\<lparr>p_breaker := Some (b_Fail b1 now2)\<rparr>, Some q, no_result,
                      Some (ErrFailClosed (''CyberArk returned an empty secret for '' @ cr_Target req)))
                    else (p\<lparr>p_breaker := Some (b_Success b1)\<rparr>, Some q,
                      \<lparr>rs_Outcome = OutcomeInjected, rs_Secret = sec, rs_Reason = ''injected from CyberArk''\<rparr>,
                      None))))
     | _ \<Rightarrow> (p, None, no_result,
          Some (ErrFailClosed (''inject configured for '' @ cr_Target req @ '' but no CyberArk provider''))))"

definition Resolve :: "Provider \<Rightarrow> CredRequest \<Rightarrow> time \<Rightarrow> time \<Rightarrow> resolution" where
  "Resolve p req now now2 =
    (let m = Mode_Normalize (cr_Mode req) in
     if m = ModeDeny then
       (p, None, \<lparr>rs_Outcome = OutcomeDenied, rs_Secret = None, rs_Reason = ''credential mode: deny''\<rparr>, Some ErrDenied)
     else if m = ModePassthrough then
       (p, None, \<lparr>rs_Outcome = OutcomePassthrough, rs_Secret = None, rs_Reason = ''reuse caller credential''\<rparr>, None)
     else if m = ModePrompt then
       (p, None, \<lparr>rs_Outcome = OutcomePrompt, rs_Secret = None, rs_Reason = ''prompt user for target credential''\<rparr>, None)
     else if m = ModeInject then inject p req now now2
     else (p, None, no_result, Some (ErrFailClosed ''unknown credential mode'')))"

section \<open>CyberArk\<close>

definition cyberark_query :: "string \<Rightarrow> string \<Rightarrow> string \<Rightarrow> CredRequest \<Rightarrow> Query" where
  "cyberark_query appID safe tmpl req =
    (let host = (case SplitHostPort (cr_Target req) of Some (h, _) \<Rightarrow> h | None \<Rightarrow> cr_Target req)
     in \<lparr>q_AppID = appID, q_Safe = safe, q_Object = ReplaceAll tmpl ''{host}'' host\<rparr>)"

text \<open>\<^verbatim>\<open>utf8.AppendRune\<close> on a rune of at most 16 bits; surrogates become U+FFFD.\<close>

definition append_rune :: "nat \<Rightarrow> string" where
  "append_rune r =
    (let r' = (if 0xD800 \<le> r \<and> r \<le> 0xDFFF then 0xFFFD else r) in
     if r' < 0x80 then [char_of r']
     else if r' < 0x800 then [char_of (0xC0 + r' div 64), char_of (0x80 + r' mod 64)]
     else [char_of (0xE0 + r' div 4096), char_of (0x80 + r' div 64 mod 64), char_of (0x80 + r' mod 64)])"

datatype unquote_error = NotAString | TruncatedEscape | TruncatedU | BadHex | BadEscape char

definition simple_escape :: "char \<Rightarrow> char option" where
  "simple_escape c =
    (if c = CHR ''\"'' then Some (CHR ''\"'') else if c = CHR 0x5C then Some (CHR 0x5C)
     else if c = CHR ''/'' then Some (CHR ''/'') else if c = CHR ''n'' then Some (CHR 0x0A)
     else if c = CHR ''r'' then Some (CHR 0x0D) else if c = CHR ''t'' then Some (CHR 0x09)
     else if c = CHR ''b'' then Some (CHR 0x08) else if c = CHR ''f'' then Some (CHR 0x0C) else None)"

text \<open>The loop over the text between the quotes.\<close>

function unquote_loop :: "string \<Rightarrow> (unquote_error, string) result" where
  "unquote_loop s =
    (case s of [] \<Rightarrow> Inr []
     | c # rest \<Rightarrow>
        if c \<noteq> CHR 0x5C then map_sum id ((#) c) (unquote_loop rest)
        else case rest of [] \<Rightarrow> Inl TruncatedEscape
        | e # rest' \<Rightarrow>
            if e = CHR ''u'' then
              (if length rest' < 4 then Inl TruncatedU
               else if \<not> list_all is_hex (take 4 rest') then Inl BadHex
               else map_sum id ((@) (append_rune (read_hex (take 4 rest')))) (unquote_loop (drop 4 rest')))
            else case simple_escape e of None \<Rightarrow> Inl (BadEscape e)
                 | Some x \<Rightarrow> map_sum id ((#) x) (unquote_loop rest'))"
  by pat_completeness auto
termination
  by (relation "measure length") auto

declare unquote_loop.simps [simp del]

definition jsonUnquote :: "string \<Rightarrow> (unquote_error, string) result" where
  "jsonUnquote raw =
    (if length raw < 2 \<or> hd raw \<noteq> CHR ''\"'' \<or> last raw \<noteq> CHR ''\"'' then Inl NotAString
     else unquote_loop (butlast (tl raw)))"

text \<open>
  \<^verbatim>\<open>CCPClient.Fetch\<close>: the HTTP exchange gives an error or a status and a body,
  of which at most one MiB is read; the JSON object decoder is the parameter
  \<open>unmarshal\<close>.  The request URL escapes the query as \<^verbatim>\<open>url.Values.Encode\<close> does.
\<close>

definition hex_upper :: "nat \<Rightarrow> char" where
  "hex_upper n = (if n < 10 then char_of (48 + n) else char_of (55 + n))"

definition query_escape_byte :: "char \<Rightarrow> string" where
  "query_escape_byte c =
    (if is_digit c \<or> (97 \<le> byte c \<and> byte c \<le> 122) \<or> (65 \<le> byte c \<and> byte c \<le> 90)
        \<or> c \<in> {CHR ''-'', CHR ''_'', CHR ''.'', CHR ''~''} then [c]
     else if c = CHR '' '' then ''+''
     else [CHR ''%'', hex_upper (byte c div 16), hex_upper (byte c mod 16)])"

definition QueryEscape :: "string \<Rightarrow> string" where
  "QueryEscape s = concat (map query_escape_byte s)"

definition ccp_url :: "string \<Rightarrow> Query \<Rightarrow> string" where
  "ccp_url base q = base @ ''/api/Accounts?AppID='' @ QueryEscape (q_AppID q)
     @ ''&Object='' @ QueryEscape (q_Object q) @ ''&Safe='' @ QueryEscape (q_Safe q)"

definition ccp_Fetch ::
  "string \<Rightarrow> (string \<Rightarrow> (string, int \<times> string) result) \<Rightarrow> (string \<Rightarrow> (string \<rightharpoonup> string) option)
     \<Rightarrow> Query \<Rightarrow> (string, Secret option) result" where
  "ccp_Fetch base http unmarshal q =
    (case http (ccp_url base q) of Inl err \<Rightarrow> Inl err
     | Inr (status, full) \<Rightarrow>
        (let body = take 1048576 full in
         if status \<noteq> 200 then Inl (''ccp: status '' @ show_int status)
         else case unmarshal body of None \<Rightarrow> Inl ''ccp: decode''
         | Some content \<Rightarrow>
            (case content ''Content'' of None \<Rightarrow> Inl ''ccp: response missing Content''
             | Some raw \<Rightarrow>
                (case jsonUnquote raw of Inl _ \<Rightarrow> Inl ''ccp: content decode''
                 | Inr secretBytes \<Rightarrow> Inr (Some (Secret_New secretBytes))))))"

definition NewCyberArkProvider ::
  "Fetcher \<Rightarrow> string \<Rightarrow> string \<Rightarrow> string \<Rightarrow> int \<Rightarrow> int \<Rightarrow> Provider" where
  "NewCyberArkProvider ccp appID safe tmpl breakerFailures breakerCooldownSeconds =
     NewProvider (Some ccp) (Some (cyberark_query appID safe tmpl))
       (Some (NewBreaker breakerFailures (wrap64 (breakerCooldownSeconds * Second))))"

section \<open>Breaker lemmas\<close>

definition breaker_ok :: "Breaker \<Rightarrow> bool" where
  "breaker_ok b = (0 < b_threshold b \<and> 0 < b_cooldown b \<and> 0 \<le> b_failures b \<and> 0 \<le> b_openUntil b
     \<and> (b_openUntil b = 0 \<longrightarrow> \<not> b_halfOpen b \<and> b_failures b < b_threshold b))"

lemma NewBreaker_ok: "breaker_ok (NewBreaker th cd)"
  by (simp add: NewBreaker_def breaker_ok_def)

lemma b_Allow_ok [inv_intro]: "breaker_ok b \<Longrightarrow> breaker_ok (fst (b_Allow b now))"
  by (simp add: b_Allow_def breaker_ok_def IsZero_def)

lemma b_Success_ok [inv_intro]: "breaker_ok b \<Longrightarrow> breaker_ok (b_Success b)"
  by (auto simp: b_Success_def breaker_ok_def)

lemma b_Fail_ok [inv_intro]: "breaker_ok b \<Longrightarrow> 0 \<le> now \<Longrightarrow> breaker_ok (b_Fail b now)"
  by (auto simp: b_Fail_def breaker_ok_def Let_def time_add_def)

text \<open>Interleavings of the calls concurrent sessions make, each at a non-negative instant.\<close>

datatype breaker_op = BAllow nat | BSuccess | BFail nat

fun breaker_step :: "Breaker \<Rightarrow> breaker_op \<Rightarrow> Breaker" where
  "breaker_step b (BAllow t) = fst (b_Allow b (int t))"
| "breaker_step b BSuccess = b_Success b"
| "breaker_step b (BFail t) = b_Fail b (int t)"

interpretation breaker: guarded_machine breaker_step breaker_ok
  by unfold_locales (metis breaker_step.elims b_Allow_ok b_Success_ok b_Fail_ok of_nat_0_le_iff)

text \<open>The answers of a sequence of \<open>Allow\<close> calls with no outcome reported in between.\<close>

fun allow_run :: "Breaker \<Rightarrow> time list \<Rightarrow> bool list" where
  "allow_run b [] = []"
| "allow_run b (t # ts) = snd (b_Allow b t) # allow_run (fst (b_Allow b t)) ts"

lemma allow_run_half_open: "b_halfOpen b \<Longrightarrow> b_openUntil b \<noteq> 0 \<Longrightarrow> filter (\<lambda>x. x) (allow_run b ts) = []"
  by (induction ts) (auto simp: b_Allow_def IsZero_def)

lemma allow_run_open:
  assumes "b_openUntil b \<noteq> 0" "\<not> b_halfOpen b"
  shows "length (filter (\<lambda>x. x) (allow_run b ts)) = (if list_ex (\<lambda>t. b_openUntil b \<le> t) ts then 1 else 0)"
  using assms
proof (induction ts)
  case Nil
  show ?case by simp
next
  case (Cons t ts)
  show ?case
  proof (cases "b_openUntil b \<le> t")
    case True
    then have "b_Allow b t = (b\<lparr>b_halfOpen := True\<rparr>, True)"
      using Cons.prems by (simp add: b_Allow_def time_defs)
    then show ?thesis
      using True Cons.prems(1) allow_run_half_open [of "b\<lparr>b_halfOpen := True\<rparr>" ts] by simp
  next
    case False
    then have "b_Allow b t = (b, False)" using Cons.prems by (simp add: b_Allow_def time_defs)
    then show ?thesis using False Cons by simp
  qed
qed

text \<open>Consecutive failures of a closed breaker.\<close>

lemma fail_run_closed:
  assumes "b_openUntil b = 0" "\<not> b_halfOpen b" "b_failures b + int (length ts) < b_threshold b"
  shows "foldl b_Fail b ts = b\<lparr>b_failures := b_failures b + int (length ts)\<rparr>"
  using assms
proof (induction ts arbitrary: b)
  case Nil
  show ?case by simp
next
  case (Cons t ts)
  let ?b = "b\<lparr>b_failures := b_failures b + 1\<rparr>"
  have "b_Fail b t = ?b" using Cons.prems by (simp add: b_Fail_def Let_def)
  moreover have "foldl b_Fail ?b ts = ?b\<lparr>b_failures := b_failures ?b + int (length ts)\<rparr>"
    using Cons.prems by (intro Cons.IH) auto
  ultimately show ?case by (simp add: add.assoc)
qed

section \<open>Masking lemmas\<close>

definition masks :: "string \<Rightarrow> string \<Rightarrow> bool" where
  "masks s t = list_all2 (\<lambda>a b. b = a \<or> b = CHR ''*'') s t"

lemma masks_refl [simp]: "masks s s"
  by (simp add: masks_def list_all2_refl)

lemma masks_trans: "masks s t \<Longrightarrow> masks t u \<Longrightarrow> masks s u"
  unfolding masks_def list_all2_conv_all_nth by metis

lemma masks_append: "masks s t \<Longrightarrow> masks s' t' \<Longrightarrow> masks (s @ s') (t @ t')"
  by (simp add: masks_def list_all2_appendI)

lemma masks_appendE:
  assumes "masks s (t @ u)"
  obtains s1 s2 where "s = s1 @ s2" "masks s1 t" "masks s2 u"
  using assms by (auto simp: masks_def list_all2_append2)

lemma masks_stars: "masks s (replicate (length s) (CHR ''*''))"
  by (simp add: masks_def list_all2_conv_all_nth)

lemma ReplaceAll_Nil: "old \<noteq> [] \<Longrightarrow> ReplaceAll [] old new = []"
  by (simp add: ReplaceAll.simps)

lemma ReplaceAll_hit:
  assumes "old \<noteq> []"
  shows "ReplaceAll (old @ r) old new = new @ ReplaceAll r old new"
proof -
  have h: "HasPrefix (old @ r) old" by (simp add: HasPrefix_iff)
  obtain c cs where "old @ r = c # cs" using assms by (cases old) auto
  moreover from this have "drop (length old) (c # cs) = r" by (metis append_eq_conv_conj)
  ultimately show ?thesis using assms h ReplaceAll.simps [of "old @ r" old new] by simp
qed

lemma ReplaceAll_miss:
  "old \<noteq> [] \<Longrightarrow> \<not> prefix old (c # cs) \<Longrightarrow> ReplaceAll (c # cs) old new = c # ReplaceAll cs old new"
  by (subst ReplaceAll.simps) (simp add: HasPrefix_iff)

lemmas ReplaceAll_simps = ReplaceAll_Nil ReplaceAll_hit ReplaceAll_miss

text \<open>Induction along the scan: the end, a match, or one byte passed over.\<close>

lemma scan_induct [consumes 1, case_names stop hit miss]:
  assumes "old \<noteq> []" and "P []"
    and "\<And>r. P r \<Longrightarrow> P (old @ r)"
    and "\<And>c cs. \<not> prefix old (c # cs) \<Longrightarrow> P cs \<Longrightarrow> P (c # cs)"
  shows "P s"
proof (induction s rule: length_induct)
  case (1 s)
  show ?case
  proof (cases "prefix old s")
    case True
    then obtain r where "s = old @ r" by (auto simp: prefix_def)
    with 1 assms(1,3) show ?thesis by auto
  next
    case False
    with 1 assms(2,4) show ?thesis by (cases s) auto
  qed
qed

lemma ReplaceAll_masks:
  assumes "old \<noteq> []"
  shows "masks s (ReplaceAll s old (replicate (length old) (CHR ''*'')))"
  using assms
proof (induction s rule: scan_induct)
  case (hit r)
  then show ?case using masks_append [OF masks_stars [of old]] assms by (simp add: ReplaceAll_simps)
qed (use assms in \<open>simp_all add: ReplaceAll_simps masks_def\<close>)

text \<open>A star-free pattern found in a masked text was already there, at the same place.\<close>

lemma masked_prefix:
  assumes "masks s t" "prefix p t" "CHR ''*'' \<notin> set p"
  shows "prefix p s"
proof -
  from assms(2) obtain r where t: "t = p @ r" by (auto simp: prefix_def)
  from assms(1) [unfolded t] obtain p' r' where s: "s = p' @ r'" and p': "masks p' p"
    by (rule masks_appendE)
  from p' assms(3) have "p' = p"
    by (auto simp: masks_def list_all2_conv_all_nth intro!: nth_equalityI) (metis nth_mem)
  with s show ?thesis by simp
qed

lemma masked_sublist:
  assumes "masks s t" "sublist p t" "CHR ''*'' \<notin> set p"
  shows "sublist p s"
proof -
  from assms(2) obtain u v where t: "t = u @ p @ v" by (auto simp: sublist_def)
  from assms(1) [unfolded t] obtain u' w' where s: "s = u' @ w'" and "masks w' (p @ v)"
    by (rule masks_appendE)
  then have "prefix p w'" using assms(3) by (intro masked_prefix [of w' "p @ v"]) auto
  then show ?thesis using s by (auto simp: prefix_def sublist_def)
qed

lemma ReplaceAll_gone:
  assumes "old \<noteq> []" and star: "CHR ''*'' \<notin> set old"
  shows "\<not> sublist old (ReplaceAll s old (replicate (length old) (CHR ''*'')))"
  using assms(1)
proof (induction s rule: scan_induct)
  case stop
  then show ?case using assms by (simp add: ReplaceAll_simps)
next
  case (hit r)
  have no: "\<not> prefix old (replicate n (CHR ''*'') @ x)" if "n > 0" for n x
    using that assms by (cases old; cases n) auto
  have "\<not> sublist old (replicate n (CHR ''*'') @ ReplaceAll r old (replicate (length old) (CHR ''*'')))" for n
  proof (induction n)
    case 0
    then show ?case using hit by simp
  next
    case (Suc n)
    then show ?case
      using no [of "Suc n" "ReplaceAll r old (replicate (length old) (CHR ''*''))"]
      by (simp add: sublist_Cons_right)
  qed
  then show ?case using assms by (simp add: ReplaceAll_simps)
next
  case (miss c cs)
  let ?out = "ReplaceAll cs old (replicate (length old) (CHR ''*''))"
  have "masks (c # cs) (c # ?out)" using ReplaceAll_masks [OF assms(1), of cs] by (simp add: masks_def)
  then have "\<not> prefix old (c # ?out)" using miss(1) masked_prefix star by blast
  then show ?case using miss assms by (simp add: ReplaceAll_simps sublist_Cons_right)
qed

lemma Redact_snoc:
  "Redact data (ss @ [s]) =
    (if Secret_Bytes s = [] then Redact data ss
     else ReplaceAll (Redact data ss) (Secret_Bytes s) (replicate (length (Secret_Bytes s)) (CHR ''*'')))"
  by (simp add: Redact_def Let_def)

lemma Redact_masks: "masks data (Redact data ss)"
proof (induction ss rule: rev_induct)
  case Nil
  show ?case by (simp add: Redact_def)
next
  case (snoc s ss)
  then show ?case using ReplaceAll_masks masks_trans by (auto simp: Redact_snoc)
qed

lemma Redact_removes:
  "s \<in> set ss \<Longrightarrow> Secret_Bytes s \<noteq> [] \<Longrightarrow> CHR ''*'' \<notin> set (Secret_Bytes s)
     \<Longrightarrow> \<not> sublist (Secret_Bytes s) (Redact data ss)"
proof (induction ss rule: rev_induct)
  case Nil
  then show ?case by simp
next
  case (snoc x ss)
  show ?case
  proof (cases "s = x")
    case True
    then show ?thesis using snoc.prems ReplaceAll_gone by (simp add: Redact_snoc)
  next
    case False
    with snoc have "\<not> sublist (Secret_Bytes s) (Redact data ss)" by auto
    moreover have "masks (Redact data ss) (Redact data (ss @ [x]))"
      by (simp add: Redact_snoc ReplaceAll_masks)
    ultimately show ?thesis using masked_sublist snoc.prems(3) by blast
  qed
qed

section \<open>JSON strings\<close>

text \<open>
  The reference encoder: what RFC 8259 requires a writer to escape, with the
  short escapes where they exist and \<^verbatim>\<open>\u00XX\<close> for the other control bytes.
\<close>

definition hex_lower :: "nat \<Rightarrow> char" where
  "hex_lower n = (if n < 10 then char_of (48 + n) else char_of (87 + n))"

definition quote_byte :: "char \<Rightarrow> string" where
  "quote_byte c =
    (if c = CHR ''\"'' \<or> c = CHR 0x5C then [CHR 0x5C, c]
     else if c = CHR 0x0A then [CHR 0x5C, CHR ''n''] else if c = CHR 0x0D then [CHR 0x5C, CHR ''r'']
     else if c = CHR 0x09 then [CHR 0x5C, CHR ''t''] else if c = CHR 0x08 then [CHR 0x5C, CHR ''b'']
     else if c = CHR 0x0C then [CHR 0x5C, CHR ''f'']
     else if byte c < 32 then [CHR 0x5C, CHR ''u'', CHR ''0'', CHR ''0'', hex_lower (byte c div 16), hex_lower (byte c mod 16)]
     else [c])"

definition json_quote :: "string \<Rightarrow> string" where
  "json_quote s = CHR ''\"'' # concat (map quote_byte s) @ [CHR ''\"'']"

lemma hex_lower_val: "n < 16 \<Longrightarrow> is_hex (hex_lower n) \<and> hex_val (hex_lower n) = n"
  by (auto simp: hex_lower_def is_hex_def is_digit_def hex_val_def byte_char_of)

lemma unquote_Nil: "unquote_loop [] = Inr []"
  by (subst unquote_loop.simps) simp

lemma unquote_plain: "c \<noteq> CHR 0x5C \<Longrightarrow> unquote_loop (c # s) = map_sum id ((#) c) (unquote_loop s)"
  by (subst unquote_loop.simps) simp

lemma unquote_simple:
  "e \<noteq> CHR ''u'' \<Longrightarrow> simple_escape e = Some x \<Longrightarrow>
     unquote_loop (CHR 0x5C # e # s) = map_sum id ((#) x) (unquote_loop s)"
  by (subst unquote_loop.simps) simp

lemma unquote_u:
  assumes "length h = 4" "list_all is_hex h"
  shows "unquote_loop (CHR 0x5C # CHR ''u'' # h @ s) = map_sum id ((@) (append_rune (read_hex h))) (unquote_loop s)"
  using assms by (subst unquote_loop.simps) simp

lemma unquote_u_byte:
  assumes "n < 256"
  shows "unquote_loop (CHR 0x5C # CHR ''u'' # CHR ''0'' # CHR ''0'' # hex_lower (n div 16) # hex_lower (n mod 16) # s)
     = map_sum id ((@) (append_rune n)) (unquote_loop s)"
proof -
  let ?h = "[CHR ''0'', CHR ''0'', hex_lower (n div 16), hex_lower (n mod 16)]"
  have h: "is_hex (hex_lower (n div 16)) \<and> hex_val (hex_lower (n div 16)) = n div 16"
    "is_hex (hex_lower (n mod 16)) \<and> hex_val (hex_lower (n mod 16)) = n mod 16"
    using hex_lower_val [of "n div 16"] hex_lower_val [of "n mod 16"] assms by auto
  have z: "is_hex (CHR ''0'') \<and> hex_val (CHR ''0'') = 0"
    by (simp add: is_hex_def is_digit_def byte_def hex_val_def)
  have "read_hex ?h = n" using h z by (simp add: read_hex_def)
  moreover have "list_all is_hex ?h" using h z by simp
  ultimately show ?thesis using unquote_u [of ?h s] by simp
qed

lemma append_rune_ascii: "n < 32 \<Longrightarrow> append_rune n = [char_of n]"
  by (simp add: append_rune_def)

lemma unquote_quote_byte: "unquote_loop (quote_byte c @ s) = map_sum id ((#) c) (unquote_loop s)"
proof -
  consider (short) "c \<in> {CHR ''\"'', CHR 0x5C, CHR 0x0A, CHR 0x0D, CHR 0x09, CHR 0x08, CHR 0x0C}"
    | (ctl) "c \<notin> {CHR ''\"'', CHR 0x5C, CHR 0x0A, CHR 0x0D, CHR 0x09, CHR 0x08, CHR 0x0C}" "byte c < 32"
    | (plain) "c \<notin> {CHR ''\"'', CHR 0x5C, CHR 0x0A, CHR 0x0D, CHR 0x09, CHR 0x08, CHR 0x0C}" "\<not> byte c < 32"
    by blast
  then show ?thesis
  proof cases
    case short
    then have "\<exists>e. quote_byte c = [CHR 0x5C, e] \<and> e \<noteq> CHR ''u'' \<and> simple_escape e = Some c"
      by (elim insertE) (simp_all add: quote_byte_def simple_escape_def)
    then show ?thesis by (auto simp: unquote_simple)
  next
    case ctl
    then have "quote_byte c = CHR 0x5C # CHR ''u'' # CHR ''0'' # CHR ''0'' # hex_lower (byte c div 16) # [hex_lower (byte c mod 16)]"
      unfolding quote_byte_def by simp
    moreover have "(@) [c] = (#) c" by (rule ext) simp
    ultimately show ?thesis using unquote_u_byte [OF byte_less, of c s] ctl(2)
      by (simp add: append_rune_ascii)
  next
    case plain
    then have "quote_byte c = [c]" unfolding quote_byte_def by simp
    then show ?thesis using plain by (simp add: unquote_plain)
  qed
qed

lemma unquote_quote_all: "unquote_loop (concat (map quote_byte s)) = Inr s"
  by (induction s) (simp_all add: unquote_Nil unquote_quote_byte)

section \<open>Properties\<close>

text \<open>The outcome that each mode stands for; deny and unknown modes have none.\<close>

definition outcome_of :: "Mode \<Rightarrow> Outcome option" where
  "outcome_of m =
    (if m = [] \<or> m = ModePassthrough then Some OutcomePassthrough
     else if m = ModePrompt then Some OutcomePrompt
     else if m = ModeInject then Some OutcomeInjected else None)"

lemma inject_cases:
  obtains (refused) p' q reason where "inject p req now now2 = (p', q, no_result, Some (ErrFailClosed reason))"
  | (nil) "inject p req now now2 = (p, None, no_result, Some NilBreaker)" "p_fetcher p \<noteq> None" "p_breaker p = None"
  | (ok) p' q sec where "inject p req now now2 =
      (p', Some q, \<lparr>rs_Outcome = OutcomeInjected, rs_Secret = Some sec, rs_Reason = ''injected from CyberArk''\<rparr>, None)"
      "sec_b sec \<noteq> []"
proof -
  consider "p_fetcher p = None \<or> p_query p = None"
    | f g where "p_fetcher p = Some f" "p_query p = Some g"
    by (cases "p_fetcher p"; cases "p_query p") auto
  then show thesis
  proof cases
    case 1
    then have "inject p req now now2 = (p, None, no_result, Some (ErrFailClosed
        (''inject configured for '' @ cr_Target req @ '' but no CyberArk provider'')))"
      by (auto simp: inject_def split: option.splits)
    then show ?thesis by (rule refused)
  next
    case fg: 2
    show ?thesis
    proof (cases "p_breaker p")
      case None
      then show ?thesis using nil fg by (simp add: inject_def)
    next
      case (Some b)
      obtain b1 a where a: "b_Allow b now = (b1, a)" by fastforce
      note unf = inject_def fg Some a Let_def Secret_Len_def
      show ?thesis
      proof (cases a)
        case False
        show ?thesis by (rule refused) (simp add: unf False)
      next
        case True
        show ?thesis
        proof (cases "f (g req)")
          case (Inl e)
          show ?thesis by (rule refused) (simp add: unf True Inl)
        next
          case (Inr sec)
          show ?thesis
          proof (cases "sec = None \<or> Secret_Len sec = 0")
            case empty: True
            show ?thesis by (rule refused) (use empty in \<open>auto simp: unf True Inr\<close>)
          next
            case False
            then show ?thesis by (cases sec) (auto intro!: ok simp: unf True Inr)
          qed
        qed
      qed
    qed
  qed
qed

text \<open>
  C4.  No silent downgrade: a resolution that succeeds has exactly the outcome
  of the requested mode, an injected one carries a non-empty secret, any error
  other than a policy deny comes with an empty result, and no mode but inject
  ever queries CyberArk.
\<close>

theorem Resolve_no_downgrade:
  assumes "Resolve p req now now2 = (p', q, res, err)"
  shows "(err = None \<longrightarrow> Some (rs_Outcome res) = outcome_of (cr_Mode req))
    \<and> (err = None \<and> cr_Mode req = ModeInject \<longrightarrow> (\<exists>s. rs_Secret res = Some s \<and> sec_b s \<noteq> []))
    \<and> (err \<noteq> None \<and> err \<noteq> Some ErrDenied \<longrightarrow> res = no_result)
    \<and> (cr_Mode req \<noteq> ModeInject \<longrightarrow> q = None \<and> p' = p \<and> rs_Secret res = None)"
proof (cases "cr_Mode req = ModeInject")
  case True
  then have r: "Resolve p req now now2 = inject p req now now2"
    by (simp add: Resolve_def Mode_Normalize_def)
  show ?thesis
    by (rule inject_cases [of p req now now2]) (use assms r True in \<open>auto simp: outcome_of_def\<close>)
next
  case False
  then show ?thesis using assms
    by (auto simp: Resolve_def Mode_Normalize_def Let_def outcome_of_def no_result_def split: if_splits)
qed

theorem Resolve_no_downgrade_witness:
  "\<exists>p' q res err. Resolve (NewProvider None None None) \<lparr>cr_User = ''alice'', cr_Target = ''db1:22'', cr_Mode = ModeInject\<rparr> 1 1
      = (p', q, res, err) \<and> err \<noteq> None \<and> res = no_result"
proof -
  let ?r = "\<lparr>cr_User = ''alice'', cr_Target = ''db1:22'', cr_Mode = ModeInject\<rparr>"
  obtain p' q res err where eq: "Resolve (NewProvider None None None) ?r 1 1 = (p', q, res, err)"
    by (metis prod_cases4)
  then have "err \<noteq> None \<and> err \<noteq> Some ErrDenied"
    by (auto simp: Resolve_def Mode_Normalize_def inject_def NewProvider_def)
  then show ?thesis using eq Resolve_no_downgrade [OF eq] by blast
qed

text \<open>
  The circuit breaker protects CyberArk: a closed breaker that sees its
  threshold of consecutive failures refuses every call until the cooldown has
  passed since the last failure (and an inject then fails closed without a
  query), and afterwards admits exactly one trial, however many calls are made
  before that trial reports.
\<close>

theorem breaker_trips:
  assumes "breaker_ok b" "b_openUntil b = 0" "b_failures b = 0"
    and "int (length ts) = b_threshold b" "0 \<le> last ts"
    and "b' = foldl b_Fail b ts"
  shows "(\<forall>t < last ts + b_cooldown b. b_Allow b' t = (b', False))
    \<and> (\<forall>us. length (filter (\<lambda>x. x) (allow_run b' us)) =
           (if list_ex (\<lambda>t. last ts + b_cooldown b \<le> t) us then 1 else 0))"
proof -
  have "ts \<noteq> []" using assms(1,4) by (auto simp: breaker_ok_def)
  then obtain us u where ts: "ts = us @ [u]" by (cases ts rule: rev_cases) auto
  have ho: "\<not> b_halfOpen b" using assms(1,2) by (simp add: breaker_ok_def)
  then have "foldl b_Fail b us = b\<lparr>b_failures := int (length us)\<rparr>"
    using fail_run_closed [OF assms(2) ho, of us] assms(3,4) ts by simp
  then have b': "b' = b\<lparr>b_failures := int (length ts), b_openUntil := u + b_cooldown b\<rparr>"
    using assms(4,6) ts ho by (simp add: b_Fail_def Let_def time_add_def)
  have pos: "0 < u + b_cooldown b" using assms(1,5) ts by (simp add: breaker_ok_def)
  then have "b_Allow b' t = (b', False)" if "t < last ts + b_cooldown b" for t
    using that b' ho ts by (simp add: b_Allow_def time_defs)
  moreover have "length (filter (\<lambda>x. x) (allow_run b' us')) =
      (if list_ex (\<lambda>t. last ts + b_cooldown b \<le> t) us' then 1 else 0)" for us'
    using allow_run_open [of b' us'] b' ho pos ts by simp
  ultimately show ?thesis by blast
qed

theorem breaker_trips_witness:
  "b_Allow (foldl b_Fail (NewBreaker 3 (30 * Second)) [1, 2, 3]) 4
     = (foldl b_Fail (NewBreaker 3 (30 * Second)) [1, 2, 3], False)"
  using breaker_trips [OF NewBreaker_ok, of 3 "30 * Second" "[1, 2, 3]"] by (simp add: NewBreaker_def)

text \<open>
  Redaction removes every live secret: no secret free of the mask byte
  occurs in the redacted text, the length is kept, and every byte is either kept
  or masked.
\<close>

theorem Redact_no_secret:
  assumes "s \<in> set ss" "Secret_Bytes s \<noteq> []" "CHR ''*'' \<notin> set (Secret_Bytes s)"
  shows "\<not> Contains (Redact data ss) (Secret_Bytes s) \<and> masks data (Redact data ss)"
  using Redact_removes [OF assms] Redact_masks by (simp add: Contains_iff)

theorem Redact_no_secret_witness:
  "\<not> Contains (Redact ''pw=s3cret;s3cret'' [Some (Secret_New ''s3cret'')]) ''s3cret''"
  using Redact_no_secret [of "Some (Secret_New ''s3cret'')" "[Some (Secret_New ''s3cret'')]"]
  by (simp add: Secret_Bytes_def Secret_New_def)

text \<open>
  Decoding a JSON string token gives back exactly the bytes a conforming
  writer encoded, for every byte string.
\<close>

theorem jsonUnquote_roundtrip: "jsonUnquote (json_quote s) = Inr s"
  by (simp add: jsonUnquote_def json_quote_def unquote_quote_all butlast_append)

end
