(* ===== verification/Approval.thy ===== *)
theory Approval
  imports Go_Std "HOL-Library.AList"
begin

text \<open>
  Four-eyes approvals, \<^verbatim>\<open>internal/approval\<close>: the request and its time-to-live
  (\<^verbatim>\<open>approval.go\<close>), the durable file store (\<^verbatim>\<open>filestore.go\<close>) and the
  fail-closed CRD stub (\<^verbatim>\<open>crd.go\<close>).

  The store keeps its requests in memory and on disk; \<open>fs_disk\<close> is what the last
  successful write of the JSON file holds.  Whether a write succeeds is an input
  of each operation, as are the clock readings, the fresh identifier and the
  directory's answer to a group lookup.  Operations that release the lock in the
  middle (\<open>decide\<close> around the lookup, \<open>Wait\<close>) are split into the parts between
  which other operations run.
\<close>

section \<open>Requests\<close>

type_synonym Kind = string
type_synonym Status = string

abbreviation KindSession :: Kind where "KindSession \<equiv> ''session_access''"
abbreviation KindQuarantineRelease :: Kind where "KindQuarantineRelease \<equiv> ''quarantine_release''"

definition StatusPending :: Status where "StatusPending = ''pending''"
definition StatusApproved :: Status where "StatusApproved = ''approved''"
definition StatusDenied :: Status where "StatusDenied = ''denied''"
definition StatusExpired :: Status where "StatusExpired = ''expired''"

lemmas status_defs = StatusPending_def StatusApproved_def StatusDenied_def StatusExpired_def

lemma status_distinct [simp]:
  "StatusPending \<noteq> StatusApproved" "StatusApproved \<noteq> StatusPending"
  "StatusPending \<noteq> StatusDenied" "StatusDenied \<noteq> StatusPending"
  "StatusPending \<noteq> StatusExpired" "StatusExpired \<noteq> StatusPending"
  "StatusApproved \<noteq> StatusDenied" "StatusDenied \<noteq> StatusApproved"
  "StatusApproved \<noteq> StatusExpired" "StatusExpired \<noteq> StatusApproved"
  "StatusDenied \<noteq> StatusExpired" "StatusExpired \<noteq> StatusDenied"
  "StatusApproved \<noteq> []" "[] \<noteq> StatusApproved"
  by (simp_all add: status_defs)

record ApprovalRequest =
  rq_ID :: string
  rq_Kind :: Kind
  rq_Requester :: string
  rq_Subject :: string
  rq_RequesterGroups :: "string list"
  rq_Reason :: string
  rq_Status :: Status
  rq_Approver :: string
  rq_CreatedAt :: time
  rq_ExpiresAt :: time
  rq_DecidedAt :: time

definition EffectiveStatus :: "ApprovalRequest \<Rightarrow> time \<Rightarrow> Status" where
  "EffectiveStatus r now =
    (if rq_Status r = StatusPending \<and> After now (rq_ExpiresAt r) then StatusExpired else rq_Status r)"

definition Approved :: "ApprovalRequest \<Rightarrow> time \<Rightarrow> bool" where
  "Approved r now = (EffectiveStatus r now = StatusApproved)"

datatype ApprovalError = ErrNotFound | ErrNotPending | ErrFourEyes | ErrStoreUnavailable
  | ErrNotPeerGroup | ErrCtx

section \<open>The file store\<close>

type_synonym GroupLookup = "string \<Rightarrow> string list option"

record FileStore =
  fs_requests :: "(string \<times> ApprovalRequest) list"
  fs_decided :: "(string \<times> bool) list"      \<comment> \<open>True: the channel is closed\<close>
  fs_hasLookup :: bool                        \<comment> \<open>a GroupLookup is configured\<close>
  fs_disk :: "ApprovalRequest list"

definition load_request :: "FileStore \<Rightarrow> ApprovalRequest \<Rightarrow> FileStore" where
  "load_request s r =
     s\<lparr>fs_requests := AList.update (rq_ID r) r (fs_requests s),
       fs_decided := AList.update (rq_ID r) (rq_Status r \<noteq> StatusPending) (fs_decided s)\<rparr>"

text \<open>\<^verbatim>\<open>newFileStore\<close> on what the disk holds; the lookup is set up afterwards.\<close>

definition newFileStore :: "ApprovalRequest list \<Rightarrow> FileStore" where
  "newFileStore disk =
     foldl load_request \<lparr>fs_requests = [], fs_decided = [], fs_hasLookup = False, fs_disk = disk\<rparr> disk"

definition SetGroupLookup :: "FileStore \<Rightarrow> bool \<Rightarrow> FileStore" where
  "SetGroupLookup s present = s\<lparr>fs_hasLookup := present\<rparr>"

definition terminalRetention :: duration where
  "terminalRetention = 24 * Hour"

definition pruned :: "ApprovalRequest \<Rightarrow> time \<Rightarrow> bool" where
  "pruned r now = (EffectiveStatus r now \<noteq> StatusPending
     \<and> After now (time_add (rq_ExpiresAt r) terminalRetention))"

definition pruneLocked :: "FileStore \<Rightarrow> time \<Rightarrow> FileStore" where
  "pruneLocked s now =
    (let gone = map fst (filter (\<lambda>x. pruned (snd x) now) (fs_requests s))
     in s\<lparr>fs_requests := filter (\<lambda>x. \<not> pruned (snd x) now) (fs_requests s),
          fs_decided := filter (\<lambda>x. fst x \<notin> set gone) (fs_decided s)\<rparr>)"

text \<open>\<open>wok\<close>: the durable write succeeds.\<close>

definition persist :: "FileStore \<Rightarrow> time \<Rightarrow> bool \<Rightarrow> FileStore \<times> bool" where
  "persist s now wok =
    (let s' = pruneLocked s now
     in if wok then (s'\<lparr>fs_disk := map snd (fs_requests s')\<rparr>, True) else (s', False))"

definition canonicalID :: "string \<Rightarrow> string" where
  "canonicalID s = ToLower (TrimSpace s)"

definition fs_Create ::
  "FileStore \<Rightarrow> ApprovalRequest \<Rightarrow> duration \<Rightarrow> string \<Rightarrow> time \<Rightarrow> time \<Rightarrow> bool
     \<Rightarrow> FileStore \<times> (ApprovalError, ApprovalRequest) result" where
  "fs_Create s req ttl0 newid now now2 wok =
    (let ttl = (if ttl0 \<le> 0 then 15 * Minute else ttl0);
         r = req\<lparr>rq_ID := newid, rq_Status := StatusPending, rq_Approver := [], rq_CreatedAt := now,
                 rq_ExpiresAt := time_add now ttl, rq_DecidedAt := 0,
                 rq_Kind := (if rq_Kind req = [] then KindSession else rq_Kind req)\<rparr>;
         s1 = s\<lparr>fs_requests := AList.update newid r (fs_requests s),
                fs_decided := AList.update newid False (fs_decided s)\<rparr>
     in case persist s1 now2 wok of
          (s2, True) \<Rightarrow> (s2, Inr r)
        | (s2, False) \<Rightarrow>
            (s2\<lparr>fs_requests := AList.delete newid (fs_requests s2),
                fs_decided := AList.delete newid (fs_decided s2)\<rparr>, Inl ErrStoreUnavailable))"

definition fs_Get :: "FileStore \<Rightarrow> string \<Rightarrow> time \<Rightarrow> ApprovalRequest option" where
  "fs_Get s rid now =
     map_option (\<lambda>r. r\<lparr>rq_Status := EffectiveStatus r now\<rparr>) (map_of (fs_requests s) rid)"

definition fs_List :: "FileStore \<Rightarrow> time \<Rightarrow> ApprovalRequest list" where
  "fs_List s now = map (\<lambda>x. (snd x)\<lparr>rq_Status := EffectiveStatus (snd x) now\<rparr>) (fs_requests s)"

definition groupsOverlap :: "string list \<Rightarrow> string list \<Rightarrow> bool" where
  "groupsOverlap a b = list_ex (\<lambda>g. canonicalID g \<in> set (map canonicalID a)) b"

definition closeDecided :: "FileStore \<Rightarrow> string \<Rightarrow> FileStore" where
  "closeDecided s rid =
    (case map_of (fs_decided s) rid of None \<Rightarrow> s
     | Some _ \<Rightarrow> s\<lparr>fs_decided := AList.update rid True (fs_decided s)\<rparr>)"

text \<open>
  \<open>decide\<close>, first critical section: refuse, go on to commit under the same lock,
  or release the lock for a group lookup against a snapshot of the requester's
  groups.
\<close>

datatype decide_next = Refuse ApprovalError | Commit | Lookup "string list"

definition decide_check :: "FileStore \<Rightarrow> string \<Rightarrow> string \<Rightarrow> Status \<Rightarrow> time \<Rightarrow> decide_next" where
  "decide_check s rid approver status now =
    (case map_of (fs_requests s) rid of None \<Rightarrow> Refuse ErrNotFound
     | Some r \<Rightarrow>
        if EffectiveStatus r now \<noteq> StatusPending then Refuse ErrNotPending
        else if approver = [] \<or> canonicalID approver = canonicalID (rq_Requester r) then Refuse ErrFourEyes
        else if status = StatusApproved \<and> rq_Kind r = KindQuarantineRelease
                \<and> rq_RequesterGroups r \<noteq> [] \<and> fs_hasLookup s
        then Lookup (rq_RequesterGroups r) else Commit)"

text \<open>The directory's answer, with the lock released.\<close>

definition decide_lookup :: "string list option \<Rightarrow> string list \<Rightarrow> ApprovalError option" where
  "decide_lookup answer requesterGroups =
    (case answer of None \<Rightarrow> Some ErrNotPeerGroup
     | Some approverGroups \<Rightarrow>
        if groupsOverlap approverGroups requesterGroups then None else Some ErrNotPeerGroup)"

text \<open>After the lookup: re-acquire the lock and re-check.\<close>

definition decide_recheck :: "FileStore \<Rightarrow> string \<Rightarrow> time \<Rightarrow> ApprovalError option" where
  "decide_recheck s rid now =
    (case map_of (fs_requests s) rid of None \<Rightarrow> Some ErrNotFound
     | Some r \<Rightarrow> if EffectiveStatus r now \<noteq> StatusPending then Some ErrNotPending else None)"

text \<open>
  The write: record the decision, persist it, and on a failed write roll the
  request back.  A request that is not in the store any more is unreachable
  here (the check ran under the same lock).
\<close>

definition decide_commit ::
  "FileStore \<Rightarrow> string \<Rightarrow> string \<Rightarrow> Status \<Rightarrow> time \<Rightarrow> time \<Rightarrow> bool
     \<Rightarrow> FileStore \<times> (ApprovalError, ApprovalRequest) result" where
  "decide_commit s rid approver status now now2 wok =
    (case map_of (fs_requests s) rid of None \<Rightarrow> (s, Inl ErrNotFound)
     | Some r \<Rightarrow>
        let r' = r\<lparr>rq_Status := status, rq_Approver := approver, rq_DecidedAt := now\<rparr>;
            s1 = s\<lparr>fs_requests := AList.update rid r' (fs_requests s)\<rparr>
        in case persist s1 now2 wok of
             (s2, True) \<Rightarrow> (closeDecided s2 rid, Inr r')
           | (s2, False) \<Rightarrow>
               ((if map_of (fs_requests s2) rid = None then s2
                 else s2\<lparr>fs_requests := AList.update rid
                   (r'\<lparr>rq_Status := StatusPending, rq_Approver := [], rq_DecidedAt := 0\<rparr>) (fs_requests s2)\<rparr>),
                Inl ErrStoreUnavailable))"

text \<open>
  The whole of \<open>decide\<close>, with what other goroutines do to the store while the
  lock is released (\<open>env\<close>) and the clock readings in the order the code makes them.
\<close>

definition fs_decide ::
  "FileStore \<Rightarrow> GroupLookup \<Rightarrow> (FileStore \<Rightarrow> FileStore) \<Rightarrow> string \<Rightarrow> string \<Rightarrow> Status
     \<Rightarrow> time \<Rightarrow> time \<Rightarrow> time \<Rightarrow> time \<Rightarrow> bool \<Rightarrow> FileStore \<times> (ApprovalError, ApprovalRequest) result" where
  "fs_decide s gl env rid approver status t1 t2 t3 t4 wok =
    (case decide_check s rid approver status t1 of
       Refuse e \<Rightarrow> (s, Inl e)
     | Commit \<Rightarrow> decide_commit s rid approver status t3 t4 wok
     | Lookup groups \<Rightarrow>
        (case decide_lookup (gl approver) groups of
           Some e \<Rightarrow> (env s, Inl e)
         | None \<Rightarrow>
            (case decide_recheck (env s) rid t2 of
               Some e \<Rightarrow> (env s, Inl e)
             | None \<Rightarrow> decide_commit (env s) rid approver status t3 t4 wok)))"

definition fs_Approve where
  "fs_Approve s gl env rid approver = fs_decide s gl env rid approver StatusApproved"

definition fs_Deny where
  "fs_Deny s gl env rid approver = fs_decide s gl env rid approver StatusDenied"

text \<open>
  \<open>Wait\<close>: what wakes it, and what it does then.  \<open>WTimer\<close> is the critical
  section that marks an overdue request expired.
\<close>

datatype wake = WDecided | WTimer | WCtx

definition wait_expire :: "FileStore \<Rightarrow> string \<Rightarrow> time \<Rightarrow> time \<Rightarrow> bool \<Rightarrow> FileStore" where
  "wait_expire s rid now now2 wok =
    (case map_of (fs_requests s) rid of None \<Rightarrow> s
     | Some cur \<Rightarrow>
        if rq_Status cur = StatusPending then
          closeDecided (fst (persist (s\<lparr>fs_requests := AList.update rid
            (cur\<lparr>rq_Status := StatusExpired, rq_DecidedAt := now\<rparr>) (fs_requests s)\<rparr>) now2 wok)) rid
        else s)"

text \<open>\<open>wait_block\<close>: the state of the channel when \<open>Wait\<close> is entered, or the error.\<close>

definition wait_enter :: "FileStore \<Rightarrow> string \<Rightarrow> (ApprovalError, bool) result" where
  "wait_enter s rid =
    (case map_of (fs_requests s) rid of None \<Rightarrow> Inl ErrNotFound
     | Some _ \<Rightarrow> Inr (map_of (fs_decided s) rid = Some True))"

definition zero_request :: ApprovalRequest where
  "zero_request = \<lparr>rq_ID = [], rq_Kind = [], rq_Requester = [], rq_Subject = [], rq_RequesterGroups = [],
     rq_Reason = [], rq_Status = [], rq_Approver = [], rq_CreatedAt = 0, rq_ExpiresAt = 0, rq_DecidedAt = 0\<rparr>"

text \<open>
  The rest of \<open>Wait\<close> in the store as it is when it wakes up: the final
  \<^verbatim>\<open>got, _ := s.Get(rid)\<close> gives the zero request when the rid is gone.
\<close>

definition wait_finish ::
  "FileStore \<Rightarrow> string \<Rightarrow> wake \<Rightarrow> time \<Rightarrow> time \<Rightarrow> time \<Rightarrow> bool
     \<Rightarrow> FileStore \<times> ApprovalRequest \<times> ApprovalError option" where
  "wait_finish s rid w now now2 now3 wok =
    (let s' = (case w of WTimer \<Rightarrow> wait_expire s rid now now2 wok | _ \<Rightarrow> s)
     in (s', (case fs_Get s' rid now3 of None \<Rightarrow> zero_request | Some r \<Rightarrow> r),
         (case w of WCtx \<Rightarrow> Some ErrCtx | _ \<Rightarrow> None)))"

section \<open>The CRD stub\<close>

definition crd_Create :: "ApprovalRequest \<Rightarrow> duration \<Rightarrow> (ApprovalError, ApprovalRequest) result" where
  "crd_Create req ttl = Inl ErrStoreUnavailable"

definition crd_Get :: "string \<Rightarrow> ApprovalRequest option" where
  "crd_Get rid = None"

definition crd_Wait :: "string \<Rightarrow> (ApprovalError, ApprovalRequest) result" where
  "crd_Wait rid = Inl ErrStoreUnavailable"


definition crd_List :: "ApprovalRequest list" where
  "crd_List = []"

definition crd_Approve :: "string \<Rightarrow> string \<Rightarrow> (ApprovalError, ApprovalRequest) result" where
  "crd_Approve rid approver = Inl ErrStoreUnavailable"

definition crd_Deny :: "string \<Rightarrow> string \<Rightarrow> (ApprovalError, ApprovalRequest) result" where
  "crd_Deny rid approver = Inl ErrStoreUnavailable"

section \<open>The store under concurrent callers\<close>

text \<open>
  A system state is the store, the \<open>Approve\<close> calls that released the lock for a
  group lookup (request, approver, snapshot of the requester's groups) and the
  identifiers issued so far.  Each step is one critical section of
  \<^verbatim>\<open>filestore.go\<close>; a restart reloads the store from its file and loses the calls
  in flight.  Fresh identifiers (\<^verbatim>\<open>uuid.NewString\<close>) are ones not issued before.
\<close>

record appr_sys =
  as_store :: FileStore
  as_inflight :: "(string \<times> string \<times> string list) list"
  as_issued :: "string list"

inductive appr_step :: "appr_sys \<Rightarrow> appr_sys \<Rightarrow> bool" where
  step_create: "newid \<notin> set (as_issued s) \<Longrightarrow>
    appr_step s (s\<lparr>as_store := fst (fs_Create (as_store s) req ttl newid t1 t2 wok),
                   as_issued := newid # as_issued s\<rparr>)"
| step_decide: "decide_check (as_store s) rid approver status t1 = Commit \<Longrightarrow>
    status = StatusApproved \<or> status = StatusDenied \<Longrightarrow>
    appr_step s (s\<lparr>as_store := fst (decide_commit (as_store s) rid approver status t3 t4 wok)\<rparr>)"
| step_release_lock: "decide_check (as_store s) rid approver StatusApproved t1 = Lookup groups \<Longrightarrow>
    appr_step s (s\<lparr>as_inflight := (rid, approver, groups) # as_inflight s\<rparr>)"
| step_abandon:
    "appr_step s (s\<lparr>as_inflight := removeAll call (as_inflight s)\<rparr>)"
| step_relock: "(rid, approver, groups) \<in> set (as_inflight s) \<Longrightarrow>
    decide_lookup answer groups = None \<Longrightarrow> decide_recheck (as_store s) rid t2 = None \<Longrightarrow>
    appr_step s (s\<lparr>as_store := fst (decide_commit (as_store s) rid approver StatusApproved t3 t4 wok),
                   as_inflight := remove1 (rid, approver, groups) (as_inflight s)\<rparr>)"
| step_timer:
    "appr_step s (s\<lparr>as_store := wait_expire (as_store s) rid t1 t2 wok\<rparr>)"
| step_restart:
    "appr_step s (s\<lparr>as_store := SetGroupLookup (newFileStore (fs_disk (as_store s))) b, as_inflight := []\<rparr>)"

definition appr_init :: "bool \<Rightarrow> appr_sys" where
  "appr_init b = \<lparr>as_store = SetGroupLookup (newFileStore []) b, as_inflight = [], as_issued = []\<rparr>"

definition four_eyes :: "string \<Rightarrow> ApprovalRequest \<Rightarrow> bool" where
  "four_eyes approver r = (approver \<noteq> [] \<and> canonicalID approver \<noteq> canonicalID (rq_Requester r))"

definition decided :: "ApprovalRequest \<Rightarrow> bool" where
  "decided r = (rq_Status r = StatusApproved \<or> rq_Status r = StatusDenied)"

definition request_ok :: "ApprovalRequest \<Rightarrow> bool" where
  "request_ok r = (if rq_Status r = StatusPending then rq_Approver r = [] \<and> rq_DecidedAt r = 0
     else if decided r then four_eyes (rq_Approver r) r else rq_Status r = StatusExpired)"

text \<open>The store as maps: memory, disk, and the channels waiters block on.\<close>

definition mem :: "FileStore \<Rightarrow> string \<Rightarrow> ApprovalRequest option" where
  "mem s = map_of (fs_requests s)"

definition dsk :: "FileStore \<Rightarrow> string \<Rightarrow> ApprovalRequest option" where
  "dsk s = map_of (map (\<lambda>r. (rq_ID r, r)) (fs_disk s))"

definition chn :: "FileStore \<Rightarrow> string \<Rightarrow> bool option" where
  "chn s = map_of (fs_decided s)"

text \<open>
  The invariant, in two parts: \<open>store_base\<close> (identifiers are unique and every
  request known in memory or on disk is well formed) also holds in the middle of
  an operation; \<open>store_inv\<close> adds that a decision in memory is on disk and that a
  waiter's channel is closed exactly when the request has left \<open>pending\<close>.
\<close>

definition store_base :: "FileStore \<Rightarrow> bool" where
  "store_base s = (distinct (map fst (fs_requests s)) \<and> distinct (map rq_ID (fs_disk s))
     \<and> (\<forall>k r. mem s k = Some r \<longrightarrow> rq_ID r = k \<and> request_ok r)
     \<and> (\<forall>k r. dsk s k = Some r \<longrightarrow> request_ok r))"

definition store_inv :: "FileStore \<Rightarrow> bool" where
  "store_inv s = (store_base s \<and> (\<forall>k r. mem s k = Some r \<longrightarrow> decided r \<longrightarrow> dsk s k = Some r)
     \<and> (\<forall>k. chn s k = map_option (\<lambda>r. rq_Status r \<noteq> StatusPending) (mem s k)))"

lemma map_of_filter_key:
  "map_of (filter (\<lambda>x. P (fst x)) xs) k = (if P k then map_of xs k else None)"
  by (induction xs) auto

lemma keyed_map_of:
  "distinct (map fst xs) \<Longrightarrow> (\<And>k r. map_of xs k = Some r \<Longrightarrow> f r = k) \<Longrightarrow> map (\<lambda>r. (f r, r)) (map snd xs) = xs"
proof (induction xs)
  case (Cons x xs)
  have "f (snd x) = fst x" using Cons.prems(2) [of "fst x" "snd x"] by (cases x) simp
  moreover have "map (\<lambda>r. (f r, r)) (map snd xs) = xs"
  proof (rule Cons.IH)
    show "distinct (map fst xs)" using Cons.prems(1) by simp
    fix k r assume "map_of xs k = Some r"
    moreover from this have "k \<noteq> fst x" using Cons.prems(1) by (auto dest: map_of_SomeD simp: rev_image_eqI)
    ultimately show "f r = k" using Cons.prems(2) [of k r] by (cases x) simp
  qed
  ultimately show ?case by (cases x) simp
qed simp

lemma fst_in_map_of: "distinct (map fst xs) \<Longrightarrow>
    k \<in> fst ` set (filter (\<lambda>x. P (snd x)) xs) \<longleftrightarrow> (\<exists>r. map_of xs k = Some r \<and> P r)"
  by (force simp: map_of_eq_Some_iff)

lemma mem_pruneLocked: "distinct (map fst (fs_requests s)) \<Longrightarrow>
    mem (pruneLocked s now) k = (case mem s k of None \<Rightarrow> None | Some r \<Rightarrow> if pruned r now then None else Some r)"
  using map_of_filter_val [of "fs_requests s" "\<lambda>r. \<not> pruned r now" k]
  by (simp add: mem_def pruneLocked_def Let_def split: option.splits)

lemma chn_pruneLocked: "distinct (map fst (fs_requests s)) \<Longrightarrow>
    chn (pruneLocked s now) k = (case mem s k of None \<Rightarrow> chn s k | Some r \<Rightarrow> if pruned r now then None else chn s k)"
  using map_of_filter_key [of "\<lambda>k. k \<notin> fst ` set (filter (\<lambda>x. pruned (snd x) now) (fs_requests s))"
      "fs_decided s" k]
    fst_in_map_of [of "fs_requests s" k "\<lambda>r. pruned r now"]
  by (cases "map_of (fs_requests s) k") (simp_all add: chn_def mem_def pruneLocked_def Let_def del: set_filter)

lemma distinct_pruneLocked: "distinct (map fst (fs_requests s)) \<Longrightarrow>
    distinct (map fst (fs_requests (pruneLocked s now)))"
  by (simp add: pruneLocked_def Let_def distinct_map_filter)

lemma snd_persist [simp]: "snd (persist s now wok) = wok"
  by (simp add: persist_def Let_def)

lemma mem_persist: "distinct (map fst (fs_requests s)) \<Longrightarrow>
    mem (fst (persist s now wok)) k = (case mem s k of None \<Rightarrow> None | Some r \<Rightarrow> if pruned r now then None else Some r)"
  using mem_pruneLocked [of s now k] by (simp add: persist_def Let_def mem_def)

lemma chn_persist: "distinct (map fst (fs_requests s)) \<Longrightarrow>
    chn (fst (persist s now wok)) k = (case mem s k of None \<Rightarrow> chn s k | Some r \<Rightarrow> if pruned r now then None else chn s k)"
  using chn_pruneLocked [of s now k] by (simp add: persist_def Let_def chn_def)

lemma distinct_persist: "distinct (map fst (fs_requests s)) \<Longrightarrow>
    distinct (map fst (fs_requests (fst (persist s now wok))))"
  using distinct_pruneLocked [of s now] by (simp add: persist_def Let_def)

lemma disk_persist_fail [simp]: "fs_disk (fst (persist s now False)) = fs_disk s"
  by (simp add: persist_def Let_def pruneLocked_def)

lemma disk_persist_ok: "fs_disk (fst (persist s now True)) = map snd (fs_requests (fst (persist s now True)))"
  by (simp add: persist_def Let_def pruneLocked_def)

lemma dsk_persist_fail [simp]: "dsk (fst (persist s now False)) = dsk s"
  by (simp add: dsk_def)

lemma dsk_persist_ok:
  assumes "distinct (map fst (fs_requests s))" and "\<And>k r. mem s k = Some r \<Longrightarrow> rq_ID r = k"
  shows "dsk (fst (persist s now True)) = mem (fst (persist s now True))"
    and "distinct (map rq_ID (fs_disk (fst (persist s now True))))"
proof -
  let ?s = "fst (persist s now True)"
  have "map (\<lambda>r. (rq_ID r, r)) (map snd (fs_requests ?s)) = fs_requests ?s"
  proof (rule keyed_map_of)
    show "distinct (map fst (fs_requests ?s))" by (rule distinct_persist) fact
    fix k r assume "map_of (fs_requests ?s) k = Some r"
    then have "mem s k = Some r"
      using mem_persist [OF assms(1), of now True k] by (auto simp: mem_def split: option.splits if_splits)
    then show "rq_ID r = k" by (rule assms(2))
  qed
  then have eq: "map (\<lambda>r. (rq_ID r, r)) (fs_disk ?s) = fs_requests ?s" by (simp add: disk_persist_ok)
  then show "dsk ?s = mem ?s" by (simp add: dsk_def mem_def)
  have "map rq_ID (fs_disk ?s) = map fst (fs_requests ?s)" by (simp flip: eq)
  then show "distinct (map rq_ID (fs_disk ?s))" using distinct_persist [OF assms(1), of now True] by simp
qed

lemma persist_base [inv_intro]: "store_base s \<Longrightarrow> store_base (fst (persist s now wok))"
  by (cases wok) (auto simp: store_base_def distinct_persist mem_persist dsk_persist_ok split: option.splits if_splits)

text \<open>Loading the file: memory is what the disk holds, and the channels follow the statuses.\<close>

lemma load_fields:
  "fs_disk (foldl load_request s rs) = fs_disk s"
  "fs_hasLookup (foldl load_request s rs) = fs_hasLookup s"
  "distinct (map fst (fs_requests s)) \<Longrightarrow> distinct (map fst (fs_requests (foldl load_request s rs)))"
  by (induction rs arbitrary: s) (auto simp: load_request_def distinct_update)

lemma load_mem: "distinct (map rq_ID rs) \<Longrightarrow>
    mem (foldl load_request s rs) = (mem s ++ map_of (map (\<lambda>r. (rq_ID r, r)) rs))"
proof (induction rs arbitrary: s)
  case Nil
  show ?case by simp
next
  case (Cons r rs)
  then have "map_of (map (\<lambda>r. (rq_ID r, r)) rs) (rq_ID r) = None"
    by (auto simp: map_of_eq_None_iff)
  with Cons show ?case
    by (auto simp: load_request_def mem_def update_conv' map_add_def fun_eq_iff split: option.splits)
qed

lemma load_chn: "(\<And>k. chn s k = map_option (\<lambda>r. rq_Status r \<noteq> StatusPending) (mem s k)) \<Longrightarrow>
    chn (foldl load_request s rs) k = map_option (\<lambda>r. rq_Status r \<noteq> StatusPending) (mem (foldl load_request s rs) k)"
  by (induction rs arbitrary: s) (auto simp: load_request_def chn_def mem_def update_conv')

lemma newFileStore_inv [inv_intro]:
  assumes "distinct (map rq_ID disk)" and "\<And>r. r \<in> set disk \<Longrightarrow> request_ok r"
  shows "store_inv (SetGroupLookup (newFileStore disk) b)"
    and "mem (SetGroupLookup (newFileStore disk) b) = map_of (map (\<lambda>r. (rq_ID r, r)) disk)"
    and "fs_disk (SetGroupLookup (newFileStore disk) b) = disk"
proof -
  let ?e = "\<lparr>fs_requests = [], fs_decided = [], fs_hasLookup = False, fs_disk = disk\<rparr>"
  have m: "mem (foldl load_request ?e disk) = map_of (map (\<lambda>r. (rq_ID r, r)) disk)"
    using load_mem [OF assms(1), of ?e] by (simp add: mem_def)
  then show "mem (SetGroupLookup (newFileStore disk) b) = map_of (map (\<lambda>r. (rq_ID r, r)) disk)"
    by (simp add: mem_def SetGroupLookup_def newFileStore_def)
  show "fs_disk (SetGroupLookup (newFileStore disk) b) = disk"
    by (simp add: SetGroupLookup_def newFileStore_def load_fields)
  have c: "chn (foldl load_request ?e disk) k = map_option (\<lambda>r. rq_Status r \<noteq> StatusPending) (mem (foldl load_request ?e disk) k)" for k
    by (rule load_chn) (simp add: chn_def mem_def)
  have "distinct (map fst (fs_requests (foldl load_request ?e disk)))" by (simp add: load_fields)
  then have "store_inv (foldl load_request ?e disk)"
    using m c assms by (auto simp: store_inv_def store_base_def dsk_def load_fields dest!: map_of_SomeD)
  then show "store_inv (SetGroupLookup (newFileStore disk) b)"
    by (simp add: store_inv_def store_base_def mem_def chn_def dsk_def SetGroupLookup_def newFileStore_def)
qed

text \<open>Each operation keeps the invariant.\<close>

text \<open>
  An operation on one request breaks the invariant for that request only, between
  its first write to memory and its end: \<open>store_but rid\<close> is the invariant elsewhere.
\<close>

definition store_but :: "string \<Rightarrow> FileStore \<Rightarrow> bool" where
  "store_but rid s = (store_base s
     \<and> (\<forall>k r. k \<noteq> rid \<longrightarrow> mem s k = Some r \<longrightarrow> decided r \<longrightarrow> dsk s k = Some r)
     \<and> (\<forall>k. k \<noteq> rid \<longrightarrow> chn s k = map_option (\<lambda>r. rq_Status r \<noteq> StatusPending) (mem s k))
     \<and> (chn s rid = None \<longleftrightarrow> mem s rid = None))"

lemma store_but_D:
  assumes "store_but rid s"
  shows "distinct (map fst (fs_requests s))" "\<And>k r. mem s k = Some r \<Longrightarrow> rq_ID r = k"
  using assms unfolding store_but_def store_base_def by blast+

lemma inv_but: "store_inv s \<Longrightarrow> store_but rid s"
  by (auto simp: store_inv_def store_but_def)

lemma but_full: "store_but rid s \<Longrightarrow>
    (\<And>r. mem s rid = Some r \<Longrightarrow> decided r \<Longrightarrow> dsk s rid = Some r) \<Longrightarrow>
    (\<And>r. mem s rid = Some r \<Longrightarrow> chn s rid = Some (rq_Status r \<noteq> StatusPending)) \<Longrightarrow> store_inv s"
  unfolding store_inv_def store_but_def 
proof (intro conjI allI impI, goal_cases)
  case (2 k r)
  then show ?case by (cases "k = rid") auto
next
  case (3 k)
  then show ?case by (cases "k = rid"; cases "mem s rid") auto
qed blast

lemma persist_but:
  assumes "store_but rid s"
  shows "store_but rid (fst (persist s now wok))"
proof -
  note d = store_but_D(1) [OF assms]
  have "store_base (fst (persist s now wok))" using assms by (intro persist_base) (simp add: store_but_def)
  moreover have "dsk (fst (persist s now wok)) k = Some r"
    if "mem (fst (persist s now wok)) k = Some r" "decided r" "k \<noteq> rid" for k r
  proof (cases wok)
    case True
    then show ?thesis using dsk_persist_ok(1) [OF d store_but_D(2) [OF assms]] that(1) by simp
  next
    case False
    from that(1) have "mem s k = Some r" by (simp add: mem_persist [OF d] split: option.splits if_splits)
    with assms that(2,3) have "dsk s k = Some r" unfolding store_but_def by blast
    with False show ?thesis by simp
  qed
  moreover have "chn (fst (persist s now wok)) k
      = map_option (\<lambda>r. rq_Status r \<noteq> StatusPending) (mem (fst (persist s now wok)) k)" if "k \<noteq> rid" for k
  proof -
    from assms that have "chn s k = map_option (\<lambda>r. rq_Status r \<noteq> StatusPending) (mem s k)"
      by (simp add: store_but_def)
    then show ?thesis by (simp add: mem_persist [OF d] chn_persist [OF d] split: option.splits)
  qed
  moreover have "chn s rid = None \<longleftrightarrow> mem s rid = None" using assms by (simp add: store_but_def)
  then have "chn (fst (persist s now wok)) rid = None \<longleftrightarrow> mem (fst (persist s now wok)) rid = None"
    by (simp add: mem_persist [OF d] chn_persist [OF d] split: option.splits)
  ultimately show ?thesis unfolding store_but_def by blast
qed

lemma mem_delete [simp]: "mem (s\<lparr>fs_requests := AList.delete k (fs_requests s)\<rparr>) = (mem s)(k := None)"
  by (simp add: mem_def delete_conv')

lemma mem_update [simp]: "mem (s\<lparr>fs_requests := AList.update k r (fs_requests s)\<rparr>) = (mem s)(k \<mapsto> r)"
  by (simp add: mem_def update_conv')

lemma dsk_requests [simp]: "dsk (s\<lparr>fs_requests := x\<rparr>) = dsk s" "dsk (s\<lparr>fs_requests := x, fs_decided := y\<rparr>) = dsk s"
    "dsk (s\<lparr>fs_decided := y\<rparr>) = dsk s"
  by (simp_all add: dsk_def)

lemma chn_requests [simp]: "chn (s\<lparr>fs_requests := x\<rparr>) = chn s"
  by (simp add: chn_def)

lemma mem_decided [simp]: "mem (s\<lparr>fs_decided := y\<rparr>) = mem s"
  by (simp add: mem_def)

lemma but_update: "store_but rid s \<Longrightarrow> request_ok r \<Longrightarrow> rq_ID r = rid \<Longrightarrow> chn s rid \<noteq> None \<Longrightarrow>
    store_but rid (s\<lparr>fs_requests := AList.update rid r (fs_requests s)\<rparr>)"
  by (auto simp: store_but_def store_base_def distinct_update)

lemma but_insert:
  assumes "store_but rid s" "request_ok r" "rq_ID r = rid"
  shows "store_but rid (s\<lparr>fs_requests := AList.update rid r (fs_requests s),
           fs_decided := AList.update rid b (fs_decided s)\<rparr>)"
proof -
  have c: "chn (s\<lparr>fs_requests := x, fs_decided := AList.update rid b (fs_decided s)\<rparr>) = (chn s)(rid \<mapsto> b)" for x
    by (simp add: chn_def update_conv')
  show ?thesis using assms by (auto simp: store_but_def store_base_def distinct_update c)
qed

lemma but_delete:
  assumes "store_but rid s"
  shows "store_inv (s\<lparr>fs_requests := AList.delete rid (fs_requests s),
           fs_decided := AList.delete rid (fs_decided s)\<rparr>)"
proof -
  have c: "chn (s\<lparr>fs_requests := x, fs_decided := AList.delete rid (fs_decided s)\<rparr>) = (chn s)(rid := None)" for x
    by (simp add: chn_def delete_conv')
  show ?thesis using assms by (auto simp: store_but_def store_inv_def store_base_def distinct_delete c)
qed

lemma mem_closeDecided [simp]: "mem (closeDecided s rid) = mem s"
  by (simp add: closeDecided_def split: option.splits)

lemma dsk_closeDecided [simp]: "dsk (closeDecided s rid) = dsk s"
  by (simp add: closeDecided_def split: option.splits)

lemma fs_disk_closeDecided [simp]: "fs_disk (closeDecided s rid) = fs_disk s" "fs_requests (closeDecided s rid) = fs_requests s"
  by (simp_all add: closeDecided_def split: option.splits)

lemma chn_closeDecided: "chn (closeDecided s rid) = (case chn s rid of None \<Rightarrow> chn s | Some _ \<Rightarrow> (chn s)(rid \<mapsto> True))"
  by (simp add: closeDecided_def chn_def update_conv' split: option.splits)

lemma but_close: "store_but rid s \<Longrightarrow>
    (\<And>r. mem s rid = Some r \<Longrightarrow> rq_Status r \<noteq> StatusPending \<and> (decided r \<longrightarrow> dsk s rid = Some r)) \<Longrightarrow>
    store_inv (closeDecided s rid)"
  by (rule but_full [of rid])
    (auto simp: store_but_def store_base_def chn_closeDecided split: option.splits)

lemma fs_Create_inv [inv_intro]:
  assumes inv: "store_inv s"
  shows "store_inv (fst (fs_Create s req ttl newid t1 t2 wok))"
proof -
  define r where "r = req\<lparr>rq_ID := newid, rq_Status := StatusPending, rq_Approver := [], rq_CreatedAt := t1,
       rq_ExpiresAt := time_add t1 (if ttl \<le> 0 then 15 * Minute else ttl), rq_DecidedAt := 0,
       rq_Kind := (if rq_Kind req = [] then KindSession else rq_Kind req)\<rparr>"
  define s1 where "s1 = s\<lparr>fs_requests := AList.update newid r (fs_requests s),
       fs_decided := AList.update newid False (fs_decided s)\<rparr>"
  have "store_but newid s1" unfolding s1_def
    by (intro but_insert inv_but [OF inv]) (simp_all add: r_def request_ok_def)
  then have b: "store_but newid (fst (persist s1 t2 wok))" by (rule persist_but)
  have d: "distinct (map fst (fs_requests s1))" using \<open>store_but newid s1\<close> by (rule store_but_D)
  have "mem s1 newid = Some r" "chn s1 newid = Some False"
    by (simp_all add: s1_def mem_def chn_def update_conv')
  then have full: "store_inv (fst (persist s1 t2 wok))"
    by (intro but_full [OF b])
      (auto simp: mem_persist [OF d] chn_persist [OF d] r_def decided_def split: if_splits)
  show ?thesis
    using full but_delete [OF b]
    by (cases wok; cases "persist s1 t2 wok")
       (auto simp: fs_Create_def Let_def r_def s1_def persist_def)
qed

lemma decide_commit_inv [inv_intro]:
  assumes inv: "store_inv s" and r: "mem s rid = Some r" and pend: "rq_Status r = StatusPending"
    and fe: "four_eyes approver r" and st: "status = StatusApproved \<or> status = StatusDenied"
  shows "store_inv (fst (decide_commit s rid approver status t3 t4 wok))"
proof -
  define r' where "r' = r\<lparr>rq_Status := status, rq_Approver := approver, rq_DecidedAt := t3\<rparr>"
  define rolled where "rolled = r'\<lparr>rq_Status := StatusPending, rq_Approver := [], rq_DecidedAt := 0\<rparr>"
  define s1 where "s1 = s\<lparr>fs_requests := AList.update rid r' (fs_requests s)\<rparr>"
  have k: "rq_ID r = rid" using inv r by (simp add: store_inv_def store_base_def)
  have c: "chn s rid = Some False" using inv r pend by (simp add: store_inv_def)
  have b1: "store_but rid s1" unfolding s1_def
    by (intro but_update inv_but [OF inv])
      (use k c st fe in \<open>auto simp: r'_def request_ok_def four_eyes_def decided_def\<close>)
  then have b: "store_but rid (fst (persist s1 t4 wok))" by (rule persist_but)
  have d: "distinct (map fst (fs_requests s1))" using b1 by (rule store_but_D)
  have m1: "mem s1 rid = Some r'" and c1: "chn s1 rid = Some False" using c by (simp_all add: s1_def)
  show ?thesis
  proof (cases wok)
    case True
    have "store_inv (closeDecided (fst (persist s1 t4 True)) rid)"
      using b True dsk_persist_ok(1) [OF d store_but_D(2) [OF b1], of t4] st
      by (intro but_close) (auto simp: mem_persist [OF d] m1 r'_def split: if_splits)
    then show ?thesis using True r
      by (auto simp: decide_commit_def Let_def mem_def r'_def s1_def persist_def)
  next
    case False
    let ?s2 = "fst (persist s1 t4 False)"
    show ?thesis
    proof (cases "mem ?s2 rid")
      case None
      have "store_inv ?s2" using b False None by (intro but_full [of rid]) auto
      then show ?thesis using False None r
        by (auto simp: decide_commit_def Let_def mem_def r'_def s1_def persist_def)
    next
      case (Some x)
      then have c2: "chn ?s2 rid = Some False"
        by (auto simp: mem_persist [OF d] chn_persist [OF d] m1 c1 split: if_splits)
      have "store_inv (?s2\<lparr>fs_requests := AList.update rid rolled (fs_requests ?s2)\<rparr>)"
      proof (rule but_full)
        show "store_but rid (?s2\<lparr>fs_requests := AList.update rid rolled (fs_requests ?s2)\<rparr>)"
          using b False c2 k by (intro but_update) (auto simp: rolled_def r'_def request_ok_def)
      qed (auto simp: c2 rolled_def decided_def)
      then show ?thesis using False Some r
        by (auto simp: decide_commit_def Let_def mem_def r'_def s1_def rolled_def persist_def)
    qed
  qed
qed

lemma wait_expire_inv [inv_intro]:
  assumes inv: "store_inv s"
  shows "store_inv (wait_expire s rid t1 t2 wok)"
proof (cases "mem s rid")
  case None
  with inv show ?thesis by (simp add: wait_expire_def mem_def)
next
  case (Some r)
  show ?thesis
  proof (cases "rq_Status r = StatusPending")
    case False
    with Some inv show ?thesis by (simp add: wait_expire_def mem_def)
  next
    case True
    let ?r' = "r\<lparr>rq_Status := StatusExpired, rq_DecidedAt := t1\<rparr>"
    let ?s1 = "s\<lparr>fs_requests := AList.update rid ?r' (fs_requests s)\<rparr>"
    have k: "rq_ID r = rid" and c: "chn s rid \<noteq> None"
      using inv Some by (auto simp: store_inv_def store_base_def)
    have b1: "store_but rid ?s1"
      by (intro but_update inv_but [OF inv]) (use k c in \<open>auto simp: request_ok_def decided_def\<close>)
    have d: "distinct (map fst (fs_requests ?s1))" using b1 by (rule store_but_D)
    have "store_inv (closeDecided (fst (persist ?s1 t2 wok)) rid)"
      by (intro but_close persist_but b1) (auto simp: mem_persist [OF d] decided_def split: if_splits)
    with Some True show ?thesis by (simp add: wait_expire_def mem_def)
  qed
qed

lemma decide_check_D:
  assumes "decide_check s rid approver status t = n" "n = Commit \<or> n = Lookup groups"
  obtains r where "mem s rid = Some r" "rq_Status r = StatusPending" "\<not> After t (rq_ExpiresAt r)" "four_eyes approver r"
    "n = Lookup groups \<Longrightarrow> groups = rq_RequesterGroups r"
    "n = Commit \<Longrightarrow> \<not> (status = StatusApproved \<and> rq_Kind r = KindQuarantineRelease \<and> rq_RequesterGroups r \<noteq> [] \<and> fs_hasLookup s)"
  using assms that
  by (auto simp: decide_check_def mem_def four_eyes_def EffectiveStatus_def split: option.splits if_splits)

lemma decide_recheck_D:
  assumes "decide_recheck s rid t = None"
  obtains r where "mem s rid = Some r" "rq_Status r = StatusPending" "\<not> After t (rq_ExpiresAt r)"
  using assms that by (auto simp: decide_recheck_def mem_def EffectiveStatus_def split: option.splits if_splits)

section \<open>What an operation leaves alone\<close>

definition same_request :: "ApprovalRequest \<Rightarrow> ApprovalRequest \<Rightarrow> bool" where
  "same_request r r' = (rq_ID r' = rq_ID r \<and> rq_Kind r' = rq_Kind r \<and> rq_Requester r' = rq_Requester r
     \<and> rq_Subject r' = rq_Subject r \<and> rq_RequesterGroups r' = rq_RequesterGroups r
     \<and> rq_CreatedAt r' = rq_CreatedAt r \<and> rq_ExpiresAt r' = rq_ExpiresAt r)"

lemma same_request_four_eyes: "same_request r r' \<Longrightarrow> four_eyes a r' = four_eyes a r"
  by (simp add: same_request_def four_eyes_def)

lemma persist_frame:
  assumes "store_base s"
  shows "mem (fst (persist s now wok)) k = Some r \<Longrightarrow> mem s k = Some r"
    and "dsk (fst (persist s now wok)) k = Some r \<Longrightarrow> dsk s k = Some r \<or> mem (fst (persist s now wok)) k = Some r"
proof -
  have d: "distinct (map fst (fs_requests s))" and i: "\<And>k r. mem s k = Some r \<Longrightarrow> rq_ID r = k"
    using assms by (auto simp: store_base_def)
  show "mem (fst (persist s now wok)) k = Some r \<Longrightarrow> mem s k = Some r"
    by (auto simp: mem_persist [OF d] split: option.splits if_splits)
  show "dsk (fst (persist s now wok)) k = Some r \<Longrightarrow> dsk s k = Some r \<or> mem (fst (persist s now wok)) k = Some r"
    by (cases wok) (use dsk_persist_ok(1) [OF d i] in simp_all)
qed

lemma update_base: "store_inv s \<Longrightarrow> request_ok r \<Longrightarrow> rq_ID r = k \<Longrightarrow>
    store_base (s\<lparr>fs_requests := AList.update k r (fs_requests s)\<rparr>)"
  by (auto simp: store_inv_def store_base_def distinct_update)

lemma base_decided [simp]: "store_base (s\<lparr>fs_decided := x\<rparr>) = store_base s"
  by (simp add: store_base_def)

lemma fs_Create_frame:
  assumes "store_inv s" "k \<noteq> newid"
  shows "mem (fst (fs_Create s req ttl newid t1 t2 wok)) k = Some r \<Longrightarrow> mem s k = Some r"
    and "dsk (fst (fs_Create s req ttl newid t1 t2 wok)) k = Some r \<Longrightarrow> dsk s k = Some r \<or> mem s k = Some r"
proof -
  define q where "q = req\<lparr>rq_ID := newid, rq_Status := StatusPending, rq_Approver := [], rq_CreatedAt := t1,
       rq_ExpiresAt := time_add t1 (if ttl \<le> 0 then 15 * Minute else ttl), rq_DecidedAt := 0,
       rq_Kind := (if rq_Kind req = [] then KindSession else rq_Kind req)\<rparr>"
  define s1 where "s1 = s\<lparr>fs_requests := AList.update newid q (fs_requests s),
       fs_decided := AList.update newid False (fs_decided s)\<rparr>"
  have b: "store_base s1" unfolding s1_def base_decided
    by (intro update_base assms) (simp_all add: q_def request_ok_def)
  have m: "mem s1 = (mem s)(newid \<mapsto> q)" and dk: "dsk s1 = dsk s"
    by (simp_all add: s1_def)
  let ?s2 = "fst (persist s1 t2 wok)"
  have "fst (fs_Create s req ttl newid t1 t2 wok) =
      (if wok then ?s2 else ?s2\<lparr>fs_requests := AList.delete newid (fs_requests ?s2), fs_decided := AList.delete newid (fs_decided ?s2)\<rparr>)"
    by (simp add: fs_Create_def Let_def persist_def q_def s1_def)
  then have m2: "mem (fst (fs_Create s req ttl newid t1 t2 wok)) k = mem ?s2 k"
    and d2: "dsk (fst (fs_Create s req ttl newid t1 t2 wok)) k = dsk ?s2 k"
    using assms(2) by auto
  show "mem (fst (fs_Create s req ttl newid t1 t2 wok)) k = Some r \<Longrightarrow> mem s k = Some r"
    using persist_frame(1) [OF b, of t2 wok k r] assms(2) by (simp add: m2 m)
  show "dsk (fst (fs_Create s req ttl newid t1 t2 wok)) k = Some r \<Longrightarrow> dsk s k = Some r \<or> mem s k = Some r"
    using persist_frame [OF b, of t2 wok k r] assms(2) by (auto simp: d2 dk m)
qed

lemma decide_commit_cases:
  fixes status :: Status and approver :: string and t3 t4 :: time and wok :: bool
  assumes "mem s rid = Some r"
  defines "r' \<equiv> r\<lparr>rq_Status := status, rq_Approver := approver, rq_DecidedAt := t3\<rparr>"
  defines "s2 \<equiv> fst (persist (s\<lparr>fs_requests := AList.update rid r' (fs_requests s)\<rparr>) t4 wok)"
  shows "decide_commit s rid approver status t3 t4 wok =
    (if wok then (closeDecided s2 rid, Inr r')
     else (if mem s2 rid = None then s2
           else s2\<lparr>fs_requests := AList.update rid (r\<lparr>rq_Status := StatusPending, rq_Approver := [], rq_DecidedAt := 0\<rparr>) (fs_requests s2)\<rparr>,
           Inl ErrStoreUnavailable))"
  using assms(1) by (simp add: decide_commit_def mem_def r'_def s2_def persist_def Let_def)

lemma decide_commit_frame:
  fixes t3 t4 :: time and wok :: bool
  assumes inv: "store_inv s" and r: "mem s rid = Some r" and fe: "four_eyes approver r"
    and st: "status = StatusApproved \<or> status = StatusDenied"
  defines "s' \<equiv> fst (decide_commit s rid approver status t3 t4 wok)"
  shows "k \<noteq> rid \<Longrightarrow> mem s' k = Some q \<Longrightarrow> mem s k = Some q"
    and "mem s' rid = Some q \<Longrightarrow> same_request r q"
    and "dsk s' k = Some q \<Longrightarrow> dsk s k = Some q \<or> mem s' k = Some q"
proof -
  define r' where "r' = r\<lparr>rq_Status := status, rq_Approver := approver, rq_DecidedAt := t3\<rparr>"
  define s1 where "s1 = s\<lparr>fs_requests := AList.update rid r' (fs_requests s)\<rparr>"
  have "rq_ID r = rid" using inv r by (simp add: store_inv_def store_base_def)
  then have b: "store_base s1" unfolding s1_def
    by (intro update_base inv) (use st fe in \<open>auto simp: r'_def request_ok_def four_eyes_def decided_def\<close>)
  note c = decide_commit_cases [OF r, of approver status t3 t4 wok, folded r'_def, folded s1_def]
  note f = persist_frame [OF b, of t4 wok]
  have m: "mem s1 = (mem s)(rid \<mapsto> r')" by (simp add: s1_def)
  show "k \<noteq> rid \<Longrightarrow> mem s' k = Some q \<Longrightarrow> mem s k = Some q"
    using f(1) [of k q] by (auto simp: s'_def c m split: if_splits)
  show "mem s' rid = Some q \<Longrightarrow> same_request r q"
    using f(1) [of rid q] by (auto simp: s'_def c m r'_def same_request_def split: if_splits)
  show "dsk s' k = Some q \<Longrightarrow> dsk s k = Some q \<or> mem s' k = Some q"
    using f(2) [of k q] c by (cases wok) (auto simp: s'_def s1_def split: if_splits)
qed

lemma wait_expire_frame:
  fixes rid :: string and t1 t2 :: time and wok :: bool
  assumes inv: "store_inv s"
  defines "s' \<equiv> wait_expire s rid t1 t2 wok"
  shows "mem s' k = Some q \<Longrightarrow> \<exists>r. mem s k = Some r \<and> same_request r q \<and> (rq_Status r \<noteq> StatusPending \<longrightarrow> q = r)"
    and "dsk s' k = Some q \<Longrightarrow> dsk s k = Some q \<or> mem s' k = Some q"
proof -
  consider (same) "s' = s"
    | (exp) r where "mem s rid = Some r" "rq_Status r = StatusPending"
      "s' = closeDecided (fst (persist (s\<lparr>fs_requests := AList.update rid (r\<lparr>rq_Status := StatusExpired, rq_DecidedAt := t1\<rparr>) (fs_requests s)\<rparr>) t2 wok)) rid"
  proof (cases "mem s rid")
    case None
    then show ?thesis using same by (simp add: s'_def wait_expire_def mem_def)
  next
    case (Some r)
    then show ?thesis
      by (cases "rq_Status r = StatusPending") (use same exp in \<open>simp_all add: s'_def wait_expire_def mem_def\<close>)
  qed
  note cs = this
  have "(mem s' k = Some q \<longrightarrow> (\<exists>r. mem s k = Some r \<and> same_request r q \<and> (rq_Status r \<noteq> StatusPending \<longrightarrow> q = r)))
      \<and> (dsk s' k = Some q \<longrightarrow> dsk s k = Some q \<or> mem s' k = Some q)"
    using cs
  proof cases
    case same
    then show ?thesis by (simp add: same_request_def)
  next
    case (exp r)
    let ?q = "r\<lparr>rq_Status := StatusExpired, rq_DecidedAt := t1\<rparr>"
    have "rq_ID r = rid" using inv exp(1) by (simp add: store_inv_def store_base_def)
    then have b: "store_base (s\<lparr>fs_requests := AList.update rid ?q (fs_requests s)\<rparr>)"
      by (intro update_base inv) (simp_all add: request_ok_def decided_def)
    show ?thesis using persist_frame [OF b, of t2 wok k q] exp by (auto simp: same_request_def split: if_splits)
  qed
  then show "mem s' k = Some q \<Longrightarrow> \<exists>r. mem s k = Some r \<and> same_request r q \<and> (rq_Status r \<noteq> StatusPending \<longrightarrow> q = r)"
    and "dsk s' k = Some q \<Longrightarrow> dsk s k = Some q \<or> mem s' k = Some q" by blast+
qed

section \<open>The invariant of the system\<close>

definition call_ok :: "FileStore \<Rightarrow> string \<times> string \<times> string list \<Rightarrow> bool" where
  "call_ok s c = (case c of (rid, approver, groups) \<Rightarrow>
     (\<forall>r. mem s rid = Some r \<longrightarrow> four_eyes approver r \<and> groups = rq_RequesterGroups r))"

definition sys_inv :: "appr_sys \<Rightarrow> bool" where
  "sys_inv s = (store_inv (as_store s) \<and> (\<forall>c\<in>set (as_inflight s). fst c \<in> set (as_issued s) \<and> call_ok (as_store s) c)
     \<and> (\<forall>k r. mem (as_store s) k = Some r \<or> dsk (as_store s) k = Some r \<longrightarrow> k \<in> set (as_issued s)))"

lemma call_ok_frame:
  assumes "call_ok s c" "\<And>q. mem s' (fst c) = Some q \<Longrightarrow> \<exists>r. mem s (fst c) = Some r \<and> same_request r q"
  shows "call_ok s' c"
  using assms by (cases c) (fastforce simp: call_ok_def same_request_def four_eyes_def)

lemma sys_store:
  assumes inv: "sys_inv s" and st: "store_inv st"
    and calls: "set calls \<subseteq> set (as_inflight s)"
    and m: "\<And>k q. mem st k = Some q \<Longrightarrow> \<exists>r. mem (as_store s) k = Some r \<and> same_request r q"
    and d: "\<And>k q. dsk st k = Some q \<Longrightarrow> dsk (as_store s) k = Some q \<or> mem st k = Some q"
  shows "sys_inv (s\<lparr>as_store := st, as_inflight := calls\<rparr>)"
proof -
  have "call_ok st c" if "c \<in> set calls" for c
    by (rule call_ok_frame [of "as_store s"]) (use inv that calls m in \<open>auto simp: sys_inv_def\<close>)
  moreover have "k \<in> set (as_issued s)" if "mem st k = Some r \<or> dsk st k = Some r" for k r
    using inv m [of k r] d [of k r] that unfolding sys_inv_def by blast
  ultimately show ?thesis using inv st calls by (auto simp: sys_inv_def)
qed

lemma same_request_refl [simp]: "same_request r r"
  by (simp add: same_request_def)

lemma commit_mem_frame:
  assumes "store_inv s" "mem s rid = Some r" "four_eyes approver r" "status = StatusApproved \<or> status = StatusDenied"
    and "mem (fst (decide_commit s rid approver status t3 t4 wok)) k = Some q"
  shows "\<exists>r. mem s k = Some r \<and> same_request r q"
  using decide_commit_frame(1,2) [OF assms(1-4)] assms(2,5) by (cases "k = rid") fastforce+

lemma disk_request_ok:
  assumes "store_base s" "r \<in> set (fs_disk s)"
  shows "request_ok r"
proof -
  have "distinct (map fst (map (\<lambda>r. (rq_ID r, r)) (fs_disk s)))"
    using assms(1) by (simp add: store_base_def comp_def)
  then have "dsk s (rq_ID r) = Some r" using assms(2) by (simp add: dsk_def)
  with assms(1) show ?thesis by (auto simp: store_base_def)
qed

lemma sys_commit:
  assumes inv: "sys_inv s" and r: "mem (as_store s) rid = Some r" "rq_Status r = StatusPending" "four_eyes approver r"
    and st: "status = StatusApproved \<or> status = StatusDenied" and calls: "set calls \<subseteq> set (as_inflight s)"
  shows "sys_inv (s\<lparr>as_store := fst (decide_commit (as_store s) rid approver status t3 t4 wok), as_inflight := calls\<rparr>)"
proof -
  have i: "store_inv (as_store s)" using inv by (simp add: sys_inv_def)
  show ?thesis
    by (rule sys_store [OF inv decide_commit_inv [OF i r st] calls])
      (rule commit_mem_frame [OF i r(1,3) st], assumption,
       rule decide_commit_frame(3) [OF i r(1,3) st], assumption)
qed

lemma appr_step_inv: "appr_step s s' \<Longrightarrow> sys_inv s \<Longrightarrow> sys_inv s'"
proof (induction rule: appr_step.induct)
  case (step_create newid s req ttl t1 t2 wok)
  let ?st = "fst (fs_Create (as_store s) req ttl newid t1 t2 wok)"
  have st: "store_inv (as_store s)" using step_create(2) by (simp add: sys_inv_def)
  note f = fs_Create_frame [OF st, of _ newid req ttl t1 t2 wok]
  have c: "call_ok ?st c" if "c \<in> set (as_inflight s)" for c
  proof (rule call_ok_frame [of "as_store s"])
    show "call_ok (as_store s) c" using that step_create(2) by (auto simp: sys_inv_def)
    have "fst c \<noteq> newid" using that step_create by (auto simp: sys_inv_def)
    then show "\<exists>r. mem (as_store s) (fst c) = Some r \<and> same_request r q" if "mem ?st (fst c) = Some q" for q
      using f(1) that by auto
  qed
  have "k = newid \<or> k \<in> set (as_issued s)" if "mem ?st k = Some r \<or> dsk ?st k = Some r" for k r
    using step_create(2) f [of k r] that unfolding sys_inv_def by blast
  then show ?case using c step_create(2) by (auto simp: sys_inv_def intro: fs_Create_inv)
next
  case (step_decide s rid approver status t1 t3 t4 wok)
  from step_decide(1) obtain r where r: "mem (as_store s) rid = Some r" "rq_Status r = StatusPending" "four_eyes approver r"
    by (rule decide_check_D) auto
  have "sys_inv (s\<lparr>as_store := fst (decide_commit (as_store s) rid approver status t3 t4 wok), as_inflight := as_inflight s\<rparr>)"
    by (rule sys_commit [OF step_decide(3) r step_decide(2) order_refl])
  then show ?case by simp
next
  case (step_release_lock s rid approver t1 groups)
  then obtain r where "mem (as_store s) rid = Some r" "four_eyes approver r" "groups = rq_RequesterGroups r"
    by (auto elim: decide_check_D)
  with step_release_lock(2) show ?case by (auto simp: sys_inv_def call_ok_def)
next
  case (step_abandon s call)
  then show ?case by (auto simp: sys_inv_def)
next
  case (step_relock rid approver groups s answer t2 t3 t4 wok)
  from step_relock(3) obtain r where r: "mem (as_store s) rid = Some r" "rq_Status r = StatusPending"
    by (rule decide_recheck_D)
  with step_relock have fe: "four_eyes approver r" by (auto simp: sys_inv_def call_ok_def)
  show ?case
    by (rule sys_commit [OF step_relock(4) r fe]) (simp_all add: set_remove1_subset)
next
  case (step_timer s rid t1 t2 wok)
  have st: "store_inv (as_store s)" using step_timer by (simp add: sys_inv_def)
  have "sys_inv (s\<lparr>as_store := wait_expire (as_store s) rid t1 t2 wok, as_inflight := as_inflight s\<rparr>)"
    by (intro sys_store wait_expire_inv step_timer st) (use wait_expire_frame [OF st] in \<open>blast+\<close>)
  then show ?case by simp
next
  case (step_restart s b)
  have b: "store_base (as_store s)" using step_restart by (simp add: sys_inv_def store_inv_def)
  then have d: "distinct (map rq_ID (fs_disk (as_store s)))" by (simp add: store_base_def)
  note n = newFileStore_inv [OF d disk_request_ok [OF b], of b]
  have "dsk (SetGroupLookup (newFileStore (fs_disk (as_store s))) b) = dsk (as_store s)"
    "mem (SetGroupLookup (newFileStore (fs_disk (as_store s))) b) = dsk (as_store s)"
    using n(2,3) by (simp_all add: dsk_def)
  then show ?case using step_restart n(1) by (auto simp: sys_inv_def)
qed

lemma appr_init_inv: "sys_inv (appr_init b)"
  using newFileStore_inv(1) [of "[]" b]
  by (simp add: sys_inv_def appr_init_def mem_def dsk_def newFileStore_def SetGroupLookup_def)

lemma appr_reach_inv: "appr_step\<^sup>*\<^sup>* s s' \<Longrightarrow> sys_inv s \<Longrightarrow> sys_inv s'"
  by (induction rule: rtranclp_induct) (auto intro: appr_step_inv)

text \<open>A decided request, once in the store, is the only thing its identifier can stand for.\<close>

definition settled :: "string \<Rightarrow> ApprovalRequest \<Rightarrow> appr_sys \<Rightarrow> bool" where
  "settled rid r s = (\<forall>q. mem (as_store s) rid = Some q \<or> dsk (as_store s) rid = Some q \<longrightarrow> q = r)"

lemma settled_store:
  "settled rid r (s\<lparr>as_store := st\<rparr>) = (\<forall>q. mem st rid = Some q \<or> dsk st rid = Some q \<longrightarrow> q = r)"
  "settled rid r (s\<lparr>as_store := st, as_inflight := c\<rparr>) = (\<forall>q. mem st rid = Some q \<or> dsk st rid = Some q \<longrightarrow> q = r)"
  by (simp_all add: settled_def)

lemma commit_settled:
  assumes inv: "store_inv st" and c: "mem st rid = Some p" "rq_Status p = StatusPending" "four_eyes approver p"
    and status: "status = StatusApproved \<or> status = StatusDenied"
    and set: "\<forall>q. mem st k = Some q \<or> dsk st k = Some q \<longrightarrow> q = r" and dec: "decided r"
  shows "\<forall>q. mem (fst (decide_commit st rid approver status t3 t4 wok)) k = Some q
    \<or> dsk (fst (decide_commit st rid approver status t3 t4 wok)) k = Some q \<longrightarrow> q = r"
proof -
  have "k \<noteq> rid" using set c dec by (auto simp: decided_def)
  then show ?thesis
    using decide_commit_frame(1,3) [OF inv c(1,3) status, where k = k] set by blast
qed

lemma appr_step_settled:
  "appr_step s s' \<Longrightarrow> sys_inv s \<Longrightarrow> rid \<in> set (as_issued s) \<Longrightarrow> settled rid r s \<Longrightarrow> decided r
    \<Longrightarrow> rid \<in> set (as_issued s') \<and> settled rid r s'"
proof (induction rule: appr_step.induct)
  case (step_create newid s req ttl t1 t2 wok)
  have "store_inv (as_store s)" "rid \<noteq> newid" using step_create by (auto simp: sys_inv_def)
  note f = fs_Create_frame [OF this, of req ttl t1 t2 wok]
  have "q = r" if "mem (fst (fs_Create (as_store s) req ttl newid t1 t2 wok)) rid = Some q
      \<or> dsk (fst (fs_Create (as_store s) req ttl newid t1 t2 wok)) rid = Some q" for q
    using that f [of q] step_create(4) unfolding settled_def by blast
  then show ?case using step_create(3) by (simp add: settled_def)
next
  case (step_decide s rd approver status t1 t3 t4 wok)
  have st: "store_inv (as_store s)" using step_decide by (simp add: sys_inv_def)
  from step_decide(1) obtain p where "mem (as_store s) rd = Some p" "rq_Status p = StatusPending" "four_eyes approver p"
    by (rule decide_check_D) auto
  note * = commit_settled [OF st this step_decide(2) step_decide(5) [unfolded settled_def] step_decide(6)]
  show ?case by (rule conjI, use step_decide(4) in simp, unfold settled_store, rule *)
next
  case (step_relock rd approver groups s answer t2 t3 t4 wok)
  have st: "store_inv (as_store s)" using step_relock by (simp add: sys_inv_def)
  from step_relock(3) obtain p where p: "mem (as_store s) rd = Some p" "rq_Status p = StatusPending"
    by (rule decide_recheck_D)
  with step_relock have "four_eyes approver p" by (auto simp: sys_inv_def call_ok_def)
  note * = commit_settled [OF st p this disjI1 [OF refl] step_relock(6) [unfolded settled_def] step_relock(7)]
  show ?case by (rule conjI, use step_relock(5) in simp, unfold settled_store, rule *)
next
  case (step_timer s rd t1 t2 wok)
  have st: "store_inv (as_store s)" using step_timer by (simp add: sys_inv_def)
  have "q = r" if "mem (wait_expire (as_store s) rd t1 t2 wok) rid = Some q" for q
    using wait_expire_frame(1) [OF st that] step_timer(3,4) by (auto simp: settled_def decided_def)
  then show ?case using wait_expire_frame(2) [OF st, of rd t1 t2 wok rid] step_timer(2,3)
    by (fastforce simp: settled_def)
next
  case (step_restart s b)
  have b: "store_base (as_store s)" using step_restart by (simp add: sys_inv_def store_inv_def)
  then have "distinct (map rq_ID (fs_disk (as_store s)))" by (simp add: store_base_def)
  note n = newFileStore_inv [OF this disk_request_ok [OF b], of b]
  show ?case using step_restart n(2,3) by (simp add: settled_def dsk_def)
qed (simp_all add: settled_def)

lemma appr_reach_settled:
  "appr_step\<^sup>*\<^sup>* s s' \<Longrightarrow> sys_inv s \<Longrightarrow> rid \<in> set (as_issued s) \<Longrightarrow> settled rid r s \<Longrightarrow> decided r \<Longrightarrow> settled rid r s'"
proof -
  assume "appr_step\<^sup>*\<^sup>* s s'" and a: "sys_inv s" "rid \<in> set (as_issued s)" "settled rid r s" "decided r"
  from this(1) have "sys_inv s' \<and> rid \<in> set (as_issued s') \<and> settled rid r s'"
    by (induction rule: rtranclp_induct) (use a in \<open>auto dest: appr_step_settled intro: appr_step_inv\<close>)
  then show ?thesis by simp
qed

lemma fs_Get_mem: "fs_Get s rid now = map_option (\<lambda>r. r\<lparr>rq_Status := EffectiveStatus r now\<rparr>) (mem s rid)"
  by (simp add: fs_Get_def mem_def)

lemma fs_Get_decided:
  "fs_Get s rid now = Some r \<Longrightarrow> decided r \<Longrightarrow> mem s rid = Some r"
  by (cases "mem s rid") (auto simp: fs_Get_mem decided_def EffectiveStatus_def split: if_splits)

lemma decided_Get: "mem s rid = Some r \<Longrightarrow> decided r \<Longrightarrow> fs_Get s rid now = Some r"
  by (auto simp: fs_Get_mem decided_def EffectiveStatus_def)

lemma wait_expire_not_pending:
  assumes inv: "store_inv s" and q: "mem (wait_expire s rid t1 t2 wok) rid = Some q"
  shows "rq_Status q \<noteq> StatusPending"
proof -
  obtain r where r: "mem s rid = Some r" using wait_expire_frame(1) [OF inv q] by blast
  show ?thesis
  proof (cases "rq_Status r = StatusPending")
    case True
    let ?q = "r\<lparr>rq_Status := StatusExpired, rq_DecidedAt := t1\<rparr>"
    have "rq_ID r = rid" using inv r by (simp add: store_inv_def store_base_def)
    then have "store_base (s\<lparr>fs_requests := AList.update rid ?q (fs_requests s)\<rparr>)"
      by (intro update_base inv) (simp_all add: request_ok_def decided_def)
    from persist_frame(1) [OF this, of t2 wok rid q] q r True show ?thesis
      by (auto simp: wait_expire_def mem_def [symmetric])
  next
    case False
    then show ?thesis using wait_expire_frame(1) [OF inv q] r by auto
  qed
qed

lemma Approved_decided: "Approved r now \<longleftrightarrow> rq_Status r = StatusApproved"
  by (auto simp: Approved_def EffectiveStatus_def)

section \<open>The contract the data path relies on\<close>

text \<open>
  What a client of the \<^verbatim>\<open>Store\<close> interface may rely on, whatever other callers do:
  a request reported approved was approved by a second person.  The gate reads
  the final request that \<open>Wait\<close> returns, a missing one being the zero request.
\<close>

locale approval_store =
  fixes get :: "'s \<Rightarrow> string \<Rightarrow> time \<Rightarrow> ApprovalRequest option"
    and step :: "'s \<Rightarrow> 's \<Rightarrow> bool"
    and invar :: "'s \<Rightarrow> bool"
  assumes step_invar: "step s s' \<Longrightarrow> invar s \<Longrightarrow> invar s'"
    and get_four_eyes: "invar s \<Longrightarrow> get s rid now = Some r \<Longrightarrow> rq_Status r = StatusApproved \<Longrightarrow> four_eyes (rq_Approver r) r"
begin

lemma reach_invar: "step\<^sup>*\<^sup>* s s' \<Longrightarrow> invar s \<Longrightarrow> invar s'"
  by (induction rule: rtranclp_induct) (auto intro: step_invar)

lemma reach_four_eyes:
  "step\<^sup>*\<^sup>* s s' \<Longrightarrow> invar s \<Longrightarrow> get s' rid now = Some r \<Longrightarrow> Approved r now' \<Longrightarrow> four_eyes (rq_Approver r) r"
  by (rule get_four_eyes [OF reach_invar]) (simp_all add: Approved_decided)

lemma returned_four_eyes:
  "step\<^sup>*\<^sup>* s s' \<Longrightarrow> invar s \<Longrightarrow> Approved (case get s' rid now of None \<Rightarrow> zero_request | Some r \<Rightarrow> r) now'
    \<Longrightarrow> \<exists>r. get s' rid now = Some r \<and> four_eyes (rq_Approver r) r"
  using reach_four_eyes [of s s' rid now]
  by (auto simp: Approved_decided zero_request_def split: option.splits)

end

interpretation file_store: approval_store "\<lambda>s. fs_Get (as_store s)" appr_step sys_inv
proof
  show "appr_step s s' \<Longrightarrow> sys_inv s \<Longrightarrow> sys_inv s'" for s s' by (rule appr_step_inv)
  fix s :: appr_sys and rid now r
  assume "sys_inv s" "fs_Get (as_store s) rid now = Some r" and st: "rq_Status r = StatusApproved"
  then have "request_ok r"
    using fs_Get_decided [of "as_store s" rid now r] by (auto simp: decided_def sys_inv_def store_inv_def store_base_def)
  with st show "four_eyes (rq_Approver r) r" by (simp add: request_ok_def decided_def)
qed

interpretation crd_store: approval_store "\<lambda>_::unit. \<lambda>rid now. crd_Get rid" "\<lambda>_ _. True" "\<lambda>_. True"
  by unfold_locales (simp_all add: crd_Get_def)

section \<open>Properties\<close>

text \<open>A run used by the witnesses: alice asks, bob approves, the write succeeds.\<close>

definition lab_request :: ApprovalRequest where
  "lab_request = zero_request\<lparr>rq_Requester := ''alice'', rq_Subject := ''db:22''\<rparr>"

definition lab_created :: appr_sys where
  "lab_created = (let s = appr_init False in
     s\<lparr>as_store := fst (fs_Create (as_store s) lab_request 0 ''r1'' 0 0 True), as_issued := [''r1'']\<rparr>)"

definition lab_approved :: appr_sys where
  "lab_approved = lab_created\<lparr>as_store :=
     fst (decide_commit (as_store lab_created) ''r1'' ''bob'' StatusApproved 1 1 True)\<rparr>"

definition lab_decision :: ApprovalRequest where
  "lab_decision = lab_request\<lparr>rq_ID := ''r1'', rq_Kind := KindSession, rq_Status := StatusApproved,
     rq_Approver := ''bob'', rq_ExpiresAt := 15 * Minute, rq_DecidedAt := 1\<rparr>"

lemma lab_check: "decide_check (as_store lab_created) ''r1'' ''bob'' StatusApproved 1 = Commit"
  by code_simp

lemma lab_reached: "appr_step\<^sup>*\<^sup>* (appr_init False) lab_approved"
proof -
  have "appr_step (appr_init False) lab_created"
    using step_create [of "''r1''" "appr_init False" lab_request 0 0 0 True]
    by (simp add: lab_created_def Let_def appr_init_def)
  moreover have "appr_step lab_created lab_approved"
    using step_decide [of lab_created "''r1''" "''bob''" StatusApproved 1 1 1 True]
    lab_check unfolding lab_approved_def by simp
  ultimately show ?thesis by auto
qed

lemma lab_get: "fs_Get (as_store lab_approved) ''r1'' 2 = Some lab_decision"
  by code_simp



text \<open>
  A decision is final: once a request is approved or denied, whatever runs
  afterwards (further decisions, timers, failed writes, restarts), its
  identifier yields that same decided request or, after pruning, nothing.
\<close>

theorem decision_final:
  assumes "appr_step\<^sup>*\<^sup>* (appr_init b) s" and "fs_Get (as_store s) rid now = Some r"
    and "rq_Status r = StatusApproved \<or> rq_Status r = StatusDenied" and "appr_step\<^sup>*\<^sup>* s s'"
  shows "fs_Get (as_store s') rid now' = None \<or> fs_Get (as_store s') rid now' = Some r"
proof -
  have inv: "sys_inv s" by (rule appr_reach_inv [OF assms(1) appr_init_inv])
  have d: "decided r" using assms(3) by (simp add: decided_def)
  with assms(2) have m: "mem (as_store s) rid = Some r" by (rule fs_Get_decided)
  then have "dsk (as_store s) rid = Some r" using inv d by (simp add: sys_inv_def store_inv_def)
  with m have "settled rid r s" by (simp add: settled_def)
  moreover have "rid \<in> set (as_issued s)" using inv m by (auto simp: sys_inv_def)
  ultimately have "settled rid r s'" using appr_reach_settled [OF assms(4) inv] d by blast
  then show ?thesis
    using decided_Get [of "as_store s'" rid r now'] d by (cases "mem (as_store s') rid") (auto simp: settled_def fs_Get_mem)
qed

theorem decision_final_witness:
  "fs_Get (as_store lab_approved) ''r1'' 9 = None \<or> fs_Get (as_store lab_approved) ''r1'' 9 = Some lab_decision"
  by (rule decision_final [OF lab_reached lab_get _ rtranclp.rtrancl_refl]) code_simp

text \<open>
  A decision is durable: after a crash the store reloaded from its file
  still reports every request that was approved or denied before, unchanged.
\<close>

theorem decision_survives_restart:
  assumes "appr_step\<^sup>*\<^sup>* (appr_init b) s" and "fs_Get (as_store s) rid now = Some r"
    and "rq_Status r = StatusApproved \<or> rq_Status r = StatusDenied"
  shows "fs_Get (newFileStore (fs_disk (as_store s))) rid now' = Some r"
proof -
  have inv: "store_inv (as_store s)" using appr_reach_inv [OF assms(1) appr_init_inv] by (simp add: sys_inv_def)
  have d: "decided r" using assms(3) by (simp add: decided_def)
  have "mem (as_store s) rid = Some r" using assms(2) d by (rule fs_Get_decided)
  then have dk: "dsk (as_store s) rid = Some r" using inv d by (simp add: store_inv_def)
  have b: "store_base (as_store s)" using inv by (simp add: store_inv_def)
  then have "distinct (map rq_ID (fs_disk (as_store s)))" by (simp add: store_base_def)
  from newFileStore_inv(2) [OF this disk_request_ok [OF b]] dk
  have "mem (newFileStore (fs_disk (as_store s))) rid = Some r"
    by (simp add: dsk_def SetGroupLookup_def mem_def)
  then show ?thesis using d by (rule decided_Get)
qed

theorem decision_survives_restart_witness:
  "fs_Get (newFileStore (fs_disk (as_store lab_approved))) ''r1'' 9 = Some lab_decision"
  by (rule decision_survives_restart [OF lab_reached lab_get]) code_simp

text \<open>
  C6.  Exactly when \<open>decide\<close> succeeds: the request exists and is pending within its
  TTL, the approver is a second person, the write succeeds, and, for approving a
  quarantine release that carries a group snapshot under a configured lookup, the
  directory answers with a group shared with the snapshot and the request is
  still pending when the lock is re-acquired.  What other callers do meanwhile
  (\<open>env\<close>) is arbitrary.
\<close>

theorem decide_succeeds_iff:
  "is_ok (snd (fs_decide s gl env rid approver status t1 t2 t3 t4 wok)) \<longleftrightarrow>
    (\<exists>r. map_of (fs_requests s) rid = Some r \<and> EffectiveStatus r t1 = StatusPending
       \<and> approver \<noteq> [] \<and> canonicalID approver \<noteq> canonicalID (rq_Requester r) \<and> wok
       \<and> (status = StatusApproved \<and> rq_Kind r = KindQuarantineRelease \<and> rq_RequesterGroups r \<noteq> [] \<and> fs_hasLookup s
          \<longrightarrow> (\<exists>ag g g'. gl approver = Some ag \<and> g \<in> set ag \<and> g' \<in> set (rq_RequesterGroups r)
                 \<and> canonicalID g = canonicalID g')
            \<and> (\<exists>r'. map_of (fs_requests (env s)) rid = Some r' \<and> EffectiveStatus r' t2 = StatusPending)))"
    (is "?l \<longleftrightarrow> ?r")
proof -
  have commit: "is_ok (snd (decide_commit st rid approver status t3 t4 wok))
      \<longleftrightarrow> map_of (fs_requests st) rid \<noteq> None \<and> wok" for st status
    by (simp add: decide_commit_def persist_def Let_def split: option.splits)
  have ov: "groupsOverlap a b \<longleftrightarrow> (\<exists>g g'. g \<in> set a \<and> g' \<in> set b \<and> canonicalID g = canonicalID g')" for a b
    unfolding groupsOverlap_def list_ex_iff set_map image_iff by metis
  show ?thesis
  proof (cases "map_of (fs_requests s) rid")
    case None
    then show ?thesis by (simp add: fs_decide_def decide_check_def)
  next
    case (Some r)
    then show ?thesis
      by (cases "gl approver"; cases "map_of (fs_requests (env s)) rid")
        (auto simp: fs_decide_def decide_check_def decide_lookup_def decide_recheck_def commit ov)
  qed
qed

definition lab_release :: ApprovalRequest where
  "lab_release = lab_request\<lparr>rq_ID := ''q1'', rq_Kind := KindQuarantineRelease, rq_RequesterGroups := [''DBA''],
     rq_Status := StatusPending, rq_ExpiresAt := 15 * Minute\<rparr>"

theorem decide_succeeds_iff_witness:
  "is_ok (snd (fs_decide (SetGroupLookup (newFileStore [lab_release]) True) (\<lambda>_. Some [''ops'', ''dba'']) (\<lambda>s. s)
     ''q1'' ''bob'' StatusApproved 1 1 1 1 True))"
proof (rule decide_succeeds_iff [THEN iffD2], rule exI [of _ lab_release], intro conjI impI)
  show "\<exists>ag g g'. Some [''ops'', ''dba''] = Some ag \<and> g \<in> set ag \<and> g' \<in> set (rq_RequesterGroups lab_release)
      \<and> canonicalID g = canonicalID g'"
    by (rule exI [of _ "[''ops'', ''dba'']"], rule exI [of _ "''dba''"], rule exI [of _ "''DBA''"]) code_simp
  show "\<exists>r'. map_of (fs_requests (SetGroupLookup (newFileStore [lab_release]) True)) ''q1'' = Some r' \<and>
      EffectiveStatus r' 1 = StatusPending"
    by (rule exI [of _ lab_release]) code_simp
qed code_simp+

text \<open>
  \<open>Wait\<close> fails closed: woken by the closed channel or by its timer it never
  returns a pending request, and if what it returns is approved, the store holds
  that request with a second person as its approver.
\<close>

theorem wait_fail_closed:
  assumes "appr_step\<^sup>*\<^sup>* (appr_init b) s"
    and "w = WTimer \<or> w = WDecided \<and> map_of (fs_decided (as_store s)) rid \<noteq> Some False"
    and "wait_finish (as_store s) rid w t1 t2 t3 wok = (st, r, err)"
  shows "rq_Status r \<noteq> StatusPending \<and>
    (Approved r t3 \<longrightarrow> fs_Get st rid t3 = Some r \<and> four_eyes (rq_Approver r) r)"
proof -
  have inv: "sys_inv s" by (rule appr_reach_inv [OF assms(1) appr_init_inv])
  define s' where "s' = s\<lparr>as_store := st\<rparr>"
  have "st = as_store s \<or> st = wait_expire (as_store s) rid t1 t2 wok"
    using assms(3) by (cases w) (auto simp: wait_finish_def Let_def)
  then have "appr_step\<^sup>*\<^sup>* s s'" using step_timer [of s rid t1 t2 wok] by (auto simp: s'_def)
  then have inv': "store_inv st" using appr_reach_inv [OF _ inv, of s'] by (simp add: s'_def sys_inv_def)
  have r: "r = (case fs_Get st rid t3 of None \<Rightarrow> zero_request | Some r \<Rightarrow> r)"
    using assms(3) by (auto simp: wait_finish_def Let_def)
  have np: "rq_Status q \<noteq> StatusPending" if q: "mem st rid = Some q" for q
  proof (cases w)
    case WDecided
    then have "st = as_store s" using assms(3) by (simp add: wait_finish_def Let_def)
    moreover have "chn st rid = Some (rq_Status q \<noteq> StatusPending)" using inv' q by (simp add: store_inv_def)
    ultimately show ?thesis using assms(2) WDecided by (auto simp: chn_def)
  next
    case WTimer
    then have st: "st = wait_expire (as_store s) rid t1 t2 wok" using assms(3) by (simp add: wait_finish_def Let_def)
    show ?thesis by (rule wait_expire_not_pending [OF _ q [unfolded st]]) (use inv in \<open>simp add: sys_inv_def\<close>)
  qed (use assms(2) in auto)
  have "rq_Status r \<noteq> StatusPending"
    using np by (cases "mem st rid") (auto simp: r fs_Get_mem zero_request_def EffectiveStatus_def status_defs)
  moreover have "fs_Get st rid t3 = Some r \<and> four_eyes (rq_Approver r) r" if "Approved r t3"
    using file_store.returned_four_eyes [OF \<open>appr_step\<^sup>*\<^sup>* s s'\<close> inv, of rid t3 t3] that r
    by (auto simp: s'_def split: option.splits)
  ultimately show ?thesis by blast
qed

theorem wait_fail_closed_witness:
  "rq_Status lab_decision \<noteq> StatusPending \<and> Approved lab_decision 2
    \<and> fs_Get (as_store lab_approved) ''r1'' 2 = Some lab_decision \<and> four_eyes (rq_Approver lab_decision) lab_decision"
proof -
  have "map_of (fs_decided (as_store lab_approved)) ''r1'' \<noteq> Some False" by code_simp
  moreover have "wait_finish (as_store lab_approved) ''r1'' WDecided 2 2 2 True = (as_store lab_approved, lab_decision, None)"
    by (simp add: wait_finish_def lab_get)
  moreover have "Approved lab_decision 2" by code_simp
  ultimately show ?thesis using wait_fail_closed [OF lab_reached, of WDecided "''r1''" 2 2 2 True] by blast
qed

end
