(* ===== verification/Durable.thy ===== *)
theory Durable
  imports Omni_Prelude
begin

text \<open>
  The durable write shared by the approval and the release store,
  \<^verbatim>\<open>writeFileDurable\<close>: temp file, write, chmod, fsync, close, rename, and the
  deferred removal of the temp file.  The outcome of each system call is an
  input, so every early return is a branch; the intermediate states of the file
  system are kept, because a crash may happen between any two calls.
\<close>

record file_state =
  f_data :: string
  f_perm :: nat
  f_synced :: bool

type_synonym file_system = "(string \<times> file_state) list"

definition lookup_file :: "file_system \<Rightarrow> string \<Rightarrow> file_state option" where
  "lookup_file fs p = map_of fs p"

definition put_file :: "file_system \<Rightarrow> string \<Rightarrow> file_state \<Rightarrow> file_system" where
  "put_file fs p f = (p, f) # filter (\<lambda>x. fst x \<noteq> p) fs"

definition remove_file :: "file_system \<Rightarrow> string \<Rightarrow> file_system" where
  "remove_file fs p = filter (\<lambda>x. fst x \<noteq> p) fs"

definition rename_file :: "file_system \<Rightarrow> string \<Rightarrow> string \<Rightarrow> file_system" where
  "rename_file fs old new = (case lookup_file fs old of None \<Rightarrow> fs | Some f \<Rightarrow> remove_file (put_file fs new f) old)"

text \<open>
  The outcomes of the calls: \<open>wr_written\<close> bytes reach the temp file before a
  failing write returns.
\<close>

record write_outcome =
  wr_create :: bool
  wr_write :: bool
  wr_written :: nat
  wr_chmod :: bool
  wr_sync :: bool
  wr_close :: bool
  wr_rename :: bool

text \<open>
  The states the file system goes through, oldest first and the last one being the state on
  return, and whether the call returned \<^verbatim>\<open>nil\<close>.
\<close>

definition writeFileDurable ::
  "file_system \<Rightarrow> string \<Rightarrow> string \<Rightarrow> nat \<Rightarrow> string \<Rightarrow> write_outcome \<Rightarrow> file_system list \<times> bool" where
  "writeFileDurable fs path data perm tmp oc =
    (if \<not> wr_create oc then ([fs], False)
     else let f0 = \<lparr>f_data = [], f_perm = 384, f_synced = False\<rparr>;
              s0 = put_file fs tmp f0;
              f1 = f0\<lparr>f_data := (if wr_write oc then data else take (wr_written oc) data)\<rparr>;
              s1 = put_file s0 tmp f1
     in if \<not> wr_write oc then ([fs, s0, s1, remove_file s1 tmp], False)
     else if \<not> wr_chmod oc then ([fs, s0, s1, remove_file s1 tmp], False)
     else let f2 = f1\<lparr>f_perm := perm\<rparr>; s2 = put_file s1 tmp f2
     in if \<not> wr_sync oc then ([fs, s0, s1, s2, remove_file s2 tmp], False)
     else let f3 = f2\<lparr>f_synced := True\<rparr>; s3 = put_file s2 tmp f3
     in if \<not> wr_close oc then ([fs, s0, s1, s2, s3, remove_file s3 tmp], False)
     else if \<not> wr_rename oc then ([fs, s0, s1, s2, s3, remove_file s3 tmp], False)
     else let s4 = rename_file s3 tmp path
     in ([fs, s0, s1, s2, s3, s4, remove_file s4 tmp], True))"

lemma lookup_put [simp]: "lookup_file (put_file fs p f) q = (if q = p then Some f else lookup_file fs q)"
  by (induction fs) (auto simp: lookup_file_def put_file_def)

lemma lookup_remove [simp]: "lookup_file (remove_file fs p) q = (if q = p then None else lookup_file fs q)"
  by (induction fs) (auto simp: lookup_file_def remove_file_def)

lemma lookup_rename [simp]:
  "lookup_file fs old = Some f \<Longrightarrow> old \<noteq> new \<Longrightarrow>
   lookup_file (rename_file fs old new) q = (if q = old then None else if q = new then Some f else lookup_file fs q)"
  by (simp add: rename_file_def)

text \<open>
  C7.  The store file is replaced atomically: in every state the file system goes
  through, so at every possible crash point, the target path holds either exactly
  what it held before or the complete new contents, already fsynced, with the
  requested permissions; the call reports success exactly when the final state
  has the new contents installed by the rename, and on every error path the
  target is untouched.  No other file than the target changes and the temp file is gone on return.
\<close>

theorem writeFileDurable_atomic:
  assumes "path \<noteq> tmp" and "lookup_file fs tmp = None" and "writeFileDurable fs path data perm tmp oc = (states, ok)"
  shows "(\<forall>s\<in>set states. lookup_file s path = lookup_file fs path
            \<or> lookup_file s path = Some \<lparr>f_data = data, f_perm = perm, f_synced = True\<rparr>)
       \<and> lookup_file (last states) path
            = (if ok then Some \<lparr>f_data = data, f_perm = perm, f_synced = True\<rparr> else lookup_file fs path)
       \<and> lookup_file (last states) tmp = None
       \<and> (\<forall>q. q \<noteq> path \<longrightarrow> lookup_file (last states) q = lookup_file fs q)
       \<and> ok = (wr_create oc \<and> wr_write oc \<and> wr_chmod oc \<and> wr_sync oc \<and> wr_close oc \<and> wr_rename oc)"
  using assms by (auto simp: writeFileDurable_def Let_def split: if_splits)

definition all_succeed :: write_outcome where
  "all_succeed = \<lparr>wr_create = True, wr_write = True, wr_written = 0, wr_chmod = True, wr_sync = True,
     wr_close = True, wr_rename = True\<rparr>"

theorem writeFileDurable_atomic_witness:
  "lookup_file (last (fst (writeFileDurable [] ''a.json'' ''[]'' 384 ''.tmp'' (all_succeed\<lparr>wr_sync := False\<rparr>)))) ''a.json'' = None
   \<and> lookup_file (last (fst (writeFileDurable [] ''a.json'' ''[]'' 384 ''.tmp'' all_succeed))) ''a.json''
     = Some \<lparr>f_data = ''[]'', f_perm = 384, f_synced = True\<rparr>"
  using writeFileDurable_atomic [of "''a.json''" "''.tmp''" "[]" "''[]''" 384 "all_succeed\<lparr>wr_sync := False\<rparr>",
      OF _ _ surjective_pairing]
    writeFileDurable_atomic [of "''a.json''" "''.tmp''" "[]" "''[]''" 384 all_succeed, OF _ _ surjective_pairing]
  by (simp add: lookup_file_def writeFileDurable_def all_succeed_def Let_def)

end
