(* ===== verification/Release.thy ===== *)
theory Release
  imports Go_Std "HOL-Library.AList"
begin

text \<open>
  Pending pick-ups of approved uploads, \<^verbatim>\<open>internal/release\<close>: a release is created
  once a quarantine release was approved and is retrievable by its own requester
  until it expires.  The store is modelled like the approval store: memory, what
  the last successful write left on disk, and the outcome of each write as an
  input.
\<close>

record Release =
  rl_ID :: string
  rl_QuarantineKey :: string
  rl_Requester :: string
  rl_OriginalFilename :: string
  rl_ApprovedAt :: time
  rl_ExpiresAt :: time

record ReleaseStore =
  rs_releases :: "(string \<times> Release) list"
  rs_disk :: "Release list"

definition newReleaseStore :: "Release list \<Rightarrow> ReleaseStore" where
  "newReleaseStore disk =
     \<lparr>rs_releases = foldl (\<lambda>m r. AList.update (rl_ID r) r m) [] disk, rs_disk = disk\<rparr>"

definition rel_terminalRetention :: duration where
  "rel_terminalRetention = 24 * Hour"

definition rel_pruneLocked :: "ReleaseStore \<Rightarrow> time \<Rightarrow> ReleaseStore" where
  "rel_pruneLocked s now =
     s\<lparr>rs_releases := filter (\<lambda>x. \<not> After now (time_add (rl_ExpiresAt (snd x)) rel_terminalRetention)) (rs_releases s)\<rparr>"

definition rel_persist :: "ReleaseStore \<Rightarrow> time \<Rightarrow> bool \<Rightarrow> ReleaseStore \<times> bool" where
  "rel_persist s now wok =
    (let s' = rel_pruneLocked s now
     in if wok then (s'\<lparr>rs_disk := map snd (rs_releases s')\<rparr>, True) else (s', False))"

definition rel_Create ::
  "ReleaseStore \<Rightarrow> Release \<Rightarrow> duration \<Rightarrow> string \<Rightarrow> time \<Rightarrow> time \<Rightarrow> bool \<Rightarrow> ReleaseStore \<times> (string, Release) result" where
  "rel_Create s rel0 ttl0 newid now now2 wok =
    (let ttl = (if ttl0 \<le> 0 then 6 * Hour else ttl0);
         r = rel0\<lparr>rl_ID := newid, rl_ApprovedAt := now, rl_ExpiresAt := time_add now ttl\<rparr>;
         s1 = s\<lparr>rs_releases := AList.update newid r (rs_releases s)\<rparr>
     in case rel_persist s1 now2 wok of
          (s2, True) \<Rightarrow> (s2, Inr r)
        | (s2, False) \<Rightarrow> (s2\<lparr>rs_releases := AList.delete newid (rs_releases s2)\<rparr>, Inl ''release: create''))"

definition ListFor :: "ReleaseStore \<Rightarrow> string \<Rightarrow> time \<Rightarrow> Release list" where
  "ListFor s requester now =
     filter (\<lambda>r. rl_Requester r = requester \<and> Before now (rl_ExpiresAt r)) (map snd (rs_releases s))"

definition rel_Get :: "ReleaseStore \<Rightarrow> string \<Rightarrow> string \<Rightarrow> time \<Rightarrow> Release option" where
  "rel_Get s requester rid now =
    (case map_of (rs_releases s) rid of None \<Rightarrow> None
     | Some r \<Rightarrow> if rl_Requester r \<noteq> requester \<or> \<not> Before now (rl_ExpiresAt r) then None else Some r)"

section \<open>Histories\<close>

text \<open>
  A call of \<open>Create\<close> with its fresh identifier, its two clock readings and the
  outcome of its write, or a restart from disk.
\<close>

datatype rel_event = RCreate Release duration string time time bool | RRestart

fun rel_step :: "ReleaseStore \<Rightarrow> rel_event \<Rightarrow> ReleaseStore" where
  "rel_step s (RCreate rel ttl newid now now2 wok) = fst (rel_Create s rel ttl newid now now2 wok)"
| "rel_step s RRestart = newReleaseStore (rs_disk s)"

definition rel_inv :: "ReleaseStore \<Rightarrow> bool" where
  "rel_inv s = (distinct (map fst (rs_releases s)) \<and> (\<forall>x\<in>set (rs_releases s). rl_ID (snd x) = fst x)
     \<and> distinct (map rl_ID (rs_disk s)))"

lemma foldl_update_keys:
  "distinct (map fst m) \<Longrightarrow> (\<forall>x\<in>set m. rl_ID (snd x) = fst x) \<Longrightarrow>
   distinct (map fst (foldl (\<lambda>m r. AList.update (rl_ID r) r m) m rs))
   \<and> (\<forall>x\<in>set (foldl (\<lambda>m r. AList.update (rl_ID r) r m) m rs). rl_ID (snd x) = fst x)"
proof (induction rs arbitrary: m)
  case (Cons r rs)
  have "\<forall>x\<in>set (AList.update (rl_ID r) r m). rl_ID (snd x) = fst x"
    using Cons.prems(2) by (induction m) (auto split: if_splits)
  from Cons.IH [OF distinct_update [OF Cons.prems(1)] this] show ?case by simp
qed simp

lemma foldl_update_map_of:
  "distinct (map rl_ID rs) \<Longrightarrow>
   map_of (foldl (\<lambda>m r. AList.update (rl_ID r) r m) m rs) = map_of m ++ map_of (map (\<lambda>r. (rl_ID r, r)) rs)"
proof (induction rs arbitrary: m)
  case (Cons r rs)
  then have "map_of (map (\<lambda>r. (rl_ID r, r)) rs) (rl_ID r) = None" by (auto simp: map_of_eq_None_iff)
  with Cons show ?case by (auto simp: update_conv' map_add_def fun_eq_iff split: option.splits)
qed simp

lemma keyed_ids: "(\<forall>x\<in>set xs. rl_ID (snd x) = fst x) \<Longrightarrow> map rl_ID (map snd xs) = map fst xs"
  "(\<forall>x\<in>set xs. rl_ID (snd x) = fst x) \<Longrightarrow> map (\<lambda>r. (rl_ID r, r)) (map snd xs) = xs"
  by (induction xs) auto

text \<open>The outcome of a \<open>Create\<close> in terms of the entries of memory and disk.\<close>

lemma rel_Create_inv [inv_intro]:
  assumes "rel_inv s"
  shows "rel_inv (fst (rel_Create s rel ttl newid now now2 wok))"
proof -
  define r where "r = rel\<lparr>rl_ID := newid, rl_ApprovedAt := now, rl_ExpiresAt := time_add now (if ttl \<le> 0 then 6 * Hour else ttl)\<rparr>"
  define m where "m = filter (\<lambda>x. \<not> After now2 (time_add (rl_ExpiresAt (snd x)) rel_terminalRetention)) (AList.update newid r (rs_releases s))"
  have "distinct (map fst m)" using assms by (simp add: m_def rel_inv_def distinct_update distinct_map_filter)
  moreover have k: "\<forall>x\<in>set m. rl_ID (snd x) = fst x"
    using assms set_update_subset [of newid r "rs_releases s"] by (fastforce simp: m_def rel_inv_def r_def)
  ultimately have "distinct (map rl_ID (map snd m))" "distinct (map fst m)" by (simp_all add: keyed_ids(1) del: map_map)
  with k assms show ?thesis
    by (auto simp: rel_inv_def rel_Create_def rel_persist_def rel_pruneLocked_def Let_def distinct_map_filter
        AList.delete_eq m_def [symmetric] r_def [symmetric])
qed

lemma rel_restart_inv [inv_intro]: "rel_inv s \<Longrightarrow> rel_inv (newReleaseStore (rs_disk s))"
  using foldl_update_keys [of "[]" "rs_disk s"] by (simp add: rel_inv_def newReleaseStore_def)

interpretation rel: guarded_machine rel_step rel_inv
proof
  fix s e assume "rel_inv s"
  then show "rel_inv (rel_step s e)" by (cases e) (auto intro: inv_intro)
qed

lemma restart_map_of:
  "rel_inv s \<Longrightarrow> map_of (rs_releases (newReleaseStore (rs_disk s))) = map_of (map (\<lambda>r. (rl_ID r, r)) (rs_disk s))"
  by (simp add: newReleaseStore_def rel_inv_def foldl_update_map_of)

section \<open>Properties\<close>

text \<open>The release a successful \<open>Create\<close> call makes.\<close>

definition made :: "Release \<Rightarrow> duration \<Rightarrow> string \<Rightarrow> time \<Rightarrow> Release" where
  "made rel ttl newid now =
     rel\<lparr>rl_ID := newid, rl_ApprovedAt := now, rl_ExpiresAt := time_add now (if ttl \<le> 0 then 6 * Hour else ttl)\<rparr>"

definition stored :: "ReleaseStore \<Rightarrow> Release set" where
  "stored s = snd ` set (rs_releases s) \<union> set (rs_disk s)"

lemma rel_Create_stored:
  "stored (fst (rel_Create s rel ttl newid now now2 wok)) \<subseteq> stored s \<union> (if wok then {made rel ttl newid now} else {})"
proof -
  define r where "r = made rel ttl newid now"
  have *: "x \<in> set (AList.update newid r (rs_releases s)) \<Longrightarrow> x = (newid, r) \<or> x \<in> set (rs_releases s)" for x
    using set_update_subset [of newid r "rs_releases s"] by blast
  have r: "rel\<lparr>rl_ID := newid, rl_ApprovedAt := now, rl_ExpiresAt := time_add now (if ttl \<le> 0 then 6 * Hour else ttl)\<rparr> = r"
    by (simp add: r_def made_def)
  show ?thesis
    unfolding rel_Create_def Let_def r
    by (auto simp: rel_persist_def rel_pruneLocked_def Let_def stored_def AList.delete_eq r_def [symmetric] dest!: *)
qed

lemma restart_stored: "stored (newReleaseStore (rs_disk s)) \<subseteq> stored s"
proof -
  have "snd ` set (foldl (\<lambda>m r. AList.update (rl_ID r) r m) m rs) \<subseteq> snd ` set m \<union> set rs" for m :: "(string \<times> Release) list" and rs
  proof (induction rs arbitrary: m)
    case (Cons r rs)
    have "snd ` set (AList.update (rl_ID r) r m) \<subseteq> insert r (snd ` set m)"
      using image_mono [OF set_update_subset [of "rl_ID r" r m], of snd] by simp
    with Cons [of "AList.update (rl_ID r) r m"] show ?case by auto
  qed simp
  from this [of "[]" "rs_disk s"] show ?thesis by (auto simp: stored_def newReleaseStore_def)
qed

lemma run_stored:
  "r \<in> stored (run_steps rel_step s es) \<Longrightarrow>
   r \<in> stored s \<or> (\<exists>rel ttl newid t1 t2. RCreate rel ttl newid t1 t2 True \<in> set es \<and> r = made rel ttl newid t1)"
proof (induction es arbitrary: s)
  case (Cons e es)
  from Cons.prems have "r \<in> stored (run_steps rel_step (rel_step s e) es)" by simp
  from Cons.IH [OF this] consider "r \<in> stored (rel_step s e)"
    | "\<exists>rel ttl newid t1 t2. RCreate rel ttl newid t1 t2 True \<in> set es \<and> r = made rel ttl newid t1"
    by blast
  then show ?case
  proof cases
    case 1
    then show ?thesis
    proof (cases e)
      case (RCreate rel ttl newid t1 t2 wok)
      from 1 RCreate rel_Create_stored [of s rel ttl newid t1 t2 wok]
      have "r \<in> stored s \<or> wok \<and> r = made rel ttl newid t1" by (auto split: if_splits)
      then show ?thesis using RCreate by (metis list.set_intros(1))
    next
      case RRestart
      with 1 restart_stored [of s] show ?thesis by auto
    qed
  next
    case 2
    then show ?thesis by (metis list.set_intros(2))
  qed
qed simp

text \<open>
  The identity gate of pick-ups: over any history of creations (with
  failing writes among them) and restarts, a release obtained from \<open>Get\<close> or
  listed by \<open>ListFor\<close> was created for exactly the session's requester, with
  that identifier, by a creation whose write succeeded, and the read is within
  the release's lifetime.
\<close>

theorem release_only_to_requester:
  assumes "rel_Get (run_steps rel_step (newReleaseStore []) es) requester rid now = Some r
    \<or> r \<in> set (ListFor (run_steps rel_step (newReleaseStore []) es) requester now) \<and> rl_ID r = rid"
  shows "\<exists>rel ttl t1 t2. RCreate rel ttl rid t1 t2 True \<in> set es \<and> rl_Requester rel = requester
    \<and> rl_QuarantineKey r = rl_QuarantineKey rel \<and> rl_OriginalFilename r = rl_OriginalFilename rel
    \<and> now < t1 + (if ttl \<le> 0 then 6 * Hour else ttl)"
proof -
  let ?s = "run_steps rel_step (newReleaseStore []) es"
  have inv: "rel_inv ?s" by (rule rel.run_invar) (simp add: rel_inv_def newReleaseStore_def)
  have m: "r \<in> snd ` set (rs_releases ?s)" and g: "rl_Requester r = requester" "Before now (rl_ExpiresAt r)"
    using assms by (auto simp: rel_Get_def ListFor_def split: option.splits if_splits dest!: map_of_SomeD intro: rev_image_eqI)
  have i: "rl_ID r = rid"
    using assms inv by (auto simp: rel_Get_def rel_inv_def split: option.splits if_splits dest!: map_of_SomeD)
  have "r \<in> stored ?s" using m by (force simp: stored_def)
  from run_stored [OF this] obtain rel ttl newid t1 t2
    where "RCreate rel ttl newid t1 t2 True \<in> set es" "r = made rel ttl newid t1"
    by (auto simp: stored_def newReleaseStore_def)
  moreover from this i have "newid = rid" by (simp add: made_def)
  ultimately show ?thesis using g unfolding made_def Before_def time_add_def
    by (intro exI [of _ rel] exI [of _ ttl] exI [of _ t1] exI [of _ t2]) auto
qed

definition lab_upload :: Release where
  "lab_upload = \<lparr>rl_ID = [], rl_QuarantineKey = ''quarantine/k1'', rl_Requester = ''alice'',
     rl_OriginalFilename = ''report.csv'', rl_ApprovedAt = 0, rl_ExpiresAt = 0\<rparr>"

theorem release_only_to_requester_witness:
  "\<exists>rel ttl t1 t2. RCreate rel ttl ''i1'' t1 t2 True \<in> set [RCreate lab_upload 0 ''i1'' 5 5 True, RRestart]
    \<and> rl_Requester rel = ''alice'' \<and> rl_QuarantineKey (made lab_upload 0 ''i1'' 5) = rl_QuarantineKey rel
    \<and> rl_OriginalFilename (made lab_upload 0 ''i1'' 5) = rl_OriginalFilename rel
    \<and> 7 < t1 + (if ttl \<le> 0 then 6 * Hour else ttl)"
  by (rule release_only_to_requester, rule disjI1) code_simp

text \<open>A release that is in memory and on disk stays there while it is within its window.\<close>

definition available :: "Release \<Rightarrow> ReleaseStore \<Rightarrow> bool" where
  "available r s = (map_of (rs_releases s) (rl_ID r) = Some r \<and> r \<in> set (rs_disk s))"

fun event_within :: "string \<Rightarrow> time \<Rightarrow> rel_event \<Rightarrow> bool" where
  "event_within rid limit (RCreate rel ttl newid t1 t2 wok) = (newid \<noteq> rid \<and> t2 \<le> limit)"
| "event_within rid limit RRestart = True"

lemma rel_step_available:
  assumes inv: "rel_inv s" and av: "available r s" and e: "event_within (rl_ID r) now e" and win: "now < rl_ExpiresAt r"
  shows "available r (rel_step s e)"
proof (cases e)
  case (RCreate rel ttl newid t1 t2 wok)
  let ?P = "\<lambda>r. \<not> After t2 (time_add (rl_ExpiresAt r) rel_terminalRetention)"
  let ?u = "AList.update newid (made rel ttl newid t1) (rs_releases s)"
  have d: "distinct (map fst ?u)" using inv by (simp add: rel_inv_def distinct_update)
  have keep: "?P r" using e win RCreate by (simp add: After_def time_add_def rel_terminalRetention_def)
  have "map_of ?u (rl_ID r) = Some r" using av e RCreate by (auto simp: available_def update_conv')
  then have m: "map_of (filter (\<lambda>x. ?P (snd x)) ?u) (rl_ID r) = Some r"
    using map_of_filter_val [OF d, of ?P] keep by simp
  then have "r \<in> snd ` set (filter (\<lambda>x. ?P (snd x)) ?u)" by (force dest: map_of_SomeD)
  then show ?thesis using m av e RCreate
    by (auto simp: available_def rel_Create_def rel_persist_def rel_pruneLocked_def Let_def made_def delete_conv')
next
  case RRestart
  have "distinct (map fst (map (\<lambda>r. (rl_ID r, r)) (rs_disk s)))" using inv by (simp add: rel_inv_def comp_def)
  with av have "map_of (map (\<lambda>r. (rl_ID r, r)) (rs_disk s)) (rl_ID r) = Some r" by (simp add: available_def)
  with RRestart av show ?thesis using restart_map_of [OF inv] by (simp add: available_def newReleaseStore_def)
qed

lemma run_available:
  "rel_inv s \<Longrightarrow> available r s \<Longrightarrow> list_all (event_within (rl_ID r) now) es \<Longrightarrow> now < rl_ExpiresAt r
    \<Longrightarrow> available r (run_steps rel_step s es)"
  by (induction es arbitrary: s) (auto intro: rel_step_available rel.step_invar)

text \<open>
  C8.  A release stays retrievable for its whole window: after a successful
  \<open>Create\<close>, whatever other creations (with other identifiers, at clock readings up to the
  time of the read, with failing writes among them) and restarts follow, \<open>Get\<close>
  by its requester returns it and \<open>ListFor\<close> lists it until it expires.
\<close>

theorem release_available_until_expiry:
  assumes "rel_Create (run_steps rel_step (newReleaseStore []) es) rel ttl rid t1 t2 wok = (s, Inr r)"
    and "list_all (event_within rid now) es'" and "t2 \<le> now" and "now < rl_ExpiresAt r"
  shows "rel_Get (run_steps rel_step s es') (rl_Requester rel) rid now = Some r
    \<and> r \<in> set (ListFor (run_steps rel_step s es') (rl_Requester rel) now)"
proof -
  let ?s0 = "run_steps rel_step (newReleaseStore []) es"
  have inv0: "rel_inv ?s0" by (rule rel.run_invar) (simp add: rel_inv_def newReleaseStore_def)
  have inv: "rel_inv s" using rel_Create_inv [OF inv0, of rel ttl rid t1 t2 wok] assms(1) by simp
  have w: wok and r: "r = made rel ttl rid t1"
    using assms(1) by (auto simp: rel_Create_def rel_persist_def Let_def made_def split: if_splits)
  have d: "distinct (map fst (AList.update rid r (rs_releases ?s0)))"
    using inv0 by (simp add: rel_inv_def distinct_update)
  let ?P = "\<lambda>r. \<not> After t2 (time_add (rl_ExpiresAt r) rel_terminalRetention)"
  have "?P r" using assms(3,4) by (simp add: After_def time_add_def rel_terminalRetention_def)
  then have "map_of (filter (\<lambda>x. ?P (snd x)) (AList.update rid r (rs_releases ?s0))) rid = Some r"
    using map_of_filter_val [OF d, of ?P] by (simp add: update_conv')
  moreover have "rs_releases s = filter (\<lambda>x. ?P (snd x)) (AList.update rid r (rs_releases ?s0))"
    and "rs_disk s = map snd (rs_releases s)"
    using assms(1) w by (auto simp: rel_Create_def rel_persist_def rel_pruneLocked_def Let_def)
  ultimately have av: "available r s"
    using r by (force simp: available_def made_def dest: map_of_SomeD)
  have i: "rl_ID r = rid" using r by (simp add: made_def)
  have "available r (run_steps rel_step s es')"
    by (rule run_available [OF inv av _ assms(4)]) (use assms(2) i in simp)
  then have m: "map_of (rs_releases (run_steps rel_step s es')) rid = Some r" using i by (simp add: available_def)
  moreover have "rl_Requester r = rl_Requester rel" using r by (simp add: made_def)
  ultimately show ?thesis using assms(4) map_of_SomeD [OF m]
    by (force simp: rel_Get_def ListFor_def Before_def)
qed

theorem release_available_until_expiry_witness:
  "let s = fst (rel_Create (newReleaseStore []) lab_upload 0 ''i1'' 5 5 True);
       es = [RCreate lab_upload 0 ''i2'' 6 6 False, RRestart]
   in rel_Get (run_steps rel_step s es) (rl_Requester lab_upload) ''i1'' 7 = Some (made lab_upload 0 ''i1'' 5)
    \<and> made lab_upload 0 ''i1'' 5 \<in> set (ListFor (run_steps rel_step s es) (rl_Requester lab_upload) 7)"
  unfolding Let_def
  by (rule release_available_until_expiry [of "[]" lab_upload 0 "''i1''" 5 5 True]) code_simp+

end
