(* ===== verification/Event.thy ===== *)
theory Event
  imports Go_Std
begin

text \<open>
  The evidence event, \<^verbatim>\<open>internal/evidence/evidence.go\<close>, that every package emits,
  and the in-memory sink.  The optional \<^verbatim>\<open>Allow *bool\<close> is an option; event kinds are
  the strings the code writes.
\<close>

abbreviation TypeAuth :: string where "TypeAuth \<equiv> ''auth''"
abbreviation TypeMFA :: string where "TypeMFA \<equiv> ''mfa''"
abbreviation TypeTunnelDecision :: string where "TypeTunnelDecision \<equiv> ''tunnel_decision''"
abbreviation TypeTunnelProtocol :: string where "TypeTunnelProtocol \<equiv> ''tunnel_protocol''"
abbreviation TypeSessionStart :: string where "TypeSessionStart \<equiv> ''session_start''"
abbreviation TypeSessionEnd :: string where "TypeSessionEnd \<equiv> ''session_end''"
abbreviation TypeRecording :: string where "TypeRecording \<equiv> ''recording''"
abbreviation TypeTransfer :: string where "TypeTransfer \<equiv> ''transfer''"
abbreviation TypeInspection :: string where "TypeInspection \<equiv> ''inspection''"
abbreviation TypeCredential :: string where "TypeCredential \<equiv> ''credential''"
abbreviation TypeApproval :: string where "TypeApproval \<equiv> ''approval''"
abbreviation TypeSupervision :: string where "TypeSupervision \<equiv> ''supervision''"

record Event =
  ev_ID :: string
  ev_Time :: time
  ev_Type :: string
  ev_User :: string
  ev_SourceIP :: string
  ev_Target :: string
  ev_Allow :: "bool option"
  ev_Reason :: string
  ev_MatchedRole :: string
  ev_RecordMode :: string
  ev_Protocol :: string
  ev_ObjectKey :: string
  ev_SHA256 :: string
  ev_Bytes :: int
  ev_Path :: string
  ev_Direction :: string
  ev_Verdict :: string
  ev_ICAPStatus :: int
  ev_CredentialMode :: string
  ev_Outcome :: string
  ev_TargetUser :: string
  ev_Detail :: string
  ev_TraceID :: string
  ev_SpanID :: string

text \<open>The zero value that composite literals start from.\<close>

definition zero_event :: Event where
  "zero_event = \<lparr>ev_ID = [], ev_Time = 0, ev_Type = [], ev_User = [], ev_SourceIP = [], ev_Target = [],
     ev_Allow = None, ev_Reason = [], ev_MatchedRole = [], ev_RecordMode = [], ev_Protocol = [],
     ev_ObjectKey = [], ev_SHA256 = [], ev_Bytes = 0, ev_Path = [], ev_Direction = [], ev_Verdict = [],
     ev_ICAPStatus = 0, ev_CredentialMode = [], ev_Outcome = [], ev_TargetUser = [], ev_Detail = [],
     ev_TraceID = [], ev_SpanID = []\<rparr>"

definition BoolPtr :: "bool \<Rightarrow> bool option" where
  "BoolPtr b = Some b"

text \<open>\<^verbatim>\<open>MemSink\<close>: the events recorded so far; \<open>uid\<close> is the fresh identifier.\<close>

definition MemSink_Emit :: "Event list \<Rightarrow> Event \<Rightarrow> string \<Rightarrow> Event list" where
  "MemSink_Emit evs e uid = evs @ [if ev_ID e = [] then e\<lparr>ev_ID := uid\<rparr> else e]"

end
