(* ===== verification/Dialer.thy ===== *)
theory Dialer
  imports Policy Credential Approval Event
begin

text \<open>
  The single outbound path, \<^verbatim>\<open>internal/dialer\<close>: the resolved-address guard
  (\<^verbatim>\<open>guard.go\<close>) and the dial pipeline (\<^verbatim>\<open>dialer.go\<close>): policy decision, evidence,
  approval gate, credential resolution and the guarded dial.

  The pipeline returns the evidence it emitted and the socket connects it
  attempted, next to the result.  What the code does not decide is input: the
  clock readings and fresh event identifiers by call site, the approval store's
  answers, and the operating system's resolver and connect.  Tracing spans carry
  no decision and are left out.
\<close>

section \<open>The resolved-address guard\<close>

datatype DialError =
    ErrDenied string
  | ErrForwardingRefused string
  | ErrApprovalRefused string
  | ErrCredentialRefused CredError
  | ErrBlockedAddress string string       \<comment> \<open>address, reason\<close>
  | ConnectFailed string
  | NoAddress string

definition blockedIP :: "ip option \<Rightarrow> (bool \<times> string)" where
  "blockedIP ip0 =
    (case ip0 of None \<Rightarrow> (True, ''nil address'')
     | Some i \<Rightarrow>
        (let a = (case To4 i of Some v4 \<Rightarrow> v4 | None \<Rightarrow> i)
         in if IsUnspecified a then (True, ''unspecified address'')
            else if IsLoopback a then (True, ''loopback'')
            else if IsLinkLocalUnicast a then (True, ''link-local (includes cloud metadata 169.254.169.254)'')
            else if IsLinkLocalMulticast a then (True, ''link-local multicast'')
            else if IsInterfaceLocalMulticast a then (True, ''interface-local multicast'')
            else if IsMulticast a then (True, ''multicast'')
            else if ip_Equal a IPv4bcast then (True, ''broadcast'')
            else (False, [])))"

definition address_host :: "string \<Rightarrow> string" where
  "address_host address = (case SplitHostPort address of Some (h, _) \<Rightarrow> h | None \<Rightarrow> address)"

definition unparseable :: string where
  "unparseable = ''resolved to an unparseable address''"

type_synonym dialControlFunc = "string \<Rightarrow> DialError option"

definition guardResolvedAddr :: dialControlFunc where
  "guardResolvedAddr address =
    (case ParseIP (address_host address) of None \<Rightarrow> Some (ErrBlockedAddress address unparseable)
     | Some i \<Rightarrow> (case blockedIP (Some i) of
          (True, reason) \<Rightarrow> Some (ErrBlockedAddress address reason)
        | (False, _) \<Rightarrow> None))"

definition guardResolvedAddrAllowLoopback :: dialControlFunc where
  "guardResolvedAddrAllowLoopback address =
    (case ParseIP (address_host address) of
       Some i \<Rightarrow> if IsLoopback i then None else guardResolvedAddr address
     | None \<Rightarrow> guardResolvedAddr address)"

definition guardWithinCIDR :: "string \<Rightarrow> ipnet \<Rightarrow> DialError option" where
  "guardWithinCIDR address n =
    (case ParseIP (address_host address) of None \<Rightarrow> Some (ErrBlockedAddress address unparseable)
     | Some i \<Rightarrow>
        (let a = (case To4 i of Some v4 \<Rightarrow> v4 | None \<Rightarrow> i)
         in if net_contains n a then None
            else Some (ErrBlockedAddress address ''outside matched CIDR - possible DNS rebind'')))"

text \<open>The control function at a dial site: the base guard, then the matched range.\<close>

definition compose_control :: "dialControlFunc \<Rightarrow> ipnet option \<Rightarrow> dialControlFunc" where
  "compose_control base n =
    (case n of None \<Rightarrow> base
     | Some net \<Rightarrow> (\<lambda>address. case base address of Some e \<Rightarrow> Some e | None \<Rightarrow> guardWithinCIDR address net))"

text \<open>
  \<^verbatim>\<open>net.Dialer.DialContext\<close>: the resolver turns the target into concrete
  addresses; for each in turn the control function runs before the connect, and
  the first error is reported when none connects.  The first component lists the
  addresses a connect was attempted on.
\<close>

record os_net =
  on_lookup :: "string \<Rightarrow> string list"
  on_connect :: "string \<Rightarrow> bool"

fun dial_serial ::
  "dialControlFunc \<Rightarrow> (string \<Rightarrow> bool) \<Rightarrow> DialError \<Rightarrow> string list \<Rightarrow> string list \<times> (DialError, string) result" where
  "dial_serial control connect err [] = ([], Inl err)"
| "dial_serial control connect err (a # as) =
    (case control a of
       Some e \<Rightarrow> dial_serial control connect (case err of NoAddress _ \<Rightarrow> e | _ \<Rightarrow> err) as
     | None \<Rightarrow>
        if connect a then ([a], Inr a)
        else (case dial_serial control connect (case err of NoAddress _ \<Rightarrow> ConnectFailed a | _ \<Rightarrow> err) as of
                (tried, r) \<Rightarrow> (a # tried, r)))"

definition netDial :: "os_net \<Rightarrow> string \<Rightarrow> dialControlFunc \<Rightarrow> string list \<times> (DialError, string) result" where
  "netDial os addr control = dial_serial control (on_connect os) (NoAddress addr) (on_lookup os addr)"

definition DialGuarded ::
  "os_net \<Rightarrow> string \<Rightarrow> ipnet option \<Rightarrow> bool \<Rightarrow> string list \<times> (DialError, string) result" where
  "DialGuarded os addr matchedCIDR allowLoopback =
     netDial os addr (compose_control
       (if allowLoopback then guardResolvedAddrAllowLoopback else guardResolvedAddr) matchedCIDR)"

section \<open>The dialer\<close>

text \<open>The part of the \<^verbatim>\<open>approval.Store\<close> interface the dialer calls.\<close>

record approval_ops =
  ap_Create :: "ApprovalRequest \<Rightarrow> duration \<Rightarrow> (ApprovalError, ApprovalRequest) result"
  ap_Wait :: "string \<Rightarrow> ApprovalRequest \<times> ApprovalError option"

record Dialer =
  dl_policy :: Policy
  dl_timeout :: duration
  dl_cred :: "Provider option"
  dl_approvals :: "approval_ops option"
  dl_approvalTTL :: duration
  dl_dialControl :: "dialControlFunc option"
  dl_debug :: bool
  dl_resolver :: "ResolverFunc option"

type_synonym Option = "Dialer \<Rightarrow> Dialer"

definition SetPolicy :: "Dialer \<Rightarrow> Policy \<Rightarrow> Dialer" where
  "SetPolicy d p = d\<lparr>dl_policy := p\<rparr>"

definition currentPolicy :: "Dialer \<Rightarrow> Policy" where
  "currentPolicy d = dl_policy d"

definition WithCredentialProvider :: "Provider option \<Rightarrow> Option" where
  "WithCredentialProvider p = (\<lambda>d. d\<lparr>dl_cred := p\<rparr>)"

definition WithApprovals :: "approval_ops option \<Rightarrow> duration \<Rightarrow> Option" where
  "WithApprovals store ttl = (\<lambda>d. d\<lparr>dl_approvals := store, dl_approvalTTL := ttl\<rparr>)"

definition WithDebug :: "bool \<Rightarrow> Option" where
  "WithDebug enabled = (\<lambda>d. d\<lparr>dl_debug := enabled\<rparr>)"

definition WithHostnameResolver :: "ResolverFunc option \<Rightarrow> Option" where
  "WithHostnameResolver fn = (\<lambda>d. d\<lparr>dl_resolver := fn\<rparr>)"

definition WithHostnameResolutionDisabled :: Option where
  "WithHostnameResolutionDisabled = (\<lambda>d. d\<lparr>dl_resolver := None\<rparr>)"

definition WithLoopbackTargetsAllowed :: Option where
  "WithLoopbackTargetsAllowed = (\<lambda>d. d\<lparr>dl_dialControl := Some guardResolvedAddrAllowLoopback\<rparr>)"

text \<open>\<open>lookup\<close> is the default resolver (\<^verbatim>\<open>net.DefaultResolver\<close> with its timeout).\<close>

definition Dialer_New :: "ResolverFunc \<Rightarrow> Policy \<Rightarrow> Option list \<Rightarrow> Dialer" where
  "Dialer_New lookup p opts =
    (let d = foldl (\<lambda>d opt. opt d)
               \<lparr>dl_policy = p, dl_timeout = 10 * Second, dl_cred = None, dl_approvals = None, dl_approvalTTL = 0,
                dl_dialControl = Some guardResolvedAddr, dl_debug = False, dl_resolver = Some lookup\<rparr> opts;
         d1 = (if dl_cred d = None then d\<lparr>dl_cred := Some (NewProvider None None None)\<rparr> else d)
     in if dl_dialControl d1 = None then d1\<lparr>dl_dialControl := Some guardResolvedAddr\<rparr> else d1)"

text \<open>\<open>emit\<close>: the event as handed to the sink; \<open>uid\<close> is the fresh identifier.\<close>

definition emit :: "Event \<Rightarrow> string \<Rightarrow> Event" where
  "emit e uid = (if ev_ID e = [] then e\<lparr>ev_ID := uid\<rparr> else e)"

definition Peek :: "Dialer \<Rightarrow> Principal \<Rightarrow> Target \<Rightarrow> Decision" where
  "Peek d pr t = Decide (currentPolicy d) pr t (dl_resolver d)"

definition PeekHost :: "Dialer \<Rightarrow> Principal \<Rightarrow> string \<Rightarrow> Decision" where
  "PeekHost d pr host = DecideHost (currentPolicy d) pr host (dl_resolver d)"

text \<open>
  The environment of one call: the clock reading and the identifier used at each
  call site (0 decision, 1 approval request, 2 approval outcome, 3 credential,
  4 and 5 the clock readings of the credential breaker, 6 the approval check).
\<close>

record dial_env =
  de_clock :: "nat \<Rightarrow> time"
  de_uuid :: "nat \<Rightarrow> string"
  de_net :: os_net

definition emitApproval ::
  "dial_env \<Rightarrow> nat \<Rightarrow> Principal \<Rightarrow> string \<Rightarrow> Target \<Rightarrow> string \<Rightarrow> string \<Rightarrow> string \<Rightarrow> Event" where
  "emitApproval env site pr sourceIP target reqID outcome status =
     emit (zero_event\<lparr>ev_Time := de_clock env site, ev_Type := TypeApproval, ev_User := pr_User pr,
             ev_SourceIP := sourceIP, ev_Target := Target_String target,
             ev_Allow := (if outcome = ''granted'' then BoolPtr True
                          else if outcome = ''refused'' then BoolPtr False else None),
             ev_Outcome := outcome, ev_Reason := ''approval '' @ status, ev_ObjectKey := reqID\<rparr>)
          (de_uuid env site)"

definition gateApproval ::
  "Dialer \<Rightarrow> dial_env \<Rightarrow> Principal \<Rightarrow> string \<Rightarrow> Target \<Rightarrow> Event list \<times> DialError option" where
  "gateApproval d env pr sourceIP target =
    (case dl_approvals d of
       None \<Rightarrow> ([], Some (ErrApprovalRefused ''approval required but no approval store configured''))
     | Some store \<Rightarrow>
        (case ap_Create store (zero_request\<lparr>rq_Kind := KindSession, rq_Requester := pr_User pr,
                 rq_Subject := Target_String target, rq_Reason := ''session access to an approval-gated target''\<rparr>)
               (dl_approvalTTL d) of
           Inl err \<Rightarrow> ([], Some (ErrApprovalRefused ''create''))
         | Inr req \<Rightarrow>
            (let requested = emitApproval env 1 pr sourceIP target (rq_ID req) ''requested'' ''pending''
             in case ap_Wait store (rq_ID req) of
                  (final, Some werr) \<Rightarrow>
                    ([requested, emitApproval env 2 pr sourceIP target (rq_ID req) ''refused'' (rq_Status final)],
                     Some (ErrApprovalRefused ''wait''))
                | (final, None) \<Rightarrow>
                    if \<not> Approved final (de_clock env 6) then
                      ([requested, emitApproval env 2 pr sourceIP target (rq_ID req) ''refused''
                          (EffectiveStatus final (de_clock env 6))],
                       Some (ErrApprovalRefused (EffectiveStatus final (de_clock env 6))))
                    else ([requested, emitApproval env 2 pr sourceIP target (rq_ID req) ''granted'' StatusApproved],
                          None))))"

definition outcome_string :: "Outcome \<Rightarrow> string" where
  "outcome_string o1 = (case o1 of NoOutcome \<Rightarrow> [] | OutcomeInjected \<Rightarrow> ''injected'' | OutcomePrompt \<Rightarrow> ''prompt''
     | OutcomePassthrough \<Rightarrow> ''passthrough'' | OutcomeDenied \<Rightarrow> ''denied'')"

definition cred_error_string :: "CredError \<Rightarrow> string" where
  "cred_error_string e = (case e of Credential.ErrDenied \<Rightarrow> ''credential: denied by policy''
     | ErrFailClosed r \<Rightarrow> ''credential: fail closed: '' @ r | NilBreaker \<Rightarrow> ''nil breaker'')"

definition credential_event ::
  "dial_env \<Rightarrow> Principal \<Rightarrow> string \<Rightarrow> Target \<Rightarrow> Mode \<Rightarrow> CredResult \<Rightarrow> CredError option \<Rightarrow> Event" where
  "credential_event env pr sourceIP target mode res cerr =
    (let outcome = (case cerr of None \<Rightarrow> outcome_string (rs_Outcome res)
           | Some Credential.ErrDenied \<Rightarrow> outcome_string OutcomeDenied | Some _ \<Rightarrow> ''fail_closed'');
         reason = (case cerr of None \<Rightarrow> rs_Reason res | Some e \<Rightarrow> cred_error_string e)
     in emit (zero_event\<lparr>ev_Time := de_clock env 3, ev_Type := TypeCredential, ev_User := pr_User pr,
                 ev_SourceIP := sourceIP, ev_Target := Target_String target,
                 ev_Allow := BoolPtr (cerr = None), ev_CredentialMode := Mode_Normalize mode,
                 ev_Outcome := outcome, ev_Reason := reason\<rparr>) (de_uuid env 3))"

definition resolveCredential ::
  "Dialer \<Rightarrow> dial_env \<Rightarrow> Principal \<Rightarrow> string \<Rightarrow> Target \<Rightarrow> Decision \<Rightarrow> Dialer \<times> Event list \<times> DialError option" where
  "resolveCredential d env pr sourceIP target decision =
    (case dl_cred d of None \<Rightarrow> (d, [], None)
     | Some p \<Rightarrow>
        (let mode = Mode_Normalize (d_CredentialMode decision) in
         if mode = ModePassthrough then (d, [], None)
         else case Resolve p \<lparr>cr_User = pr_User pr, cr_Target = Target_String target, cr_Mode = mode\<rparr>
                     (de_clock env 4) (de_clock env 5) of
           (p', q, res, cerr) \<Rightarrow>
             (d\<lparr>dl_cred := Some p'\<rparr>, [credential_event env pr sourceIP target mode res cerr],
              map_option ErrCredentialRefused cerr)))"

text \<open>
  The result of a call: the dialer (its breaker moves), the evidence in order,
  the addresses a connect was attempted on, and the connection or error.
\<close>

type_synonym dial_result = "Dialer \<times> Event list \<times> string list \<times> (DialError, string) result"

definition DialTarget :: "Dialer \<Rightarrow> dial_env \<Rightarrow> Principal \<Rightarrow> string \<Rightarrow> Target \<Rightarrow> bool \<Rightarrow> dial_result" where
  "DialTarget d env pr sourceIP target forwarding =
    (let decision = Decide (currentPolicy d) pr target (dl_resolver d);
         forwardRefused = (d_Allow decision \<and> forwarding \<and> \<not> ForwardingAllowed decision);
         effectiveAllow = (d_Allow decision \<and> \<not> forwardRefused);
         reason = (if forwardRefused then ''forwarding refused: target requires full session recording''
                   else d_Reason decision);
         evt = emit (zero_event\<lparr>ev_Time := de_clock env 0, ev_Type := TypeTunnelDecision, ev_User := pr_User pr,
                 ev_SourceIP := sourceIP, ev_Target := Target_String target, ev_Allow := BoolPtr effectiveAllow,
                 ev_Reason := reason, ev_MatchedRole := d_MatchedRole decision,
                 ev_RecordMode := d_RecordMode decision\<rparr>) (de_uuid env 0)
     in if \<not> d_Allow decision then (d, [evt], [], Inl (ErrDenied (d_Reason decision)))
        else if forwardRefused then (d, [evt], [], Inl (ErrForwardingRefused (Target_String target)))
        else case (if d_RequireApproval decision then gateApproval d env pr sourceIP target else ([], None)) of
          (aevs, Some err) \<Rightarrow> (d, evt # aevs, [], Inl err)
        | (aevs, None) \<Rightarrow>
           (case resolveCredential d env pr sourceIP target decision of
              (d', cevs, Some err) \<Rightarrow> (d', evt # aevs @ cevs, [], Inl err)
            | (d', cevs, None) \<Rightarrow>
               (case netDial (de_net env) (Target_String target)
                       (compose_control (case dl_dialControl d' of Some c \<Rightarrow> c | None \<Rightarrow> (\<lambda>_. None)) (d_MatchedCIDR decision)) of
                  (tried, r) \<Rightarrow> (d', evt # aevs @ cevs, tried, r))))"

section \<open>What the guard blocks\<close>

lemma blockedIP_norm4: "blockedIP (Some i) = blockedIP (Some (norm4 i))"
proof (cases "To4 i")
  case None
  then show ?thesis by (simp add: norm4_def)
next
  case (Some v)
  moreover have "To4 v = Some v" using To4_length [OF Some] by simp
  ultimately show ?thesis by (simp add: blockedIP_def norm4_def)
qed

lemma norm4_4 [simp]: "length v = 4 \<Longrightarrow> norm4 v = v"
  by (simp add: norm4_def)

lemma norm4_consts [simp]: "norm4 IPv4zero = [0,0,0,0]" "norm4 IPv4bcast = [255,255,255,255]"
  by (simp_all add: norm4_def IPv4zero_def IPv4bcast_def)

lemma To4_v6 [simp]: "To4 (replicate 16 0) = None" "To4 (replicate 15 0 @ [1]) = None"
proof -
  have "(take 12 (replicate 16 (0::8 word))) ! 10 \<noteq> v4_in_v6_prefix ! 10"
    "(take 12 (replicate 15 (0::8 word) @ [1])) ! 10 \<noteq> v4_in_v6_prefix ! 10"
    by (simp_all add: v4_in_v6_prefix_def nth_append)
  then have "take 12 (replicate 16 (0::8 word)) \<noteq> v4_in_v6_prefix" "take 12 (replicate 15 (0::8 word) @ [1]) \<noteq> v4_in_v6_prefix"
    by metis+
  then show "To4 (replicate 16 0) = None" "To4 (replicate 15 0 @ [1]) = None" by (simp_all add: To4_def)
qed

lemma fst_if_True: "fst (if A then (True, r) else x) = (A \<or> fst x)"
  by simp

lemma norm4_v6 [simp]: "norm4 IPv6unspecified = replicate 16 0" "norm4 IPv6loopback = replicate 15 0 @ [1]"
  by (simp_all add: norm4_def IPv6unspecified_def IPv6loopback_def)

lemma blocked_classes: "To4 i = Some i \<or> To4 i = None \<Longrightarrow> fst (blockedIP (Some i)) \<longleftrightarrow>
    IsUnspecified i \<or> IsLoopback i \<or> IsLinkLocalUnicast i \<or> IsLinkLocalMulticast i \<or> IsInterfaceLocalMulticast i
      \<or> IsMulticast i \<or> ip_Equal i IPv4bcast"
  by (auto simp: blockedIP_def Let_def)

lemma blocked_v4:
  "fst (blockedIP (Some [a, b, c, d])) \<longleftrightarrow>
     a = 127 \<or> a = 169 \<and> b = 254 \<or> 224 \<le> a \<and> a \<le> 239 \<or> [a, b, c, d] = [0,0,0,0] \<or> [a, b, c, d] = [255,255,255,255]"
proof -
  let ?i = "[a, b, c, d]"
  have t: "To4 ?i = Some ?i" by simp
  have "?i \<noteq> replicate 16 0" by (simp add: numeral_eq_Suc)
  then have 1: "IsUnspecified ?i \<longleftrightarrow> ?i = [0,0,0,0]" by (simp add: IsUnspecified_def ip_Equal_def)
  have 2: "IsLoopback ?i \<longleftrightarrow> a = 127" "IsLinkLocalUnicast ?i \<longleftrightarrow> a = 169 \<and> b = 254"
    "IsLinkLocalMulticast ?i \<longleftrightarrow> a = 224 \<and> b = 0 \<and> c = 0" "\<not> IsInterfaceLocalMulticast ?i"
    by (simp_all add: IsLoopback_def IsLinkLocalUnicast_def IsLinkLocalMulticast_def IsInterfaceLocalMulticast_def)
  have 3: "IsMulticast ?i \<longleftrightarrow> 224 \<le> a \<and> a \<le> 239" by (simp add: IsMulticast_def multicast_nibble)
  have 4: "ip_Equal ?i IPv4bcast \<longleftrightarrow> ?i = [255,255,255,255]" by (simp add: ip_Equal_def)
  have 5: "224 \<le> (224::8 word)" "(224::8 word) \<le> 239" by simp_all
  show ?thesis unfolding blocked_classes [OF disjI1 [OF t]] 1 2 3 4 using 5 2(4) by blast
qed

lemma blocked_v6:
  assumes "length i = 16" and "To4 i = None"
  shows "fst (blockedIP (Some i)) \<longleftrightarrow>
     i = replicate 16 0 \<or> i = replicate 15 0 @ [1] \<or> i ! 0 = 0xfe \<and> 0x80 \<le> i ! 1 \<and> i ! 1 \<le> 0xbf \<or> i ! 0 = 0xff"
proof -
  have n: "norm4 i = i" using assms by (simp add: norm4_def)
  have "i \<noteq> [0,0,0,0]" "i \<noteq> [255,255,255,255]" using assms(1) by auto
  then have 1: "IsUnspecified i \<longleftrightarrow> i = replicate 16 0" "ip_Equal i IPv4bcast \<longleftrightarrow> False"
    by (simp_all add: IsUnspecified_def ip_Equal_def n)
  have 2: "IsLoopback i \<longleftrightarrow> i = replicate 15 0 @ [1]" "IsLinkLocalUnicast i \<longleftrightarrow> i ! 0 = 0xfe \<and> 0x80 \<le> i ! 1 \<and> i ! 1 \<le> 0xbf"
    "IsMulticast i \<longleftrightarrow> i ! 0 = 0xff"
    using assms by (simp_all add: IsLoopback_def IsLinkLocalUnicast_def IsMulticast_def ip_Equal_def n link_local_bits)
  have 3: "IsLinkLocalMulticast i \<Longrightarrow> i ! 0 = 0xff" "IsInterfaceLocalMulticast i \<Longrightarrow> i ! 0 = 0xff"
    using assms by (simp_all add: IsLinkLocalMulticast_def IsInterfaceLocalMulticast_def)
  show ?thesis unfolding blocked_classes [OF disjI2 [OF assms(2)]] 1 2 using 3 by blast
qed

section \<open>The stages of a dial\<close>

lemma guard_passes: "guardResolvedAddr a = None \<longleftrightarrow> (\<exists>i. ParseIP (address_host a) = Some i \<and> \<not> fst (blockedIP (Some i)))"
  by (auto simp: guardResolvedAddr_def split: option.splits prod.splits bool.splits)

lemma within_passes: "guardWithinCIDR a n = None \<longleftrightarrow> (\<exists>i. ParseIP (address_host a) = Some i \<and> net_contains n i)"
  using net_contains_norm4 [of n, unfolded norm4_def]
  by (auto simp: guardWithinCIDR_def Let_def split: option.splits if_splits)

lemma compose_passes: "compose_control base n a = None \<longleftrightarrow> base a = None \<and> (\<forall>net. n = Some net \<longrightarrow> guardWithinCIDR a net = None)"
  by (auto simp: compose_control_def split: option.splits)

lemma dial_serial_guarded: "a \<in> set (fst (dial_serial control connect err as)) \<Longrightarrow> control a = None"
  by (induction control connect err as rule: dial_serial.induct) (auto split: option.splits if_splits prod.splits)

lemma dial_serial_result: "snd (dial_serial control connect err as) = Inr a \<Longrightarrow> a \<in> set (fst (dial_serial control connect err as)) \<and> connect a"
  by (induction control connect err as rule: dial_serial.induct) (auto split: option.splits if_splits prod.splits)

lemma netDial_guarded: "a \<in> set (fst (netDial os addr control)) \<Longrightarrow> control a = None"
  by (auto simp: netDial_def dest: dial_serial_guarded)

lemma emitApproval_fields:
  "ev_Allow (emitApproval env site pr src t rid oc st) =
     (if oc = ''granted'' then Some True else if oc = ''refused'' then Some False else None)"
  "ev_ObjectKey (emitApproval env site pr src t rid oc st) = rid"
  "ev_Outcome (emitApproval env site pr src t rid oc st) = oc"
  by (simp_all add: emitApproval_def emit_def BoolPtr_def)

text \<open>How each stage can end.\<close>

lemma gateApproval_cases:
  obtains (nostore) "dl_approvals d = None" "gateApproval d env pr src t =
      ([], Some (ErrApprovalRefused ''approval required but no approval store configured''))"
  | (nocreate) store err where "dl_approvals d = Some store" "gateApproval d env pr src t = ([], Some (ErrApprovalRefused ''create''))"
      "ap_Create store (zero_request\<lparr>rq_Kind := KindSession, rq_Requester := pr_User pr,
         rq_Subject := Target_String t, rq_Reason := ''session access to an approval-gated target''\<rparr>) (dl_approvalTTL d) = Inl err"
  | (refused) e e' msg where "gateApproval d env pr src t = ([e, e'], Some (ErrApprovalRefused msg))"
      "ev_Allow e = None" "ev_Allow e' = Some False"
  | (granted) store req final e e' where "dl_approvals d = Some store" "gateApproval d env pr src t = ([e, e'], None)"
      "ap_Create store (zero_request\<lparr>rq_Kind := KindSession, rq_Requester := pr_User pr,
         rq_Subject := Target_String t, rq_Reason := ''session access to an approval-gated target''\<rparr>) (dl_approvalTTL d) = Inr req"
      "ap_Wait store (rq_ID req) = (final, None)" "rq_Status final = StatusApproved"
      "ev_Allow e = None" "ev_Allow e' = Some True" "ev_ObjectKey e' = rq_ID req" "ev_Outcome e' = ''granted''"
proof -
  let ?r = "zero_request\<lparr>rq_Kind := KindSession, rq_Requester := pr_User pr,
         rq_Subject := Target_String t, rq_Reason := ''session access to an approval-gated target''\<rparr>"
  show thesis
  proof (cases "dl_approvals d")
    case None
    then show ?thesis by (intro nostore) (simp_all add: gateApproval_def)
  next
    case (Some store)
    show ?thesis
    proof (cases "ap_Create store ?r (dl_approvalTTL d)")
      case (Inl err)
      then show ?thesis using Some by (intro nocreate) (simp_all add: gateApproval_def)
    next
      case (Inr req)
      obtain final werr where w: "ap_Wait store (rq_ID req) = (final, werr)" by fastforce
      show ?thesis
      proof (cases "werr = None \<and> Approved final (de_clock env 6)")
        case True
        then have w': "ap_Wait store (rq_ID req) = (final, None)" and f: "rq_Status final = StatusApproved"
          using w by (simp_all add: Approved_decided)
        have g: "gateApproval d env pr src t = ([emitApproval env 1 pr src t (rq_ID req) ''requested'' ''pending'',
            emitApproval env 2 pr src t (rq_ID req) ''granted'' StatusApproved], None)"
          using Some Inr w' f by (simp add: gateApproval_def Let_def Approved_decided)
        show ?thesis by (rule granted [OF Some g Inr w' f]) (simp_all add: emitApproval_fields)
      next
        case False
        then obtain st msg where "gateApproval d env pr src t = ([emitApproval env 1 pr src t (rq_ID req) ''requested'' ''pending'',
            emitApproval env 2 pr src t (rq_ID req) ''refused'' st], Some (ErrApprovalRefused msg))"
          using Some Inr w by (cases werr) (auto simp: gateApproval_def Let_def)
        then show ?thesis by (rule refused) (simp_all add: emitApproval_fields)
      qed
    qed
  qed
qed

lemma Resolve_ok_outcome:
  "Resolve p req n n' = (p', q, res, None) \<Longrightarrow> outcome_of (cr_Mode req) = Some (rs_Outcome res)
     \<and> (rs_Outcome res = OutcomeInjected \<longrightarrow> (\<exists>sec. rs_Secret res = Some sec \<and> sec_b sec \<noteq> []))"
  by (rule inject_cases [of p req n n'])
     (auto simp: Resolve_def Mode_Normalize_def outcome_of_def Let_def split: if_splits)

lemma outcome_of_Normalize: "outcome_of (Mode_Normalize m) = outcome_of m"
  by (simp add: outcome_of_def Mode_Normalize_def)

lemma credential_event_allow: "ev_Allow (credential_event env pr src t mode res cerr) = Some (cerr = None)"
  by (simp add: credential_event_def Let_def emit_def BoolPtr_def)

lemma resolveCredential_cases:
  assumes "dl_cred d = Some p"
  obtains (ok) d' evs where "resolveCredential d env pr src t D = (d', evs, None)" "outcome_of (d_CredentialMode D) \<noteq> None"
      "dl_dialControl d' = dl_dialControl d" "\<And>e. e \<in> set evs \<Longrightarrow> ev_Allow e = Some True"
  | (refused) d' e err where "resolveCredential d env pr src t D = (d', [e], Some (ErrCredentialRefused err))" "ev_Allow e = Some False"
proof (cases "Mode_Normalize (d_CredentialMode D) = ModePassthrough")
  case True
  then have "outcome_of (d_CredentialMode D) \<noteq> None"
    using outcome_of_Normalize [of "d_CredentialMode D"] by (simp add: outcome_of_def)
  then show thesis using True assms by (intro ok [of d "[]"]) (simp_all add: resolveCredential_def)
next
  case False
  obtain p' q res cerr where R: "Resolve p \<lparr>cr_User = pr_User pr, cr_Target = Target_String t,
      cr_Mode = Mode_Normalize (d_CredentialMode D)\<rparr> (de_clock env 4) (de_clock env 5) = (p', q, res, cerr)"
    by (metis prod_cases4)
  show thesis
  proof (cases cerr)
    case None
    with Resolve_ok_outcome [OF R [unfolded None]] have "outcome_of (d_CredentialMode D) \<noteq> None"
      by (simp add: outcome_of_Normalize)
    then show ?thesis using False assms R None
      by (intro ok [of "d\<lparr>dl_cred := Some p'\<rparr>" "[credential_event env pr src t (Mode_Normalize (d_CredentialMode D)) res cerr]"])
        (auto simp: resolveCredential_def Let_def credential_event_allow)
  next
    case (Some err)
    then show ?thesis using False assms R
      by (intro refused [of "d\<lparr>dl_cred := Some p'\<rparr>" "credential_event env pr src t (Mode_Normalize (d_CredentialMode D)) res cerr" err])
        (auto simp: resolveCredential_def Let_def credential_event_allow)
  qed
qed

text \<open>The evidence of the decision, emitted first on every path.\<close>

definition decision_event :: "dial_env \<Rightarrow> Principal \<Rightarrow> string \<Rightarrow> Target \<Rightarrow> bool \<Rightarrow> Decision \<Rightarrow> Event" where
  "decision_event env pr src t forwarding D =
    (let refused = (d_Allow D \<and> forwarding \<and> \<not> ForwardingAllowed D)
     in emit (zero_event\<lparr>ev_Time := de_clock env 0, ev_Type := TypeTunnelDecision, ev_User := pr_User pr,
                 ev_SourceIP := src, ev_Target := Target_String t, ev_Allow := BoolPtr (d_Allow D \<and> \<not> refused),
                 ev_Reason := (if refused then ''forwarding refused: target requires full session recording'' else d_Reason D),
                 ev_MatchedRole := d_MatchedRole D, ev_RecordMode := d_RecordMode D\<rparr>) (de_uuid env 0))"

lemma decision_event_fields:
  "ev_Type (decision_event env pr src t f D) = TypeTunnelDecision"
  "ev_User (decision_event env pr src t f D) = pr_User pr"
  "ev_SourceIP (decision_event env pr src t f D) = src"
  "ev_Target (decision_event env pr src t f D) = Target_String t"
  "ev_Allow (decision_event env pr src t f D) = Some (d_Allow D \<and> (f \<longrightarrow> ForwardingAllowed D))"
  "ev_MatchedRole (decision_event env pr src t f D) = d_MatchedRole D"
  by (auto simp: decision_event_def Let_def emit_def zero_event_def BoolPtr_def)

lemma DialTarget_eq:
  fixes d env pr src t f
  defines "D \<equiv> Decide (currentPolicy d) pr t (dl_resolver d)"
  defines "evt \<equiv> decision_event env pr src t f D"
  shows "DialTarget d env pr src t f =
    (if \<not> d_Allow D then (d, [evt], [], Inl (ErrDenied (d_Reason D)))
     else if f \<and> \<not> ForwardingAllowed D then (d, [evt], [], Inl (ErrForwardingRefused (Target_String t)))
     else case (if d_RequireApproval D then gateApproval d env pr src t else ([], None)) of
          (aevs, Some err) \<Rightarrow> (d, evt # aevs, [], Inl err)
        | (aevs, None) \<Rightarrow>
           (case resolveCredential d env pr src t D of
              (d', cevs, Some err) \<Rightarrow> (d', evt # aevs @ cevs, [], Inl err)
            | (d', cevs, None) \<Rightarrow>
               (case netDial (de_net env) (Target_String t)
                       (compose_control (case dl_dialControl d' of Some c \<Rightarrow> c | None \<Rightarrow> (\<lambda>_. None)) (d_MatchedCIDR D)) of
                  (tried, r) \<Rightarrow> (d', evt # aevs @ cevs, tried, r))))"
  by (simp add: DialTarget_def D_def evt_def decision_event_def Let_def)

text \<open>All ways a dial can end.\<close>

lemma DialTarget_cases:
  fixes d env pr src t f
  defines "D \<equiv> Decide (currentPolicy d) pr t (dl_resolver d)"
  defines "evt \<equiv> decision_event env pr src t f D"
  assumes "dl_cred d = Some p" and "dl_dialControl d = Some c"
  obtains (refused) err where "DialTarget d env pr src t f = (d, [evt], [], Inl err)"
      "\<not> (d_Allow D \<and> (f \<longrightarrow> ForwardingAllowed D))"
  | (approval) aevs err where "DialTarget d env pr src t f = (d, evt # aevs, [], Inl err)"
      "d_RequireApproval D" "gateApproval d env pr src t = (aevs, Some err)"
  | (credential) d' aevs e err where "DialTarget d env pr src t f = (d', evt # aevs @ [e], [], Inl (ErrCredentialRefused err))"
      "ev_Allow e = Some False"
  | (dialled) d' aevs cevs tried r where "DialTarget d env pr src t f = (d', evt # aevs @ cevs, tried, r)"
      "d_Allow D" "f \<longrightarrow> ForwardingAllowed D" "outcome_of (d_CredentialMode D) \<noteq> None"
      "(if d_RequireApproval D then gateApproval d env pr src t = (aevs, None) else aevs = [])"
      "\<And>e. e \<in> set cevs \<Longrightarrow> ev_Allow e = Some True"
      "netDial (de_net env) (Target_String t) (compose_control c (d_MatchedCIDR D)) = (tried, r)"
proof -
  note eq = DialTarget_eq [of d env pr src t f, folded D_def, folded evt_def]
  consider (no) "\<not> (d_Allow D \<and> (f \<longrightarrow> ForwardingAllowed D))"
    | (stop) aevs err where "d_Allow D" "f \<longrightarrow> ForwardingAllowed D" "d_RequireApproval D" "gateApproval d env pr src t = (aevs, Some err)"
    | (go) aevs where "d_Allow D" "f \<longrightarrow> ForwardingAllowed D"
        "(if d_RequireApproval D then gateApproval d env pr src t else ([], None)) = (aevs, None)"
  proof -
    obtain aevs err where g: "(if d_RequireApproval D then gateApproval d env pr src t else ([], None)) = (aevs, err)"
      by fastforce
    then show ?thesis using no stop go by (cases err) (auto split: if_splits)
  qed
  then show thesis
  proof cases
    case no
    then have "\<exists>err. DialTarget d env pr src t f = (d, [evt], [], Inl err)" unfolding eq by auto
    then show ?thesis using refused no by blast
  next
    case stop
    then show ?thesis by (intro approval) (auto simp: eq)
  next
    case go
    show ?thesis
    proof (rule resolveCredential_cases [OF assms(3), of env pr src t D], goal_cases)
      case ok: (1 d' evs)
      obtain tried r where n: "netDial (de_net env) (Target_String t) (compose_control c (d_MatchedCIDR D)) = (tried, r)" by fastforce
      have 1: "DialTarget d env pr src t f = (d', evt # aevs @ evs, tried, r)"
        using go ok n assms(4) by (auto simp: eq)
      have 2: "if d_RequireApproval D then gateApproval d env pr src t = (aevs, None) else aevs = []"
        using go(3) by (auto split: if_splits)
      show ?thesis by (rule dialled [OF 1 go(1,2) ok(2) 2 ok(4) n])
    next
      case (2 d' e err)
      then show ?thesis using go by (intro credential [of d' aevs e err]) (auto simp: eq)
    qed
  qed
qed

section \<open>Properties\<close>

text \<open>
  The SSRF guard blocks exactly the ranges it names, and an IPv4-mapped
  IPv6 address exactly when its IPv4 form is blocked: loopback 127/8, link-local
  169.254/16 (with the metadata address), multicast 224/4, 0.0.0.0 and
  255.255.255.255; for IPv6 the unspecified and loopback addresses, fe80::/10
  and ff00::/8.  Every other address, the private ranges included, passes.
\<close>

theorem blockedIP_ranges:
  "fst (blockedIP (Some [a, b, c, d])) = (a = 127 \<or> a = 169 \<and> b = 254 \<or> 224 \<le> a \<and> a \<le> 239
      \<or> [a, b, c, d] = [0,0,0,0] \<or> [a, b, c, d] = [255,255,255,255])
   \<and> blockedIP (Some (v4_in_v6_prefix @ [a, b, c, d])) = blockedIP (Some [a, b, c, d])
   \<and> (length i = 16 \<and> take 12 i \<noteq> v4_in_v6_prefix \<longrightarrow>
       fst (blockedIP (Some i)) = (i = replicate 16 0 \<or> i = replicate 15 0 @ [1]
         \<or> i ! 0 = 0xfe \<and> 0x80 \<le> i ! 1 \<and> i ! 1 \<le> 0xbf \<or> i ! 0 = 0xff))"
proof -
  have "norm4 (v4_in_v6_prefix @ [a, b, c, d]) = [a, b, c, d]" by (simp add: norm4_def)
  then have "blockedIP (Some (v4_in_v6_prefix @ [a, b, c, d])) = blockedIP (Some [a, b, c, d])"
    using blockedIP_norm4 [of "v4_in_v6_prefix @ [a, b, c, d]"] by simp
  moreover have "length i = 16 \<and> take 12 i \<noteq> v4_in_v6_prefix \<Longrightarrow> To4 i = None" by (simp add: To4_def)
  ultimately show ?thesis using blocked_v4 [of a b c d] blocked_v6 [of i] by blast
qed

theorem blockedIP_ranges_witness:
  "fst (blockedIP (Some [169, 254, 169, 254])) \<and>
   fst (blockedIP (Some (0xfe # 0x80 # replicate 13 0 @ [1]))) \<and> \<not> fst (blockedIP (Some [10, 0, 0, 1]))"
proof -
  let ?i = "(0xfe # 0x80 # replicate 13 0 @ [1]) :: ip"
  have "take 12 ?i ! 0 \<noteq> v4_in_v6_prefix ! 0" by (simp add: v4_in_v6_prefix_def)
  then have "take 12 ?i \<noteq> v4_in_v6_prefix" by metis
  then have "fst (blockedIP (Some ?i))" using blockedIP_ranges [of 0 0 0 0 ?i] by simp
  moreover have "\<not> (224::8 word) \<le> 10" by simp
  ultimately show ?thesis
    using blockedIP_ranges [of 169 254 169 254 "[]"] blockedIP_ranges [of 10 0 0 1 "[]"] by simp
qed



text \<open>A dialer in front of one address, for the witnesses.\<close>

definition lab_net :: os_net where
  "lab_net = \<lparr>on_lookup = (\<lambda>_. [''10.0.0.5:5432'']), on_connect = (\<lambda>_. True)\<rparr>"

definition lab_env :: dial_env where
  "lab_env = \<lparr>de_clock = (\<lambda>_. 1), de_uuid = (\<lambda>_. ''id''), de_net = lab_net\<rparr>"

definition lab_dialer :: Dialer where
  "lab_dialer = Dialer_New (\<lambda>_. None) lab_policy [WithHostnameResolutionDisabled]"

definition lab_target :: Target where
  "lab_target = \<lparr>t_Host = ''db1.lab.local'', t_Port = 5432\<rparr>"

lemma lab_dialer_fields: "dl_cred lab_dialer = Some (NewProvider None None None)" "dl_dialControl lab_dialer = Some guardResolvedAddr"
  "dl_policy lab_dialer = lab_policy" "dl_resolver lab_dialer = None" "dl_approvals lab_dialer = None"
  by (simp_all add: lab_dialer_def Dialer_New_def WithHostnameResolutionDisabled_def Let_def)

lemma lab_D: "Decide lab_policy (lab_user [''dba'']) lab_target None = allow_by (lab_user [''dba'']) dba_role lab_rule None"
  by code_simp

lemma lab_ip: "ParseIP (address_host ''10.0.0.5:5432'') = Some (v4_in_v6_prefix @ [10, 0, 0, 5])"
  by code_simp

lemma lab_guard: "guardResolvedAddr ''10.0.0.5:5432'' = None"
proof -
  have "\<not> fst (blockedIP (Some (v4_in_v6_prefix @ [10, 0, 0, 5])))"
    using blockedIP_norm4 [of "v4_in_v6_prefix @ [10, 0, 0, 5]"] blocked_v4 [of 10 0 0 5] by (simp add: norm4_def)
  with lab_ip show ?thesis by (auto simp: guard_passes)
qed

lemma lab_dialled:
  "DialTarget lab_dialer lab_env (lab_user [''dba'']) ''192.0.2.7'' lab_target True =
     (lab_dialer, [decision_event lab_env (lab_user [''dba'']) ''192.0.2.7'' lab_target True
        (allow_by (lab_user [''dba'']) dba_role lab_rule None)], [''10.0.0.5:5432''], Inr ''10.0.0.5:5432'')"
  by (simp add: DialTarget_eq currentPolicy_def lab_dialer_fields lab_D resolveCredential_def lab_rule_def
      ForwardingAllowed_def RecordMode_Normalize_def RecordFull_def RecordNone_def RecordMetadataOnly_def
      Mode_Normalize_def netDial_def lab_env_def lab_net_def compose_control_def lab_guard)


text \<open>
  Every dial is evidenced: the first event is the decision, with the user,
  the source, the target and the verdict that was enforced; and an event of the
  call that says refused means no connect was attempted and an error returned.
\<close>

theorem dial_evidence:
  assumes "dl_cred d = Some p" and "dl_dialControl d = Some c"
    and "DialTarget d env pr src t forwarding = (d', evs, tried, r)"
  shows "\<exists>e rest. evs = e # rest \<and> ev_Type e = TypeTunnelDecision \<and> ev_User e = pr_User pr
      \<and> ev_SourceIP e = src \<and> ev_Target e = Target_String t
      \<and> ev_Allow e = Some (d_Allow (Peek d pr t) \<and> (forwarding \<longrightarrow> ForwardingAllowed (Peek d pr t)))
      \<and> ((\<exists>x\<in>set evs. ev_Allow x = Some False) \<longrightarrow> tried = [] \<and> \<not> is_ok r)"
proof -
  let ?D = "Decide (currentPolicy d) pr t (dl_resolver d)"
  note f = decision_event_fields [of env pr src t forwarding ?D]
  have D: "Peek d pr t = ?D" by (simp add: Peek_def)
  show ?thesis
  proof (rule DialTarget_cases [OF assms(1,2), of env pr src t forwarding], goal_cases)
    case (1 err)
    then show ?case using assms(3) f D by auto
  next
    case (2 aevs err)
    then show ?case using assms(3) f D by auto
  next
    case (3 d' aevs e err)
    then show ?case using assms(3) f D by auto
  next
    case (4 d1 aevs cevs tried1 r1)
    have "ev_Allow x \<noteq> Some False" if "x \<in> set aevs" for x
      using 4(5) that by (rule_tac gateApproval_cases [of d env pr src t]) (auto split: if_splits)
    with 4 show ?case using assms(3) f D by fastforce
  qed
qed

theorem dial_evidence_witness:
  "\<exists>e rest. [decision_event lab_env (lab_user [''dba'']) ''192.0.2.7'' lab_target True
        (allow_by (lab_user [''dba'']) dba_role lab_rule None)] = e # rest
      \<and> ev_Type e = TypeTunnelDecision \<and> ev_User e = pr_User (lab_user [''dba'']) \<and> ev_Target e = Target_String lab_target"
  using dial_evidence [OF lab_dialer_fields(1,2) lab_dialled] by blast

text \<open>
  A refused approval gate without a working store leaves no trace of the
  refusal: with no store configured the call is refused, yet its only event is
  the decision, recorded as an allow.
\<close>

theorem approval_refusal_not_evidenced:
  assumes "d_Allow (Peek d pr t)" and "d_RequireApproval (Peek d pr t)" and "dl_approvals d = None"
  shows "\<exists>e. DialTarget d env pr src t False =
      (d, [e], [], Inl (ErrApprovalRefused ''approval required but no approval store configured''))
    \<and> ev_Type e = TypeTunnelDecision \<and> ev_Allow e = Some True"
  using assms decision_event_fields(1,5) [of env pr src t False "Peek d pr t"]
  by (simp add: DialTarget_eq Peek_def gateApproval_def)

definition lab_gated :: Policy where
  "lab_gated = \<lparr>po_Roles = [dba_role\<lparr>ro_Allow := [lab_rule\<lparr>ru_RequireApproval := True\<rparr>]\<rparr>]\<rparr>"

theorem approval_refusal_not_evidenced_witness:
  "\<exists>e. DialTarget (SetPolicy lab_dialer lab_gated) lab_env (lab_user [''dba'']) ''192.0.2.7'' lab_target False =
      (SetPolicy lab_dialer lab_gated, [e], [], Inl (ErrApprovalRefused ''approval required but no approval store configured''))
    \<and> ev_Type e = TypeTunnelDecision \<and> ev_Allow e = Some True"
proof (rule approval_refusal_not_evidenced)
  let ?d = "SetPolicy lab_dialer lab_gated"
  have "Decide lab_gated (lab_user [''dba'']) lab_target None =
      allow_by (lab_user [''dba'']) (dba_role\<lparr>ro_Allow := [lab_rule\<lparr>ru_RequireApproval := True\<rparr>]\<rparr>) (lab_rule\<lparr>ru_RequireApproval := True\<rparr>) None"
    by code_simp
  then have P: "Peek ?d (lab_user [''dba'']) lab_target = \<dots>"
    by (simp add: Peek_def SetPolicy_def currentPolicy_def lab_dialer_fields)
  show "d_Allow (Peek ?d (lab_user [''dba'']) lab_target)" "d_RequireApproval (Peek ?d (lab_user [''dba'']) lab_target)"
    by (simp_all add: P)
  show "dl_approvals ?d = None" by (simp add: SetPolicy_def lab_dialer_fields)
qed

definition same_but_secret :: "Fetcher \<Rightarrow> Fetcher \<Rightarrow> bool" where
  "same_but_secret f g = (\<forall>q. case (f q, g q) of (Inl a, Inl b) \<Rightarrow> a = b
     | (Inr a, Inr b) \<Rightarrow> (a = None \<or> Secret_Len a = 0) = (b = None \<or> Secret_Len b = 0) | _ \<Rightarrow> False)"

lemma Resolve_secret_independent:
  assumes "same_but_secret f g"
    and "Resolve (p\<lparr>p_fetcher := Some f\<rparr>) req n n' = (p1, q1, r1, e1)"
    and "Resolve (p\<lparr>p_fetcher := Some g\<rparr>) req n n' = (p2, q2, r2, e2)"
  shows "e1 = e2 \<and> rs_Outcome r1 = rs_Outcome r2 \<and> rs_Reason r1 = rs_Reason r2 \<and> q1 = q2 \<and> p_breaker p1 = p_breaker p2"
proof -
  have s: "case (f q, g q) of (Inl a, Inl b) \<Rightarrow> a = b
     | (Inr a, Inr b) \<Rightarrow> (a = None \<or> Secret_Len a = 0) = (b = None \<or> Secret_Len b = 0) | _ \<Rightarrow> False" for q
    using assms(1) unfolding same_but_secret_def by blast
  show ?thesis
  proof (cases "Mode_Normalize (cr_Mode req) = ModeInject")
    case False
    with assms(2,3) show ?thesis by (auto simp: Resolve_def Let_def split: if_splits)
  next
    case True
    then have R: "Resolve x req n n' = inject x req n n'" for x by (simp add: Resolve_def)
    show ?thesis
    proof (cases "p_query p")
      case None
      with assms(2,3) show ?thesis by (auto simp: R inject_def)
    next
      case (Some qf)
      with assms(2,3) s [of "qf req"] show ?thesis
        by (auto simp: R inject_def Let_def split: option.splits prod.splits bool.splits sum.splits if_splits)
    qed
  qed
qed


definition lab_vault :: "string \<Rightarrow> Fetcher" where
  "lab_vault secret = (\<lambda>q. Inr (Some (Secret_New secret)))"

lemma lab_vaults_agree: "same_but_secret (lab_vault ''hunter2'') (lab_vault ''correct horse'')"
  by (simp add: same_but_secret_def lab_vault_def Secret_Len_def Secret_New_def)


text \<open>
  The second leg is guarded as well: whatever the resolver answers at connect
  time, \<open>DialGuarded\<close> attempts a connect only on addresses that parse, lie in the
  matched range, and are not blocked, loopback being the one exception and only
  when it is explicitly allowed; and a returned connection is one of these.
\<close>

theorem DialGuarded_safe:
  assumes "DialGuarded os addr matched allowLoopback = (tried, r)"
  shows "(\<forall>a\<in>set tried. \<exists>i. ParseIP (address_host a) = Some i
            \<and> (fst (blockedIP (Some i)) \<longrightarrow> allowLoopback \<and> IsLoopback i)
            \<and> (\<forall>n. matched = Some n \<longrightarrow> net_contains n i))
    \<and> (\<forall>c. r = Inr c \<longrightarrow> c \<in> set tried)"
proof -
  let ?base = "if allowLoopback then guardResolvedAddrAllowLoopback else guardResolvedAddr"
  have nd: "netDial os addr (compose_control ?base matched) = (tried, r)" using assms by (simp add: DialGuarded_def)
  have "\<exists>i. ParseIP (address_host a) = Some i \<and> (fst (blockedIP (Some i)) \<longrightarrow> allowLoopback \<and> IsLoopback i)
      \<and> (\<forall>n. matched = Some n \<longrightarrow> net_contains n i)" if "a \<in> set tried" for a
  proof -
    have c: "compose_control ?base matched a = None"
      using netDial_guarded [of a os addr "compose_control ?base matched"] that nd by simp
    then have "?base a = None" and w: "\<And>n. matched = Some n \<Longrightarrow> guardWithinCIDR a n = None"
      by (auto simp: compose_passes)
    then obtain i where i: "ParseIP (address_host a) = Some i" "fst (blockedIP (Some i)) \<longrightarrow> allowLoopback \<and> IsLoopback i"
      by (auto simp: guard_passes guardResolvedAddrAllowLoopback_def split: if_splits option.splits)
    with w show ?thesis by (auto simp: within_passes)
  qed
  moreover have "c \<in> set tried" if "r = Inr c" for c
    using dial_serial_result [of "compose_control ?base matched" "on_connect os" "NoAddress addr" "on_lookup os addr" c] nd that
    by (simp add: netDial_def)
  ultimately show ?thesis by blast
qed

theorem DialGuarded_safe_witness:
  "DialGuarded lab_net ''db1.lab.local:5432'' None False = ([''10.0.0.5:5432''], Inr ''10.0.0.5:5432'')
    \<and> (\<exists>i. ParseIP (address_host ''10.0.0.5:5432'') = Some i \<and> \<not> fst (blockedIP (Some i)))"
proof -
  have d: "DialGuarded lab_net ''db1.lab.local:5432'' None False = ([''10.0.0.5:5432''], Inr ''10.0.0.5:5432'')"
    by (simp add: DialGuarded_def netDial_def lab_net_def compose_control_def lab_guard)
  from DialGuarded_safe [OF this] d show ?thesis by auto
qed

end
