(* ===== verification/Merkle.thy ===== *)
theory Merkle
  imports Go_Std
begin

text \<open>
  The Merkle tree of a segment, \<^verbatim>\<open>internal/evidence/merkle.go\<close>, and the hex
  helpers of \<^verbatim>\<open>hash.go\<close>.  SHA-256 is an argument \<open>h\<close>; what the code relies on, a
  32-byte digest without collisions among the messages at hand, is stated as a
  hypothesis of the lemmas that need it.
\<close>

section \<open>Hex\<close>

definition hex_digit :: "nat \<Rightarrow> char" where
  "hex_digit n = (if n < 10 then char_of (48 + n) else char_of (87 + n))"

definition hex_byte :: "char \<Rightarrow> string" where
  "hex_byte c = [hex_digit (byte c div 16), hex_digit (byte c mod 16)]"

definition hexBytes :: "string \<Rightarrow> string" where
  "hexBytes b = concat (map hex_byte b)"

lemma length_hexBytes [simp]: "length (hexBytes b) = 2 * length b"
  by (induction b) (simp_all add: hexBytes_def hex_byte_def)

lemma hex_digit_inj: "m < 16 \<Longrightarrow> n < 16 \<Longrightarrow> hex_digit m = hex_digit n \<Longrightarrow> m = n"
proof -
  assume mn: "m < 16" "n < 16" and eq: "hex_digit m = hex_digit n"
  have "byte (hex_digit k) = (if k < 10 then 48 + k else 87 + k)" if "k < 16" for k
    using that by (simp add: hex_digit_def byte_char_of)
  then have "(if m < 10 then 48 + m else 87 + m) = (if n < 10 then 48 + n else 87 + n)"
    using mn arg_cong [OF eq, of byte] by simp
  then show ?thesis by (simp split: if_splits)
qed

lemma hex_byte_inj: "hex_byte c = hex_byte d \<Longrightarrow> c = d"
proof -
  assume "hex_byte c = hex_byte d"
  moreover have "byte x div 16 < 16" for x using byte_less [of x] by simp
  ultimately have "byte c div 16 = byte d div 16" "byte c mod 16 = byte d mod 16"
    by (auto simp: hex_byte_def intro: hex_digit_inj)
  then have "byte c = byte d" by (metis div_mult_mod_eq)
  then show ?thesis by (metis char_of_byte)
qed

lemma hexBytes_inj: "hexBytes a = hexBytes b \<Longrightarrow> a = b"
proof (induction a arbitrary: b)
  case Nil
  then show ?case by (cases b) (auto simp: hexBytes_def hex_byte_def)
next
  case (Cons x xs)
  from Cons.prems obtain y ys where b: "b = y # ys" by (cases b) (auto simp: hexBytes_def hex_byte_def)
  from Cons.prems have "hex_byte x @ hexBytes xs = hex_byte y @ hexBytes ys" by (simp add: b hexBytes_def)
  then have "hex_byte x = hex_byte y" "hexBytes xs = hexBytes ys" by (auto simp: hex_byte_def)
  with Cons.IH b show ?case by (auto dest: hex_byte_inj)
qed

section \<open>The tree\<close>

definition leafHash :: "(string \<Rightarrow> string) \<Rightarrow> string \<Rightarrow> string" where
  "leafHash h data = h (CHR 0x00 # data)"

definition nodeHash :: "(string \<Rightarrow> string) \<Rightarrow> string \<Rightarrow> string \<Rightarrow> string" where
  "nodeHash h l r = h (CHR 0x01 # l @ r)"

text \<open>One pass of the loop: pair neighbours, promote an odd tail.\<close>

fun next_level :: "(string \<Rightarrow> string) \<Rightarrow> string list \<Rightarrow> string list" where
  "next_level h (a # b # xs) = nodeHash h a b # next_level h xs"
| "next_level h [a] = [a]"
| "next_level h [] = []"

lemma length_next_level: "length (next_level h xs) = (length xs + 1) div 2"
  by (induction h xs rule: next_level.induct) auto

function merkle_loop :: "(string \<Rightarrow> string) \<Rightarrow> string list \<Rightarrow> string" where
  "merkle_loop h level = (if 1 < length level then merkle_loop h (next_level h level) else level ! 0)"
  by auto
termination
  by (relation "measure (\<lambda>(h, level). length level)") (auto simp: length_next_level)

declare merkle_loop.simps [simp del]

definition MerkleRoot :: "(string \<Rightarrow> string) \<Rightarrow> string list \<Rightarrow> string" where
  "MerkleRoot h leaves = (if leaves = [] then leafHash h [] else merkle_loop h (map (leafHash h) leaves))"

section \<open>The abstract tree it computes\<close>

datatype mtree = MLeaf string | MNode mtree mtree

primrec thash :: "(string \<Rightarrow> string) \<Rightarrow> mtree \<Rightarrow> string" where
  "thash h (MLeaf d) = leafHash h d"
| "thash h (MNode l r) = nodeHash h (thash h l) (thash h r)"

text \<open>The messages hashed on the way.\<close>

primrec tmsgs :: "(string \<Rightarrow> string) \<Rightarrow> mtree \<Rightarrow> string list" where
  "tmsgs h (MLeaf d) = [CHR 0x00 # d]"
| "tmsgs h (MNode l r) = (CHR 0x01 # thash h l @ thash h r) # tmsgs h l @ tmsgs h r"

primrec tleaves :: "mtree \<Rightarrow> string list" where
  "tleaves (MLeaf d) = [d]"
| "tleaves (MNode l r) = tleaves l @ tleaves r"

fun pair_up :: "mtree list \<Rightarrow> mtree list" where
  "pair_up (a # b # xs) = MNode a b # pair_up xs"
| "pair_up [a] = [a]"
| "pair_up [] = []"

lemma length_pair_up: "length (pair_up xs) = (length xs + 1) div 2"
  by (induction xs rule: pair_up.induct) auto

function build :: "mtree list \<Rightarrow> mtree" where
  "build ts = (if 1 < length ts then build (pair_up ts) else ts ! 0)"
  by auto
termination
  by (relation "measure length") (auto simp: length_pair_up)

declare build.simps [simp del]

definition merkle_tree :: "string list \<Rightarrow> mtree" where
  "merkle_tree leaves = build (map MLeaf leaves)"

definition merkle_msgs :: "(string \<Rightarrow> string) \<Rightarrow> string list \<Rightarrow> string list" where
  "merkle_msgs h leaves = tmsgs h (merkle_tree leaves)"

lemma next_level_thash: "next_level h (map (thash h) ts) = map (thash h) (pair_up ts)"
  by (induction ts rule: pair_up.induct) auto

lemma merkle_loop_build: "ts \<noteq> [] \<Longrightarrow> merkle_loop h (map (thash h) ts) = thash h (build ts)"
proof (induction ts rule: build.induct)
  case (1 ts)
  show ?case
  proof (cases "1 < length ts")
    case True
    then have "pair_up ts \<noteq> []" using length_pair_up [of ts] by auto
    with 1 True show ?thesis
      by (simp add: merkle_loop.simps [of h "map (thash h) ts"] build.simps [of ts] next_level_thash)
  next
    case False
    with 1 show ?thesis by (simp add: merkle_loop.simps [of h "map (thash h) ts"] build.simps [of ts])
  qed
qed

lemma MerkleRoot_tree: "leaves \<noteq> [] \<Longrightarrow> MerkleRoot h leaves = thash h (merkle_tree leaves)"
  using merkle_loop_build [of "map MLeaf leaves" h]
  by (simp add: MerkleRoot_def merkle_tree_def comp_def)

lemma tleaves_pair_up: "concat (map tleaves (pair_up ts)) = concat (map tleaves ts)"
  by (induction ts rule: pair_up.induct) auto

lemma tleaves_build: "ts \<noteq> [] \<Longrightarrow> tleaves (build ts) = concat (map tleaves ts)"
proof (induction ts rule: build.induct)
  case (1 ts)
  show ?case
  proof (cases "1 < length ts")
    case True
    then have "pair_up ts \<noteq> []" using length_pair_up [of ts] by auto
    with 1 True show ?thesis by (simp add: build.simps [of ts] tleaves_pair_up)
  next
    case False
    with 1 obtain t where "ts = [t]" by (cases ts) auto
    then show ?thesis by (simp add: build.simps [of "[t]"])
  qed
qed

lemma tleaves_merkle_tree: "leaves \<noteq> [] \<Longrightarrow> tleaves (merkle_tree leaves) = leaves"
  by (simp add: merkle_tree_def tleaves_build comp_def)

lemma thash_inj:
  assumes len: "\<And>x. length (h x) = 32"
  shows "inj_on h (set (tmsgs h t) \<union> set (tmsgs h t')) \<Longrightarrow> thash h t = thash h t' \<Longrightarrow> t = t'"
proof (induction t arbitrary: t')
  case (MLeaf d)
  show ?case
  proof (cases t')
    case (MLeaf d')
    with MLeaf.prems(2) have "h (CHR 0x00 # d) = h (CHR 0x00 # d')" by (simp add: leafHash_def)
    with MLeaf.prems(1) MLeaf have "CHR 0x00 # d = CHR 0x00 # d'" by (elim inj_onD) simp_all
    with MLeaf show ?thesis by simp
  next
    case (MNode l' r')
    with MLeaf.prems(2) have "h (CHR 0x00 # d) = h (CHR 0x01 # thash h l' @ thash h r')" by (simp add: leafHash_def nodeHash_def)
    with MLeaf.prems(1) MNode have "CHR 0x00 # d = CHR 0x01 # thash h l' @ thash h r'" by (elim inj_onD) simp_all
    then show ?thesis by simp
  qed
next
  case (MNode l r)
  obtain l' r' where t': "t' = MNode l' r'"
  proof (cases t')
    case (MLeaf d')
    with MNode.prems(2) have "h (CHR 0x01 # thash h l @ thash h r) = h (CHR 0x00 # d')" by (simp add: leafHash_def nodeHash_def)
    with MNode.prems(1) MLeaf have "CHR 0x01 # thash h l @ thash h r = CHR 0x00 # d'" by (elim inj_onD) simp_all
    then show ?thesis by simp
  qed
  have lens: "length (thash h x) = 32" for x by (cases x) (simp_all add: len leafHash_def nodeHash_def)
  have "h (CHR 0x01 # thash h l @ thash h r) = h (CHR 0x01 # thash h l' @ thash h r')"
    using MNode.prems(2) by (simp add: t' nodeHash_def)
  with MNode.prems(1) have "CHR 0x01 # thash h l @ thash h r = CHR 0x01 # thash h l' @ thash h r'"
    by (elim inj_onD) (simp_all add: t')
  then have "thash h l @ thash h r = thash h l' @ thash h r'" by simp
  then have "thash h l = thash h l'" "thash h r = thash h r'" using lens by auto
  moreover have "inj_on h (set (tmsgs h l) \<union> set (tmsgs h l'))" "inj_on h (set (tmsgs h r) \<union> set (tmsgs h r'))"
    by (rule inj_on_subset [OF MNode.prems(1)], auto simp: t')+
  ultimately show ?case using MNode.IH t' by auto
qed

lemma MerkleRoot_inj:
  assumes "\<And>x. length (h x) = 32" and "inj_on h (set (merkle_msgs h xs) \<union> set (merkle_msgs h ys))"
    and "xs \<noteq> []" and "ys \<noteq> []" and "MerkleRoot h xs = MerkleRoot h ys"
  shows "xs = ys"
proof -
  have "merkle_tree xs = merkle_tree ys"
    using assms thash_inj [of h "merkle_tree xs" "merkle_tree ys"] by (simp add: MerkleRoot_tree merkle_msgs_def)
  then show ?thesis using tleaves_merkle_tree assms(3,4) by metis
qed

text \<open>
  The Merkle root binds the segment: whatever their lengths, two non-empty
  lists of leaves with the same root are equal, unless two different messages
  that the computations hashed collide (leaf and node hashing being separated
  by their prefix, a promoted odd node cannot be confused with a leaf).
\<close>

theorem MerkleRoot_binding:
  assumes "\<forall>x. length (h x) = 32" and "xs \<noteq> []" and "ys \<noteq> []" and "MerkleRoot h xs = MerkleRoot h ys" and "xs \<noteq> ys"
  shows "\<exists>a\<in>set (merkle_msgs h xs) \<union> set (merkle_msgs h ys). \<exists>b\<in>set (merkle_msgs h xs) \<union> set (merkle_msgs h ys).
      a \<noteq> b \<and> h a = h b"
  using MerkleRoot_inj [of h xs ys] assms by (auto simp: inj_on_def)

theorem MerkleRoot_binding_witness:
  "\<exists>a\<in>set (merkle_msgs (\<lambda>_. replicate 32 CHR ''0'') [''a'']) \<union> set (merkle_msgs (\<lambda>_. replicate 32 CHR ''0'') [''b'']).
   \<exists>b\<in>set (merkle_msgs (\<lambda>_. replicate 32 CHR ''0'') [''a'']) \<union> set (merkle_msgs (\<lambda>_. replicate 32 CHR ''0'') [''b'']).
     a \<noteq> b \<and> replicate 32 CHR ''0'' = replicate 32 CHR ''0''"
  by (rule MerkleRoot_binding [of "\<lambda>_. replicate 32 CHR ''0''" "[''a'']" "[''b'']"])
     (simp_all add: MerkleRoot_def merkle_loop.simps leafHash_def)

end
