(* ===== verification/Evidence.thy ===== *)
theory Evidence
  imports Merkle Event "HOL-Library.AList" "HOL-Library.Product_Lexorder"
    "HOL-Library.List_Lexorder" "HOL-Library.Char_ord"
begin

text \<open>
  The ordered, hash-chained evidence log, \<^verbatim>\<open>internal/evidence\<close>: sealed records
  (\<^verbatim>\<open>record.go\<close>), signed checkpoints (\<^verbatim>\<open>checkpoint.go\<close>, \<^verbatim>\<open>signer.go\<close>) and the bus that
  writes them (\<^verbatim>\<open>bus.go\<close>).

  SHA-256, Ed25519 and the JSON encoding are the fields of a \<open>codec\<close>, an argument
  of the definitions; \<open>cd_record\<close> and \<open>cd_ckpt\<close> are \<^verbatim>\<open>json.Marshal\<close> on the hash-covered
  cores, which may fail.  Sequence counters (\<^verbatim>\<open>uint64\<close>, counting records of one
  process) are naturals; the epoch, read from a file, wraps at 64 bits as written.
\<close>

section \<open>Records and checkpoints\<close>

record RecordCore =
  rc_SchemaVersion :: int
  rc_EmitterID :: string
  rc_Epoch :: nat
  rc_Seq :: nat
  rc_GlobalSeq :: nat
  rc_Time :: time
  rc_Event :: Event
  rc_PrevHash :: string

record Record = RecordCore +
  rc_Hash :: string

record CheckpointCore =
  ck_SchemaVersion :: int
  ck_Epoch :: nat
  ck_SegmentIndex :: nat
  ck_FirstGlobalSeq :: nat
  ck_LastGlobalSeq :: nat
  ck_RecordCount :: nat
  ck_MerkleRoot :: string
  ck_ChainHead :: string
  ck_PrevCheckpointHash :: string
  ck_Time :: time
  ck_PublicKey :: string

record Checkpoint = CheckpointCore +
  ck_Signature :: string

record codec =
  cd_sha :: "string \<Rightarrow> string"
  cd_record :: "RecordCore \<Rightarrow> string option"
  cd_line :: "Record \<Rightarrow> string option"
  cd_parse :: "string \<Rightarrow> Record option"
  cd_ckpt :: "CheckpointCore \<Rightarrow> string option"
  cd_ckfile :: "Checkpoint \<Rightarrow> string option"
  cd_ckparse :: "string \<Rightarrow> Checkpoint option"
  cd_utf8 :: "string \<Rightarrow> Event \<Rightarrow> bool"                \<comment> \<open>the emitter's and the event's strings are valid UTF-8\<close>
  cd_ed_verify :: "string \<Rightarrow> string \<Rightarrow> string \<Rightarrow> bool"    \<comment> \<open>key, message, signature\<close>

definition RecordSchemaVersion :: int where "RecordSchemaVersion = 1"
definition CheckpointSchemaVersion :: int where "CheckpointSchemaVersion = 1"

abbreviation (input) GenesisPrevHash :: string where "GenesisPrevHash \<equiv> []"
abbreviation (input) GenesisPrevCheckpoint :: string where "GenesisPrevCheckpoint \<equiv> []"

definition record_core :: "Record \<Rightarrow> RecordCore" where
  "record_core r = RecordCore.truncate r"

definition sha256Hex :: "codec \<Rightarrow> string \<Rightarrow> string" where
  "sha256Hex c b = hexBytes (cd_sha c b)"

definition CanonicalBytes :: "codec \<Rightarrow> Record \<Rightarrow> string option" where
  "CanonicalBytes c r = cd_record c (record_core r)"

definition ComputeHash :: "codec \<Rightarrow> Record \<Rightarrow> string option" where
  "ComputeHash c r = map_option (sha256Hex c) (CanonicalBytes c r)"

text \<open>\<open>seal\<close>: the record with its chain link and hash; the new chain head is that hash.\<close>

definition seal :: "codec \<Rightarrow> Record \<Rightarrow> string \<Rightarrow> Record option" where
  "seal c r prevHash =
    (let r' = r\<lparr>rc_SchemaVersion := RecordSchemaVersion, rc_PrevHash := prevHash\<rparr>
     in map_option (\<lambda>h. r'\<lparr>rc_Hash := h\<rparr>) (ComputeHash c r'))"

definition ckpt_core :: "Checkpoint \<Rightarrow> CheckpointCore" where
  "ckpt_core k = CheckpointCore.truncate k"

definition ckpt_CanonicalBytes :: "codec \<Rightarrow> Checkpoint \<Rightarrow> string option" where
  "ckpt_CanonicalBytes c k = cd_ckpt c (ckpt_core k)"

section \<open>Signatures\<close>

text \<open>The signing key: its public key and the signatures it makes (raw bytes).\<close>

record Signer =
  sg_pub :: string
  sg_sign :: "string \<Rightarrow> string"

definition unhex_digit :: "char \<Rightarrow> nat option" where
  "unhex_digit ch = (let b = byte ch in
     if 48 \<le> b \<and> b \<le> 57 then Some (b - 48) else if 97 \<le> b \<and> b \<le> 102 then Some (b - 87)
     else if 65 \<le> b \<and> b \<le> 70 then Some (b - 55) else None)"

fun hex_DecodeString :: "string \<Rightarrow> string option" where
  "hex_DecodeString [] = Some []"
| "hex_DecodeString [a] = None"
| "hex_DecodeString (a # b # s) =
    (case (unhex_digit a, unhex_digit b, hex_DecodeString s) of
       (Some x, Some y, Some r) \<Rightarrow> Some (char_of (16 * x + y) # r) | _ \<Rightarrow> None)"

definition PublicKeyHex :: "Signer \<Rightarrow> string" where
  "PublicKeyHex s = hexBytes (sg_pub s)"

definition signer_sign :: "Signer \<Rightarrow> string \<Rightarrow> string" where
  "signer_sign s msg = hexBytes (sg_sign s msg)"

definition VerifySignature :: "codec \<Rightarrow> string \<Rightarrow> string \<Rightarrow> string \<Rightarrow> bool" where
  "VerifySignature c pubHex sigHex msg =
    (case hex_DecodeString pubHex of None \<Rightarrow> False
     | Some pub \<Rightarrow> if length pub \<noteq> 32 then False
        else case hex_DecodeString sigHex of None \<Rightarrow> False
          | Some sig \<Rightarrow> if length sig \<noteq> 64 then False else cd_ed_verify c pub msg sig)"

definition signWith :: "codec \<Rightarrow> Checkpoint \<Rightarrow> Signer \<Rightarrow> Checkpoint option" where
  "signWith c k s =
    (let k' = k\<lparr>ck_SchemaVersion := CheckpointSchemaVersion, ck_PublicKey := PublicKeyHex s\<rparr>
     in map_option (\<lambda>msg. k'\<lparr>ck_Signature := signer_sign s msg\<rparr>) (ckpt_CanonicalBytes c k'))"

definition VerifySig :: "codec \<Rightarrow> Checkpoint \<Rightarrow> bool" where
  "VerifySig c k = (case ckpt_CanonicalBytes c k of None \<Rightarrow> False
     | Some msg \<Rightarrow> VerifySignature c (ck_PublicKey k) (ck_Signature k) msg)"

definition HashHex :: "codec \<Rightarrow> Checkpoint \<Rightarrow> string option" where
  "HashHex c k = map_option (\<lambda>msg. sha256Hex c (msg @ ck_Signature k)) (ckpt_CanonicalBytes c k)"

section \<open>The evidence directory\<close>

text \<open>
  What is on disk: the epoch file, the segment files with their lines, and the
  checkpoint files.
\<close>

record Dir =
  dir_epoch :: "string option"
  dir_segments :: "(string \<times> string list) list"
  dir_ckpts :: "(string \<times> string) list"

text \<open>\<^verbatim>\<open>os.ReadDir\<close> lists a directory sorted by file name.\<close>

definition ReadDir :: "(string \<times> 'a) list \<Rightarrow> (string \<times> 'a) list" where
  "ReadDir fs = sort_key fst fs"

definition ParseUint :: "string \<Rightarrow> nat option" where
  "ParseUint s = (case parse_digits s of Some n \<Rightarrow> if int n < 2 ^ 64 then Some n else None | None \<Rightarrow> None)"

text \<open>\<open>advanceEpoch\<close>: an unparseable file counts as epoch 0; the write may fail.\<close>

definition advanceEpoch :: "string option \<Rightarrow> bool \<Rightarrow> (nat \<times> string) option" where
  "advanceEpoch file wok =
    (let prev = (case file of None \<Rightarrow> 0
           | Some data \<Rightarrow> (case ParseUint (TrimSpace data) of Some v \<Rightarrow> v | None \<Rightarrow> 0));
         nxt = nat ((int prev + 1) mod 2 ^ 64)
     in if wok then Some (nxt, show_nat nxt) else None)"

fun loadCheckpoints :: "codec \<Rightarrow> (string \<times> string) list \<Rightarrow> Checkpoint list option" where
  "loadCheckpoints c [] = Some []"
| "loadCheckpoints c ((name, data) # fs) =
    (if \<not> HasSuffix name ''.json'' then loadCheckpoints c fs
     else case cd_ckparse c data of None \<Rightarrow> None
       | Some k \<Rightarrow> map_option ((#) k) (loadCheckpoints c fs))"

definition later_ckpt :: "Checkpoint \<Rightarrow> Checkpoint \<Rightarrow> bool" where
  "later_ckpt k best = (ck_Epoch k > ck_Epoch best \<or> ck_Epoch k = ck_Epoch best \<and> ck_SegmentIndex k > ck_SegmentIndex best)"

definition lastCheckpointHash :: "codec \<Rightarrow> Dir \<Rightarrow> string option" where
  "lastCheckpointHash c d =
    (case loadCheckpoints c (ReadDir (dir_ckpts d)) of None \<Rightarrow> None
     | Some [] \<Rightarrow> Some GenesisPrevCheckpoint
     | Some (k # ks) \<Rightarrow> HashHex c (foldl (\<lambda>best k. if later_ckpt k best then k else best) k ks))"

section \<open>The bus\<close>

text \<open>
  The open segment: none, writable, or broken (its file is closed or its buffered
  writer has seen an error, so every further write or seal fails).
\<close>

datatype seg_state = SegNone | SegOpen | SegBroken

record Bus =
  b_segmentSize :: nat
  b_signer :: Signer
  b_worm :: bool                          \<comment> \<open>an uploader is configured\<close>
  b_epoch :: nat
  b_perEmitterSeq :: "(string \<times> nat) list"
  b_globalSeq :: nat
  b_chainHead :: string
  b_segmentIndex :: nat
  b_prevCkptHash :: string
  b_segRecords :: "Record list"
  b_seg :: seg_state
  b_firstSeqInSeg :: nat
  b_closed :: bool
  b_dir :: Dir
  b_uploaded :: "string list"             \<comment> \<open>objects put into WORM storage\<close>

text \<open>
  The outcome of the I/O of one call: opening, writing (with the bytes that reach
  the file before a failing write), syncing, and the steps of a seal; and the
  clock readings.
\<close>

record bus_io =
  io_now :: time
  io_open :: bool
  io_write :: bool
  io_torn :: nat
  io_sync :: bool
  io_flush :: bool
  io_close :: bool
  io_ckpt :: bool
  io_cktorn :: "nat option"               \<comment> \<open>what a failing checkpoint write leaves: no file, or a prefix\<close>
  io_wseg :: bool
  io_wckpt :: bool
  io_now2 :: time

definition segmentBaseName :: "Bus \<Rightarrow> string" where
  "segmentBaseName b = ''segment-'' @ show_nat (b_epoch b) @ ''-'' @ show_nat (b_segmentIndex b)"

definition checkpointBaseName :: "Bus \<Rightarrow> string" where
  "checkpointBaseName b = ''checkpoint-'' @ show_nat (b_epoch b) @ ''-'' @ show_nat (b_segmentIndex b)"

definition segment_file :: "Bus \<Rightarrow> string" where
  "segment_file b = segmentBaseName b @ ''.jsonl''"

definition checkpoint_file :: "Bus \<Rightarrow> string" where
  "checkpoint_file b = checkpointBaseName b @ ''.json''"

definition append_line :: "Dir \<Rightarrow> string \<Rightarrow> string \<Rightarrow> Dir" where
  "append_line d name line =
     d\<lparr>dir_segments := map (\<lambda>(n, ls). if n = name then (n, ls @ [line]) else (n, ls)) (dir_segments d)\<rparr>"

text \<open>\<open>openSegment\<close> with \<^verbatim>\<open>O_EXCL\<close>: an existing file of that name is an error.\<close>

definition openSegment :: "Bus \<Rightarrow> bus_io \<Rightarrow> Bus option" where
  "openSegment b io =
    (if \<not> io_open io \<or> segment_file b \<in> set (map fst (dir_segments (b_dir b))) then None
     else Some (b\<lparr>b_seg := SegOpen, b_segRecords := [],
                  b_dir := (b_dir b)\<lparr>dir_segments := dir_segments (b_dir b) @ [(segment_file b, [])]\<rparr>\<rparr>))"

fun all_some :: "'a option list \<Rightarrow> 'a list option" where
  "all_some [] = Some []"
| "all_some (None # xs) = None"
| "all_some (Some x # xs) = map_option ((#) x) (all_some xs)"

definition sealSegment :: "codec \<Rightarrow> Bus \<Rightarrow> bus_io \<Rightarrow> Bus \<times> bool" where
  "sealSegment c b io =
    (let broken = b\<lparr>b_seg := SegBroken\<rparr> in
     if b_seg b = SegBroken \<or> \<not> io_flush io \<or> \<not> io_close io then (broken, False)
     else case all_some (map (CanonicalBytes c) (b_segRecords b)) of
       None \<Rightarrow> (broken, False)
     | Some leaves \<Rightarrow>
        (let lst = last (b_segRecords b);
             ckpt = \<lparr>ck_SchemaVersion = 0, ck_Epoch = b_epoch b, ck_SegmentIndex = b_segmentIndex b,
                     ck_FirstGlobalSeq = b_firstSeqInSeg b, ck_LastGlobalSeq = rc_GlobalSeq lst,
                     ck_RecordCount = length (b_segRecords b), ck_MerkleRoot = hexBytes (MerkleRoot (cd_sha c) leaves),
                     ck_ChainHead = rc_Hash lst, ck_PrevCheckpointHash = b_prevCkptHash b,
                     ck_Time = io_now2 io, ck_PublicKey = [], ck_Signature = []\<rparr>
         in case signWith c ckpt (b_signer b) of None \<Rightarrow> (broken, False)
          | Some k \<Rightarrow>
             (case cd_ckfile c k of None \<Rightarrow> (broken, False)
              | Some ckptBytes \<Rightarrow>
                 if \<not> io_ckpt io then
                   (case io_cktorn io of None \<Rightarrow> (broken, False)
                    | Some n \<Rightarrow> (broken\<lparr>b_dir := (b_dir b)\<lparr>dir_ckpts :=
                        AList.update (checkpoint_file b) (take n ckptBytes) (dir_ckpts (b_dir b))\<rparr>\<rparr>, False))
                 else let b1 = b\<lparr>b_dir := (b_dir b)\<lparr>dir_ckpts := AList.update (checkpoint_file b) ckptBytes (dir_ckpts (b_dir b))\<rparr>\<rparr>
                 in if b_worm b \<and> \<not> io_wseg io then (b1\<lparr>b_seg := SegBroken\<rparr>, False)
                    else let b2 = (if b_worm b then b1\<lparr>b_uploaded := b_uploaded b1 @ [segment_file b]\<rparr> else b1)
                    in if b_worm b \<and> \<not> io_wckpt io then (b2\<lparr>b_seg := SegBroken\<rparr>, False)
                       else let b3 = (if b_worm b then b2\<lparr>b_uploaded := b_uploaded b2 @ [checkpoint_file b]\<rparr> else b2)
                       in case HashHex c k of None \<Rightarrow> (b3\<lparr>b_seg := SegBroken\<rparr>, False)
                        | Some h \<Rightarrow> (b3\<lparr>b_prevCkptHash := h, b_segmentIndex := b_segmentIndex b + 1,
                                       b_seg := SegNone, b_segRecords := []\<rparr>, True))))"

definition emitter_seq :: "Bus \<Rightarrow> string \<Rightarrow> nat" where
  "emitter_seq b em = (case map_of (b_perEmitterSeq b) em of Some n \<Rightarrow> n | None \<Rightarrow> 0)"

definition process_open :: "codec \<Rightarrow> Bus \<Rightarrow> string \<Rightarrow> Event \<Rightarrow> bus_io \<Rightarrow> Bus \<times> bool" where
  "process_open c b emitterID e io =
    (let seq = emitter_seq b emitterID + 1;
         ts = (if IsZero (ev_Time e) then io_now io else ev_Time e);
         rec0 = \<lparr>rc_SchemaVersion = 0, rc_EmitterID = emitterID, rc_Epoch = b_epoch b, rc_Seq = seq,
                rc_GlobalSeq = b_globalSeq b + 1, rc_Time = ts, rc_Event = e, rc_PrevHash = [], rc_Hash = []\<rparr>
     in case seal c rec0 (b_chainHead b) of None \<Rightarrow> (b, False)
      | Some r \<Rightarrow>
         (case cd_line c r of None \<Rightarrow> (b, False)
          | Some line \<Rightarrow>
             if b_seg b = SegBroken then (b, False)
             else if \<not> io_write io then
               (b\<lparr>b_seg := SegBroken,
                  b_dir := (if io_torn io = 0 then b_dir b else append_line (b_dir b) (segment_file b) (take (io_torn io) line))\<rparr>, False)
             else let b1 = b\<lparr>b_dir := append_line (b_dir b) (segment_file b) line\<rparr>
             in if \<not> io_sync io then (b1, False)
                else let b2 = b1\<lparr>b_globalSeq := b_globalSeq b + 1,
                                 b_perEmitterSeq := AList.update emitterID seq (b_perEmitterSeq b),
                                 b_chainHead := rc_Hash r,
                                 b_firstSeqInSeg := (if b_segRecords b = [] then rc_GlobalSeq r else b_firstSeqInSeg b),
                                 b_segRecords := b_segRecords b @ [r]\<rparr>
                in if b_segmentSize b \<le> length (b_segRecords b2) then sealSegment c b2 io else (b2, True)))"

text \<open>The writer's handling of one submission.\<close>

definition process :: "codec \<Rightarrow> Bus \<Rightarrow> string \<Rightarrow> Event \<Rightarrow> bus_io \<Rightarrow> Bus \<times> bool" where
  "process c b emitterID e io =
    (if b_seg b = SegNone then
       (case openSegment b io of None \<Rightarrow> (b, False) | Some b' \<Rightarrow> process_open c b' emitterID e io)
     else process_open c b emitterID e io)"

definition bus_emit :: "codec \<Rightarrow> Bus \<Rightarrow> string \<Rightarrow> Event \<Rightarrow> bus_io \<Rightarrow> Bus \<times> bool" where
  "bus_emit c b emitterID e io = (if b_closed b then (b, False) else process c b emitterID e io)"

text \<open>\<open>Close\<close>: the final seal of a partial segment, its error surfaced.\<close>

definition bus_Close :: "codec \<Rightarrow> Bus \<Rightarrow> bus_io \<Rightarrow> Bus \<times> bool" where
  "bus_Close c b io =
    (if b_closed b then (b, True)
     else let b' = b\<lparr>b_closed := True\<rparr>
     in if b_segRecords b' \<noteq> [] then sealSegment c b' io else (b', True))"

definition bus_Head :: "Bus \<Rightarrow> string" where
  "bus_Head b = b_prevCkptHash b"

definition NewBus :: "codec \<Rightarrow> Dir \<Rightarrow> Signer option \<Rightarrow> int \<Rightarrow> bool \<Rightarrow> bool \<Rightarrow> Bus option" where
  "NewBus c d signer segmentSize worm wok =
    (case signer of None \<Rightarrow> None
     | Some sg \<Rightarrow>
        (case advanceEpoch (dir_epoch d) wok of None \<Rightarrow> None
         | Some (epoch, file) \<Rightarrow>
            (case lastCheckpointHash c d of None \<Rightarrow> None
             | Some head \<Rightarrow>
                Some \<lparr>b_segmentSize = (if segmentSize \<le> 0 then 128 else nat segmentSize), b_signer = sg, b_worm = worm,
                      b_epoch = epoch, b_perEmitterSeq = [], b_globalSeq = 0, b_chainHead = [], b_segmentIndex = 0,
                      b_prevCkptHash = head, b_segRecords = [], b_seg = SegNone, b_firstSeqInSeg = 0,
                      b_closed = False, b_dir = d\<lparr>dir_epoch := Some file\<rparr>, b_uploaded = []\<rparr>)))"

end
