(* ===== verification/Evidence_Verify.thy ===== *)
theory Evidence_Verify
  imports Evidence "HOL-Library.Multiset"
begin

text \<open>
  The offline verifier of an evidence directory, \<^verbatim>\<open>internal/evidence/verify.go\<close>.
  Every problem it can report is a constructor; the message texts are left out.
  \<^verbatim>\<open>sort.Slice\<close> is a stable sort here, which differs from Go's only in the order of
  entries with equal keys.
\<close>

section \<open>The verifier\<close>

datatype problem =
    NoSegments
  | CannotHash string nat
  | Tamper string nat
  | GlobalSeqGap nat nat
  | BrokenHashChain nat nat
  | EmitterGap string nat
  | UnpinnedKey nat nat
  | InvalidSignature nat nat
  | BrokenCheckpointChain nat nat
  | CheckpointCannotHash nat nat
  | NoMatchingSegment nat nat
  | RecordCountMismatch nat nat
  | MerkleMismatch nat nat
  | ChainHeadMismatch nat nat
  | UncoveredSegment string
  | TrailingTruncation
  | DifferentKeys

record VerifyReport =
  vr_OK :: bool
  vr_KeyPinned :: bool
  vr_HeadPinned :: bool
  vr_RecordsChecked :: nat
  vr_SegmentsChecked :: nat
  vr_CheckpointsChecked :: nat
  vr_ChainHead :: string
  vr_SigningKeys :: "string list"
  vr_Problems :: "problem list"

record segmentFile =
  sf_epoch :: nat
  sf_index :: nat
  sf_name :: string
  sf_records :: "Record list"

definition sf_key :: "segmentFile \<Rightarrow> nat \<times> nat" where
  "sf_key s = (sf_epoch s, sf_index s)"

definition ck_key :: "Checkpoint \<Rightarrow> nat \<times> nat" where
  "ck_key k = (ck_Epoch k, ck_SegmentIndex k)"

definition parseEpochIndex :: "string \<Rightarrow> string \<Rightarrow> string \<Rightarrow> (nat \<times> nat) option" where
  "parseEpochIndex name pre suf =
    (case split_byte CHR ''-'' (TrimSuffix (TrimPrefix name pre) suf) of
       [p0, p1] \<Rightarrow> (case (ParseUint p0, ParseUint p1) of (Some e, Some i) \<Rightarrow> Some (e, i) | _ \<Rightarrow> None)
     | _ \<Rightarrow> None)"

fun load_segment_files :: "codec \<Rightarrow> (string \<times> string list) list \<Rightarrow> segmentFile list option" where
  "load_segment_files c [] = Some []"
| "load_segment_files c ((name, ls) # fs) =
    (if \<not> HasSuffix name ''.jsonl'' then load_segment_files c fs
     else case parseEpochIndex name ''segment-'' ''.jsonl'' of None \<Rightarrow> load_segment_files c fs
       | Some (e, i) \<Rightarrow>
          (case all_some (map (cd_parse c) (filter (\<lambda>l. l \<noteq> []) ls)) of None \<Rightarrow> None
           | Some rs \<Rightarrow> map_option ((#) \<lparr>sf_epoch = e, sf_index = i, sf_name = name, sf_records = rs\<rparr>) (load_segment_files c fs)))"

definition loadSegments :: "codec \<Rightarrow> (string \<times> string list) list \<Rightarrow> segmentFile list option" where
  "loadSegments c fs = map_option (sort_key sf_key) (load_segment_files c (ReadDir fs))"

definition verifyRecordHashes :: "codec \<Rightarrow> segmentFile list \<Rightarrow> problem list" where
  "verifyRecordHashes c segs =
     concat (map (\<lambda>s. concat (map (\<lambda>r. case ComputeHash c r of None \<Rightarrow> [CannotHash (sf_name s) (rc_GlobalSeq r)]
         | Some got \<Rightarrow> if got \<noteq> rc_Hash r then [Tamper (sf_name s) (rc_GlobalSeq r)] else []) (sf_records s))) segs)"

definition flattenSorted :: "segmentFile list \<Rightarrow> Record list" where
  "flattenSorted segs = sort_key rc_GlobalSeq (concat (map sf_records segs))"

text \<open>One epoch's records in order: the position gives the expected sequence number.\<close>

fun chain_problems :: "nat \<Rightarrow> nat \<Rightarrow> string \<Rightarrow> Record list \<Rightarrow> problem list" where
  "chain_problems ep i prev [] = []"
| "chain_problems ep i prev (r # rs) =
    (if rc_GlobalSeq r \<noteq> i + 1 then [GlobalSeqGap ep i] else [])
    @ (if rc_PrevHash r \<noteq> prev then [BrokenHashChain ep (rc_GlobalSeq r)] else [])
    @ chain_problems ep (i + 1) (rc_Hash r) rs"

definition epoch_records :: "Record list \<Rightarrow> nat \<Rightarrow> Record list" where
  "epoch_records recs ep = sort_key rc_GlobalSeq (filter (\<lambda>r. rc_Epoch r = ep) recs)"

definition verifyPerEpochChains :: "Record list \<Rightarrow> problem list" where
  "verifyPerEpochChains recs =
     concat (map (\<lambda>ep. chain_problems ep 0 GenesisPrevHash (epoch_records recs ep)) (sort (remdups (map rc_Epoch recs))))"

fun first_gap :: "nat \<Rightarrow> nat list \<Rightarrow> bool" where
  "first_gap i [] = False"
| "first_gap i (v # vs) = (v \<noteq> i + 1 \<or> first_gap (i + 1) vs)"

definition emitter_seqs :: "Record list \<Rightarrow> string \<times> nat \<Rightarrow> nat list" where
  "emitter_seqs recs k = sort (map rc_Seq (filter (\<lambda>r. (rc_EmitterID r, rc_Epoch r) = k) recs))"

definition verifyPerEmitterSequences :: "Record list \<Rightarrow> problem list" where
  "verifyPerEmitterSequences recs =
     concat (map (\<lambda>k. if first_gap 0 (emitter_seqs recs k) then [EmitterGap (fst k) (snd k)] else [])
       (sort (remdups (map (\<lambda>r. (rc_EmitterID r, rc_Epoch r)) recs))))"

text \<open>The map from (epoch, index) to segment: a later entry overwrites an earlier one.\<close>

definition byIndex :: "segmentFile list \<Rightarrow> nat \<times> nat \<Rightarrow> segmentFile option" where
  "byIndex segs k = List.find (\<lambda>s. sf_key s = k) (rev segs)"

definition segment_leaves :: "codec \<Rightarrow> segmentFile \<Rightarrow> string list" where
  "segment_leaves c s = map (\<lambda>r. case CanonicalBytes c r of Some b \<Rightarrow> b | None \<Rightarrow> []) (sf_records s)"

definition ck_hash :: "codec \<Rightarrow> Checkpoint \<Rightarrow> string" where
  "ck_hash c k = (case HashHex c k of Some h \<Rightarrow> h | None \<Rightarrow> [])"

definition segment_problems :: "codec \<Rightarrow> Checkpoint \<Rightarrow> segmentFile \<Rightarrow> problem list" where
  "segment_problems c k seg =
    (if ck_RecordCount k \<noteq> length (sf_records seg) then [RecordCountMismatch (ck_Epoch k) (ck_SegmentIndex k)] else [])
    @ (if hexBytes (MerkleRoot (cd_sha c) (segment_leaves c seg)) \<noteq> ck_MerkleRoot k
       then [MerkleMismatch (ck_Epoch k) (ck_SegmentIndex k)] else [])
    @ (if sf_records seg \<noteq> [] \<and> ck_ChainHead k \<noteq> rc_Hash (last (sf_records seg))
       then [ChainHeadMismatch (ck_Epoch k) (ck_SegmentIndex k)] else [])"

definition checkpoint_problems :: "codec \<Rightarrow> segmentFile list \<Rightarrow> string \<Rightarrow> string \<Rightarrow> Checkpoint \<Rightarrow> problem list" where
  "checkpoint_problems c segs pinnedKey prev k =
    (if pinnedKey \<noteq> [] \<and> ck_PublicKey k \<noteq> pinnedKey then [UnpinnedKey (ck_Epoch k) (ck_SegmentIndex k)] else [])
    @ (if \<not> VerifySig c k then [InvalidSignature (ck_Epoch k) (ck_SegmentIndex k)] else [])
    @ (if ck_PrevCheckpointHash k \<noteq> prev then [BrokenCheckpointChain (ck_Epoch k) (ck_SegmentIndex k)] else [])
    @ (if HashHex c k = None then [CheckpointCannotHash (ck_Epoch k) (ck_SegmentIndex k)] else [])
    @ (case byIndex segs (ck_key k) of None \<Rightarrow> [NoMatchingSegment (ck_Epoch k) (ck_SegmentIndex k)]
       | Some seg \<Rightarrow> segment_problems c k seg)"

fun checkpoint_chain :: "codec \<Rightarrow> segmentFile list \<Rightarrow> string \<Rightarrow> string \<Rightarrow> Checkpoint list \<Rightarrow> problem list" where
  "checkpoint_chain c segs pinnedKey prev [] = []"
| "checkpoint_chain c segs pinnedKey prev (k # ks) =
    checkpoint_problems c segs pinnedKey prev k @ checkpoint_chain c segs pinnedKey (ck_hash c k) ks"

definition chain_head :: "codec \<Rightarrow> Checkpoint list \<Rightarrow> string" where
  "chain_head c ks = (if ks = [] then GenesisPrevCheckpoint else ck_hash c (last ks))"

definition sorted_ckpts :: "Checkpoint list \<Rightarrow> Checkpoint list" where
  "sorted_ckpts ks = sort_key ck_key ks"

definition verifyCheckpoints ::
  "codec \<Rightarrow> segmentFile list \<Rightarrow> Checkpoint list \<Rightarrow> string \<Rightarrow> string \<Rightarrow> problem list" where
  "verifyCheckpoints c segs ckpts pinnedKey expectedHead =
    (let ks = sorted_ckpts ckpts in
     checkpoint_chain c segs pinnedKey GenesisPrevCheckpoint ks
     @ map (\<lambda>s. UncoveredSegment (sf_name s)) (filter (\<lambda>s. sf_key s \<notin> set (map ck_key ks)) segs)
     @ (if expectedHead \<noteq> [] \<and> chain_head c ks \<noteq> expectedHead then [TrailingTruncation] else [])
     @ (if pinnedKey = [] \<and> 1 < length (remdups (map ck_PublicKey ks)) then [DifferentKeys] else []))"

definition verify_loaded ::
  "codec \<Rightarrow> segmentFile list \<Rightarrow> Checkpoint list \<Rightarrow> string \<Rightarrow> string \<Rightarrow> problem list" where
  "verify_loaded c segs ckpts pinnedKey expectedHead =
    (let recs = flattenSorted segs in
     (if segs = [] then [NoSegments] else [])
     @ verifyRecordHashes c segs @ verifyPerEpochChains recs @ verifyPerEmitterSequences recs
     @ verifyCheckpoints c segs ckpts pinnedKey expectedHead)"

definition VerifyBundle :: "codec \<Rightarrow> Dir \<Rightarrow> string \<Rightarrow> string \<Rightarrow> VerifyReport option" where
  "VerifyBundle c d pinnedKey expectedHead =
    (case (loadSegments c (dir_segments d), loadCheckpoints c (ReadDir (dir_ckpts d))) of
       (Some segs, Some ckpts) \<Rightarrow>
        (let ps = verify_loaded c segs ckpts pinnedKey expectedHead in
         Some \<lparr>vr_OK = (ps = []), vr_KeyPinned = (pinnedKey \<noteq> []), vr_HeadPinned = (expectedHead \<noteq> []),
               vr_RecordsChecked = length (flattenSorted segs), vr_SegmentsChecked = length segs,
               vr_CheckpointsChecked = length ckpts, vr_ChainHead = chain_head c (sorted_ckpts ckpts),
               vr_SigningKeys = sort (remdups (map ck_PublicKey ckpts)), vr_Problems = ps\<rparr>)
     | _ \<Rightarrow> None)"

lemma hex_roundtrip: "hex_DecodeString (hexBytes b) = Some b"
proof (induction b)
  case (Cons x b)
  have u: "n < 16 \<Longrightarrow> unhex_digit (hex_digit n) = Some n" for n
    by (auto simp: unhex_digit_def hex_digit_def byte_char_of Let_def)
  have "byte x div 16 < 16" using byte_less [of x] by simp
  moreover have "char_of (16 * (byte x div 16) + byte x mod 16) = x" by simp
  ultimately show ?case using Cons by (simp add: hexBytes_def hex_byte_def u)
qed (simp add: hexBytes_def)

section \<open>What an accepted bundle satisfies\<close>

fun chain_ok :: "codec \<Rightarrow> segmentFile list \<Rightarrow> string \<Rightarrow> string \<Rightarrow> Checkpoint list \<Rightarrow> bool" where
  "chain_ok c segs key prev [] = True"
| "chain_ok c segs key prev (k # ks) = (checkpoint_problems c segs key prev k = [] \<and> chain_ok c segs key (ck_hash c k) ks)"

lemma checkpoint_chain_ok: "checkpoint_chain c segs key prev ks = [] \<longleftrightarrow> chain_ok c segs key prev ks"
  by (induction ks arbitrary: prev) auto

definition head_after :: "codec \<Rightarrow> string \<Rightarrow> Checkpoint list \<Rightarrow> string" where
  "head_after c prev ks = (if ks = [] then prev else ck_hash c (last ks))"

lemma chain_ok_append: "chain_ok c segs key prev (ks @ ks') \<longleftrightarrow>
    chain_ok c segs key prev ks \<and> chain_ok c segs key (head_after c prev ks) ks'"
proof (induction ks arbitrary: prev)
  case (Cons k ks)
  show ?case using Cons [of "ck_hash c k"] by (auto simp: head_after_def)
qed (simp add: head_after_def)

lemma checkpoint_ok_iff:
  "checkpoint_problems c segs key prev k = [] \<longleftrightarrow>
    (key \<noteq> [] \<longrightarrow> ck_PublicKey k = key) \<and> VerifySig c k \<and> ck_PrevCheckpointHash k = prev \<and> HashHex c k \<noteq> None
    \<and> (\<exists>seg. byIndex segs (ck_key k) = Some seg \<and> segment_problems c k seg = [])"
  by (auto simp: checkpoint_problems_def split: option.splits)

lemma hex_Decode_length: "hex_DecodeString s = Some b \<Longrightarrow> length s = 2 * length b"
  by (induction s arbitrary: b rule: hex_DecodeString.induct) (auto split: option.splits)

lemma VerifySig_length: "VerifySig c k \<Longrightarrow> length (ck_Signature k) = 128"
  by (auto simp: VerifySig_def VerifySignature_def dest!: hex_Decode_length split: option.splits if_splits)

text \<open>The message a checkpoint's hash covers.\<close>

definition ck_msg :: "codec \<Rightarrow> Checkpoint \<Rightarrow> string" where
  "ck_msg c k = (case ckpt_CanonicalBytes c k of Some m \<Rightarrow> m @ ck_Signature k | None \<Rightarrow> [])"

lemma ck_hash_msg: "HashHex c k \<noteq> None \<Longrightarrow> ck_hash c k = sha256Hex c (ck_msg c k)"
  by (auto simp: ck_hash_def HashHex_def ck_msg_def)

lemma ckpt_eqI: "ckpt_core k = ckpt_core k' \<Longrightarrow> ck_Signature k = ck_Signature k' \<Longrightarrow> k = k'"
  by (cases k; cases k') (simp add: ckpt_core_def CheckpointCore.truncate_def)

lemma ckpt_hash_binds:
  assumes "VerifySig c k" "VerifySig c k'" "HashHex c k \<noteq> None" "HashHex c k' \<noteq> None" and eq: "ck_hash c k = ck_hash c k'"
    and sha: "inj_on (cd_sha c) S" "ck_msg c k \<in> S" "ck_msg c k' \<in> S"
    and enc: "inj_on (cd_ckpt c) C" "ckpt_core k \<in> C" "ckpt_core k' \<in> C"
  shows "k = k'"
proof -
  have "cd_sha c (ck_msg c k) = cd_sha c (ck_msg c k')"
    using eq assms(3,4) by (auto simp: ck_hash_msg sha256Hex_def dest: hexBytes_inj)
  then have m: "ck_msg c k = ck_msg c k'" using sha by (auto dest: inj_onD)
  obtain x y where xy: "cd_ckpt c (ckpt_core k) = Some x" "cd_ckpt c (ckpt_core k') = Some y"
    using assms(3,4) by (auto simp: HashHex_def ckpt_CanonicalBytes_def)
  have l: "length (ck_Signature k) = length (ck_Signature k')" using assms(1,2) by (simp add: VerifySig_length)
  have "x = y" "ck_Signature k = ck_Signature k'"
    using m xy l by (simp_all add: ck_msg_def ckpt_CanonicalBytes_def)
  then have "cd_ckpt c (ckpt_core k) = cd_ckpt c (ckpt_core k')" using xy by simp
  then have "ckpt_core k = ckpt_core k'" using enc by (auto dest: inj_onD)
  then show ?thesis using \<open>ck_Signature k = ck_Signature k'\<close> by (rule ckpt_eqI)
qed

lemma ck_hash_nonempty: "(\<And>x. length (cd_sha c x) = 32) \<Longrightarrow> HashHex c k \<noteq> None \<Longrightarrow> ck_hash c k \<noteq> []"
proof -
  assume "\<And>x. length (cd_sha c x) = 32" "HashHex c k \<noteq> None"
  then have "length (ck_hash c k) = 64" by (simp add: ck_hash_msg sha256Hex_def)
  then show ?thesis by auto
qed

lemma chain_unique:
  assumes len: "\<And>x. length (cd_sha c x) = 32" and S: "inj_on (cd_sha c) S" and C: "inj_on (cd_ckpt c) C"
  shows "chain_ok c segs key [] ks \<Longrightarrow> chain_ok c segs' key' [] ks' \<Longrightarrow> head_after c [] ks = head_after c [] ks'
    \<Longrightarrow> ck_msg c ` set ks \<union> ck_msg c ` set ks' \<subseteq> S \<Longrightarrow> ckpt_core ` set ks \<union> ckpt_core ` set ks' \<subseteq> C \<Longrightarrow> ks = ks'"
proof (induction ks arbitrary: ks' rule: rev_induct)
  case Nil
  show ?case
  proof (cases ks' rule: rev_cases)
    case (snoc ys y)
    with Nil have "checkpoint_problems c segs' key' (head_after c [] ys) y = []" by (simp add: chain_ok_append)
    then have "HashHex c y \<noteq> None" by (simp add: checkpoint_ok_iff)
    from ck_hash_nonempty [OF len this] Nil(3) snoc show ?thesis by (simp add: head_after_def)
  qed simp
next
  case (snoc k ks)
  have k: "chain_ok c segs key [] ks" "checkpoint_problems c segs key (head_after c [] ks) k = []"
    using snoc.prems(1) by (simp_all add: chain_ok_append)
  then have hk: "HashHex c k \<noteq> None" by (simp add: checkpoint_ok_iff)
  obtain ys y where ks': "ks' = ys @ [y]"
    using snoc.prems(3) ck_hash_nonempty [OF len hk] by (cases ks' rule: rev_cases) (auto simp: head_after_def)
  have y: "chain_ok c segs' key' [] ys" "checkpoint_problems c segs' key' (head_after c [] ys) y = []"
    using snoc.prems(2) by (simp_all add: ks' chain_ok_append)
  have "k = y"
    by (rule ckpt_hash_binds [OF _ _ _ _ _ S _ _ C])
      (use k y snoc.prems(3-5) in \<open>auto simp: checkpoint_ok_iff ks' head_after_def\<close>)
  moreover have "head_after c [] ks = head_after c [] ys"
    using k(2) y(2) \<open>k = y\<close> by (simp add: checkpoint_ok_iff)
  ultimately show ?case using snoc.IH [OF k(1) y(1)] snoc.prems(4,5) by (simp add: ks')
qed


section \<open>A pinned head binds the log\<close>

text \<open>The messages whose digests the verifier relies on, and the checkpoint cores it encodes.\<close>

definition bundle_msgs :: "codec \<Rightarrow> segmentFile list \<Rightarrow> Checkpoint list \<Rightarrow> string set" where
  "bundle_msgs c segs ks = ck_msg c ` set ks \<union> (\<Union>s\<in>set segs. set (merkle_msgs (cd_sha c) (segment_leaves c s)))"

lemma byIndex_in_set: "byIndex segs k = Some s \<Longrightarrow> s \<in> set segs \<and> sf_key s = k"
  by (auto simp: byIndex_def dest: find_Some_in_set)

lemma segment_leaves_bound:
  assumes len: "\<And>x. length (cd_sha c x) = 32"
    and inj: "inj_on (cd_sha c) (bundle_msgs c segs ks \<union> bundle_msgs c segs' ks')"
    and s: "s \<in> set segs" "segment_problems c k s = []" and s': "s' \<in> set segs'" "segment_problems c k s' = []"
  shows "segment_leaves c s = segment_leaves c s'"
proof (cases "sf_records s")
  case Nil
  then show ?thesis using s(2) s'(2) by (auto simp: segment_problems_def segment_leaves_def split: if_splits)
next
  case (Cons r rs)
  have n: "length (sf_records s) = length (sf_records s')" and
    root: "hexBytes (MerkleRoot (cd_sha c) (segment_leaves c s)) = hexBytes (MerkleRoot (cd_sha c) (segment_leaves c s'))"
    using s(2) s'(2) by (auto simp: segment_problems_def split: if_splits)
  have ne: "segment_leaves c s \<noteq> []" "segment_leaves c s' \<noteq> []" using Cons n by (auto simp: segment_leaves_def)
  have "inj_on (cd_sha c) (set (merkle_msgs (cd_sha c) (segment_leaves c s)) \<union> set (merkle_msgs (cd_sha c) (segment_leaves c s')))"
    by (rule inj_on_subset [OF inj]) (use s(1) s'(1) in \<open>auto simp: bundle_msgs_def\<close>)
  from MerkleRoot_inj [OF len this ne hexBytes_inj [OF root]] show ?thesis .
qed

lemma chain_ok_mem: "chain_ok c segs key prev ks \<Longrightarrow> k \<in> set ks \<Longrightarrow>
    \<exists>s. byIndex segs (ck_key k) = Some s \<and> segment_problems c k s = []"
  by (induction ks arbitrary: prev) (auto simp: checkpoint_ok_iff)

definition accepts :: "codec \<Rightarrow> Dir \<Rightarrow> string \<Rightarrow> string \<Rightarrow> segmentFile list \<Rightarrow> Checkpoint list \<Rightarrow> bool" where
  "accepts c d key head segs ks =
    (loadSegments c (dir_segments d) = Some segs
     \<and> (\<exists>cks. loadCheckpoints c (ReadDir (dir_ckpts d)) = Some cks \<and> ks = sorted_ckpts cks
         \<and> verify_loaded c segs cks key head = []))"

lemma accepts_iff_OK: "(\<exists>segs ks. accepts c d key head segs ks) \<longleftrightarrow> (\<exists>rep. VerifyBundle c d key head = Some rep \<and> vr_OK rep)"
  by (auto simp: accepts_def VerifyBundle_def Let_def split: option.splits)

lemma accepts_chain: "accepts c d key head segs ks \<Longrightarrow> chain_ok c segs key [] ks \<and> (head \<noteq> [] \<longrightarrow> head_after c [] ks = head)"
  by (auto simp: accepts_def verify_loaded_def Let_def verifyCheckpoints_def checkpoint_chain_ok chain_head_def head_after_def split: if_splits)

lemma accepts_covered: "accepts c d key head segs ks \<Longrightarrow> s \<in> set segs \<Longrightarrow> sf_key s \<in> ck_key ` set ks"
  by (auto simp: accepts_def verify_loaded_def Let_def verifyCheckpoints_def filter_empty_conv)

lemma byIndex_distinct: "distinct (map sf_key segs) \<Longrightarrow> s \<in> set segs \<Longrightarrow> byIndex segs (sf_key s) = Some s"
proof -
  assume d: "distinct (map sf_key segs)" "s \<in> set segs"
  then have "byIndex segs (sf_key s) \<noteq> None" by (auto simp: byIndex_def find_None_iff)
  then obtain s' where s': "byIndex segs (sf_key s) = Some s'" by auto
  then have "s' \<in> set segs" "sf_key s' = sf_key s" using byIndex_in_set by blast+
  with d have "s' = s" by (auto simp: distinct_map inj_on_def)
  with s' show ?thesis by simp
qed

text \<open>
  C11.  A pinned head binds the whole log: two bundles accepted under the same
  pinned head hold the same checkpoints in the same order, and the segment each
  checkpoint refers to has the same canonical record bytes in both, so any
  edit, reorder, insertion or deletion in a checkpointed segment, and any
  dropped or added checkpoint, is detected, unless two different messages
  among those hashed collide.  The JSON encoding is assumed to determine the
  checkpoint fields it encodes.
\<close>

theorem pinned_head_binds_log:
  assumes "\<forall>x. length (cd_sha c x) = 32"
    and "accepts c d key head segs ks" and "accepts c d' key' head segs' ks'" and "head \<noteq> []"
    and "inj_on (cd_sha c) (bundle_msgs c segs ks \<union> bundle_msgs c segs' ks')"
    and "inj_on (cd_ckpt c) (ckpt_core ` (set ks \<union> set ks'))"
  shows "ks = ks' \<and> (\<forall>k\<in>set ks. \<exists>s s'. byIndex segs (ck_key k) = Some s \<and> byIndex segs' (ck_key k) = Some s'
      \<and> segment_leaves c s = segment_leaves c s')"
proof -
  have len: "\<And>x. length (cd_sha c x) = 32" using assms(1) by blast
  note o = accepts_chain [OF assms(2)] and o' = accepts_chain [OF assms(3)]
  have "head_after c [] ks = head_after c [] ks'" using o o' assms(4) by simp
  then have eq: "ks = ks'"
    using o o' by (intro chain_unique [OF len assms(5,6), of segs key ks segs' key' ks']) (auto simp: bundle_msgs_def)
  moreover have "\<exists>s s'. byIndex segs (ck_key k) = Some s \<and> byIndex segs' (ck_key k) = Some s' \<and> segment_leaves c s = segment_leaves c s'"
    if k: "k \<in> set ks" for k
  proof -
    obtain s where s: "byIndex segs (ck_key k) = Some s" "segment_problems c k s = []" using chain_ok_mem o k by blast
    obtain s' where s': "byIndex segs' (ck_key k) = Some s'" "segment_problems c k s' = []" using chain_ok_mem o' k eq by blast
    have "segment_leaves c s = segment_leaves c s'"
      using segment_leaves_bound [OF len assms(5) _ s(2) _ s'(2)] byIndex_in_set [OF s(1)] byIndex_in_set [OF s'(1)] by blast
    with s s' show ?thesis by blast
  qed
  ultimately show ?thesis by blast
qed

section \<open>Chains and sequences of an accepted bundle\<close>

lemma chain_problems_snoc:
  "chain_problems ep i prev (rs @ [r]) = chain_problems ep i prev rs
    @ (if rc_GlobalSeq r \<noteq> i + length rs + 1 then [GlobalSeqGap ep (i + length rs)] else [])
    @ (if rc_PrevHash r \<noteq> (if rs = [] then prev else rc_Hash (last rs)) then [BrokenHashChain ep (rc_GlobalSeq r)] else [])"
  by (induction rs arbitrary: i prev) auto

lemma chain_problems_seqs: "chain_problems ep i prev rs = [] \<Longrightarrow> map rc_GlobalSeq rs = [i + 1..<i + 1 + length rs]"
  by (induction rs arbitrary: i prev) (auto simp: upt_conv_Cons split: if_splits)

lemma first_gap_snoc: "first_gap i (vs @ [v]) \<longleftrightarrow> first_gap i vs \<or> v \<noteq> i + length vs + 1"
  by (induction vs arbitrary: i) auto

lemma first_gap_iff: "\<not> first_gap i vs \<longleftrightarrow> vs = [i + 1..<i + 1 + length vs]"
  by (induction vs arbitrary: i) (auto simp: upt_conv_Cons)

lemma epoch_records_flatten:
  "epoch_records (flattenSorted segs) ep = sort_key rc_GlobalSeq (filter (\<lambda>r. rc_Epoch r = ep) (concat (map sf_records segs)))"
  by (simp add: epoch_records_def flattenSorted_def filter_sort sort_key_id_if_sorted)

lemma sort_key_Nil_iff [simp]: "sort_key f xs = [] \<longleftrightarrow> xs = []"
  by (metis set_empty set_sort)

lemma sort_key_max:
  assumes "\<And>x. x \<in> set (A @ B) \<Longrightarrow> f x < f r"
  shows "sort_key f (A @ r # B) = sort_key f (A @ B) @ [r]"
proof (rule properties_for_sort_key)
  show "mset (sort_key f (A @ B) @ [r]) = mset (A @ r # B)" by simp
  show "filter (\<lambda>y. f k = f y) (sort_key f (A @ B) @ [r]) = filter (\<lambda>x. f k = f x) (A @ r # B)"
    if "k \<in> set (sort_key f (A @ B) @ [r])" for k
  proof (cases "k = r")
    case True
    have "f r \<noteq> f y" if "y \<in> set (A @ B)" for y using assms [OF that] by simp
    then have "filter (\<lambda>y. f r = f y) (A @ B) = []" by (simp add: filter_empty_conv)
    then show ?thesis using True by (simp add: filter_sort)
  next
    case False
    with that assms have "f k < f r" by auto
    then have "f k \<noteq> f r" by simp
    moreover have "filter (\<lambda>y. f k = f y) (sort_key f (A @ B)) = filter (\<lambda>y. f k = f y) (A @ B)"
      using sort_key_stable [of f "f k" "A @ B"] by (metis (mono_tags, lifting) filter_cong)
    ultimately show ?thesis by simp
  qed
  show "sorted (map f (sort_key f (A @ B) @ [r]))" using assms by (auto simp: sorted_append less_imp_le)
qed

lemma emitter_seqs_flatten:
  "emitter_seqs (flattenSorted segs) k = sort (map rc_Seq (filter (\<lambda>r. (rc_EmitterID r, rc_Epoch r) = k) (concat (map sf_records segs))))"
  unfolding emitter_seqs_def flattenSorted_def
  by (rule sort_key_eq_sort_key) (simp_all add: filter_sort mset_map del: mset_filter)

lemma verifyPerEpochChains_ok:
  "verifyPerEpochChains recs = [] \<longleftrightarrow> (\<forall>ep. chain_problems ep 0 [] (epoch_records recs ep) = [])"
proof -
  have "epoch_records recs ep = []" if "ep \<notin> rc_Epoch ` set recs" for ep
    using that by (auto simp: epoch_records_def filter_empty_conv)
  then have "chain_problems ep 0 [] (epoch_records recs ep) = []" if "ep \<notin> rc_Epoch ` set recs" for ep
    using that by simp
  then have "(\<forall>ep. chain_problems ep 0 [] (epoch_records recs ep) = []) \<longleftrightarrow>
      (\<forall>ep\<in>rc_Epoch ` set recs. chain_problems ep 0 [] (epoch_records recs ep) = [])" by blast
  then show ?thesis unfolding verifyPerEpochChains_def concat_eq_Nil_conv by simp
qed

lemma concat_map_if: "concat (map (\<lambda>k. if P k then [g k] else []) L) = [] \<longleftrightarrow> (\<forall>k\<in>set L. \<not> P k)"
  by (induction L) auto

lemma verifyPerEmitterSequences_ok:
  "verifyPerEmitterSequences recs = [] \<longleftrightarrow> (\<forall>k. \<not> first_gap 0 (emitter_seqs recs k))"
proof -
  have "emitter_seqs recs k = []" if "k \<notin> (\<lambda>r. (rc_EmitterID r, rc_Epoch r)) ` set recs" for k
    using that by (auto simp: emitter_seqs_def filter_empty_conv)
  then have "\<not> first_gap 0 (emitter_seqs recs k)" if "k \<notin> (\<lambda>r. (rc_EmitterID r, rc_Epoch r)) ` set recs" for k
    using that by simp
  then have "(\<forall>k. \<not> first_gap 0 (emitter_seqs recs k)) \<longleftrightarrow>
      (\<forall>k\<in>set (sort (remdups (map (\<lambda>r. (rc_EmitterID r, rc_Epoch r)) recs))). \<not> first_gap 0 (emitter_seqs recs k))"
    unfolding set_sort set_remdups set_map by blast
  then show ?thesis unfolding verifyPerEmitterSequences_def concat_map_if by simp
qed

lemma verifyRecordHashes_ok:
  "verifyRecordHashes c segs = [] \<longleftrightarrow> (\<forall>s\<in>set segs. \<forall>r\<in>set (sf_records s). ComputeHash c r = Some (rc_Hash r))"
proof -
  have "(case ComputeHash c r of None \<Rightarrow> [CannotHash n g] | Some got \<Rightarrow> if got \<noteq> rc_Hash r then [Tamper n g] else []) = []
      \<longleftrightarrow> ComputeHash c r = Some (rc_Hash r)" for r n g
    by (auto split: option.splits)
  then show ?thesis by (simp add: verifyRecordHashes_def)
qed

lemma verify_loaded_ok:
  "verify_loaded c segs cks key head = [] \<longleftrightarrow> segs \<noteq> [] \<and> verifyRecordHashes c segs = []
    \<and> (\<forall>ep. chain_problems ep 0 [] (epoch_records (flattenSorted segs) ep) = [])
    \<and> (\<forall>k. \<not> first_gap 0 (emitter_seqs (flattenSorted segs) k))
    \<and> verifyCheckpoints c segs cks key head = []"
  by (simp add: verify_loaded_def Let_def verifyPerEpochChains_ok verifyPerEmitterSequences_ok)

lemma chain_problems_bound: "chain_problems ep 0 [] rs = [] \<Longrightarrow> r \<in> set rs \<Longrightarrow> rc_GlobalSeq r \<le> length rs"
proof -
  assume "chain_problems ep 0 [] rs = []" "r \<in> set rs"
  then have "rc_GlobalSeq r \<in> set [1..<1 + length rs]" using chain_problems_seqs [of ep 0 "[]" rs]
    by (metis add_0 imageI set_map)
  then show ?thesis by auto
qed

lemma forged_chain:
  assumes ok: "\<And>e. chain_problems e 0 [] (epoch_records (flattenSorted (pre @ s # post)) e) = []"
    and x: "sf_records x = [r]"
    and seq: "rc_GlobalSeq r = length (epoch_records (flattenSorted (pre @ s # post)) (rc_Epoch r)) + 1"
    and link: "rc_PrevHash r = (if epoch_records (flattenSorted (pre @ s # post)) (rc_Epoch r) = [] then []
        else rc_Hash (last (epoch_records (flattenSorted (pre @ s # post)) (rc_Epoch r))))"
  shows "chain_problems ep 0 [] (epoch_records (flattenSorted (pre @ x # s # post)) ep) = []"
proof (cases "ep = rc_Epoch r")
  case False
  then have "epoch_records (flattenSorted (pre @ x # s # post)) ep = epoch_records (flattenSorted (pre @ s # post)) ep"
    by (simp add: epoch_records_flatten x)
  then show ?thesis using ok by simp
next
  case True
  let ?F = "filter (\<lambda>r. rc_Epoch r = ep)"
  have "epoch_records (flattenSorted (pre @ x # s # post)) ep = sort_key rc_GlobalSeq (?F (concat (map sf_records pre)) @ r # ?F (concat (map sf_records (s # post))))"
    using True by (simp add: epoch_records_flatten x)
  also have "\<dots> = sort_key rc_GlobalSeq (?F (concat (map sf_records pre)) @ ?F (concat (map sf_records (s # post)))) @ [r]"
  proof (rule sort_key_max)
    fix y assume "y \<in> set (?F (concat (map sf_records pre)) @ ?F (concat (map sf_records (s # post))))"
    then have "y \<in> set (epoch_records (flattenSorted (pre @ s # post)) ep)" by (auto simp: epoch_records_flatten)
    moreover have "chain_problems ep 0 [] (epoch_records (flattenSorted (pre @ s # post)) ep) = []" using ok by blast
    ultimately have "rc_GlobalSeq y \<le> length (epoch_records (flattenSorted (pre @ s # post)) ep)" by (rule chain_problems_bound [rotated])
    then show "rc_GlobalSeq y < rc_GlobalSeq r" using seq True by simp
  qed
  also have "sort_key rc_GlobalSeq (?F (concat (map sf_records pre)) @ ?F (concat (map sf_records (s # post)))) = epoch_records (flattenSorted (pre @ s # post)) ep"
    by (simp add: epoch_records_flatten)
  finally show ?thesis using ok seq link True by (simp add: chain_problems_snoc)
qed

lemma forged_sequences:
  assumes ok: "\<And>e. \<not> first_gap 0 (emitter_seqs (flattenSorted (pre @ s # post)) e)"
    and x: "sf_records x = [r]"
    and em: "rc_Seq r = length (emitter_seqs (flattenSorted (pre @ s # post)) (rc_EmitterID r, rc_Epoch r)) + 1"
  shows "\<not> first_gap 0 (emitter_seqs (flattenSorted (pre @ x # s # post)) k)"
proof (cases "k = (rc_EmitterID r, rc_Epoch r)")
  case False
  then have "emitter_seqs (flattenSorted (pre @ x # s # post)) k = emitter_seqs (flattenSorted (pre @ s # post)) k"
    by (auto simp: emitter_seqs_flatten x)
  moreover have "\<not> first_gap 0 (emitter_seqs (flattenSorted (pre @ s # post)) k)" using ok by blast
  ultimately show ?thesis by simp
next
  case True
  let ?L = "emitter_seqs (flattenSorted (pre @ s # post)) k"
  have "\<not> first_gap 0 ?L" using ok by blast
  then have L: "?L = [1..<1 + length ?L]" using first_gap_iff [of 0 ?L] by simp
  have "emitter_seqs (flattenSorted (pre @ x # s # post)) k = sort (rc_Seq r # ?L)"
    unfolding emitter_seqs_flatten True by (rule sort_key_eq_sort_key) (simp_all add: x mset_map)
  also have "\<dots> = ?L @ [rc_Seq r]"
  proof (rule properties_for_sort)
    have "v \<le> rc_Seq r" if "v \<in> set ?L" for v
      using that em True L by (metis add.commute atLeastLessThan_iff less_imp_le set_upt)
    moreover have "sorted ?L" by (simp add: emitter_seqs_def)
    ultimately show "sorted (?L @ [rc_Seq r])" by (simp add: sorted_append)
  qed simp
  finally show ?thesis using \<open>\<not> first_gap 0 ?L\<close> em True by (simp add: first_gap_snoc)
qed

text \<open>
  C12.  What the verifier does not notice: the segment map is keyed by the parsed
  (epoch, index), so a second file with the key of a checkpointed segment (its
  name written with a leading zero, or without the prefix) counts as covered
  although no checkpoint commits to it.  A record in such a file, hashed and
  chained by anybody (no key is needed), is accepted next to the genuine ones:
  the bundle still verifies, under the same pinned key and the same pinned head.
\<close>

theorem forged_record_accepted:
  assumes ok: "verify_loaded c (pre @ s # post) cks key head = []"
    and x: "sf_key x = sf_key s" "sf_records x = [r]"
    and hash: "ComputeHash c r = Some (rc_Hash r)"
    and seq: "rc_GlobalSeq r = length (epoch_records (flattenSorted (pre @ s # post)) (rc_Epoch r)) + 1"
    and link: "rc_PrevHash r = (if epoch_records (flattenSorted (pre @ s # post)) (rc_Epoch r) = [] then []
        else rc_Hash (last (epoch_records (flattenSorted (pre @ s # post)) (rc_Epoch r))))"
    and em: "rc_Seq r = length (emitter_seqs (flattenSorted (pre @ s # post)) (rc_EmitterID r, rc_Epoch r)) + 1"
  shows "verify_loaded c (pre @ x # s # post) cks key head = []
    \<and> parseEpochIndex ''segment-01-0.jsonl'' ''segment-'' ''.jsonl'' = parseEpochIndex ''segment-1-0.jsonl'' ''segment-'' ''.jsonl''"
proof -
  let ?S = "pre @ s # post" and ?S' = "pre @ x # s # post"
  note o = ok [unfolded verify_loaded_ok]
  have chains: "chain_problems ep 0 [] (epoch_records (flattenSorted ?S') ep) = []" for ep
    using o by (intro forged_chain [OF _ x(2) seq link]) blast
  have gaps: "\<not> first_gap 0 (emitter_seqs (flattenSorted ?S') k)" for k
    using o by (intro forged_sequences [OF _ x(2) em]) blast
  have bi: "byIndex ?S' = byIndex ?S" by (rule ext) (simp add: byIndex_def x(1) find_append split: option.splits)
  have "checkpoint_problems c ?S' key p k = checkpoint_problems c ?S key p k" for p k
    by (simp add: checkpoint_problems_def bi)
  then have "checkpoint_chain c ?S' key p ks = checkpoint_chain c ?S key p ks" for p ks
    by (induction ks arbitrary: p) simp_all
  then have "verifyCheckpoints c ?S' cks key head = []"
    using o x(1) by (simp add: verifyCheckpoints_def Let_def split: if_splits)
  moreover have "verifyRecordHashes c ?S' = []" using o hash x(2) by (simp add: verifyRecordHashes_ok)
  moreover have "parseEpochIndex ''segment-01-0.jsonl'' ''segment-'' ''.jsonl'' = parseEpochIndex ''segment-1-0.jsonl'' ''segment-'' ''.jsonl''"
    by code_simp
  ultimately show ?thesis using chains gaps by (simp add: verify_loaded_ok)
qed

section \<open>A concrete bundle\<close>

text \<open>
  One record in one segment under one checkpoint, for a toy codec: the digest
  is the first byte of the message, the encodings are constants.
\<close>

definition lab_sha :: "string \<Rightarrow> string" where
  "lab_sha x = replicate 31 CHR ''0'' @ [case x of [] \<Rightarrow> CHR ''0'' | a # _ \<Rightarrow> a]"

definition lab_event :: Event where "lab_event = zero_event\<lparr>ev_Type := TypeAuth, ev_Time := 7\<rparr>"

definition lab_record :: Record where
  "lab_record = \<lparr>rc_SchemaVersion = 1, rc_EmitterID = ''s'', rc_Epoch = 1, rc_Seq = 1, rc_GlobalSeq = 1, rc_Time = 7,
     rc_Event = lab_event, rc_PrevHash = [], rc_Hash = hexBytes (lab_sha ''r'')\<rparr>"

definition lab_ckpt :: Checkpoint where
  "lab_ckpt = \<lparr>ck_SchemaVersion = 1, ck_Epoch = 1, ck_SegmentIndex = 0, ck_FirstGlobalSeq = 1, ck_LastGlobalSeq = 1,
     ck_RecordCount = 1, ck_MerkleRoot = hexBytes (lab_sha [CHR 0x00]), ck_ChainHead = hexBytes (lab_sha ''r''),
     ck_PrevCheckpointHash = [], ck_Time = 9, ck_PublicKey = hexBytes (replicate 32 CHR ''p''),
     ck_Signature = hexBytes (replicate 64 CHR ''g'')\<rparr>"

definition lab_codec :: codec where
  "lab_codec = \<lparr>cd_sha = lab_sha, cd_record = (\<lambda>_. Some ''r''),
     cd_line = (\<lambda>r. if r = lab_record then Some ''r'' else None), cd_parse = (\<lambda>l. if l = ''r'' then Some lab_record else None),
     cd_ckpt = (\<lambda>_. Some ''k''), cd_ckfile = (\<lambda>k. if k = lab_ckpt then Some ''k'' else None),
     cd_ckparse = (\<lambda>l. if l = ''k'' then Some lab_ckpt else None), cd_utf8 = (\<lambda>em e. em = ''s'' \<and> e = lab_event),
     cd_ed_verify = (\<lambda>_ _ _. True)\<rparr>"

definition lab_dir :: Dir where
  "lab_dir = \<lparr>dir_epoch = Some ''1'', dir_segments = [(''segment-1-0.jsonl'', [''r''])], dir_ckpts = [(''checkpoint-1-0.json'', ''k'')]\<rparr>"

definition lab_segment :: segmentFile where
  "lab_segment = \<lparr>sf_epoch = 1, sf_index = 0, sf_name = ''segment-1-0.jsonl'', sf_records = [lab_record]\<rparr>"

definition lab_key :: string where "lab_key = hexBytes (replicate 32 CHR ''p'')"
definition lab_head :: string where "lab_head = ck_hash lab_codec lab_ckpt"

lemma lab_sig: "VerifySig lab_codec lab_ckpt"
  by (simp add: VerifySig_def ckpt_CanonicalBytes_def lab_codec_def VerifySignature_def lab_ckpt_def hex_roundtrip)

lemma lab_segment_ok: "segment_problems lab_codec lab_ckpt lab_segment = []"
  by (simp add: segment_problems_def lab_codec_def lab_ckpt_def lab_segment_def segment_leaves_def lab_record_def
      CanonicalBytes_def MerkleRoot_def leafHash_def lab_sha_def merkle_loop.simps [of _ "[x]" for x])

lemma lab_hash: "HashHex lab_codec lab_ckpt = Some (hexBytes (lab_sha ''k''))"
  by (simp add: HashHex_def ckpt_CanonicalBytes_def lab_codec_def sha256Hex_def lab_sha_def)

lemma lab_keys: "sf_key lab_segment = (1, 0)" "ck_key lab_ckpt = (1, 0)"
  by (simp_all add: sf_key_def ck_key_def lab_segment_def lab_ckpt_def)

lemma lab_seg_records: "sf_records lab_segment = [lab_record]" by (simp add: lab_segment_def)

lemma lab_loaded: "verify_loaded lab_codec [lab_segment] [lab_ckpt] lab_key lab_head = []"
proof -
  have "checkpoint_problems lab_codec [lab_segment] lab_key [] lab_ckpt = []"
    using lab_sig lab_segment_ok by (simp add: checkpoint_ok_iff lab_hash lab_keys byIndex_def)
      (simp add: lab_ckpt_def lab_key_def)
  then have "verifyCheckpoints lab_codec [lab_segment] [lab_ckpt] lab_key lab_head = []"
    by (simp add: verifyCheckpoints_def sorted_ckpts_def lab_keys chain_head_def lab_head_def)
  moreover have "ComputeHash lab_codec lab_record = Some (rc_Hash lab_record)"
    by (simp add: ComputeHash_def CanonicalBytes_def lab_codec_def lab_record_def sha256Hex_def)
  ultimately show ?thesis
    by (simp add: verify_loaded_ok lab_seg_records verifyRecordHashes_ok epoch_records_flatten emitter_seqs_flatten)
       (simp add: lab_record_def)
qed

lemma lab_load: "loadSegments lab_codec (dir_segments lab_dir) = Some [lab_segment]"
  "loadCheckpoints lab_codec (ReadDir (dir_ckpts lab_dir)) = Some [lab_ckpt]"
proof -
  have "parseEpochIndex ''segment-1-0.jsonl'' ''segment-'' ''.jsonl'' = Some (1, 0)" "HasSuffix ''segment-1-0.jsonl'' ''.jsonl''"
    by code_simp+
  then show "loadSegments lab_codec (dir_segments lab_dir) = Some [lab_segment]"
    by (simp add: loadSegments_def lab_dir_def ReadDir_def lab_codec_def lab_segment_def)
  have "HasSuffix ''checkpoint-1-0.json'' ''.json''" by code_simp
  then show "loadCheckpoints lab_codec (ReadDir (dir_ckpts lab_dir)) = Some [lab_ckpt]"
    by (simp add: lab_dir_def ReadDir_def lab_codec_def)
qed

lemma lab_accepts: "accepts lab_codec lab_dir lab_key lab_head [lab_segment] [lab_ckpt]"
  unfolding accepts_def using lab_load lab_loaded by (auto simp: sorted_ckpts_def)

lemma lab_sha_length: "\<forall>x. length (cd_sha lab_codec x) = 32"
  by (simp add: lab_codec_def lab_sha_def)

lemma lab_head_nonempty: "lab_head \<noteq> []"
  by (simp add: lab_head_def ck_hash_def lab_hash lab_sha_def hexBytes_def hex_byte_def)

lemma lab_msgs: "bundle_msgs lab_codec [lab_segment] [lab_ckpt] = {CHR 0x00 # ''r'', CHR ''k'' # ck_Signature lab_ckpt}"
  by (auto simp: bundle_msgs_def lab_codec_def ck_msg_def ckpt_CanonicalBytes_def merkle_msgs_def segment_leaves_def
      lab_segment_def CanonicalBytes_def merkle_tree_def build.simps [of "[x]" for x])

theorem pinned_head_binds_log_witness:
  "byIndex [lab_segment] (ck_key lab_ckpt) = Some lab_segment"
proof -
  have "inj_on (cd_sha lab_codec) (bundle_msgs lab_codec [lab_segment] [lab_ckpt] \<union> bundle_msgs lab_codec [lab_segment] [lab_ckpt])"
    unfolding lab_msgs by (simp add: lab_codec_def lab_sha_def)
  moreover have "inj_on (cd_ckpt lab_codec) (ckpt_core ` (set [lab_ckpt] \<union> set [lab_ckpt]))" by simp
  ultimately have "\<forall>k\<in>set [lab_ckpt]. \<exists>s s'. byIndex [lab_segment] (ck_key k) = Some s \<and> byIndex [lab_segment] (ck_key k) = Some s'
      \<and> segment_leaves lab_codec s = segment_leaves lab_codec s'"
    using pinned_head_binds_log [OF lab_sha_length lab_accepts lab_accepts lab_head_nonempty] by blast
  then show ?thesis using byIndex_in_set [of "[lab_segment]"] by fastforce
qed

definition forged_record :: Record where
  "forged_record = lab_record\<lparr>rc_Seq := 2, rc_GlobalSeq := 2, rc_PrevHash := rc_Hash lab_record\<rparr>"

definition forged_segment :: segmentFile where
  "forged_segment = \<lparr>sf_epoch = 1, sf_index = 0, sf_name = ''segment-01-0.jsonl'', sf_records = [forged_record]\<rparr>"

theorem forged_record_accepted_witness:
  "verify_loaded lab_codec ([] @ forged_segment # lab_segment # []) [lab_ckpt] lab_key lab_head = []
    \<and> parseEpochIndex ''segment-01-0.jsonl'' ''segment-'' ''.jsonl'' = parseEpochIndex ''segment-1-0.jsonl'' ''segment-'' ''.jsonl''"
proof -
  have r: "rc_Epoch lab_record = 1" "rc_EmitterID lab_record = ''s''" by (simp_all add: lab_record_def)
  have f: "sf_key forged_segment = sf_key lab_segment" "sf_records forged_segment = [forged_record]"
    "rc_Epoch forged_record = 1" "rc_EmitterID forged_record = ''s''" "rc_GlobalSeq forged_record = 2" "rc_Seq forged_record = 2"
    "rc_PrevHash forged_record = rc_Hash lab_record"
    by (simp_all add: forged_segment_def forged_record_def sf_key_def lab_segment_def r)
  have h: "ComputeHash lab_codec forged_record = Some (rc_Hash forged_record)"
    by (simp add: ComputeHash_def CanonicalBytes_def lab_codec_def forged_record_def lab_record_def sha256Hex_def)
  have e: "epoch_records (flattenSorted [lab_segment]) (Suc 0) = [lab_record]"
    "emitter_seqs (flattenSorted [lab_segment]) (''s'', Suc 0) = [rc_Seq lab_record]"
    by (simp_all add: epoch_records_flatten emitter_seqs_flatten lab_seg_records r)
  show ?thesis
    by (rule forged_record_accepted [OF _ f(1,2) h]) (use lab_loaded in \<open>simp_all add: f e\<close>)
qed

end
