(* ===== verification/Evidence_Complete.thy ===== *)
theory Evidence_Complete
  imports Evidence_Verify
begin

text \<open>
  The bus and the verifier agree: whatever runs of the bus (restarts included)
  produced an evidence directory, as long as their calls returned success, the
  verifier accepts it under the signer's key and the head the bus reported.
\<close>

section \<open>Loading is independent of file order\<close>

definition load_one :: "codec \<Rightarrow> string \<times> string list \<Rightarrow> segmentFile option" where
  "load_one c f = (case parseEpochIndex (fst f) ''segment-'' ''.jsonl'' of None \<Rightarrow> None
     | Some (e, i) \<Rightarrow> map_option (\<lambda>rs. \<lparr>sf_epoch = e, sf_index = i, sf_name = fst f, sf_records = rs\<rparr>)
         (all_some (map (cd_parse c) (filter (\<lambda>l. l \<noteq> []) (snd f)))))"

lemma load_segment_files_map:
  "(\<And>f. f \<in> set fs \<Longrightarrow> HasSuffix (fst f) ''.jsonl'' \<and> load_one c f = Some (g f)) \<Longrightarrow>
   load_segment_files c fs = Some (map g fs)"
proof (induction fs)
  case (Cons f fs)
  obtain name ls where f: "f = (name, ls)" by fastforce
  have "HasSuffix name ''.jsonl''" "load_one c (name, ls) = Some (g (name, ls))" using Cons.prems [of f] by (simp_all add: f)
  moreover have "load_segment_files c fs = Some (map g fs)" using Cons by auto
  ultimately show ?case by (auto simp: f load_one_def split: option.splits)
qed simp

lemma mset_map_ReadDir: "mset (map g (ReadDir xs)) = mset (map g xs)"
  by (simp only: ReadDir_def mset_map mset_sort)

lemma loadSegments_sorted:
  assumes f: "\<And>s. s \<in> set segs \<Longrightarrow> HasSuffix (fst (file s)) ''.jsonl'' \<and> load_one c (file s) = Some s"
    and sorted: "sorted_wrt (<) (map sf_key segs)"
  shows "loadSegments c (map file segs) = Some segs"
proof -
  define g where "g = (\<lambda>x. the (load_one c x))"
  have "load_segment_files c (ReadDir (map file segs)) = Some (map g (ReadDir (map file segs)))"
    by (rule load_segment_files_map) (use f in \<open>auto simp: ReadDir_def g_def\<close>)
  moreover have "sort_key sf_key (map g (ReadDir (map file segs))) = segs"
  proof -
    have "map g (map file segs) = segs" using f by (simp add: comp_def g_def map_idI)
    then have m: "mset (map g (ReadDir (map file segs))) = mset segs" by (simp only: mset_map_ReadDir)
    have d: "distinct (map sf_key segs)" using sorted strict_sorted_iff by blast
    have "set (map g (ReadDir (map file segs))) = set segs" using mset_eq_setD [OF m] .
    then have "sort_key sf_key (map g (ReadDir (map file segs))) = sort_key sf_key segs"
      using m d by (intro sort_key_eq_sort_key) (simp_all add: distinct_map)
    also have "\<dots> = segs" using sorted strict_sorted_iff by (intro sort_key_id_if_sorted) blast
    finally show ?thesis .
  qed
  ultimately show ?thesis by (simp add: loadSegments_def)
qed

lemma loadCheckpoints_map:
  "(\<And>f. f \<in> set fs \<Longrightarrow> HasSuffix (fst f) ''.json'' \<and> cd_ckparse c (snd f) = Some (g f)) \<Longrightarrow>
   loadCheckpoints c fs = Some (map g fs)"
proof (induction fs)
  case (Cons f fs)
  obtain name data where f: "f = (name, data)" by fastforce
  have "HasSuffix name ''.json''" "cd_ckparse c data = Some (g (name, data))" using Cons.prems [of f] by (simp_all add: f)
  moreover have "loadCheckpoints c fs = Some (map g fs)" using Cons by auto
  ultimately show ?case by (simp add: f)
qed simp

lemma loadCheckpoints_mset:
  assumes f: "\<And>k. k \<in> set ks \<Longrightarrow> HasSuffix (fst (file k)) ''.json'' \<and> cd_ckparse c (snd (file k)) = Some k"
  obtains ks' where "loadCheckpoints c (ReadDir (map file ks)) = Some ks'" "mset ks' = mset ks"
proof -
  define g where "g = (\<lambda>x :: string \<times> string. the (cd_ckparse c (snd x)))"
  have "loadCheckpoints c (ReadDir (map file ks)) = Some (map g (ReadDir (map file ks)))"
    by (rule loadCheckpoints_map) (use f in \<open>auto simp: ReadDir_def g_def\<close>)
  moreover have "map g (map file ks) = ks" using f by (simp add: comp_def g_def map_idI)
  then have "mset (map g (ReadDir (map file ks))) = mset ks" by (simp only: mset_map_ReadDir)
  ultimately show thesis by (rule that)
qed

lemma sorted_ckpts_mset:
  assumes "mset ks' = mset ks" and "sorted_wrt (<) (map ck_key ks)"
  shows "sorted_ckpts ks' = ks"
proof -
  have d: "distinct (map ck_key ks)" using assms(2) strict_sorted_iff by blast
  have "sort_key ck_key ks' = sort_key ck_key ks"
    using assms(1) d mset_eq_setD [OF assms(1)] by (intro sort_key_eq_sort_key) (simp_all add: distinct_map)
  then show ?thesis using assms(2) strict_sorted_iff sort_key_id_if_sorted unfolding sorted_ckpts_def by metis
qed

lemma later_iff: "later_ckpt k b \<longleftrightarrow> ck_key b < ck_key k"
  by (auto simp: later_ckpt_def ck_key_def less_prod_def)

lemma fold_latest:
  "foldl (\<lambda>best k. if later_ckpt k best then k else best) k ks \<in> set (k # ks)
   \<and> (\<forall>x\<in>set (k # ks). ck_key x \<le> ck_key (foldl (\<lambda>best k. if later_ckpt k best then k else best) k ks))"
proof (induction ks arbitrary: k)
  case (Cons a ks)
  show ?case
  proof (cases "later_ckpt a k")
    case True
    with Cons [of a] show ?thesis by (auto simp: later_iff intro: order_trans less_imp_le)
  next
    case False
    with Cons [of k] show ?thesis by (auto simp: later_iff not_less intro: order_trans)
  qed
qed simp

lemma lastCheckpointHash_last:
  assumes f: "\<And>k. k \<in> set ks \<Longrightarrow> HasSuffix (fst (file k)) ''.json'' \<and> cd_ckparse c (snd (file k)) = Some k"
    and sorted: "sorted_wrt (<) (map ck_key ks)" and d: "dir_ckpts d = map file ks"
  shows "lastCheckpointHash c d = (if ks = [] then Some [] else HashHex c (last ks))"
proof -
  obtain ks' where l: "loadCheckpoints c (ReadDir (dir_ckpts d)) = Some ks'" and m: "mset ks' = mset ks"
    using loadCheckpoints_mset [OF f] d by metis
  show ?thesis
  proof (cases ks')
    case Nil
    with l m show ?thesis by (simp add: lastCheckpointHash_def)
  next
    case (Cons k0 rest)
    let ?b = "foldl (\<lambda>best k. if later_ckpt k best then k else best) k0 rest"
    have ne: "ks \<noteq> []" using m Cons by auto
    have s: "set ks' = set ks" using mset_eq_setD [OF m] .
    have f1: "?b \<in> set ks'" "\<forall>x\<in>set ks'. ck_key x \<le> ck_key ?b" using fold_latest [of k0 rest] unfolding Cons by blast+
    have "?b \<in> set ks" using f1(1) unfolding s .
    moreover have "ck_key (last ks) \<le> ck_key ?b" using f1(2) last_in_set [OF ne] unfolding s by blast
    moreover have "x = last ks \<or> ck_key x < ck_key (last ks)" if "x \<in> set ks" for x
    proof -
      obtain xs l where ks: "ks = xs @ [l]" using ne by (cases ks rule: rev_cases) auto
      show ?thesis using sorted that by (auto simp: ks sorted_wrt_append)
    qed
    ultimately have "?b = last ks" using leD by blast
    with l Cons ne show ?thesis by (simp add: lastCheckpointHash_def)
  qed
qed

section \<open>What a log satisfies\<close>

text \<open>
  What the code relies on in the library: JSON reads back what it wrote as long
  as the strings are valid UTF-8 (\<^verbatim>\<open>encoding/json\<close> replaces other bytes), and a
  signature verifies.
\<close>

definition codec_laws :: "codec \<Rightarrow> Signer \<Rightarrow> bool" where
  "codec_laws c sg = ((\<forall>r l. cd_utf8 c (rc_EmitterID r) (rc_Event r) \<longrightarrow> cd_line c r = Some l \<longrightarrow> cd_parse c l = Some r \<and> l \<noteq> [])
     \<and> (\<forall>k l. cd_ckfile c k = Some l \<longrightarrow> cd_ckparse c l = Some k)
     \<and> length (sg_pub sg) = 32 \<and> (\<forall>m. length (sg_sign sg m) = 64 \<and> cd_ed_verify c (sg_pub sg) m (sg_sign sg m)))"

fun sealed :: "codec \<Rightarrow> string \<Rightarrow> string \<Rightarrow> segmentFile list \<Rightarrow> Checkpoint list \<Rightarrow> bool" where
  "sealed c pk prev [] [] = True"
| "sealed c pk prev (s # ss) (k # ks) = (ck_key k = sf_key s \<and> ck_PublicKey k = pk \<and> VerifySig c k
     \<and> ck_PrevCheckpointHash k = prev \<and> HashHex c k \<noteq> None \<and> segment_problems c k s = [] \<and> sealed c pk (ck_hash c k) ss ks)"
| "sealed c pk prev _ _ = False"

definition recs_of :: "nat \<Rightarrow> segmentFile list \<Rightarrow> Record list" where
  "recs_of ep segs = concat (map sf_records (filter (\<lambda>s. sf_epoch s = ep) segs))"

definition of_emitter :: "string \<Rightarrow> Record list \<Rightarrow> Record list" where
  "of_emitter em rs = filter (\<lambda>r. rc_EmitterID r = em) rs"

definition epoch_ok :: "nat \<Rightarrow> Record list \<Rightarrow> bool" where
  "epoch_ok ep rs = (chain_problems ep 0 [] rs = []
     \<and> (\<forall>em. map rc_Seq (of_emitter em rs) = [1..<1 + length (of_emitter em rs)]))"

definition seg_name :: "nat \<times> nat \<Rightarrow> string" where
  "seg_name k = ''segment-'' @ show_nat (fst k) @ ''-'' @ show_nat (snd k) @ ''.jsonl''"

definition ck_name :: "nat \<times> nat \<Rightarrow> string" where
  "ck_name k = ''checkpoint-'' @ show_nat (fst k) @ ''-'' @ show_nat (snd k) @ ''.json''"

definition line_ok :: "codec \<Rightarrow> Record \<Rightarrow> bool" where
  "line_ok c r = (\<exists>l. cd_line c r = Some l \<and> cd_parse c l = Some r \<and> l \<noteq> [])"

definition seg_ok :: "codec \<Rightarrow> segmentFile \<Rightarrow> bool" where
  "seg_ok c s = (sf_name s = seg_name (sf_key s) \<and> int (sf_epoch s) < 2 ^ 64 \<and> int (sf_index s) < 2 ^ 64
     \<and> (\<forall>r\<in>set (sf_records s). line_ok c r \<and> ComputeHash c r = Some (rc_Hash r) \<and> rc_Epoch r = sf_epoch s))"

definition seg_file :: "codec \<Rightarrow> segmentFile \<Rightarrow> string \<times> string list" where
  "seg_file c s = (sf_name s, map (\<lambda>r. the (cd_line c r)) (sf_records s))"

definition ck_file :: "codec \<Rightarrow> Checkpoint \<Rightarrow> string \<times> string" where
  "ck_file c k = (ck_name (ck_key k), the (cd_ckfile c k))"

definition log_ok :: "codec \<Rightarrow> string \<Rightarrow> segmentFile list \<Rightarrow> Checkpoint list \<Rightarrow> bool" where
  "log_ok c pk segs ks = (sealed c pk [] segs ks \<and> sorted_wrt (<) (map sf_key segs) \<and> (\<forall>s\<in>set segs. seg_ok c s)
     \<and> (\<forall>k\<in>set ks. cd_ckfile c k \<noteq> None) \<and> (\<forall>ep. epoch_ok ep (recs_of ep segs)))"

lemma sealed_keys: "sealed c pk prev segs ks \<Longrightarrow> map ck_key ks = map sf_key segs"
  by (induction c pk prev segs ks rule: sealed.induct) auto

lemma sealed_snoc: "sealed c pk prev (segs @ [s]) (ks @ [k]) \<longleftrightarrow> sealed c pk prev segs ks
    \<and> ck_key k = sf_key s \<and> ck_PublicKey k = pk \<and> VerifySig c k \<and> ck_PrevCheckpointHash k = head_after c prev ks
    \<and> HashHex c k \<noteq> None \<and> segment_problems c k s = []"
proof (induction c pk prev segs ks rule: sealed.induct)
  case (2 c pk prev s' ss k' ks)
  show ?case using 2 by (auto simp: head_after_def)
qed (auto simp: head_after_def elim: sealed.elims)

lemma sealed_chain_ok:
  "sealed c pk prev segs ks \<Longrightarrow> (\<And>s. s \<in> set segs \<Longrightarrow> byIndex all (sf_key s) = Some s) \<Longrightarrow> chain_ok c all pk prev ks"
  by (induction c pk prev segs ks rule: sealed.induct) (auto simp: checkpoint_ok_iff)

lemma filter_epoch:
  assumes "\<forall>s\<in>set segs. \<forall>r\<in>set (sf_records s). rc_Epoch r = sf_epoch s"
  shows "filter (\<lambda>r. rc_Epoch r = ep) (concat (map sf_records segs)) = recs_of ep segs"
  using assms
proof (induction segs)
  case (Cons s segs)
  have "filter (\<lambda>r. rc_Epoch r = ep) (sf_records s) = (if sf_epoch s = ep then sf_records s else [])"
    using Cons.prems by (auto simp: filter_empty_conv intro: filter_True)
  with Cons show ?case by (simp add: recs_of_def)
qed (simp add: recs_of_def)

lemma epoch_records_log:
  assumes "\<forall>s\<in>set segs. \<forall>r\<in>set (sf_records s). rc_Epoch r = sf_epoch s" "epoch_ok ep (recs_of ep segs)"
  shows "epoch_records (flattenSorted segs) ep = recs_of ep segs"
proof -
  have "sorted (map rc_GlobalSeq (recs_of ep segs))"
    using assms(2) chain_problems_seqs [of ep 0 "[]"] unfolding epoch_ok_def by (metis sorted_upt)
  then show ?thesis using filter_epoch [OF assms(1)] by (simp add: epoch_records_flatten sort_key_id_if_sorted)
qed

lemma no_gap_upt: "first_gap 0 [1..<1 + n] = False"
  using first_gap_iff [of 0 "[1..<1 + n]"] by (simp only: length_upt add_0 diff_add_inverse simp_thms)

lemma emitter_seqs_log:
  assumes "\<forall>s\<in>set segs. \<forall>r\<in>set (sf_records s). rc_Epoch r = sf_epoch s" "epoch_ok ep (recs_of ep segs)"
  shows "\<not> first_gap 0 (emitter_seqs (flattenSorted segs) (em, ep))"
proof -
  have "filter (\<lambda>r. (rc_EmitterID r, rc_Epoch r) = (em, ep)) (concat (map sf_records segs))
      = of_emitter em (filter (\<lambda>r. rc_Epoch r = ep) (concat (map sf_records segs)))"
    by (simp add: of_emitter_def conj_commute)
  then have "emitter_seqs (flattenSorted segs) (em, ep) = sort (map rc_Seq (of_emitter em (recs_of ep segs)))"
    by (simp only: emitter_seqs_flatten filter_epoch [OF assms(1)])
  also have "\<dots> = [1..<1 + length (of_emitter em (recs_of ep segs))]"
    using assms(2) by (simp only: epoch_ok_def sorted_sort_id sorted_upt)
  finally show ?thesis by (simp only: no_gap_upt not_False_eq_True)
qed

lemma log_verifies:
  assumes log: "log_ok c pk segs ks" and ne: "segs \<noteq> []" "pk \<noteq> []" and m: "mset cks = mset ks"
    and head: "head = [] \<or> head = head_after c [] ks"
  shows "verify_loaded c segs cks pk head = []"
proof -
  have s: "sealed c pk [] segs ks" "sorted_wrt (<) (map sf_key segs)" using log by (simp_all add: log_ok_def)
  have e: "\<forall>s\<in>set segs. \<forall>r\<in>set (sf_records s). rc_Epoch r = sf_epoch s" using log by (auto simp: log_ok_def seg_ok_def)
  have ep: "epoch_ok ep (recs_of ep segs)" for ep using log by (simp add: log_ok_def)
  have k: "map ck_key ks = map sf_key segs" using sealed_keys [OF s(1)] .
  have sk: "sorted_ckpts cks = ks" using sorted_ckpts_mset [OF m] s(2) k by metis
  have d: "distinct (map sf_key segs)" using s(2) strict_sorted_iff by blast
  have "chain_ok c segs pk [] ks" by (rule sealed_chain_ok [OF s(1)]) (rule byIndex_distinct [OF d])
  moreover have "set (map ck_key ks) = set (map sf_key segs)" using k by simp
  ultimately have "verifyCheckpoints c segs cks pk head = []"
    using head ne by (auto simp: verifyCheckpoints_def Let_def sk checkpoint_chain_ok filter_empty_conv chain_head_def head_after_def)
  moreover have "verifyRecordHashes c segs = []" using log by (auto simp: verifyRecordHashes_ok log_ok_def seg_ok_def)
  moreover have "chain_problems x 0 [] (epoch_records (flattenSorted segs) x) = []" for x
    using epoch_records_log [OF e ep, of x] ep [of x] by (simp add: epoch_ok_def)
  ultimately show ?thesis using ne emitter_seqs_log [OF e ep] by (simp add: verify_loaded_ok)
qed

section \<open>File names\<close>

lemma minus_notin_show [simp]: "CHR ''-'' \<notin> set (show_nat n)"
  by (rule show_nat_notin) (simp add: is_digit_def byte_def)

lemma ParseUint_show: "int n < 2 ^ 64 \<Longrightarrow> ParseUint (show_nat n) = Some n"
  by (simp add: ParseUint_def)

lemma TrimPrefix_append [simp]: "TrimPrefix (p @ s) p = s"
  by (simp add: TrimPrefix_def HasPrefix_iff)

lemma HasSuffix_append [simp]: "HasSuffix (s @ p) p"
  unfolding HasSuffix_iff by (rule suffixI) (rule refl)

lemma TrimSuffix_append [simp]: "TrimSuffix (s @ p) p = s"
  by (simp add: TrimSuffix_def)

lemma parse_seg_name:
  assumes "int e < 2 ^ 64" "int i < 2 ^ 64"
  shows "parseEpochIndex (seg_name (e, i)) ''segment-'' ''.jsonl'' = Some (e, i)"
proof -
  have n: "seg_name (e, i) = ''segment-'' @ ((show_nat e @ CHR ''-'' # show_nat i) @ ''.jsonl'')" by (simp add: seg_name_def)
  show ?thesis unfolding parseEpochIndex_def n TrimPrefix_append TrimSuffix_append
    using assms by (simp add: split_byte_append split_byte_no_sep ParseUint_show)
qed

lemma seg_name_suffix: "HasSuffix (seg_name k) ''.jsonl''"
  using HasSuffix_append [of "''segment-'' @ show_nat (fst k) @ ''-'' @ show_nat (snd k)" "''.jsonl''"] by (simp add: seg_name_def)

lemma ck_name_suffix: "HasSuffix (ck_name k) ''.json''"
  using HasSuffix_append [of "''checkpoint-'' @ show_nat (fst k) @ ''-'' @ show_nat (snd k)" "''.json''"] by (simp add: ck_name_def)

lemma name_inj: "x @ show_nat a @ CHR ''-'' # show_nat b @ y = x @ show_nat a' @ CHR ''-'' # show_nat b' @ y \<Longrightarrow> a = a' \<and> b = b'"
proof -
  assume "x @ show_nat a @ CHR ''-'' # show_nat b @ y = x @ show_nat a' @ CHR ''-'' # show_nat b' @ y"
  then have "show_nat a @ CHR ''-'' # show_nat b = show_nat a' @ CHR ''-'' # show_nat b'"
    by (metis append_Cons append_assoc append_same_eq same_append_eq)
  then have "split_byte CHR ''-'' (show_nat a @ CHR ''-'' # show_nat b) = split_byte CHR ''-'' (show_nat a' @ CHR ''-'' # show_nat b')"
    by simp
  then show ?thesis by (simp add: split_byte_append split_byte_no_sep show_nat_inj)
qed

lemma seg_name_inj: "seg_name k = seg_name k' \<Longrightarrow> k = k'"
  using name_inj [of "''segment-''" "fst k" "snd k" "''.jsonl''"] by (auto simp: seg_name_def prod_eq_iff)

lemma ck_name_inj: "ck_name k = ck_name k' \<Longrightarrow> k = k'"
  using name_inj [of "''checkpoint-''" "fst k" "snd k" "''.json''"] by (auto simp: ck_name_def prod_eq_iff)

lemma signWith_verifies:
  assumes "codec_laws c sg" "signWith c k sg = Some k'"
  shows "VerifySig c k'" "ck_PublicKey k' = PublicKeyHex sg" "ck_key k' = ck_key k" "ck_PrevCheckpointHash k' = ck_PrevCheckpointHash k"
    "ck_RecordCount k' = ck_RecordCount k" "ck_MerkleRoot k' = ck_MerkleRoot k" "ck_ChainHead k' = ck_ChainHead k" "HashHex c k' \<noteq> None"
proof -
  let ?k = "k\<lparr>ck_SchemaVersion := CheckpointSchemaVersion, ck_PublicKey := PublicKeyHex sg\<rparr>"
  obtain msg where m: "ckpt_CanonicalBytes c ?k = Some msg" and k': "k' = ?k\<lparr>ck_Signature := signer_sign sg msg\<rparr>"
    using assms(2) by (auto simp: signWith_def Let_def)
  have m': "ckpt_CanonicalBytes c k' = Some msg"
    using m by (simp add: k' ckpt_CanonicalBytes_def ckpt_core_def CheckpointCore.truncate_def)
  show "VerifySig c k'"
    using assms(1) by (simp add: VerifySig_def m' VerifySignature_def) (simp add: k' PublicKeyHex_def signer_sign_def hex_roundtrip codec_laws_def)
  show "HashHex c k' \<noteq> None" by (simp add: HashHex_def m')
qed (use assms(2) in \<open>auto simp: signWith_def ck_key_def Let_def\<close>)

section \<open>The bus keeps the log\<close>

definition open_recs :: "Bus \<Rightarrow> segmentFile list \<Rightarrow> Record list" where
  "open_recs b segs = recs_of (b_epoch b) segs @ b_segRecords b"

definition bus_ok :: "codec \<Rightarrow> Signer \<Rightarrow> Bus \<Rightarrow> segmentFile list \<Rightarrow> Checkpoint list \<Rightarrow> bool" where
  "bus_ok c sg b segs ks = (b_signer b = sg \<and> log_ok c (PublicKeyHex sg) segs ks
     \<and> dir_segments (b_dir b) = map (seg_file c) segs
          @ (if b_seg b = SegNone then [] else [(segment_file b, map (\<lambda>r. the (cd_line c r)) (b_segRecords b))])
     \<and> dir_ckpts (b_dir b) = map (ck_file c) ks
     \<and> (\<forall>s\<in>set segs. sf_key s < (b_epoch b, b_segmentIndex b))
     \<and> b_seg b \<noteq> SegBroken \<and> (b_seg b = SegNone \<longrightarrow> b_segRecords b = []) \<and> int (b_epoch b) < 2 ^ 64
     \<and> epoch_ok (b_epoch b) (open_recs b segs) \<and> b_globalSeq b = length (open_recs b segs)
     \<and> b_chainHead b = (if open_recs b segs = [] then [] else rc_Hash (last (open_recs b segs)))
     \<and> (\<forall>em. emitter_seq b em = length (of_emitter em (open_recs b segs)))
     \<and> (\<forall>r\<in>set (b_segRecords b). line_ok c r \<and> ComputeHash c r = Some (rc_Hash r) \<and> rc_Epoch r = b_epoch b)
     \<and> b_prevCkptHash b = head_after c [] ks
     \<and> dir_epoch (b_dir b) = Some (show_nat (b_epoch b)))"

lemma segment_file_name: "segment_file b = seg_name (b_epoch b, b_segmentIndex b)"
  by (simp add: segment_file_def segmentBaseName_def seg_name_def)

lemma checkpoint_file_name: "checkpoint_file b = ck_name (b_epoch b, b_segmentIndex b)"
  by (simp add: checkpoint_file_def checkpointBaseName_def ck_name_def)

lemma openSegment_ok:
  assumes "bus_ok c sg b segs ks" "b_seg b = SegNone" "openSegment b io = Some b'"
  shows "bus_ok c sg b' segs ks \<and> b_seg b' = SegOpen \<and> b_closed b' = b_closed b \<and> b_segmentIndex b' = b_segmentIndex b"
proof -
  have b': "b' = b\<lparr>b_seg := SegOpen, b_segRecords := [],
      b_dir := (b_dir b)\<lparr>dir_segments := dir_segments (b_dir b) @ [(segment_file b, [])]\<rparr>\<rparr>"
    using assms(3) by (auto simp: openSegment_def split: if_splits)
  have "b_segRecords b = []" using assms(1,2) by (simp add: bus_ok_def)
  then have "open_recs b' segs = open_recs b segs" "segment_file b' = segment_file b" "emitter_seq b' = emitter_seq b"
    by (simp_all add: b' open_recs_def segment_file_def segmentBaseName_def emitter_seq_def fun_eq_iff)
  then show ?thesis using assms(1,2) unfolding bus_ok_def by (simp add: b')
qed

text \<open>The state after a record was made durable.\<close>

definition committed :: "codec \<Rightarrow> Bus \<Rightarrow> string \<Rightarrow> Record \<Rightarrow> string \<Rightarrow> Bus" where
  "committed c b em r line = b\<lparr>b_dir := append_line (b_dir b) (segment_file b) line, b_globalSeq := b_globalSeq b + 1,
     b_perEmitterSeq := AList.update em (rc_Seq r) (b_perEmitterSeq b), b_chainHead := rc_Hash r,
     b_firstSeqInSeg := (if b_segRecords b = [] then rc_GlobalSeq r else b_firstSeqInSeg b),
     b_segRecords := b_segRecords b @ [r]\<rparr>"

lemma process_open_cases:
  assumes "process_open c b em e io = (b', True)"
  obtains r line where "cd_line c r = Some line" "rc_Event r = e" "ComputeHash c r = Some (rc_Hash r)" "rc_EmitterID r = em"
    "rc_Epoch r = b_epoch b" "rc_Seq r = emitter_seq b em + 1" "rc_GlobalSeq r = b_globalSeq b + 1" "rc_PrevHash r = b_chainHead b"
    "b_seg b \<noteq> SegBroken"
    "if b_segmentSize b \<le> length (b_segRecords b) + 1 then sealSegment c (committed c b em r line) io = (b', True)
     else b' = committed c b em r line"
proof -
  define r0 where "r0 = \<lparr>rc_SchemaVersion = 0, rc_EmitterID = em, rc_Epoch = b_epoch b, rc_Seq = emitter_seq b em + 1,
     rc_GlobalSeq = b_globalSeq b + 1, rc_Time = (if IsZero (ev_Time e) then io_now io else ev_Time e), rc_Event = e,
     rc_PrevHash = [], rc_Hash = []\<rparr>"
  obtain r line where r: "seal c r0 (b_chainHead b) = Some r" and l: "cd_line c r = Some line" and nb: "b_seg b \<noteq> SegBroken"
    and w: "io_write io" "io_sync io"
    using assms by (auto simp: process_open_def Let_def r0_def split: option.splits if_splits)
  let ?r1 = "r0\<lparr>rc_SchemaVersion := RecordSchemaVersion, rc_PrevHash := b_chainHead b\<rparr>"
  obtain h where h: "ComputeHash c ?r1 = Some h" "r = ?r1\<lparr>rc_Hash := h\<rparr>" using r by (auto simp: seal_def Let_def)
  have "ComputeHash c r = Some (rc_Hash r)"
    using h by (simp add: ComputeHash_def CanonicalBytes_def record_core_def RecordCore.truncate_def)
  moreover have f: "rc_EmitterID r = em" "rc_Epoch r = b_epoch b" "rc_Seq r = emitter_seq b em + 1"
    "rc_GlobalSeq r = b_globalSeq b + 1" "rc_PrevHash r = b_chainHead b" "rc_Event r = e" using h(2) by (simp_all add: r0_def)
  moreover have "if b_segmentSize b \<le> length (b_segRecords b) + 1 then sealSegment c (committed c b em r line) io = (b', True)
     else b' = committed c b em r line"
    using assms r l nb w f(3) unfolding process_open_def Let_def r0_def [symmetric]
    by (simp add: committed_def split: if_splits)
  ultimately show thesis using that l nb by blast
qed

lemma of_emitter_snoc: "of_emitter x (rs @ [r]) = of_emitter x rs @ (if rc_EmitterID r = x then [r] else [])"
  by (simp add: of_emitter_def)

lemma append_line_last:
  assumes "dir_segments d = fs @ [(name, ls)]" "name \<notin> fst ` set fs"
  shows "dir_segments (append_line d name line) = fs @ [(name, ls @ [line])]"
proof -
  have "map (\<lambda>(n, ls). if n = name then (n, ls @ [line]) else (n, ls)) fs = fs"
    by (rule map_idI) (use assms(2) in force)
  then show ?thesis using assms(1) by (simp add: append_line_def)
qed

lemma committed_ok:
  assumes ok: "bus_ok c sg b segs ks" and op: "b_seg b = SegOpen"
    and line: "line_ok c r"
    and r: "cd_line c r = Some line" "ComputeHash c r = Some (rc_Hash r)" "rc_EmitterID r = em" "rc_Epoch r = b_epoch b"
      "rc_Seq r = emitter_seq b em + 1" "rc_GlobalSeq r = b_globalSeq b + 1" "rc_PrevHash r = b_chainHead b"
  shows "bus_ok c sg (committed c b em r line) segs ks"
proof -
  let ?b = "committed c b em r line"
  have o: "open_recs ?b segs = open_recs b segs @ [r]" by (simp add: open_recs_def committed_def)
  have e: "epoch_ok (b_epoch b) (open_recs b segs @ [r])"
    using ok r unfolding bus_ok_def epoch_ok_def
    by (auto simp: chain_problems_snoc of_emitter_snoc)
  have "segment_file b \<notin> fst ` set (map (seg_file c) segs)"
  proof
    assume "segment_file b \<in> fst ` set (map (seg_file c) segs)"
    then obtain s where s: "s \<in> set segs" "sf_name s = segment_file b" by (auto simp: seg_file_def)
    then have "seg_name (sf_key s) = seg_name (b_epoch b, b_segmentIndex b)"
      using ok by (auto simp: bus_ok_def log_ok_def seg_ok_def segment_file_name)
    then have "sf_key s = (b_epoch b, b_segmentIndex b)" by (rule seg_name_inj)
    then show False using ok s(1) by (auto simp: bus_ok_def)
  qed
  then have d: "dir_segments (append_line (b_dir b) (segment_file b) line)
      = map (seg_file c) segs @ [(segment_file b, map (\<lambda>r. the (cd_line c r)) (b_segRecords b) @ [line])]"
    using ok op by (intro append_line_last) (simp_all add: bus_ok_def)
  have em: "emitter_seq ?b x = length (of_emitter x (open_recs b segs @ [r]))" for x
    using ok r(3,5) by (auto simp: bus_ok_def emitter_seq_def committed_def update_conv' of_emitter_snoc)
  show ?thesis
    using ok op line r o e d em
    by (auto simp: bus_ok_def committed_def segment_file_def segmentBaseName_def append_line_def)
qed


lemma all_some_Some: "all_some xs = Some ys \<Longrightarrow> xs = map Some ys"
  by (induction xs arbitrary: ys rule: all_some.induct) auto

lemma epoch_index_less: "sf_key s < (e, i) \<Longrightarrow> sf_key s < (e, i + 1)"
  by (auto simp: less_prod_def sf_key_def)

lemma recs_of_append: "recs_of ep (xs @ ys) = recs_of ep xs @ recs_of ep ys"
  by (simp add: recs_of_def)

lemma update_fresh: "k \<notin> fst ` set xs \<Longrightarrow> AList.update k v xs = xs @ [(k, v)]"
  by (induction xs) auto

text \<open>What a successful seal did: the checkpoint it signed, and the state it left.\<close>

definition seal_checkpoint :: "codec \<Rightarrow> Bus \<Rightarrow> string list \<Rightarrow> bus_io \<Rightarrow> Checkpoint" where
  "seal_checkpoint c b leaves io = \<lparr>ck_SchemaVersion = 0, ck_Epoch = b_epoch b, ck_SegmentIndex = b_segmentIndex b,
       ck_FirstGlobalSeq = b_firstSeqInSeg b, ck_LastGlobalSeq = rc_GlobalSeq (last (b_segRecords b)),
       ck_RecordCount = length (b_segRecords b), ck_MerkleRoot = hexBytes (MerkleRoot (cd_sha c) leaves),
       ck_ChainHead = rc_Hash (last (b_segRecords b)), ck_PrevCheckpointHash = b_prevCkptHash b,
       ck_Time = io_now2 io, ck_PublicKey = [], ck_Signature = []\<rparr>"

definition sealed_state :: "Bus \<Rightarrow> string \<Rightarrow> string \<Rightarrow> Bus" where
  "sealed_state b ckb h =
    (let b1 = b\<lparr>b_dir := (b_dir b)\<lparr>dir_ckpts := AList.update (checkpoint_file b) ckb (dir_ckpts (b_dir b))\<rparr>\<rparr>
     in (if b_worm b then b1\<lparr>b_uploaded := b_uploaded b @ [segment_file b, checkpoint_file b]\<rparr> else b1)
        \<lparr>b_prevCkptHash := h, b_segmentIndex := b_segmentIndex b + 1, b_seg := SegNone, b_segRecords := []\<rparr>)"

lemma sealSegment_True:
  assumes "sealSegment c b io = (b', True)"
  obtains leaves k ckb h where "all_some (map (CanonicalBytes c) (b_segRecords b)) = Some leaves"
    "signWith c (seal_checkpoint c b leaves io) (b_signer b) = Some k" "cd_ckfile c k = Some ckb" "HashHex c k = Some h"
    "b' = sealed_state b ckb h"
proof -
  obtain leaves where lv: "all_some (map (CanonicalBytes c) (b_segRecords b)) = Some leaves"
    using assms by (auto simp: sealSegment_def Let_def split: option.splits if_splits)
  note s = assms [unfolded sealSegment_def Let_def lv, folded seal_checkpoint_def]
  obtain k where k: "signWith c (seal_checkpoint c b leaves io) (b_signer b) = Some k"
    using s by (auto split: option.splits if_splits)
  note s1 = s [unfolded k option.case]
  obtain ckb where f: "cd_ckfile c k = Some ckb" using s1 by (auto split: option.splits if_splits)
  note s2 = s1 [unfolded f option.case]
  obtain h where h: "HashHex c k = Some h" using s2 by (auto split: option.splits if_splits)
  have "b' = sealed_state b ckb h" using s2 unfolding h sealed_state_def Let_def
    by (auto split: option.splits if_splits)
  with lv k f h show thesis by (rule that)
qed

lemma sealed_state_fields:
  "dir_segments (b_dir (sealed_state b ckb h)) = dir_segments (b_dir b)" "dir_epoch (b_dir (sealed_state b ckb h)) = dir_epoch (b_dir b)"
  "dir_ckpts (b_dir (sealed_state b ckb h)) = AList.update (checkpoint_file b) ckb (dir_ckpts (b_dir b))"
  "b_prevCkptHash (sealed_state b ckb h) = h" "b_segmentIndex (sealed_state b ckb h) = b_segmentIndex b + 1"
  "b_seg (sealed_state b ckb h) = SegNone" "b_segRecords (sealed_state b ckb h) = []" "b_epoch (sealed_state b ckb h) = b_epoch b"
  "b_globalSeq (sealed_state b ckb h) = b_globalSeq b" "b_chainHead (sealed_state b ckb h) = b_chainHead b"
  "b_perEmitterSeq (sealed_state b ckb h) = b_perEmitterSeq b" "b_signer (sealed_state b ckb h) = b_signer b"
  "b_closed (sealed_state b ckb h) = b_closed b" "b_segmentSize (sealed_state b ckb h) = b_segmentSize b"
  by (simp_all add: sealed_state_def Let_def)

lemma sealSegment_ok:
  assumes laws: "codec_laws c sg" and ok: "bus_ok c sg b segs ks" and op: "b_seg b = SegOpen" "b_segRecords b \<noteq> []"
    and idx: "int (b_segmentIndex b) < 2 ^ 64" and s: "sealSegment c b io = (b', True)"
  shows "\<exists>s k. bus_ok c sg b' (segs @ [s]) (ks @ [k])"
proof -
  obtain leaves k ckb h where lv: "all_some (map (CanonicalBytes c) (b_segRecords b)) = Some leaves"
    and k0: "signWith c (seal_checkpoint c b leaves io) (b_signer b) = Some k" and f: "cd_ckfile c k = Some ckb"
    and h: "HashHex c k = Some h" and b': "b' = sealed_state b ckb h"
    using sealSegment_True [OF s] by metis
  have k: "signWith c (seal_checkpoint c b leaves io) sg = Some k" using k0 ok by (simp add: bus_ok_def)
  note fields = sealed_state_fields [of b ckb h, folded b']
  note k0_def = seal_checkpoint_def
  define sg1 where "sg1 = \<lparr>sf_epoch = b_epoch b, sf_index = b_segmentIndex b,
      sf_name = seg_name (b_epoch b, b_segmentIndex b), sf_records = b_segRecords b\<rparr>"
  note v = signWith_verifies [OF laws k]
  have key: "ck_key k = sf_key sg1" using v(3) by (simp add: k0_def ck_key_def sf_key_def sg1_def)
  have "segment_leaves c sg1 = map (\<lambda>x. case x of Some y \<Rightarrow> y | None \<Rightarrow> []) (map (CanonicalBytes c) (b_segRecords b))"
    by (simp add: segment_leaves_def sg1_def)
  also have "\<dots> = leaves" by (simp only: all_some_Some [OF lv] map_map comp_def option.case map_ident)
  finally have "segment_leaves c sg1 = leaves" .
  then have probs: "segment_problems c k sg1 = []"
    using v(5-7) by (simp add: segment_problems_def sg1_def k0_def)
  have fresh: "checkpoint_file b \<notin> fst ` set (map (ck_file c) ks)"
  proof
    assume "checkpoint_file b \<in> fst ` set (map (ck_file c) ks)"
    then obtain k' where "k' \<in> set ks" "ck_name (ck_key k') = ck_name (b_epoch b, b_segmentIndex b)"
      by (auto simp: ck_file_def checkpoint_file_name)
    then have "(b_epoch b, b_segmentIndex b) \<in> set (map ck_key ks)" by (metis ck_name_inj image_eqI set_map)
    then have "(b_epoch b, b_segmentIndex b) \<in> set (map sf_key segs)"
      using ok sealed_keys by (metis bus_ok_def log_ok_def)
    then show False using ok by (auto simp: bus_ok_def)
  qed
  have new: "recs_of ep (segs @ [sg1]) = (if ep = b_epoch b then open_recs b segs else recs_of ep segs)" for ep
    by (simp add: recs_of_append open_recs_def recs_of_def sg1_def)
  have ids: "b_prevCkptHash b = head_after c [] ks" "log_ok c (PublicKeyHex sg) segs ks"
    "\<forall>s\<in>set segs. sf_key s < (b_epoch b, b_segmentIndex b)" "epoch_ok (b_epoch b) (open_recs b segs)"
    using ok by (simp_all add: bus_ok_def)
  have sealed': "sealed c (PublicKeyHex sg) [] (segs @ [sg1]) (ks @ [k])"
    using ids(1,2) key probs v(1,2,4,8) by (simp add: sealed_snoc log_ok_def k0_def)
  have sorted': "sorted_wrt (<) (map sf_key (segs @ [sg1]))"
    using ids(2,3) by (simp add: log_ok_def sorted_wrt_append sg1_def sf_key_def)
  have ok1: "seg_ok c sg1" using ok idx by (auto simp: seg_ok_def sg1_def sf_key_def bus_ok_def)
  have "epoch_ok ep (recs_of ep (segs @ [sg1]))" for ep using new [of ep] ids(2,4) by (simp add: log_ok_def)
  then have log': "log_ok c (PublicKeyHex sg) (segs @ [sg1]) (ks @ [k])"
    using sealed' sorted' ok1 f ids(2) by (auto simp: log_ok_def)
  have open': "open_recs b' (segs @ [sg1]) = open_recs b segs" using new [of "b_epoch b"] by (simp add: open_recs_def fields)
  have segs': "dir_segments (b_dir b') = map (seg_file c) (segs @ [sg1])"
    using ok op by (simp add: fields bus_ok_def seg_file_def sg1_def segment_file_name)
  have ks': "dir_ckpts (b_dir b') = map (ck_file c) (ks @ [k])"
    using ok update_fresh [OF fresh] f key by (simp add: fields bus_ok_def ck_file_def checkpoint_file_name sg1_def sf_key_def)
  have less': "\<forall>s\<in>set (segs @ [sg1]). sf_key s < (b_epoch b, b_segmentIndex b + 1)"
    using ids(3) epoch_index_less by (auto simp: sg1_def sf_key_def)
  have em': "emitter_seq b' = emitter_seq b" by (simp add: emitter_seq_def fields fun_eq_iff)
  have "bus_ok c sg b' (segs @ [sg1]) (ks @ [k])"
    using ok log' open' segs' ks' less' h em' unfolding bus_ok_def
    by (simp add: fields head_after_def ck_hash_def)
  then show "\<exists>s k. bus_ok c sg b' (segs @ [s]) (ks @ [k])" by blast
qed

section \<open>Whole runs\<close>

text \<open>One call on a running bus.\<close>

datatype bus_event = BEmit string Event bus_io | BClose bus_io

fun bus_step :: "codec \<Rightarrow> Bus \<Rightarrow> bus_event \<Rightarrow> Bus" where
  "bus_step c b (BEmit em e io) = fst (bus_emit c b em e io)"
| "bus_step c b (BClose io) = fst (bus_Close c b io)"

lemma sealSegment_counters:
  "b_globalSeq (fst (sealSegment c b io)) = b_globalSeq b" "b_segmentIndex b \<le> b_segmentIndex (fst (sealSegment c b io))"
  "b_epoch (fst (sealSegment c b io)) = b_epoch b"
  by (auto simp: sealSegment_def Let_def split: option.splits)

lemma process_open_counters:
  "b_globalSeq b \<le> b_globalSeq (fst (process_open c b em e io))" "b_segmentIndex b \<le> b_segmentIndex (fst (process_open c b em e io))"
  by (auto simp: process_open_def Let_def sealSegment_counters intro: order_trans [OF _ sealSegment_counters(2)] split: option.splits)

lemma bus_emit_counters:
  "b_globalSeq b \<le> b_globalSeq (fst (bus_emit c b em e io))" "b_segmentIndex b \<le> b_segmentIndex (fst (bus_emit c b em e io))"
proof -
  have "openSegment b io = Some b' \<Longrightarrow> b_globalSeq b' = b_globalSeq b \<and> b_segmentIndex b' = b_segmentIndex b" for b'
    by (auto simp: openSegment_def split: if_splits)
  then show "b_globalSeq b \<le> b_globalSeq (fst (bus_emit c b em e io))" "b_segmentIndex b \<le> b_segmentIndex (fst (bus_emit c b em e io))"
    using process_open_counters [of b c em e io] process_open_counters [of _ c em e io]
    by (auto simp: bus_emit_def process_def split: option.splits) (metis)+
qed

interpretation bus_seq: monotone_machine "bus_step c" "\<lambda>_. True" b_globalSeq for c
proof (unfold_locales, goal_cases)
  case (2 s e)
  show ?case by (cases e) (auto simp: bus_emit_counters bus_Close_def Let_def sealSegment_counters)
qed simp

text \<open>A sequence of \<open>Emit\<close> calls that all return success.\<close>

fun emits :: "codec \<Rightarrow> Bus \<Rightarrow> (string \<times> Event \<times> bus_io) list \<Rightarrow> Bus option" where
  "emits c b [] = Some b"
| "emits c b ((em, e, io) # es) = (case bus_emit c b em e io of (b', True) \<Rightarrow> emits c b' es | _ \<Rightarrow> None)"

lemma emits_index: "emits c b es = Some b' \<Longrightarrow> b_segmentIndex b \<le> b_segmentIndex b'"
proof (induction c b es rule: emits.induct)
  case (2 c b em e io es)
  then show ?case using bus_emit_counters(2) [of b c em e io]
    by (auto split: prod.splits bool.splits intro: order_trans)
qed simp

text \<open>Between calls an open segment holds a record.\<close>

definition settled :: "Bus \<Rightarrow> bool" where
  "settled b = (b_seg b = SegOpen \<longrightarrow> b_segRecords b \<noteq> [])"

lemma bus_emit_ok:
  assumes laws: "codec_laws c sg" and ok: "bus_ok c sg b segs ks" and e: "bus_emit c b em e io = (b', True)"
    and utf8: "cd_utf8 c em e" and idx: "int (b_segmentIndex b') < 2 ^ 64"
  shows "\<exists>segs ks. bus_ok c sg b' segs ks" and "b_closed b' = b_closed b" and "settled b'"
proof -
  have p: "process c b em e io = (b', True)" using e by (auto simp: bus_emit_def split: if_splits)
  obtain b0 where b0: "bus_ok c sg b0 segs ks" "b_seg b0 = SegOpen" "process_open c b0 em e io = (b', True)" "b_closed b0 = b_closed b"
  proof (cases "b_seg b")
    case SegNone
    with p obtain b1 where "openSegment b io = Some b1" "process_open c b1 em e io = (b', True)"
      by (auto simp: process_def split: option.splits)
    with openSegment_ok [OF ok SegNone this(1)] show ?thesis using that by blast
  next
    case SegOpen
    with p ok that show ?thesis by (simp add: process_def)
  next
    case SegBroken
    with ok show ?thesis by (simp add: bus_ok_def)
  qed
  obtain r line where re: "rc_Event r = e" and r: "cd_line c r = Some line" "ComputeHash c r = Some (rc_Hash r)" "rc_EmitterID r = em"
    "rc_Epoch r = b_epoch b0" "rc_Seq r = emitter_seq b0 em + 1" "rc_GlobalSeq r = b_globalSeq b0 + 1" "rc_PrevHash r = b_chainHead b0"
    and s: "if b_segmentSize b0 \<le> length (b_segRecords b0) + 1 then sealSegment c (committed c b0 em r line) io = (b', True)
     else b' = committed c b0 em r line"
    using process_open_cases [OF b0(3)] by metis
  let ?b1 = "committed c b0 em r line"
  have ok1: "bus_ok c sg ?b1 segs ks" 
    by (rule committed_ok [OF b0(1,2) _ r]) (use laws utf8 re r(1,3) in \<open>auto simp: line_ok_def codec_laws_def\<close>)
  have st: "b_seg ?b1 = SegOpen" "b_segRecords ?b1 \<noteq> []" "b_closed ?b1 = b_closed b" using b0 by (simp_all add: committed_def)
  show "\<exists>segs ks. bus_ok c sg b' segs ks"
  proof (cases "b_segmentSize b0 \<le> length (b_segRecords b0) + 1")
    case True
    with s have sl: "sealSegment c ?b1 io = (b', True)" by simp
    have "int (b_segmentIndex ?b1) < 2 ^ 64" using sealSegment_counters(2) [where c = c and b = ?b1 and io = io] sl idx by simp
    from sealSegment_ok [OF laws ok1 st(1,2) this sl] show ?thesis by blast
  next
    case False
    with s ok1 show ?thesis by auto
  qed
  have "b_closed b' = b_closed b \<and> settled b'"
  proof (cases "b_segmentSize b0 \<le> length (b_segRecords b0) + 1")
    case True
    with s have "sealSegment c ?b1 io = (b', True)" by simp
    then have "b_closed b' = b_closed ?b1" "b_seg b' = SegNone"
      using sealSegment_True by (metis sealed_state_fields(13), metis sealed_state_fields(6))
    then show ?thesis using st(3) by (simp add: settled_def)
  next
    case False
    with s st(2,3) show ?thesis by (simp add: settled_def)
  qed
  then show "b_closed b' = b_closed b" "settled b'" by simp_all
qed

lemma emits_ok:
  "codec_laws c sg \<Longrightarrow> bus_ok c sg b segs ks \<Longrightarrow> emits c b es = Some b' \<Longrightarrow> int (b_segmentIndex b') < 2 ^ 64
    \<Longrightarrow> list_all (\<lambda>(em, e, io). cd_utf8 c em e) es \<Longrightarrow> settled b \<Longrightarrow> (\<exists>segs ks. bus_ok c sg b' segs ks) \<and> b_closed b' = b_closed b \<and> settled b'"
proof (induction c b es arbitrary: segs ks rule: emits.induct)
  case (2 c b em e io es)
  then obtain b1 where b1: "bus_emit c b em e io = (b1, True)" "emits c b1 es = Some b'"
    by (auto split: prod.splits bool.splits)
  have "int (b_segmentIndex b1) < 2 ^ 64" using emits_index [OF b1(2)] "2.prems"(4) by simp
  from bus_emit_ok [OF "2.prems"(1,2) b1(1) _ this] "2.prems"(5) obtain segs' ks' where "bus_ok c sg b1 segs' ks'" "b_closed b1 = b_closed b" "settled b1" by auto
  with "2.IH" [OF b1(1) [symmetric] refl "2.prems"(1) _ b1(2) "2.prems"(4)] "2.prems"(5) show ?case by simp
qed auto

text \<open>
  The directories that runs of the bus leave, with the head the last run
  reported: a fresh one, or one more run (a start that did not wrap the epoch,
  successful emits, a successful close) on such a directory.
\<close>

inductive evidence_log :: "codec \<Rightarrow> Signer \<Rightarrow> Dir \<Rightarrow> string \<Rightarrow> bool" for c sg where
  log_fresh: "evidence_log c sg \<lparr>dir_epoch = None, dir_segments = [], dir_ckpts = []\<rparr> []"
| log_run: "evidence_log c sg d h \<Longrightarrow> NewBus c d (Some sg) ssize worm True = Some b \<Longrightarrow> b_epoch b \<noteq> 0
    \<Longrightarrow> list_all (\<lambda>(em, e, io). cd_utf8 c em e) es \<Longrightarrow> emits c b es = Some b1 \<Longrightarrow> bus_Close c b1 io = (b2, True) \<Longrightarrow> int (b_segmentIndex b2) < 2 ^ 64
    \<Longrightarrow> evidence_log c sg (b_dir b2) (bus_Head b2)"

definition dir_log :: "codec \<Rightarrow> Signer \<Rightarrow> Dir \<Rightarrow> string \<Rightarrow> segmentFile list \<Rightarrow> Checkpoint list \<Rightarrow> nat \<Rightarrow> bool" where
  "dir_log c sg d h segs ks ep = (log_ok c (PublicKeyHex sg) segs ks \<and> dir_segments d = map (seg_file c) segs
     \<and> dir_ckpts d = map (ck_file c) ks \<and> h = head_after c [] ks \<and> (\<forall>s\<in>set segs. sf_epoch s \<le> ep) \<and> int ep < 2 ^ 64
     \<and> (dir_epoch d = None \<and> ep = 0 \<or> dir_epoch d = Some (show_nat ep)))"

lemma TrimSpace_show [simp]: "TrimSpace (show_nat n) = show_nat n"
proof -
  have d: "list_all is_digit s \<Longrightarrow> dropWhile is_space s = s" for s
    by (cases s) (auto simp: is_digit_def is_space_def)
  have "list_all is_digit (show_nat n)" by (rule show_nat_digits)
  moreover from this have "list_all is_digit (rev (show_nat n))" by (simp add: list_all_iff)
  ultimately show ?thesis by (simp add: TrimSpace_def d)
qed

lemma sealed_last_hash: "sealed c pk prev segs ks \<Longrightarrow> ks \<noteq> [] \<Longrightarrow> HashHex c (last ks) \<noteq> None"
  by (induction c pk prev segs ks rule: sealed.induct) auto

lemma ck_files_load:
  assumes "codec_laws c sg" "\<forall>k\<in>set ks. cd_ckfile c k \<noteq> None" "k \<in> set ks"
  shows "HasSuffix (fst (ck_file c k)) ''.json'' \<and> cd_ckparse c (snd (ck_file c k)) = Some k"
  using assms by (auto simp: ck_file_def ck_name_suffix codec_laws_def)

lemma seg_files_load:
  assumes "codec_laws c sg" "seg_ok c s"
  shows "HasSuffix (fst (seg_file c s)) ''.jsonl'' \<and> load_one c (seg_file c s) = Some s"
proof -
  let ?ls = "map (\<lambda>r. the (cd_line c r)) (sf_records s)"
  have line: "cd_parse c (the (cd_line c r)) = Some r \<and> the (cd_line c r) \<noteq> []" if "r \<in> set (sf_records s)" for r
    using assms that by (fastforce simp: seg_ok_def line_ok_def)
  then have f: "filter (\<lambda>l. l \<noteq> []) ?ls = ?ls" by (auto intro: filter_True)
  have "map (cd_parse c) ?ls = map Some (sf_records s)" using line by simp
  moreover have "all_some (map Some xs) = Some xs" for xs :: "Record list" by (induction xs) auto
  ultimately have "all_some (map (cd_parse c) (filter (\<lambda>l. l \<noteq> []) ?ls)) = Some (sf_records s)" by (simp only: f)
  moreover have "parseEpochIndex (sf_name s) ''segment-'' ''.jsonl'' = Some (sf_epoch s, sf_index s)"
    using assms(2) parse_seg_name by (auto simp: seg_ok_def sf_key_def)
  ultimately show ?thesis using assms(2) seg_name_suffix by (simp add: load_one_def seg_file_def seg_ok_def)
qed

lemma recs_of_none: "(\<forall>s\<in>set segs. sf_epoch s \<noteq> ep) \<Longrightarrow> recs_of ep segs = []"
  by (auto simp: recs_of_def filter_empty_conv)

lemma NewBus_ok:
  assumes laws: "codec_laws c sg" and log: "dir_log c sg d h segs ks ep"
    and new: "NewBus c d (Some sg) ssize worm True = Some b" and nz: "b_epoch b \<noteq> 0"
  shows "bus_ok c sg b segs ks" and "\<not> b_closed b" and "settled b"
proof -
  have adv: "advanceEpoch (dir_epoch d) True = Some (nat ((int ep + 1) mod 2 ^ 64), show_nat (nat ((int ep + 1) mod 2 ^ 64)))"
    using log by (auto simp: advanceEpoch_def dir_log_def ParseUint_show Let_def)
  have "int ep < 2 ^ 64" using log by (simp add: dir_log_def)
  then have ep: "nat ((int ep + 1) mod 2 ^ 64) = ep + 1 \<and> int ep + 1 < 2 ^ 64" if "nat ((int ep + 1) mod 2 ^ 64) \<noteq> 0"
    using that by (cases "int ep + 1 = 2 ^ 64") auto
  have l: "log_ok c (PublicKeyHex sg) segs ks" "dir_ckpts d = map (ck_file c) ks" "h = head_after c [] ks"
    using log by (simp_all add: dir_log_def)
  then have se: "sealed c (PublicKeyHex sg) [] segs ks" "sorted_wrt (<) (map ck_key ks)"
    using sealed_keys by (auto simp: log_ok_def)
  have "lastCheckpointHash c d = (if ks = [] then Some [] else HashHex c (last ks))"
    by (rule lastCheckpointHash_last [OF _ se(2) l(2)]) (use ck_files_load [OF laws] l(1) in \<open>auto simp: log_ok_def\<close>)
  then have hd: "lastCheckpointHash c d = Some (head_after c [] ks)"
    using sealed_last_hash [OF se(1)] by (auto simp: head_after_def ck_hash_def)
  have b: "b = \<lparr>b_segmentSize = (if ssize \<le> 0 then 128 else nat ssize), b_signer = sg, b_worm = worm,
      b_epoch = ep + 1, b_perEmitterSeq = [], b_globalSeq = 0, b_chainHead = [], b_segmentIndex = 0,
      b_prevCkptHash = head_after c [] ks, b_segRecords = [], b_seg = SegNone, b_firstSeqInSeg = 0,
      b_closed = False, b_dir = d\<lparr>dir_epoch := Some (show_nat (ep + 1))\<rparr>, b_uploaded = []\<rparr>" and lt: "int ep + 1 < 2 ^ 64"
    using new nz ep by (auto simp: NewBus_def adv hd)
  have "\<forall>s\<in>set segs. sf_epoch s \<le> ep" using log by (simp add: dir_log_def)
  then have "recs_of (ep + 1) segs = []" "\<forall>s\<in>set segs. sf_key s < (ep + 1, 0)"
    by (auto intro!: recs_of_none simp: sf_key_def less_prod_def)
  then show "bus_ok c sg b segs ks" "\<not> b_closed b" "settled b"
    using log lt by (auto simp: b settled_def bus_ok_def dir_log_def open_recs_def epoch_ok_def of_emitter_def emitter_seq_def)
qed

lemma bus_Close_ok:
  assumes laws: "codec_laws c sg" and ok: "bus_ok c sg b segs ks" and nc: "\<not> b_closed b" and settled: "settled b"
    and cl: "bus_Close c b io = (b', True)" and idx: "int (b_segmentIndex b') < 2 ^ 64"
  shows "\<exists>segs ks ep. dir_log c sg (b_dir b') (bus_Head b') segs ks ep"
proof -
  let ?b = "b\<lparr>b_closed := True\<rparr>"
  have ok': "bus_ok c sg ?b segs ks"
    using ok unfolding bus_ok_def open_recs_def emitter_seq_def segment_file_def segmentBaseName_def by simp
  have fin: "\<exists>segs ks ep. dir_log c sg (b_dir x) (bus_Head x) segs ks ep" if "bus_ok c sg x s k" "b_seg x = SegNone" for x s k
    using that by (intro exI [of _ s] exI [of _ k] exI [of _ "b_epoch x"])
      (auto simp: bus_ok_def dir_log_def bus_Head_def sf_key_def less_prod_def)
  show ?thesis
  proof (cases "b_segRecords b = []")
    case True
    then have b': "b' = ?b" using cl nc by (simp add: bus_Close_def)
    have "b_seg b = SegNone" using True settled ok by (cases "b_seg b") (auto simp: settled_def bus_ok_def)
    then show ?thesis using fin [OF ok'] b' by simp
  next
    case False
    then have s: "sealSegment c ?b io = (b', True)" using cl nc by (simp add: bus_Close_def)
    have st: "b_seg ?b = SegOpen" using ok False by (cases "b_seg b") (auto simp: bus_ok_def)
    have i: "int (b_segmentIndex ?b) < 2 ^ 64" using sealSegment_counters(2) [of ?b c io] s idx by simp
    have "b_seg b' = SegNone" using sealSegment_True [OF s] sealed_state_fields(6) by metis
    moreover obtain s' k' where "bus_ok c sg b' (segs @ [s']) (ks @ [k'])" using sealSegment_ok [OF laws ok' st _ i s] False by auto
    ultimately show ?thesis using fin by blast
  qed
qed

lemma evidence_log_dir: "evidence_log c sg d h \<Longrightarrow> codec_laws c sg \<Longrightarrow> \<exists>segs ks ep. dir_log c sg d h segs ks ep"
proof (induction rule: evidence_log.induct)
  case log_fresh
  have "dir_log c sg \<lparr>dir_epoch = None, dir_segments = [], dir_ckpts = []\<rparr> [] [] [] 0"
    by (simp add: dir_log_def log_ok_def head_after_def recs_of_def epoch_ok_def of_emitter_def)
  then show ?case by blast
next
  case (log_run d h ssize worm b es b1 io b2)
  then obtain segs ks ep where "dir_log c sg d h segs ks ep" by blast
  note n = NewBus_ok [OF log_run.prems this log_run.hyps(2,3)]
  have "b_segmentIndex b1 \<le> b_segmentIndex b2"
    using log_run.hyps(6) sealSegment_counters(2) [of "b1\<lparr>b_closed := True\<rparr>" c io]
    by (auto simp: bus_Close_def Let_def split: if_splits)
  then have "int (b_segmentIndex b1) < 2 ^ 64" using log_run.hyps(7) by simp
  from emits_ok [OF log_run.prems n(1) log_run.hyps(5) this log_run.hyps(4) n(3)]
  obtain segs' ks' where "bus_ok c sg b1 segs' ks'" "\<not> b_closed b1" "settled b1" using n(2) by auto
  from bus_Close_ok [OF log_run.prems this log_run.hyps(6,7)] show ?case .
qed

lemma dir_log_accepted:
  assumes laws: "codec_laws c sg" and log: "dir_log c sg d h segs ks ep" and ne: "dir_segments d \<noteq> []"
  shows "\<exists>rep. VerifyBundle c d (PublicKeyHex sg) h = Some rep \<and> vr_OK rep"
proof -
  have l: "log_ok c (PublicKeyHex sg) segs ks" "dir_segments d = map (seg_file c) segs" "dir_ckpts d = map (ck_file c) ks"
      "h = head_after c [] ks"
    using log by (simp_all add: dir_log_def)
  have "loadSegments c (dir_segments d) = Some segs"
    unfolding l(2) by (rule loadSegments_sorted) (use l(1) seg_files_load [OF laws] in \<open>auto simp: log_ok_def\<close>)
  moreover obtain cks where cks: "loadCheckpoints c (ReadDir (dir_ckpts d)) = Some cks" "mset cks = mset ks"
    unfolding l(3) by (rule loadCheckpoints_mset [of ks "ck_file c" c]) (use l(1) ck_files_load [OF laws] in \<open>auto simp: log_ok_def\<close>)
  moreover have "length (PublicKeyHex sg) = 64" using laws by (simp add: PublicKeyHex_def codec_laws_def)
  then have "PublicKeyHex sg \<noteq> []" by auto
  then have "verify_loaded c segs cks (PublicKeyHex sg) h = []"
    using log_verifies [OF l(1) _ _ cks(2)] ne l by auto
  ultimately show ?thesis by (simp add: VerifyBundle_def Let_def)
qed

text \<open>
  C13.  The bus and the verifier agree: a directory left by any number of runs of
  the bus (fresh start, restarts in new epochs, any emitters, any segment size,
  with or without WORM upload) whose calls returned success verifies under the
  signer's key and the head the last run reported, provided JSON reads back what
  it wrote and signatures verify.
\<close>

theorem bus_log_verifies:
  assumes "codec_laws c sg" and "evidence_log c sg d h" and "dir_segments d \<noteq> []"
  shows "\<exists>rep. VerifyBundle c d (PublicKeyHex sg) h = Some rep \<and> vr_OK rep"
  using evidence_log_dir [OF assms(2,1)] dir_log_accepted [OF assms(1) _ assms(3)] by blast

definition lab_signer :: Signer where
  "lab_signer = \<lparr>sg_pub = replicate 32 CHR ''p'', sg_sign = (\<lambda>_. replicate 64 CHR ''g'')\<rparr>"

definition lab_io :: bus_io where
  "lab_io = \<lparr>io_now = 8, io_open = True, io_write = True, io_torn = 0, io_sync = True, io_flush = True, io_close = True,
     io_ckpt = True, io_cktorn = None, io_wseg = True, io_wckpt = True, io_now2 = 9\<rparr>"

lemma lab_laws: "codec_laws lab_codec lab_signer"
  by (simp add: codec_laws_def lab_codec_def lab_signer_def split: if_splits)

definition lab_start :: Bus where
  "lab_start = \<lparr>b_segmentSize = 128, b_signer = lab_signer, b_worm = False, b_epoch = 1, b_perEmitterSeq = [], b_globalSeq = 0,
     b_chainHead = [], b_segmentIndex = 0, b_prevCkptHash = [], b_segRecords = [], b_seg = SegNone, b_firstSeqInSeg = 0,
     b_closed = False, b_dir = \<lparr>dir_epoch = Some ''1'', dir_segments = [], dir_ckpts = []\<rparr>, b_uploaded = []\<rparr>"

definition lab_open :: Bus where
  "lab_open = lab_start\<lparr>b_globalSeq := 1, b_perEmitterSeq := [(''s'', 1)], b_chainHead := rc_Hash lab_record,
     b_firstSeqInSeg := 1, b_segRecords := [lab_record], b_seg := SegOpen, b_dir := lab_dir\<lparr>dir_ckpts := []\<rparr>\<rparr>"

lemma lab_NewBus: "NewBus lab_codec \<lparr>dir_epoch = None, dir_segments = [], dir_ckpts = []\<rparr> (Some lab_signer) 0 False True = Some lab_start"
proof -
  have "show_nat (Suc 0) = ''1''" by code_simp
  then show ?thesis by (simp add: NewBus_def advanceEpoch_def lastCheckpointHash_def ReadDir_def lab_start_def)
qed

lemma lab_names: "segment_file lab_start = ''segment-1-0.jsonl''" "checkpoint_file (lab_open\<lparr>b_closed := True\<rparr>) = ''checkpoint-1-0.json''"
  by (simp_all add: segment_file_def segmentBaseName_def checkpoint_file_def checkpointBaseName_def lab_start_def lab_open_def) code_simp+

lemma lab_seal:
  "seal lab_codec \<lparr>rc_SchemaVersion = 0, rc_EmitterID = ''s'', rc_Epoch = 1, rc_Seq = 1, rc_GlobalSeq = 1, rc_Time = 7,
     rc_Event = lab_event, rc_PrevHash = [], rc_Hash = []\<rparr> [] = Some lab_record"
  by (simp add: seal_def Let_def ComputeHash_def CanonicalBytes_def lab_codec_def sha256Hex_def RecordSchemaVersion_def lab_record_def)

lemma lab_emit: "emits lab_codec lab_start [(''s'', lab_event, lab_io)] = Some lab_open"
proof -
  let ?b = "lab_start\<lparr>b_seg := SegOpen, b_dir := \<lparr>dir_epoch = Some ''1'', dir_segments = [(''segment-1-0.jsonl'', [])], dir_ckpts = []\<rparr>\<rparr>"
  have "openSegment lab_start lab_io = Some ?b"
    by (simp add: openSegment_def lab_names) (simp add: lab_io_def lab_start_def)
  moreover have "cd_line lab_codec lab_record = Some ''r''" by (simp add: lab_codec_def)
  moreover have "segment_file ?b = ''segment-1-0.jsonl''" using lab_names(1) by (simp add: segment_file_def segmentBaseName_def)
  moreover have "ev_Time lab_event = 7" "rc_GlobalSeq lab_record = 1" by (simp_all add: lab_event_def lab_record_def)
  ultimately have "process lab_codec lab_start ''s'' lab_event lab_io = (lab_open, True)"
    using lab_seal by (simp add: process_def lab_start_def process_open_def Let_def emitter_seq_def IsZero_def lab_io_def
        append_line_def lab_open_def lab_dir_def)
  then show ?thesis by (simp add: bus_emit_def lab_start_def)
qed

definition lab_done :: Bus where
  "lab_done = lab_open\<lparr>b_closed := True, b_dir := lab_dir, b_prevCkptHash := hexBytes (lab_sha ''k''), b_segmentIndex := 1,
     b_seg := SegNone, b_segRecords := []\<rparr>"

lemma lab_Close: "bus_Close lab_codec lab_open lab_io = (lab_done, True)"
proof -
  let ?b = "lab_open\<lparr>b_closed := True\<rparr>"
  have "signWith lab_codec (seal_checkpoint lab_codec ?b [''r''] lab_io) lab_signer = Some lab_ckpt"
    by (simp add: signWith_def Let_def seal_checkpoint_def ckpt_CanonicalBytes_def lab_codec_def CheckpointSchemaVersion_def
        PublicKeyHex_def signer_sign_def lab_signer_def lab_ckpt_def lab_open_def lab_start_def lab_io_def lab_record_def
        MerkleRoot_def leafHash_def lab_sha_def merkle_loop.simps [of _ "[x]" for x])
  moreover have "CanonicalBytes lab_codec lab_record = Some ''r''" by (simp add: CanonicalBytes_def lab_codec_def)
  moreover have "cd_ckfile lab_codec lab_ckpt = Some ''k''" by (simp add: lab_codec_def)
  ultimately have "sealSegment lab_codec ?b lab_io = (lab_done, True)"
    using lab_names(2) lab_hash unfolding seal_checkpoint_def
    by (simp add: sealSegment_def Let_def lab_open_def lab_start_def lab_io_def lab_done_def lab_dir_def)
  then show ?thesis by (simp add: bus_Close_def lab_open_def lab_start_def)
qed

lemma lab_log: "evidence_log lab_codec lab_signer (b_dir lab_done) (bus_Head lab_done)"
  by (rule log_run [OF log_fresh lab_NewBus _ _ lab_emit lab_Close])
    (simp_all add: lab_start_def lab_done_def lab_codec_def)

theorem bus_log_verifies_witness:
  "\<exists>rep. VerifyBundle lab_codec (b_dir lab_done) (PublicKeyHex lab_signer) (bus_Head lab_done) = Some rep \<and> vr_OK rep"
  using bus_log_verifies [OF lab_laws lab_log] by (simp add: lab_done_def lab_dir_def)

end
