(* ===== verification/Fips.thy ===== *)
theory Fips
  imports Merkle
begin

text \<open>
  The FIPS posture, \<^verbatim>\<open>internal/fips/fips.go\<close>: the declared mode, the boot check
  with its self-test, and the TLS parameter helpers.  The crypto primitives the
  self-test exercises, the runtime probe and \<^verbatim>\<open>tls.CipherSuiteName\<close> are
  arguments.  Protocol versions and suite identifiers are the numbers of the
  TLS registry (\<^verbatim>\<open>uint16\<close>, only compared).
\<close>

section \<open>Mode\<close>

type_synonym fips_Mode = int

abbreviation (input) ModeOff :: fips_Mode where "ModeOff \<equiv> 0"
abbreviation (input) ModeWarn :: fips_Mode where "ModeWarn \<equiv> 1"
abbreviation (input) ModeEnforce :: fips_Mode where "ModeEnforce \<equiv> 2"

definition fips_Mode_String :: "fips_Mode \<Rightarrow> string" where
  "fips_Mode_String m =
    (if m = ModeOff then ''off'' else if m = ModeWarn then ''warn'' else if m = ModeEnforce then ''enforce''
     else ''Mode('' @ show_int m @ '')'')"

text \<open>The mode and whether the token was invalid.\<close>

definition ParseMode :: "string \<Rightarrow> fips_Mode \<times> bool" where
  "ParseMode s =
    (let t = ToLower (TrimSpace s) in
     if t \<in> set ['''', ''off'', ''disabled'', ''false''] then (ModeOff, False)
     else if t \<in> set [''warn'', ''warning'', ''audit''] then (ModeWarn, False)
     else if t \<in> set [''enforce'', ''on'', ''require'', ''required'', ''strict''] then (ModeEnforce, False)
     else (ModeOff, True))"

section \<open>The boot check\<close>

datatype selftest_error = ShaKnownAnswer | Keygen string | RoundTripFailed | TamperedVerified

record fips_Report =
  fr_Mode :: fips_Mode
  fr_RuntimeFIPS :: bool
  fr_SelfTestPassed :: bool
  fr_Warnings :: "string list"

definition fips_Summary :: "fips_Report \<Rightarrow> string" where
  "fips_Summary r = ''fips: mode='' @ fips_Mode_String (fr_Mode r)
     @ '' runtime='' @ (if fr_RuntimeFIPS r then ''active'' else ''not-active'')
     @ '' self-test='' @ (if fr_SelfTestPassed r then ''pass'' else ''fail'')"

definition hexEncode :: "string \<Rightarrow> string" where
  "hexEncode b = concat (map (\<lambda>c. [''0123456789abcdef'' ! (byte c div 16), ''0123456789abcdef'' ! (byte c mod 16)]) b)"

text \<open>The primitives: SHA-256, key generation (public and private key), signing, verifying.\<close>

record crypto =
  cy_sha256 :: "string \<Rightarrow> string"
  cy_keygen :: "(string, string \<times> string) result"
  cy_sign :: "string \<Rightarrow> string \<Rightarrow> string"
  cy_verify :: "string \<Rightarrow> string \<Rightarrow> string \<Rightarrow> bool"

definition SelfTest :: "crypto \<Rightarrow> selftest_error option" where
  "SelfTest cy =
    (if hexEncode (cy_sha256 cy ''abc'') \<noteq> ''ba7816bf8f01cfea414140de5dae2223b00361a396177a9cb410ff61f20015ad''
     then Some ShaKnownAnswer
     else case cy_keygen cy of Inl e \<Rightarrow> Some (Keygen e)
       | Inr (pub, priv) \<Rightarrow>
          (let msg = ''omni-sag fips self-test''; sig = cy_sign cy priv msg in
           if \<not> cy_verify cy pub msg sig then Some RoundTripFailed
           else if cy_verify cy pub ''tampered'' sig then Some TamperedVerified
           else None))"

datatype fips_error = SelfTestFailed selftest_error | RuntimeNotFIPS

definition Check :: "fips_Mode \<Rightarrow> bool \<Rightarrow> selftest_error option \<Rightarrow> fips_Report \<times> fips_error option" where
  "Check mode runtime st =
    (let r = \<lparr>fr_Mode = mode, fr_RuntimeFIPS = runtime, fr_SelfTestPassed = False, fr_Warnings = []\<rparr> in
     case st of
       Some err \<Rightarrow>
         if mode = ModeEnforce then (r, Some (SelfTestFailed err))
         else if mode = ModeWarn then (r\<lparr>fr_Warnings := [''algorithm self-test failed'']\<rparr>, None)
         else (r, None)
     | None \<Rightarrow>
         (let r = r\<lparr>fr_SelfTestPassed := True\<rparr> in
          if runtime then (r, None)
          else if mode = ModeEnforce then (r, Some RuntimeNotFIPS)
          else if mode = ModeWarn then (r\<lparr>fr_Warnings := [''declared FIPS posture warn but the runtime is NOT in FIPS mode'']\<rparr>, None)
          else (r, None)))"

section \<open>TLS parameters\<close>

abbreviation (input) VersionTLS10 :: nat where "VersionTLS10 \<equiv> 0x0301"
abbreviation (input) VersionTLS11 :: nat where "VersionTLS11 \<equiv> 0x0302"
abbreviation (input) VersionTLS12 :: nat where "VersionTLS12 \<equiv> 0x0303"
abbreviation (input) VersionTLS13 :: nat where "VersionTLS13 \<equiv> 0x0304"

text \<open>ECDHE with AES-GCM: RSA 128, RSA 256, ECDSA 128, ECDSA 256.\<close>

definition approvedCipherSuites :: "nat list" where
  "approvedCipherSuites = [0xc02f, 0xc030, 0xc02b, 0xc02c]"

definition ApprovedCipherSuites :: "nat list" where
  "ApprovedCipherSuites = sort approvedCipherSuites"

definition CipherSuiteApproved :: "nat \<Rightarrow> bool" where
  "CipherSuiteApproved i = (i \<in> set approvedCipherSuites)"

definition ApprovedTLS13Suite :: "nat \<Rightarrow> bool" where
  "ApprovedTLS13Suite i = (i = 0x1301 \<or> i = 0x1302)"

definition TLSVersionApproved :: "nat \<Rightarrow> bool" where
  "TLSVersionApproved v = (v = VersionTLS12 \<or> v = VersionTLS13)"

record tls_Config =
  tls_MinVersion :: nat
  tls_CipherSuites :: "nat list"

definition hex4 :: "nat \<Rightarrow> string" where
  "hex4 v = hexEncode [char_of (v div 256), char_of (v mod 256)]"

definition tlsVersionName :: "nat \<Rightarrow> string" where
  "tlsVersionName v =
    (if v = VersionTLS10 then ''TLS 1.0'' else if v = VersionTLS11 then ''TLS 1.1''
     else if v = VersionTLS12 then ''TLS 1.2'' else if v = VersionTLS13 then ''TLS 1.3'' else ''0x'' @ hex4 v)"

text \<open>The error text, if any; \<open>nm\<close> is \<^verbatim>\<open>tls.CipherSuiteName\<close>.\<close>

definition ValidateTLSConfig :: "(nat \<Rightarrow> string) \<Rightarrow> tls_Config option \<Rightarrow> string option" where
  "ValidateTLSConfig nm c =
    (case c of None \<Rightarrow> None
     | Some c \<Rightarrow>
        (let problems = (if tls_MinVersion c = 0 then [''MinVersion is unset (0); pin it to TLS 1.2 or higher'']
               else if \<not> TLSVersionApproved (tls_MinVersion c)
               then [''MinVersion '' @ tlsVersionName (tls_MinVersion c) @ '' is below TLS 1.2''] else [])
             @ map (\<lambda>i. ''cipher suite '' @ nm i @ '' is not FIPS-approved'')
                 (filter (\<lambda>i. \<not> CipherSuiteApproved i) (tls_CipherSuites c))
         in if problems = [] then None
            else Some (''fips: TLS config not FIPS-acceptable: '' @ Join problems ''; '')))"

definition ApprovedTLSConfig :: tls_Config where
  "ApprovedTLSConfig = \<lparr>tls_MinVersion = VersionTLS12, tls_CipherSuites = ApprovedCipherSuites\<rparr>"

text \<open>The configuration after the call, and the error.\<close>

definition Harden :: "(nat \<Rightarrow> string) \<Rightarrow> tls_Config option \<Rightarrow> fips_Mode \<Rightarrow> tls_Config option \<times> string option" where
  "Harden nm c mode =
    (case c of None \<Rightarrow> (None, None)
     | Some c \<Rightarrow>
        if mode = ModeOff then (Some c, None)
        else let c1 = (if tls_MinVersion c < VersionTLS12 then c\<lparr>tls_MinVersion := VersionTLS12\<rparr> else c);
                 c2 = c1\<lparr>tls_CipherSuites := ApprovedCipherSuites\<rparr>
        in if mode = ModeEnforce then (Some c2, ValidateTLSConfig nm (Some c2)) else (Some c2, None))"

section \<open>Lemmas\<close>

lemma hexEncode_hexBytes: "hexEncode b = hexBytes b"
proof -
  have "\<forall>n\<in>set [0..<16]. ''0123456789abcdef'' ! n = hex_digit n" by code_simp
  then have "''0123456789abcdef'' ! n = hex_digit n" if "n < 16" for n using that by simp
  moreover have "byte c div 16 < 16" for c using byte_less [of c] by simp
  ultimately show ?thesis by (simp add: hexEncode_def hexBytes_def hex_byte_def cong: map_cong)
qed

lemma ApprovedCipherSuites_set [simp]: "set ApprovedCipherSuites = set approvedCipherSuites"
  by (simp add: ApprovedCipherSuites_def)

lemma ValidateTLSConfig_None_iff:
  "ValidateTLSConfig nm (Some c) = None \<longleftrightarrow>
     TLSVersionApproved (tls_MinVersion c) \<and> (\<forall>i\<in>set (tls_CipherSuites c). CipherSuiteApproved i)"
  by (auto simp: ValidateTLSConfig_def Let_def TLSVersionApproved_def filter_empty_conv)

lemma ApprovedTLSConfig_valid: "ValidateTLSConfig nm (Some ApprovedTLSConfig) = None"
  by (simp add: ValidateTLSConfig_None_iff ApprovedTLSConfig_def TLSVersionApproved_def CipherSuiteApproved_def)

end
