(* ===== verification/Event_Export.thy ===== *)
theory Event_Export
  imports Event Net_IP Fips
begin

text \<open>
  Real-time export of evidence events, \<^verbatim>\<open>internal/eventexport\<close>: configuration,
  formatters, the syslog and HTTP transports, the bounded asynchronous
  exporter and the fan-out.  JSON encoding, time formatting, the environment,
  TLS file loading and the results of network writes are arguments; the
  durable sink behind the fan-out is the function its \<^verbatim>\<open>Emit\<close> computes.
\<close>

section \<open>Configuration\<close>

record ex_FileConfig =
  xf_Path :: string

record ex_TLSConfig =
  xt_CA :: string
  xt_Cert :: string
  xt_Key :: string

record ex_SyslogConfig =
  xs_Address :: string
  xs_Protocol :: string
  xs_Facility :: string
  xs_TLS :: "ex_TLSConfig option"

record ex_HTTPAuthConfig =
  xa_BearerEnv :: string
  xa_UserEnv :: string
  xa_PassEnv :: string

record ex_HTTPConfig =
  xh_URL :: string
  xh_BatchSize :: int
  xh_FlushIntervalSeconds :: int
  xh_Auth :: ex_HTTPAuthConfig
  xh_TLS :: "ex_TLSConfig option"

record ex_ExporterConfig =
  xc_Name :: string
  xc_Format :: string
  xc_Transport :: string
  xc_BufferSize :: int
  xc_File :: "ex_FileConfig option"
  xc_Syslog :: "ex_SyslogConfig option"
  xc_HTTP :: "ex_HTTPConfig option"

record ex_Config =
  xg_Enabled :: bool
  xg_Exporters :: "ex_ExporterConfig list"
  xg_Mode :: fips_Mode

definition bufferSize :: "ex_ExporterConfig \<Rightarrow> int" where
  "bufferSize ec = (if xc_BufferSize ec \<le> 0 then 10000 else xc_BufferSize ec)"

definition flushInterval :: "ex_ExporterConfig \<Rightarrow> duration" where
  "flushInterval ec =
    (case xc_HTTP ec of
       Some h \<Rightarrow> if xc_Transport ec = ''http'' \<and> xh_FlushIntervalSeconds h > 0
                 then wrap64 (xh_FlushIntervalSeconds h * Second) else Second
     | None \<Rightarrow> Second)"

section \<open>Formatters\<close>

datatype Formatter = jsonFormatter | ecsFormatter | cefFormatter

definition NewFormatter :: "string \<Rightarrow> Formatter option" where
  "NewFormatter name = (if name = ''json'' then Some jsonFormatter else if name = ''ecs'' then Some ecsFormatter
     else if name = ''cef'' then Some cefFormatter else None)"

definition outcomeString :: "bool option \<Rightarrow> string" where
  "outcomeString a = (if a = None \<or> a = Some True then ''success'' else ''failure'')"

definition replace_bytes :: "(char \<times> string) list \<Rightarrow> string \<Rightarrow> string" where
  "replace_bytes r s = concat (map (\<lambda>c. case map_of r c of Some t \<Rightarrow> t | None \<Rightarrow> [c]) s)"

abbreviation backslash :: char where "backslash \<equiv> CHR 0x5C"

definition cefHeaderEscaper :: "string \<Rightarrow> string" where
  "cefHeaderEscaper = replace_bytes [(backslash, [backslash, backslash]), (CHR ''|'', [backslash, CHR ''|''])]"

definition cefExtensionEscaper :: "string \<Rightarrow> string" where
  "cefExtensionEscaper = replace_bytes [(backslash, [backslash, backslash]), (CHR ''='', [backslash, CHR ''='']),
     (CHR 0x0A, [backslash, CHR ''n'']), (CHR 0x0D, [backslash, CHR ''n''])]"

definition cefMessage :: "Event \<Rightarrow> string" where
  "cefMessage e = (if ev_Reason e \<noteq> [] then ev_Reason e else ev_Detail e)"

definition cefSeverity :: "Event \<Rightarrow> int" where
  "cefSeverity e = (if ev_Allow e = Some False \<or> ev_Verdict e = ''blocked'' then 8 else 3)"

text \<open>Milliseconds since 1970; an instant counts nanoseconds since year 1.\<close>

definition UnixMilli :: "time \<Rightarrow> int" where
  "UnixMilli t = (t - 62135596800 * Second) div 1000000"

text \<open>The key-value pairs in the order they are added; an empty value is left out.\<close>

definition cef_fields :: "Event \<Rightarrow> (string \<times> string) list" where
  "cef_fields e = filter (\<lambda>(k, v). v \<noteq> [])
    ([(''rt'', show_int (UnixMilli (ev_Time e))), (''suser'', ev_User e), (''src'', ev_SourceIP e)]
     @ (if ev_Target e \<noteq> [] then
          (case SplitHostPort (ev_Target e) of Some (host, port) \<Rightarrow> [(''dst'', host), (''dpt'', port)]
           | None \<Rightarrow> [(''dst'', ev_Target e)]) else [])
     @ [(''cat'', ev_Type e), (''outcome'', outcomeString (ev_Allow e)), (''msg'', cefMessage e)]
     @ (if ev_Path e \<noteq> [] then [(''fname'', ev_Path e)] else if ev_ObjectKey e \<noteq> [] then [(''fname'', ev_ObjectKey e)] else [])
     @ (if ev_Bytes e \<noteq> 0 then [(''fsize'', show_int (ev_Bytes e))] else [])
     @ [(''fileHash'', ev_SHA256 e)])"

definition cef_extension :: "Event \<Rightarrow> string" where
  "cef_extension e = Join (map (\<lambda>(k, v). k @ ''='' @ cefExtensionEscaper v) (cef_fields e)) '' ''"

definition cef_header :: "Event \<Rightarrow> string" where
  "cef_header e = (let sig = cefHeaderEscaper (ev_Type e) in
     ''CEF:0|omni-sag|gateway|1.0|'' @ sig @ ''|'' @ sig @ ''|'' @ show_int (cefSeverity e) @ ''|'')"

definition cef_Format :: "Event \<Rightarrow> string" where
  "cef_Format e = cef_header e @ cef_extension e"

text \<open>The value the ECS formatter marshals.\<close>

datatype json = JStr string | JInt int | JObj "(string \<times> json) list"

definition ecs_Format :: "(time \<Rightarrow> string) \<Rightarrow> Event \<Rightarrow> json" where
  "ecs_Format rfc3339 e =
    (let msg = (if ev_Reason e = [] then ev_Detail e else ev_Reason e);
         fileObj = (if ev_Path e \<noteq> [] then [(''path'', JStr (ev_Path e))]
                   else if ev_ObjectKey e \<noteq> [] then [(''path'', JStr (ev_ObjectKey e))] else [])
               @ (if ev_SHA256 e \<noteq> [] then [(''hash'', JObj [(''sha256'', JStr (ev_SHA256 e))])] else [])
               @ (if ev_Bytes e \<noteq> 0 then [(''size'', JInt (ev_Bytes e))] else []);
         dest = (case SplitHostPort (ev_Target e) of None \<Rightarrow> [(''address'', JStr (ev_Target e))]
               | Some (host, port) \<Rightarrow> (''address'', JStr host)
                   # (case Atoi port of Some p \<Rightarrow> [(''port'', JInt p)] | None \<Rightarrow> []))
     in JObj ([(''@timestamp'', JStr (rfc3339 (ev_Time e))),
               (''event'', JObj [(''action'', JStr (ev_Type e)), (''outcome'', JStr (outcomeString (ev_Allow e)))])]
          @ (if ev_User e \<noteq> [] then [(''user'', JObj [(''name'', JStr (ev_User e))])] else [])
          @ (if ev_SourceIP e \<noteq> [] then [(''source'', JObj [(''ip'', JStr (ev_SourceIP e))])] else [])
          @ (if ev_Target e \<noteq> [] then [(''destination'', JObj dest)] else [])
          @ (if msg \<noteq> [] then [(''message'', JStr msg)] else [])
          @ (if fileObj \<noteq> [] then [(''file'', JObj fileObj)] else [])))"

record marshaller =
  mr_event :: "Event \<Rightarrow> string option"
  mr_json :: "json \<Rightarrow> string option"
  mr_rfc3339 :: "time \<Rightarrow> string"

definition format_event :: "marshaller \<Rightarrow> Formatter \<Rightarrow> Event \<Rightarrow> string option" where
  "format_event mr f e = (case f of jsonFormatter \<Rightarrow> mr_event mr e
     | ecsFormatter \<Rightarrow> mr_json mr (ecs_Format (mr_rfc3339 mr) e) | cefFormatter \<Rightarrow> Some (cef_Format e))"

section \<open>Syslog transport\<close>

definition syslogFacilities :: "(string \<times> int) list" where
  "syslogFacilities = [(''kern'', 0), (''user'', 1), (''mail'', 2), (''daemon'', 3), (''auth'', 4), (''syslog'', 5),
     (''lpr'', 6), (''news'', 7), (''uucp'', 8), (''cron'', 9), (''authpriv'', 10), (''ftp'', 11),
     (''local0'', 16), (''local1'', 17), (''local2'', 18), (''local3'', 19),
     (''local4'', 20), (''local5'', 21), (''local6'', 22), (''local7'', 23)]"

definition syslogFacilityNumber :: "string \<Rightarrow> int" where
  "syslogFacilityNumber name = (case map_of syslogFacilities (ToLower name) of Some n \<Rightarrow> n | None \<Rightarrow> 16)"

record syslogTransport =
  sy_cfg :: ex_SyslogConfig
  sy_pri :: int
  sy_hostname :: string
  sy_conn :: bool                 \<comment> \<open>a connection is open\<close>

text \<open>\<open>tls\<close> is the error of loading the TLS files, \<open>host\<close> the result of \<^verbatim>\<open>os.Hostname\<close>.\<close>

definition newSyslogTransport ::
  "ex_SyslogConfig \<Rightarrow> string option \<Rightarrow> string option \<Rightarrow> (string, syslogTransport) result" where
  "newSyslogTransport cfg tls host =
    (if xs_Protocol cfg \<notin> set [''udp'', ''tcp'', ''tls''] then Inl ''unknown protocol''
     else if xs_Address cfg = [] then Inl ''address required''
     else case (if xs_Protocol cfg = ''tls'' then tls else None) of Some err \<Rightarrow> Inl err
       | None \<Rightarrow> Inr \<lparr>sy_cfg = cfg, sy_pri = syslogFacilityNumber (xs_Facility cfg) * 8 + 6,
           sy_hostname = (case host of None \<Rightarrow> ''-'' | Some h \<Rightarrow> if h = [] then ''-'' else h), sy_conn = False\<rparr>)"

definition frame :: "syslogTransport \<Rightarrow> string \<Rightarrow> string \<Rightarrow> string" where
  "frame t ts payload = ''<'' @ show_int (sy_pri t) @ ''>1 '' @ ts @ '' '' @ sy_hostname t @ '' omni-sag - - - '' @ payload"

definition octetCount :: "string \<Rightarrow> string" where
  "octetCount fr = show_nat (length fr) @ '' '' @ fr"

text \<open>
  \<^verbatim>\<open>Write\<close> with the results of the dial and of the write: the bytes put on the
  connection, and whether it succeeded.
\<close>

definition sy_Write :: "syslogTransport \<Rightarrow> string \<Rightarrow> string \<Rightarrow> bool \<Rightarrow> bool \<Rightarrow> syslogTransport \<times> string \<times> bool" where
  "sy_Write t ts payload dialok writeok =
    (if \<not> sy_conn t \<and> \<not> dialok then (t, [], False)
     else let f = frame t ts payload;
              f' = (if xs_Protocol (sy_cfg t) \<noteq> ''udp'' then octetCount f else f)
     in if \<not> writeok then (t\<lparr>sy_conn := False\<rparr>, [], False)
        else (t\<lparr>sy_conn := True\<rparr>, f', True))"

section \<open>HTTP transport\<close>

record httpTransport =
  ht_cfg :: ex_HTTPConfig
  ht_batchSize :: int
  ht_buf :: "string list"

definition newHTTPTransport :: "ex_HTTPConfig \<Rightarrow> string option \<Rightarrow> (string, httpTransport) result" where
  "newHTTPTransport cfg tls =
    (if xh_URL cfg = [] then Inl ''url required''
     else case tls of Some err \<Rightarrow> Inl err
       | None \<Rightarrow> Inr \<lparr>ht_cfg = cfg, ht_batchSize = (if xh_BatchSize cfg \<le> 0 then 1 else xh_BatchSize cfg), ht_buf = []\<rparr>)"

datatype http_auth = NoAuth | Bearer string | Basic string string

definition setHTTPAuth :: "(string \<Rightarrow> string) \<Rightarrow> ex_HTTPAuthConfig \<Rightarrow> http_auth" where
  "setHTTPAuth env a =
    (if xa_BearerEnv a \<noteq> [] then (if env (xa_BearerEnv a) \<noteq> [] then Bearer (env (xa_BearerEnv a)) else NoAuth)
     else if xa_UserEnv a \<noteq> [] \<or> xa_PassEnv a \<noteq> [] then Basic (env (xa_UserEnv a)) (env (xa_PassEnv a)) else NoAuth)"

text \<open>
  \<open>send\<close>: the request body if a request is made, and the success; \<open>resp\<close> is the
  status code of the answer (\<open>None\<close>: the request failed).
\<close>

definition http_send :: "httpTransport \<Rightarrow> int option \<Rightarrow> httpTransport \<times> string option \<times> bool" where
  "http_send t resp =
    (if ht_buf t = [] then (t, None, True)
     else (t\<lparr>ht_buf := []\<rparr>, Some (Join (ht_buf t) [CHR 0x0A] @ [CHR 0x0A]),
           case resp of None \<Rightarrow> False | Some code \<Rightarrow> 200 \<le> code \<and> code < 300))"

definition http_Write :: "httpTransport \<Rightarrow> string \<Rightarrow> int option \<Rightarrow> httpTransport \<times> string option \<times> bool" where
  "http_Write t payload resp =
    (let t' = t\<lparr>ht_buf := ht_buf t @ [payload]\<rparr> in
     if int (length (ht_buf t')) \<ge> ht_batchSize t then http_send t' resp else (t', None, True))"

section \<open>The asynchronous exporter\<close>

text \<open>
  The buffer with its capacity, what was handed to the transport, and the
  number of drops counted.
\<close>

record asyncExporter =
  ae_name :: string
  ae_fmtr :: Formatter
  ae_cap :: nat
  ae_buf :: "Event list"
  ae_written :: "string list"
  ae_drops :: nat
  ae_stuck :: nat                 \<comment> \<open>handed to a transport call that had not returned at shutdown\<close>

definition newAsyncExporter :: "string \<Rightarrow> Formatter \<Rightarrow> nat \<Rightarrow> asyncExporter" where
  "newAsyncExporter name f cap = \<lparr>ae_name = name, ae_fmtr = f, ae_cap = cap, ae_buf = [], ae_written = [], ae_drops = 0, ae_stuck = 0\<rparr>"

definition offer :: "asyncExporter \<Rightarrow> Event \<Rightarrow> asyncExporter" where
  "offer a e = (if length (ae_buf a) < ae_cap a then a\<lparr>ae_buf := ae_buf a @ [e]\<rparr> else a\<lparr>ae_drops := ae_drops a + 1\<rparr>)"

text \<open>\<open>process\<close>, with the result of formatting and of the transport's write.\<close>

definition ae_process :: "asyncExporter \<Rightarrow> string option \<Rightarrow> bool \<Rightarrow> asyncExporter" where
  "ae_process a formatted wok =
    (case formatted of None \<Rightarrow> a\<lparr>ae_drops := ae_drops a + 1\<rparr>
     | Some b \<Rightarrow> if wok then a\<lparr>ae_written := ae_written a @ [b]\<rparr> else a\<lparr>ae_drops := ae_drops a + 1\<rparr>)"

definition take_one :: "marshaller \<Rightarrow> asyncExporter \<Rightarrow> bool \<Rightarrow> asyncExporter" where
  "take_one mr a wok = (case ae_buf a of [] \<Rightarrow> a
     | e # es \<Rightarrow> ae_process (a\<lparr>ae_buf := es\<rparr>) (format_event mr (ae_fmtr a) e) wok)"

text \<open>
  \<open>drainAndFlush\<close>: the buffered events are processed in order.  \<open>woks\<close> are the results
  of the writes that returned before the deadline; if there are fewer than
  events, one event is stuck in its write and the rest is dropped.
\<close>

definition drainAndFlush :: "marshaller \<Rightarrow> asyncExporter \<Rightarrow> bool list \<Rightarrow> asyncExporter" where
  "drainAndFlush mr a woks =
    (let a' = foldl (take_one mr) a (take (length (ae_buf a)) woks)
     in if length woks < length (ae_buf a)
        then a'\<lparr>ae_buf := [], ae_stuck := ae_stuck a' + 1, ae_drops := ae_drops a' + (length (ae_buf a') - 1)\<rparr> else a')"

datatype ex_event = Offer Event | Process bool | Shutdown "bool list"

fun ex_step :: "marshaller \<Rightarrow> asyncExporter \<Rightarrow> ex_event \<Rightarrow> asyncExporter" where
  "ex_step mr a (Offer e) = offer a e"
| "ex_step mr a (Process wok) = take_one mr a wok"
| "ex_step mr a (Shutdown woks) = drainAndFlush mr a woks"

section \<open>Fan-out\<close>

definition buildTransport_ok :: "ex_ExporterConfig \<Rightarrow> (string, unit) result" where
  "buildTransport_ok ec =
    (if xc_Transport ec = ''file'' then (case xc_File ec of None \<Rightarrow> Inl ''missing file config''
         | Some c \<Rightarrow> if xf_Path c = [] then Inl ''path required'' else Inr ())
     else if xc_Transport ec = ''syslog'' then (case xc_Syslog ec of None \<Rightarrow> Inl ''missing syslog config''
         | Some c \<Rightarrow> map_sum id (\<lambda>_. ()) (newSyslogTransport c None None))
     else if xc_Transport ec = ''http'' then (case xc_HTTP ec of None \<Rightarrow> Inl ''missing http config''
         | Some c \<Rightarrow> map_sum id (\<lambda>_. ()) (newHTTPTransport c None))
     else if xc_Transport ec = ''otlp'' then (if xc_Format ec \<noteq> ''json'' then Inl ''requires format json'' else Inr ())
     else Inl ''unknown transport'')"

definition buildExporter :: "ex_ExporterConfig \<Rightarrow> (string, asyncExporter) result" where
  "buildExporter ec =
    (case NewFormatter (xc_Format ec) of None \<Rightarrow> Inl ''unknown formatter''
     | Some f \<Rightarrow> (case buildTransport_ok ec of Inl err \<Rightarrow> Inl err
        | Inr _ \<Rightarrow> Inr (newAsyncExporter (xc_Name ec) f (nat (bufferSize ec)))))"

fun buildExporters :: "ex_ExporterConfig list \<Rightarrow> (string, asyncExporter list) result" where
  "buildExporters [] = Inr []"
| "buildExporters (ec # ecs) =
    (case buildExporter ec of Inl err \<Rightarrow> Inl (''eventexport: exporter '' @ xc_Name ec @ '': '' @ err)
     | Inr x \<Rightarrow> (case buildExporters ecs of Inl err \<Rightarrow> Inl err | Inr xs \<Rightarrow> Inr (x # xs)))"

text \<open>\<open>Emit\<close> of a wrapped sink: the inner sink's result, and every exporter offered the event.\<close>

definition fanout_Emit :: "(Event \<Rightarrow> string option) \<Rightarrow> asyncExporter list \<Rightarrow> Event \<Rightarrow> asyncExporter list \<times> string option" where
  "fanout_Emit inner xs e = (map (\<lambda>x. offer x e) xs, inner e)"

section \<open>Bounded and accounted for\<close>

interpretation ex_buffer: bounded_queue offer ae_buf ae_cap
  by unfold_locales (simp_all add: offer_def)

definition accounted :: "asyncExporter \<Rightarrow> nat" where
  "accounted a = length (ae_buf a) + length (ae_written a) + ae_drops a + ae_stuck a"

lemma accounted_offer: "accounted (offer a e) = accounted a + 1"
  by (simp add: accounted_def offer_def)

lemma take_one_simps:
  "accounted (take_one mr a w) = accounted a" "length (ae_buf (take_one mr a w)) = length (ae_buf a) - 1"
  "ae_cap (take_one mr a w) = ae_cap a"
  by (auto simp: accounted_def take_one_def ae_process_def split: list.splits option.splits)

lemma take_many:
  "accounted (foldl (take_one mr) a ws) = accounted a" "length (ae_buf (foldl (take_one mr) a ws)) = length (ae_buf a) - length ws"
  "ae_cap (foldl (take_one mr) a ws) = ae_cap a"
  by (induction ws arbitrary: a) (simp_all add: take_one_simps)

lemma accounted_drain: "accounted (drainAndFlush mr a woks) = accounted a"
proof (cases "length woks < length (ae_buf a)")
  case True
  let ?a = "foldl (take_one mr) a (take (length (ae_buf a)) woks)"
  have "0 < length (ae_buf ?a)" using True by (simp add: take_many)
  with True have "accounted (drainAndFlush mr a woks) = accounted ?a"
    by (simp add: drainAndFlush_def Let_def accounted_def)
  then show ?thesis by (simp add: take_many)
qed (simp add: drainAndFlush_def take_many)

lemma ex_step_cap: "ae_cap (ex_step mr a ev) = ae_cap a"
  by (cases ev) (simp_all add: offer_def take_one_simps drainAndFlush_def Let_def take_many)

lemma ex_step_bounded: "length (ae_buf a) \<le> ae_cap a \<Longrightarrow> length (ae_buf (ex_step mr a ev)) \<le> ae_cap (ex_step mr a ev)"
proof (cases ev)
  case (Shutdown woks)
  assume "length (ae_buf a) \<le> ae_cap a"
  then show ?thesis using Shutdown by (simp add: drainAndFlush_def Let_def take_many)
qed (auto simp: ex_buffer.put_bounded take_one_simps)

interpretation exporter: guarded_machine "ex_step mr" "\<lambda>a. length (ae_buf a) \<le> ae_cap a" for mr
  by unfold_locales (rule ex_step_bounded)

definition is_offer :: "ex_event \<Rightarrow> bool" where
  "is_offer ev = (case ev of Offer _ \<Rightarrow> True | _ \<Rightarrow> False)"

lemma run_accounted: "accounted (run_steps (ex_step mr) a evs) = accounted a + length (filter is_offer evs)"
proof (induction evs arbitrary: a)
  case (Cons ev evs)
  show ?case by (cases ev) (simp_all add: Cons accounted_offer take_one_simps accounted_drain is_offer_def)
qed simp

lemma run_cap: "ae_cap (run_steps (ex_step mr) a evs) = ae_cap a"
  by (induction evs arbitrary: a) (simp_all add: ex_step_cap)

text \<open>
  The exporter's books: after any interleaving of offers, processing and
  shutdown, every event offered is still buffered, was written, was counted as
  dropped, or was stuck in the transport at a shutdown deadline; none is lost
  silently, and the buffer never exceeds its configured size.
\<close>

theorem exporter_accounting:
  fixes name f cap mr evs
  defines "a \<equiv> run_steps (ex_step mr) (newAsyncExporter name f cap) evs"
  shows "length (ae_buf a) \<le> cap
    \<and> length (ae_buf a) + length (ae_written a) + ae_drops a + ae_stuck a = length (filter is_offer evs)"
proof -
  have "length (ae_buf a) \<le> ae_cap a" unfolding a_def by (rule exporter.run_invar) (simp add: newAsyncExporter_def)
  moreover have "ae_cap a = cap" by (simp add: a_def run_cap newAsyncExporter_def)
  ultimately show ?thesis
    using run_accounted [of mr "newAsyncExporter name f cap" evs] by (simp add: a_def accounted_def newAsyncExporter_def)
qed

text \<open>A failed HTTP batch is one failed write however many events it held: the books above count it once.\<close>

lemma http_batch_undercounted:
  assumes "ht_buf t \<noteq> []" "int (length (ht_buf t)) + 1 \<ge> ht_batchSize t"
  shows "http_Write t p None = (t\<lparr>ht_buf := []\<rparr>, Some (Join (ht_buf t @ [p]) [CHR 0x0A] @ [CHR 0x0A]), False)"
  using assms by (simp add: http_Write_def http_send_def Let_def)

section \<open>Framing\<close>

text \<open>A receiver of octet-counted frames: digits up to a space, then that many bytes.\<close>

function read_frames :: "string \<Rightarrow> string list option" where
  "read_frames s = (if s = [] then Some []
     else case IndexByte s (CHR '' '') of None \<Rightarrow> None
       | Some i \<Rightarrow> (case parse_digits (take i s) of None \<Rightarrow> None
           | Some n \<Rightarrow> if length s < i + 1 + n then None
               else map_option ((#) (take n (drop (i + 1) s))) (read_frames (drop (i + 1 + n) s))))"
  by auto
termination
  by (relation "measure length") auto

declare read_frames.simps [simp del]

text \<open>
  Octet-counted framing is unambiguous: whatever bytes the messages hold,
  newlines and spaces included, a receiver recovers exactly the frames sent, in
  order.
\<close>

theorem octet_framing_roundtrip: "read_frames (concat (map octetCount fs)) = Some fs"
proof (induction fs)
  case Nil
  show ?case by (simp add: read_frames.simps)
next
  case (Cons f fs)
  let ?rest = "concat (map octetCount fs)"
  have s: "concat (map octetCount (f # fs)) = show_nat (length f) @ CHR '' '' # f @ ?rest" by (simp add: octetCount_def)
  have "CHR '' '' \<notin> set (show_nat (length f))" by (rule show_nat_notin) (simp add: is_digit_def byte_def)
  then have i: "IndexByte (show_nat (length f) @ CHR '' '' # f @ ?rest) (CHR '' '') = Some (length (show_nat (length f)))"
    by (rule IndexByte_append_first)
  show ?case unfolding s by (subst read_frames.simps) (simp add: i Cons)
qed

text \<open>Unescaped equals signs of a CEF extension; a backslash protects the character behind it.\<close>

fun unescaped_eqs :: "string \<Rightarrow> nat" where
  "unescaped_eqs [] = 0"
| "unescaped_eqs (c # s) = (if c = backslash then unescaped_eqs (drop 1 s) else (if c = CHR ''='' then 1 else 0) + unescaped_eqs s)"

lemma escape_Nil [simp]: "cefExtensionEscaper [] = []"
  by (simp add: cefExtensionEscaper_def replace_bytes_def)

lemma escape_Cons:
  "cefExtensionEscaper (c # v) = (if c = backslash then [backslash, backslash] else if c = CHR ''='' then [backslash, CHR ''='']
     else if c = CHR 0x0A \<or> c = CHR 0x0D then [backslash, CHR ''n''] else [c]) @ cefExtensionEscaper v"
  by (simp add: cefExtensionEscaper_def replace_bytes_def)

lemma unescaped_eqs_escape: "unescaped_eqs (cefExtensionEscaper v @ s) = unescaped_eqs s"
  by (induction v) (simp_all add: escape_Cons)

lemma escape_no_newline: "CHR 0x0A \<notin> set (cefExtensionEscaper v) \<and> CHR 0x0D \<notin> set (cefExtensionEscaper v)"
  by (induction v) (auto simp: escape_Cons)

lemma unescaped_eqs_plain: "backslash \<notin> set k \<Longrightarrow> CHR ''='' \<notin> set k \<Longrightarrow> unescaped_eqs (k @ s) = unescaped_eqs s"
  by (induction k) auto

definition cef_keys :: "string list" where
  "cef_keys = [''rt'', ''suser'', ''src'', ''dst'', ''dpt'', ''cat'', ''outcome'', ''msg'', ''fname'', ''fsize'', ''fileHash'']"

lemma cef_fields_keys: "fst ` set (cef_fields e) \<subseteq> set cef_keys"
proof -
  have "fst ` set (filter P xs) \<subseteq> fst ` set xs" for P and xs :: "(string \<times> string) list" by auto
  then show ?thesis
    unfolding cef_fields_def by (rule subset_trans) (auto simp: cef_keys_def split: option.split prod.split)
qed

lemma cef_key_chars: "k \<in> set cef_keys \<Longrightarrow> backslash \<notin> set k \<and> CHR ''='' \<notin> set k \<and> CHR 0x0A \<notin> set k \<and> CHR 0x0D \<notin> set k"
  by (auto simp: cef_keys_def)

lemma join_unescaped:
  "fst ` set kvs \<subseteq> set cef_keys \<Longrightarrow>
    unescaped_eqs (Join (map (\<lambda>(k, v). k @ ''='' @ cefExtensionEscaper v) kvs) '' '') = length kvs
    \<and> CHR 0x0A \<notin> set (Join (map (\<lambda>(k, v). k @ ''='' @ cefExtensionEscaper v) kvs) '' '')
    \<and> CHR 0x0D \<notin> set (Join (map (\<lambda>(k, v). k @ ''='' @ cefExtensionEscaper v) kvs) '' '')"
proof (induction kvs)
  case (Cons kv kvs)
  obtain k v where kv: "kv = (k, v)" by fastforce
  with Cons.prems have k: "backslash \<notin> set k" "CHR ''='' \<notin> set k" "CHR 0x0A \<notin> set k" "CHR 0x0D \<notin> set k"
    using cef_key_chars [of k] by auto
  have "unescaped_eqs (k @ ''='' @ cefExtensionEscaper v @ s) = Suc (unescaped_eqs s)" for s
    using unescaped_eqs_plain [OF k(1,2)] by (simp add: unescaped_eqs_escape)
  from this [of "[]"] this show ?case using Cons k escape_no_newline [of v]
    by (cases kvs) (auto simp: kv)
qed simp

text \<open>
  A logged value cannot forge a CEF field or a second log line: whatever
  user, target, reason or path an event holds, its extension has exactly one
  unescaped equals sign per emitted field, the emitted keys are those of the
  formatter, and there is no line break in it.
\<close>

theorem cef_no_forged_field:
  "unescaped_eqs (cef_extension e) = length (cef_fields e) \<and> fst ` set (cef_fields e) \<subseteq> set cef_keys
    \<and> CHR 0x0A \<notin> set (cef_extension e) \<and> CHR 0x0D \<notin> set (cef_extension e)"
  using cef_fields_keys [of e] join_unescaped [of "cef_fields e"] unfolding cef_extension_def by blast

end
