(* ===== verification/Protoident.thy ===== *)
theory Protoident
  imports Go_Std "HOL-Library.Monad_Syntax"
begin

text \<open>
  Protocol identification from the opening bytes of a tunnel,
  \<^verbatim>\<open>internal/protoident\<close>.  Indexing and slicing are checked: the value \<open>None\<close> is
  Go's run-time panic on an index or slice bound out of range.
\<close>

section \<open>Checked access\<close>

definition index :: "string \<Rightarrow> nat \<Rightarrow> nat option" where
  "index b i = (if i < length b then Some (byte (b ! i)) else None)"

definition slice :: "string \<Rightarrow> nat \<Rightarrow> nat \<Rightarrow> string option" where
  "slice b i j = (if i \<le> j \<and> j \<le> length b then Some (take (j - i) (drop i b)) else None)"

definition index16 :: "string \<Rightarrow> nat \<Rightarrow> nat option" where
  "index16 b i = do { hi \<leftarrow> index b i; lo \<leftarrow> index b (i + 1); Some (256 * hi + lo) }"

lemma index_Some [simp]: "i < length b \<Longrightarrow> index b i = Some (byte (b ! i))"
  by (simp add: index_def)

lemma index16_Some: "i + 1 < length b \<Longrightarrow> index16 b i = Some (256 * byte (b ! i) + byte (b ! (i + 1)))"
  by (simp add: index16_def)

lemma slice_Some: "i \<le> j \<Longrightarrow> j \<le> length b \<Longrightarrow> slice b i j = Some (take (j - i) (drop i b))"
  by (simp add: slice_def)

section \<open>Results\<close>

type_synonym Protocol = string

abbreviation pi_Unknown :: Protocol where "pi_Unknown \<equiv> ''unknown''"

datatype Side = ClientFirst | ServerFirst

record pi_Result =
  pi_Protocol :: Protocol
  pi_Side :: Side
  pi_Detail :: string
  pi_BytesSeen :: nat
  pi_Signature :: string

text \<open>A match function gives a detail and whether it matched; \<open>None\<close> is a panic.\<close>

type_synonym matcher = "string \<Rightarrow> (string \<times> bool) option"

record signature =
  sg_name :: string
  sg_proto :: Protocol
  sg_match :: matcher

section \<open>Server name of a ClientHello\<close>

definition parseServerNameExt :: "string \<Rightarrow> string option" where
  "parseServerNameExt b =
    (if length b < 5 then Some []
     else do { ty \<leftarrow> index b 2;
               if ty \<noteq> 0 then Some []
               else do { nameLen \<leftarrow> index16 b 3; Some (take nameLen (drop 5 b)) } })"

text \<open>The loop over the extensions.\<close>

function sni_exts :: "string \<Rightarrow> nat \<Rightarrow> nat \<Rightarrow> string option" where
  "sni_exts body off extEnd =
    (if off + 4 \<le> extEnd then
       do { extType \<leftarrow> index16 body off;
            extLen \<leftarrow> index16 body (off + 2);
            if off + 4 + extLen > length body then Some []
            else if extType = 0 then do { e \<leftarrow> slice body (off + 4) (off + 4 + extLen); parseServerNameExt e }
            else sni_exts body (off + 4 + extLen) extEnd }
     else Some [])"
  by auto
termination
  by (relation "measure (\<lambda>(body, off, extEnd). extEnd - off)") auto

declare sni_exts.simps [simp del]

text \<open>The body of the handshake message, from the session identifier on.\<close>

definition sni_body :: "string \<Rightarrow> string option" where
  "sni_body body =
    (if length body < 34 then Some []
     else do {
       sidLen \<leftarrow> index body 34;
       let off = 35 + sidLen;
       if off + 2 > length body then Some []
       else do {
         csLen \<leftarrow> index16 body off;
         let off = off + 2 + csLen;
         if off + 1 > length body then Some []
         else do {
           compLen \<leftarrow> index body off;
           let off = off + 1 + compLen;
           if off + 2 > length body then Some []
           else do {
             extTotalLen \<leftarrow> index16 body off;
             let off = off + 2;
             sni_exts body off (min (off + extTotalLen) (length body)) } } } })"

definition parseTLSSNI :: "string \<Rightarrow> string option" where
  "parseTLSSNI b =
    (if length b < 5 then Some []
     else do {
       recLen \<leftarrow> index16 b 3;
       let r = take recLen (drop 5 b);
       if length r < 4 then Some []
       else do {
         ty \<leftarrow> index r 0;
         if ty \<noteq> 1 then Some []
         else do {
           l1 \<leftarrow> index r 1; l2 \<leftarrow> index r 2; l3 \<leftarrow> index r 3;
           sni_body (take (65536 * l1 + 256 * l2 + l3) (drop 4 r)) } } })"

definition matchTLSClientHello :: matcher where
  "matchTLSClientHello b =
    (if length b < 3 then Some ([], False)
     else do {
       b0 \<leftarrow> index b 0; b1 \<leftarrow> index b 1; b2 \<leftarrow> index b 2;
       if b0 \<noteq> 0x16 \<or> b1 \<noteq> 0x03 \<or> b2 > 0x04 then Some ([], False)
       else do { sni \<leftarrow> parseTLSSNI b;
                 Some (if sni \<noteq> [] then ''sni='' @ sni else [], True) } })"

section \<open>The other signatures\<close>

definition bytes_of :: "nat list \<Rightarrow> string" where
  "bytes_of ns = map char_of ns"

definition matchPostgresStartup :: matcher where
  "matchPostgresStartup b =
    (if length b < 8 then Some ([], False)
     else do { code \<leftarrow> slice b 4 8;
               Some (if code = bytes_of [0x04, 0xd2, 0x16, 0x2f] then (''sslrequest'', True)
                     else if code = bytes_of [0x04, 0xd2, 0x16, 0x30] then (''gssencrequest'', True)
                     else if code = bytes_of [0, 3, 0, 0] then (''startup'', True) else ([], False)) })"

definition matchMySQLGreeting :: matcher where
  "matchMySQLGreeting b =
    (if length b < 5 then Some ([], False)
     else do { b0 \<leftarrow> index b 0; b1 \<leftarrow> index b 1; b2 \<leftarrow> index b 2; b3 \<leftarrow> index b 3; b4 \<leftarrow> index b 4;
               Some ([], \<not> (b0 + 256 * b1 + 65536 * b2 \<ge> 0x1000 \<or> b3 \<noteq> 0 \<or> b4 \<noteq> 0x0a)) })"

definition matchOracleTNS :: matcher where
  "matchOracleTNS b =
    (if length b < 8 then Some ([], False)
     else do { b4 \<leftarrow> index b 4;
               Some ([], b4 = 1 \<and> (Contains (drop 8 b) ''(DESCRIPTION='' \<or> Contains (drop 8 b) ''(CONNECT_DATA='')) })"

definition matchRDP :: matcher where
  "matchRDP b =
    (if length b < 6 then Some ([], False)
     else do { b0 \<leftarrow> index b 0; b1 \<leftarrow> index b 1; b5 \<leftarrow> index b 5;
               Some ([], b0 = 3 \<and> b1 = 0 \<and> b5 = 0xE0) })"

definition matchRedis :: matcher where
  "matchRedis b =
    (if b = [] then Some ([], False)
     else do { b0 \<leftarrow> index b 0;
               Some (if b0 = 42 then ([], True)
                     else case List.find (HasPrefix b) [''PING'', ''AUTH'', ''HELLO'', ''SELECT'', ''COMMAND''] of
                       Some v \<Rightarrow> (v, True) | None \<Rightarrow> ([], False)) })"

definition prefixLit :: "string \<Rightarrow> Protocol \<Rightarrow> string \<Rightarrow> signature" where
  "prefixLit name p lit = \<lparr>sg_name = name, sg_proto = p, sg_match = (\<lambda>b. Some ([], HasPrefix b lit))\<rparr>"

definition matchHTTP1 :: matcher where
  "matchHTTP1 b = Some (case List.find (HasPrefix b)
       [''GET '', ''POST '', ''PUT '', ''HEAD '', ''DELETE '', ''OPTIONS '', ''CONNECT '', ''PATCH '', ''TRACE ''] of
     Some m \<Rightarrow> (TrimSpace m, True) | None \<Rightarrow> ([], False))"

definition crlf :: string where
  "crlf = [CHR 0x0D, CHR 0x0A]"

definition clientSignatures :: "signature list" where
  "clientSignatures =
    [prefixLit ''jdwp'' ''jdwp'' ''JDWP-Handshake'',
     \<lparr>sg_name = ''http2'', sg_proto = ''http2'', sg_match = (\<lambda>b. Some ([], HasPrefix b (''PRI * HTTP/2.0'' @ crlf)))\<rparr>,
     \<lparr>sg_name = ''http1'', sg_proto = ''http'', sg_match = matchHTTP1\<rparr>,
     \<lparr>sg_name = ''tls'', sg_proto = ''tls'', sg_match = matchTLSClientHello\<rparr>,
     \<lparr>sg_name = ''postgres'', sg_proto = ''postgres'', sg_match = matchPostgresStartup\<rparr>,
     \<lparr>sg_name = ''oracle-tns'', sg_proto = ''oracle-tns'', sg_match = matchOracleTNS\<rparr>,
     \<lparr>sg_name = ''rdp'', sg_proto = ''rdp'', sg_match = matchRDP\<rparr>,
     \<lparr>sg_name = ''redis'', sg_proto = ''redis'', sg_match = matchRedis\<rparr>,
     \<lparr>sg_name = ''telnet'', sg_proto = ''telnet'', sg_match = (\<lambda>b. Some ([], b \<noteq> [] \<and> byte (hd b) = 0xFF))\<rparr>]"

definition TrimRight_crlf :: "string \<Rightarrow> string" where
  "TrimRight_crlf s = rev (dropWhile (\<lambda>c. byte c = 13 \<or> byte c = 10) (rev s))"

definition upper_byte :: "char \<Rightarrow> char" where
  "upper_byte c = (if 97 \<le> byte c \<and> byte c \<le> 122 then char_of (byte c - 32) else c)"

definition serverSignatures :: "signature list" where
  "serverSignatures =
    [\<lparr>sg_name = ''ssh'', sg_proto = ''ssh'', sg_match = (\<lambda>b.
        if HasPrefix b ''SSH-2.0-'' \<or> HasPrefix b ''SSH-1.99-'' then Some (TrimRight_crlf (take 40 b), True) else Some ([], False))\<rparr>,
     \<lparr>sg_name = ''mysql'', sg_proto = ''mysql'', sg_match = matchMySQLGreeting\<rparr>,
     \<lparr>sg_name = ''ftp'', sg_proto = ''ftp'', sg_match = (\<lambda>b.
        if \<not> HasPrefix b ''220 '' then Some ([], False)
        else if Contains (map upper_byte b) ''FTP'' then Some (TrimSpace (take 40 b), True) else Some ([], False))\<rparr>,
     \<lparr>sg_name = ''smtp'', sg_proto = ''smtp'', sg_match = (\<lambda>b.
        if \<not> HasPrefix b ''220 '' then Some ([], False) else Some (TrimSpace (take 40 b), True))\<rparr>,
     prefixLit ''pop3'' ''pop3'' ''+OK'',
     prefixLit ''imap'' ''imap'' ''* OK'',
     prefixLit ''vnc'' ''vnc'' ''RFB 003.'']"

section \<open>Classification\<close>

text \<open>The first signature that matches, in table order; \<open>None\<close> is a panic on the way.\<close>

fun first_match :: "signature list \<Rightarrow> string \<Rightarrow> (signature \<times> string) option option" where
  "first_match [] b = Some None"
| "first_match (sig # sigs) b =
    do { (d, ok) \<leftarrow> sg_match sig b; if ok then Some (Some (sig, d)) else first_match sigs b }"

definition Classify :: "string \<Rightarrow> string \<Rightarrow> pi_Result option" where
  "Classify clientPrefix serverPrefix =
    do { c \<leftarrow> first_match clientSignatures clientPrefix;
         case c of
           Some (sig, d) \<Rightarrow> Some \<lparr>pi_Protocol = sg_proto sig, pi_Side = ClientFirst, pi_Detail = d,
                                 pi_BytesSeen = length clientPrefix, pi_Signature = sg_name sig\<rparr>
         | None \<Rightarrow>
            do { s \<leftarrow> first_match serverSignatures serverPrefix;
                 case s of
                   Some (sig, d) \<Rightarrow> Some \<lparr>pi_Protocol = sg_proto sig, pi_Side = ServerFirst, pi_Detail = d,
                                 pi_BytesSeen = length serverPrefix, pi_Signature = sg_name sig\<rparr>
                 | None \<Rightarrow>
                    (let first = (clientPrefix = [] \<and> serverPrefix \<noteq> []) in
                     Some \<lparr>pi_Protocol = pi_Unknown, pi_Side = (if first then ServerFirst else ClientFirst), pi_Detail = [],
                           pi_BytesSeen = (if first then length serverPrefix else length clientPrefix), pi_Signature = []\<rparr>) } }"

fun appendUnique :: "Protocol list \<Rightarrow> Protocol \<Rightarrow> Protocol list" where
  "appendUnique xs p = (if p \<in> set xs then xs else xs @ [p])"

definition Protocols :: "Protocol list" where
  "Protocols = foldl appendUnique [] (map sg_proto clientSignatures @ map sg_proto serverSignatures)"

section \<open>Where it panics\<close>

lemma parseServerNameExt_total: "\<exists>s. parseServerNameExt b = Some s"
  by (auto simp: parseServerNameExt_def index16_Some)

lemma sni_exts_total: "extEnd \<le> length body \<Longrightarrow> \<exists>s. sni_exts body off extEnd = Some s"
proof (induction body off extEnd rule: sni_exts.induct)
  case (1 body off extEnd)
  show ?case
  proof (cases "off + 4 \<le> extEnd")
    case True
    with 1(2) have b: "off + 1 < length body" "off + 2 + 1 < length body" by simp_all
    note i = index16_Some [OF b(1)] index16_Some [OF b(2)]
    show ?thesis
      using 1(1) [OF True i] 1(2) True i parseServerNameExt_total
      by (subst sni_exts.simps) (auto simp: slice_Some)
  qed (subst sni_exts.simps, simp)
qed

lemma sni_body_None_iff: "sni_body body = None \<longleftrightarrow> length body = 34"
proof (cases "length body \<le> 34")
  case True
  then show ?thesis by (auto simp: sni_body_def index_def)
next
  case False
  have e: "\<exists>s. sni_exts body off (min n (length body)) = Some s" for off n
    by (rule sni_exts_total) simp
  have "sni_body body \<noteq> None"
    using False e by (auto simp: sni_body_def Let_def index16_Some)
  with False show ?thesis by simp
qed

text \<open>
  The offending inputs: a TLS handshake record (version up to 3.4) with a
  ClientHello whose message, after the record and message lengths are applied,
  is exactly 34 bytes long.
\<close>

definition client_hello_body :: "string \<Rightarrow> string option" where
  "client_hello_body b =
    (if 9 \<le> length b \<and> byte (b ! 0) = 0x16 \<and> byte (b ! 1) = 3 \<and> byte (b ! 2) \<le> 4
        \<and> 4 \<le> 256 * byte (b ! 3) + byte (b ! 4) \<and> byte (b ! 5) = 1
     then Some (take (65536 * byte (b ! 6) + 256 * byte (b ! 7) + byte (b ! 8))
            (drop 4 (take (256 * byte (b ! 3) + byte (b ! 4)) (drop 5 b)))) else None)"

definition truncated_hello :: "string \<Rightarrow> bool" where
  "truncated_hello b = (case client_hello_body b of None \<Rightarrow> False | Some body \<Rightarrow> length body = 34)"

lemma matchTLS_None_iff: "matchTLSClientHello b = None \<longleftrightarrow> truncated_hello b"
proof (cases "3 \<le> length b \<and> byte (b ! 0) = 0x16 \<and> byte (b ! 1) = 3 \<and> byte (b ! 2) \<le> 4")
  case False
  then have "\<not> truncated_hello b" by (auto simp: truncated_hello_def client_hello_body_def)
  moreover have "matchTLSClientHello b \<noteq> None"
    using False by (cases b) (auto simp: matchTLSClientHello_def index_def)
  ultimately show ?thesis by simp
next
  case True
  let ?r = "take (256 * byte (b ! 3) + byte (b ! 4)) (drop 5 b)"
  have m: "matchTLSClientHello b = None \<longleftrightarrow> parseTLSSNI b = None"
    using True by (cases b; cases "parseTLSSNI b") (auto simp: matchTLSClientHello_def index_def)
  show ?thesis
  proof (cases "9 \<le> length b \<and> 4 \<le> 256 * byte (b ! 3) + byte (b ! 4)")
    case False
    then have "parseTLSSNI b \<noteq> None" by (auto simp: parseTLSSNI_def index16_Some Let_def)
    with False m show ?thesis by (auto simp: truncated_hello_def client_hello_body_def)
  next
    case 9: True
    have r: "?r ! i = b ! (5 + i)" if "i < 4" for i
      using that 9 by auto
    have l: "\<not> length b < 5" "\<not> length ?r < 4" using 9 by auto
    then have "i < length ?r" if "i < 4" for i using that by linarith
    then have "index ?r i = Some (byte (b ! (5 + i)))" if "i < 4" for i using that r [OF that] by (simp only: index_Some)
    from this [of 0] this [of 1] this [of 2] this [of 3]
    have n: "index ?r 0 = Some (byte (b ! 5))" "index ?r 1 = Some (byte (b ! 6))" "index ?r 2 = Some (byte (b ! 7))"
      "index ?r 3 = Some (byte (b ! 8))" by (simp_all del: index_Some)
    have "index16 b 3 = Some (256 * byte (b ! 3) + byte (b ! 4))" using 9 by (simp add: index16_Some)
    then have "parseTLSSNI b = (if byte (b ! 5) \<noteq> 1 then Some []
        else sni_body (take (65536 * byte (b ! 6) + 256 * byte (b ! 7) + byte (b ! 8)) (drop 4 ?r)))"
      unfolding parseTLSSNI_def if_not_P [OF l(1)] by (simp only: Let_def bind.bind_lunit if_not_P [OF l(2)] n split: if_split)
    with 9 True m show ?thesis by (simp add: truncated_hello_def client_hello_body_def sni_body_None_iff)
  qed
qed

lemma matchers_total:
  "matchHTTP1 b \<noteq> None" "matchPostgresStartup b \<noteq> None" "matchOracleTNS b \<noteq> None" "matchRDP b \<noteq> None"
  "matchRedis b \<noteq> None" "matchMySQLGreeting b \<noteq> None"
  by (cases b; simp add: matchHTTP1_def matchPostgresStartup_def matchOracleTNS_def matchRDP_def matchRedis_def
      matchMySQLGreeting_def slice_Some index_def del: not_None_eq)+

lemma other_matchers_total:
  "sig \<in> set clientSignatures \<Longrightarrow> sg_name sig \<noteq> ''tls'' \<Longrightarrow> sg_match sig b \<noteq> None"
  using matchers_total [of b] by (auto simp: clientSignatures_def prefixLit_def simp del: not_None_eq)

lemma server_matchers_total: "sig \<in> set serverSignatures \<Longrightarrow> sg_match sig b \<noteq> None"
  using matchers_total [of b] by (auto simp: serverSignatures_def prefixLit_def simp del: not_None_eq)

lemma first_match_total: "(\<And>sig. sig \<in> set sigs \<Longrightarrow> sg_match sig b \<noteq> None) \<Longrightarrow> \<exists>m. first_match sigs b = Some m"
proof (induction sigs)
  case (Cons sig sigs)
  from Cons.prems [of sig] obtain d ok where "sg_match sig b = Some (d, ok)" by auto
  moreover from Cons have "\<exists>m. first_match sigs b = Some m" by simp
  ultimately show ?case by (cases ok) auto
qed simp

lemma prefix_hd: "HasPrefix b p \<Longrightarrow> p \<noteq> [] \<Longrightarrow> b \<noteq> [] \<and> hd b = hd p"
  by (cases b; cases p) auto

lemma first_match_client_None_iff: "first_match clientSignatures b = None \<longleftrightarrow> truncated_hello b"
proof -
  define pre where "pre = take 3 clientSignatures"
  define post where "post = drop 4 clientSignatures"
  define tls where "tls = \<lparr>sg_name = ''tls'', sg_proto = ''tls'', sg_match = matchTLSClientHello\<rparr>"
  have cs: "clientSignatures = pre @ tls # post" by (simp add: pre_def post_def tls_def clientSignatures_def)
  have nt: "sg_name sig \<noteq> ''tls''" if "sig \<in> set pre \<union> set post" for sig
    using that by (auto simp: pre_def post_def clientSignatures_def prefixLit_def)
  have sub: "set pre \<union> set post \<subseteq> set clientSignatures" unfolding cs by auto
  have post: "\<exists>m. first_match post b = Some m"
    by (rule first_match_total) (use nt sub other_matchers_total in blast)
  show ?thesis
  proof (cases "truncated_hello b")
    case True
    then have h: "b \<noteq> []" "byte (hd b) = 0x16"
      by (cases b; auto simp: truncated_hello_def client_hello_body_def split: if_splits option.splits)+
    have no: "\<not> HasPrefix b p" if "p \<noteq> []" "byte (hd p) \<noteq> 0x16" for p
      using prefix_hd [of b p] that h by auto
    have "first_match clientSignatures b = (case matchTLSClientHello b of None \<Rightarrow> None
        | Some (d, ok) \<Rightarrow> if ok then Some (Some (tls, d)) else first_match post b)"
      by (simp add: clientSignatures_def prefixLit_def matchHTTP1_def no byte_def post_def tls_def split: option.splits)
    moreover have "matchTLSClientHello b = None" using True by (simp only: matchTLS_None_iff)
    ultimately show ?thesis using True by simp
  next
    case False
    then have "sg_match sig b \<noteq> None" if "sig \<in> set clientSignatures" for sig
      using that other_matchers_total [of sig b] nt matchTLS_None_iff [of b] unfolding cs by (auto simp: tls_def)
    then show ?thesis using first_match_total [of clientSignatures b] False by auto
  qed
qed

text \<open>
  C14.  The classifier panics on exactly one kind of input, whatever the server
  has sent: a client prefix that is a ClientHello of exactly 34 bytes (version
  and random, nothing behind them).  There the session identifier's length is
  read at offset 34 of a 34-byte slice.  On every other input it returns.
\<close>

theorem Classify_panics_iff: "Classify c s = None \<longleftrightarrow> truncated_hello c"
proof -
  obtain m where "first_match serverSignatures s = Some m" using first_match_total server_matchers_total by blast
  then show ?thesis
    using first_match_client_None_iff [of c]
    by (cases "first_match clientSignatures c") (auto simp: Classify_def Let_def split: option.splits)
qed

end
