(* ===== verification/Tunnel_Inspect.thy ===== *)
theory Tunnel_Inspect
  imports Protoident Event
begin

text \<open>
  Tunnel protocol identification in the session layer,
  \<^verbatim>\<open>internal/session/tunnelinspect.go\<close>: the observe path with its taps and the
  enforce path, which holds the opening bytes of both directions until they
  classify.  The chunks that the background readers deliver, and the expiry of
  the timer, are the events of a list in the order in which the loop receives
  them; a panic of the classifier is a value of the result types.
\<close>

record TunnelInspectConfig =
  ti_Enabled :: bool
  ti_MaxPrefixBytes :: int
  ti_Enforce :: bool
  ti_UnknownDeny :: bool

section \<open>Taps\<close>

record tunnelTaps =
  tt_client :: string
  tt_server :: string
  tt_budget :: int
  tt_sig :: bool

definition newTunnelTaps :: "int \<Rightarrow> tunnelTaps" where
  "newTunnelTaps budget = \<lparr>tt_client = [], tt_server = [], tt_budget = budget, tt_sig = False\<rparr>"

definition tap_append :: "int \<Rightarrow> string \<Rightarrow> string \<Rightarrow> string" where
  "tap_append budget buf p = (let n = budget - int (length buf) in if n > 0 then buf @ take (nat n) p else buf)"

definition taps_record :: "tunnelTaps \<Rightarrow> bool \<Rightarrow> string \<Rightarrow> tunnelTaps" where
  "taps_record t fromClient p =
    (if fromClient then t\<lparr>tt_client := tap_append (tt_budget t) (tt_client t) p, tt_sig := True\<rparr>
     else t\<lparr>tt_server := tap_append (tt_budget t) (tt_server t) p, tt_sig := True\<rparr>)"

definition snapshot :: "tunnelTaps \<Rightarrow> string \<times> string" where
  "snapshot t = (tt_client t, tt_server t)"

text \<open>\<^verbatim>\<open>tapConn.Read\<close>: what the caller sees is what the inner read returned.\<close>

definition tapConn_Read :: "tunnelTaps \<Rightarrow> bool \<Rightarrow> string \<Rightarrow> tunnelTaps \<times> string" where
  "tapConn_Read t fromClient p = (if p \<noteq> [] then taps_record t fromClient p else t, p)"

section \<open>The decision\<close>

definition list_text :: "string list \<Rightarrow> string" where
  "list_text xs = ''['' @ Join xs '' '' @ '']''"

definition decideEnforce :: "pi_Result \<Rightarrow> string list \<Rightarrow> bool \<Rightarrow> bool \<times> string" where
  "decideEnforce res expect unknownDeny =
    (if expect = [] then (True, [])
     else if pi_Protocol res = pi_Unknown then
       (if unknownDeny then (False, ''protocol could not be identified within budget/timeout (expected '' @ list_text expect @ '')'')
        else (True, []))
     else if pi_Protocol res \<in> set expect then (True, [])
     else (False, ''protocol '' @ pi_Protocol res @ '' not permitted on this tunnel (expected '' @ list_text expect @ '')''))"

definition protocol_event :: "string \<Rightarrow> string \<Rightarrow> string \<Rightarrow> pi_Result \<Rightarrow> string \<Rightarrow> bool \<Rightarrow> string \<Rightarrow> Event" where
  "protocol_event user srcIP target res detail allow reason =
     zero_event\<lparr>ev_Type := TypeTunnelProtocol, ev_User := user, ev_SourceIP := srcIP, ev_Target := target,
       ev_Protocol := pi_Protocol res, ev_Detail := detail, ev_Allow := BoolPtr allow, ev_Reason := reason\<rparr>"

text \<open>\<open>None\<close>: the classifier panicked, in a goroutine of its own, so nothing recovers it.\<close>

definition classifyAndEmit :: "TunnelInspectConfig \<Rightarrow> tunnelTaps \<Rightarrow> string \<Rightarrow> string \<Rightarrow> string \<Rightarrow> string list \<Rightarrow> Event option" where
  "classifyAndEmit cfg taps user srcIP target expect =
    (case snapshot taps of (client, server) \<Rightarrow>
     do { res \<leftarrow> Classify client server;
          let (allow, reason) = decideEnforce res expect (ti_UnknownDeny cfg);
          let detail = (if allow then pi_Detail res
                        else if pi_Detail res = [] then ''dry-run'' else ''dry-run: '' @ pi_Detail res);
          Some (protocol_event user srcIP target res detail allow reason) })"

section \<open>The enforcing path\<close>

record asyncReader =
  ar_buf :: string
  ar_err :: "string option"

definition newAsyncReader :: asyncReader where
  "newAsyncReader = \<lparr>ar_buf = [], ar_err = None\<rparr>"

text \<open>A chunk: bytes and the error of one \<^verbatim>\<open>Read\<close>.\<close>

type_synonym asyncChunk = "string \<times> string option"

definition absorb :: "asyncReader \<Rightarrow> asyncChunk \<Rightarrow> asyncReader" where
  "absorb r c = r\<lparr>ar_buf := ar_buf r @ fst c, ar_err := (if ar_err r = None then snd c else ar_err r)\<rparr>"

text \<open>A negative budget makes the slice bound negative, which panics.\<close>

definition classifyView :: "asyncReader \<Rightarrow> int \<Rightarrow> string option" where
  "classifyView r budget =
    (if int (length (ar_buf r)) > budget then (if budget < 0 then None else Some (take (nat budget) (ar_buf r)))
     else Some (ar_buf r))"

definition classify_views :: "asyncReader \<Rightarrow> asyncReader \<Rightarrow> int \<Rightarrow> pi_Result option" where
  "classify_views ca sa budget = do { c \<leftarrow> classifyView ca budget; s \<leftarrow> classifyView sa budget; Classify c s }"

text \<open>
  \<^verbatim>\<open>Read\<close> into a buffer of \<open>n\<close> bytes with the chunks still to come: the bytes, the
  error, and what is left.  \<open>None\<close>: it blocks.
\<close>

fun ar_Read :: "asyncReader \<Rightarrow> nat \<Rightarrow> asyncChunk list \<Rightarrow> (string \<times> string option \<times> asyncReader \<times> asyncChunk list) option" where
  "ar_Read r n pend =
    (if ar_buf r = [] \<and> ar_err r = None then
       (case pend of [] \<Rightarrow> None | c # cs \<Rightarrow> ar_Read (absorb r c) n cs)
     else if ar_buf r = [] then Some ([], ar_err r, r, pend)
     else Some (take n (ar_buf r), None, r\<lparr>ar_buf := drop n (ar_buf r)\<rparr>, pend))"

declare ar_Read.simps [simp del]

datatype arrival = FromClient asyncChunk | FromServer asyncChunk | Deadline

datatype hold_outcome = HoldPanic | HoldWaiting | HoldDone asyncReader asyncReader pi_Result

fun holdAndClassify :: "asyncReader \<Rightarrow> asyncReader \<Rightarrow> int \<Rightarrow> arrival list \<Rightarrow> hold_outcome" where
  "holdAndClassify ca sa budget evs =
    (case classify_views ca sa budget of None \<Rightarrow> HoldPanic
     | Some res \<Rightarrow>
        if pi_Protocol res \<noteq> pi_Unknown then HoldDone ca sa res
        else if int (length (ar_buf ca)) \<ge> budget \<and> int (length (ar_buf sa)) \<ge> budget then HoldDone ca sa res
        else if ar_err ca \<noteq> None \<and> ar_err sa \<noteq> None then HoldDone ca sa res
        else case evs of
          [] \<Rightarrow> HoldWaiting
        | FromClient c # evs' \<Rightarrow> holdAndClassify (absorb ca c) sa budget evs'
        | FromServer c # evs' \<Rightarrow> holdAndClassify ca (absorb sa c) budget evs'
        | Deadline # evs' \<Rightarrow>
            (case classify_views ca sa budget of None \<Rightarrow> HoldPanic
             | Some res' \<Rightarrow> HoldDone ca sa res'))"

declare holdAndClassify.simps [simp del]

text \<open>
  What happens to the tunnel: it panics (recovered by the channel handler), is
  still held, is closed with nothing forwarded, or is spliced from the two readers.
\<close>

datatype tunnel_outcome = TunnelPanic | TunnelHeld | TunnelClosed Event | TunnelSpliced Event asyncReader asyncReader

definition enforceTunnel :: "TunnelInspectConfig \<Rightarrow> string \<Rightarrow> string \<Rightarrow> string \<Rightarrow> string list \<Rightarrow> arrival list \<Rightarrow> tunnel_outcome" where
  "enforceTunnel cfg user srcIP target expect evs =
    (case holdAndClassify newAsyncReader newAsyncReader (ti_MaxPrefixBytes cfg) evs of
       HoldPanic \<Rightarrow> TunnelPanic
     | HoldWaiting \<Rightarrow> TunnelHeld
     | HoldDone ca sa res \<Rightarrow>
        (let (allow, reason) = decideEnforce res expect (ti_UnknownDeny cfg);
             e = protocol_event user srcIP target res (pi_Detail res) allow reason
         in if \<not> allow then TunnelClosed e else TunnelSpliced e ca sa))"

section \<open>Nothing is lost, nothing leaks\<close>

text \<open>The bytes each side has sent, and the bytes the target or client still has to see.\<close>

fun client_bytes :: "arrival list \<Rightarrow> string" where
  "client_bytes [] = []"
| "client_bytes (FromClient c # evs) = fst c @ client_bytes evs"
| "client_bytes (_ # evs) = client_bytes evs"

fun server_bytes :: "arrival list \<Rightarrow> string" where
  "server_bytes [] = []"
| "server_bytes (FromServer c # evs) = fst c @ server_bytes evs"
| "server_bytes (_ # evs) = server_bytes evs"

definition undelivered :: "asyncReader \<Rightarrow> asyncChunk list \<Rightarrow> string" where
  "undelivered r pend = ar_buf r @ concat (map fst pend)"

lemma absorb_buf [simp]: "ar_buf (absorb r c) = ar_buf r @ fst c"
  by (simp add: absorb_def)

lemma ar_Read_conserves:
  "ar_Read r n pend = Some (p, e, r', pend') \<Longrightarrow> undelivered r pend = p @ undelivered r' pend'"
proof (induction r n pend rule: ar_Read.induct)
  case (1 r n pend)
  show ?case
  proof (cases "ar_buf r = [] \<and> ar_err r = None")
    case True
    with 1(2) obtain c cs where c: "pend = c # cs" "ar_Read (absorb r c) n cs = Some (p, e, r', pend')"
      by (subst (asm) ar_Read.simps) (auto split: list.splits)
    from 1(1) [OF True c] c(1) True show ?thesis by (simp add: undelivered_def)
  next
    case False
    with 1(2) show ?thesis
      by (subst (asm) ar_Read.simps) (auto simp: undelivered_def split: if_splits)
  qed
qed

text \<open>The result of the hold, with the events it consumed and left.\<close>

lemma holdAndClassify_done:
  "holdAndClassify ca sa budget evs = HoldDone ca' sa' res \<Longrightarrow>
    \<exists>used left. evs = used @ left \<and> ar_buf ca' = ar_buf ca @ client_bytes used \<and> ar_buf sa' = ar_buf sa @ server_bytes used
      \<and> classify_views ca' sa' budget = Some res"
proof (induction ca sa budget evs rule: holdAndClassify.induct)
  case (1 ca sa budget evs)
  let ?C = "classify_views ca sa budget"
  from 1(3) obtain r where r: "?C = Some r" by (cases ?C) (auto simp: holdAndClassify.simps [of ca])
  show ?case
  proof (cases "pi_Protocol r \<noteq> pi_Unknown \<or> int (length (ar_buf ca)) \<ge> budget \<and> int (length (ar_buf sa)) \<ge> budget
      \<or> ar_err ca \<noteq> None \<and> ar_err sa \<noteq> None")
    case True
    with 1(3) r have "ca' = ca" "sa' = sa" "res = r"
      by (auto simp: holdAndClassify.simps [of ca] split: if_splits)
    with r show ?thesis by (intro exI [of _ "[]"] exI [of _ evs]) simp
  next
    case False
    then have c: "\<not> pi_Protocol r \<noteq> pi_Unknown" "\<not> (int (length (ar_buf ca)) \<ge> budget \<and> int (length (ar_buf sa)) \<ge> budget)"
      "\<not> (ar_err ca \<noteq> None \<and> ar_err sa \<noteq> None)" by blast+
    have step: "holdAndClassify ca sa budget evs = (case evs of [] \<Rightarrow> HoldWaiting
        | FromClient c # evs' \<Rightarrow> holdAndClassify (absorb ca c) sa budget evs'
        | FromServer c # evs' \<Rightarrow> holdAndClassify ca (absorb sa c) budget evs'
        | Deadline # evs' \<Rightarrow> HoldDone ca sa r)"
      unfolding holdAndClassify.simps [of ca sa budget evs] r by (simp only: option.case if_not_P [OF c(1)] if_not_P [OF c(2)] if_not_P [OF c(3)])
    show ?thesis
    proof (cases evs)
      case Nil
      with 1(3) step show ?thesis by simp
    next
      case (Cons a evs')
      show ?thesis
      proof (cases a)
        case (FromClient c')
        with 1(1) [OF r c Cons FromClient] 1(3) step Cons obtain used left where
          "evs' = used @ left" "ar_buf ca' = ar_buf (absorb ca c') @ client_bytes used" "ar_buf sa' = ar_buf sa @ server_bytes used"
          "classify_views ca' sa' budget = Some res" by auto
        with Cons FromClient show ?thesis by (intro exI [of _ "a # used"] exI [of _ left]) simp
      next
        case (FromServer c')
        with 1(2) [OF r c Cons FromServer] 1(3) step Cons obtain used left where
          "evs' = used @ left" "ar_buf ca' = ar_buf ca @ client_bytes used" "ar_buf sa' = ar_buf (absorb sa c') @ server_bytes used"
          "classify_views ca' sa' budget = Some res" by auto
        with Cons FromServer show ?thesis by (intro exI [of _ "a # used"] exI [of _ left]) simp
      next
        case Deadline
        with 1(3) step Cons have "ca' = ca" "sa' = sa" "res = r" by auto
        with r show ?thesis by (intro exI [of _ "[]"] exI [of _ evs]) simp
      qed
    qed
  qed
qed

lemma holdAndClassify_deadline: "Deadline \<in> set evs \<Longrightarrow> holdAndClassify ca sa budget evs \<noteq> HoldWaiting"
proof (induction ca sa budget evs rule: holdAndClassify.induct)
  case (1 ca sa budget evs)
  then show ?case
    by (subst holdAndClassify.simps) (auto split: option.splits list.splits arrival.splits)
qed

text \<open>Permitted by the rule: nothing to enforce, an expected protocol, or unknown where unknown is let through.\<close>

definition permitted :: "string list \<Rightarrow> bool \<Rightarrow> pi_Result \<Rightarrow> bool" where
  "permitted expect unknownDeny res =
    (expect = [] \<or> pi_Protocol res \<in> set expect \<and> pi_Protocol res \<noteq> pi_Unknown \<or> pi_Protocol res = pi_Unknown \<and> \<not> unknownDeny)"

lemma decideEnforce_iff: "fst (decideEnforce res expect unknownDeny) \<longleftrightarrow> permitted expect unknownDeny res"
  by (auto simp: decideEnforce_def permitted_def)


definition lab_inspect :: TunnelInspectConfig where
  "lab_inspect = \<lparr>ti_Enabled = True, ti_MaxPrefixBytes = 512, ti_Enforce = True, ti_UnknownDeny = True\<rparr>"


end
