(* ===== verification/Config.thy ===== *)
theory Config
  imports Complex_Main Policy Event_Export Tunnel_Inspect
begin

text \<open>
  The gateway configuration, \<^verbatim>\<open>internal/config\<close>: the document's structure, its
  defaults, its validation (every check in source order, each error a
  constructor) and the compilation of the policy section.  Reading the file and
  YAML decoding are arguments.
\<close>

section \<open>The document\<close>

record RuleConfig =
  rc_Host :: string
  rc_Ports :: "int list"
  rc_Record :: string
  rc_Credential :: string
  rc_RequireApproval :: bool
  rc_TargetUser :: string
  rc_AllowTargetUsers :: "string list"
  rc_ExpectProtocol :: "string list"

record RoleConfig =
  rl_Name :: string
  rl_Groups :: "string list"
  rl_Allow :: "RuleConfig list"

record PolicyConfig =
  pc_Roles :: "RoleConfig list"
  pc_DisableCIDRHostnameResolution :: bool

record LDAPConfig =
  ld_URL :: string
  ld_BaseDN :: string
  ld_BindDN :: string
  ld_BindPassword :: string
  ld_UserFilter :: string
  ld_InsecureTLS :: bool
  ld_NestedGroups :: bool

record EvidenceWORMConf =
  wo_Endpoint :: string
  wo_AccessKey :: string
  wo_SecretKey :: string
  wo_Bucket :: string
  wo_UseSSL :: bool
  wo_Mode :: string
  wo_RetentionDays :: int

record EvidencePipelineConf =
  ep_DataDir :: string
  ep_SigningKey :: string
  ep_SegmentSize :: int
  ep_WORM :: "EvidenceWORMConf option"

record EvidenceS3Conf =
  s3_Endpoint :: string
  s3_AccessKey :: string
  s3_SecretKey :: string
  s3_Bucket :: string
  s3_UseSSL :: bool

record EvidenceConfig =
  ec_File :: string
  ec_S3 :: "EvidenceS3Conf option"
  ec_Pipeline :: "EvidencePipelineConf option"

record RADIUSConfig =
  ra_Server :: string
  ra_Secret :: string
  ra_NASIdentifier :: string
  ra_TimeoutSeconds :: int
  ra_Retries :: int
  ra_AllowInteractiveChallenge :: bool

record MFAConfig =
  mf_Enabled :: bool
  mf_RADIUS :: "RADIUSConfig option"

record RecordingConfig =
  re_LocalDir :: string
  re_S3 :: "EvidenceS3Conf option"

record ICAPConfig =
  ic_Endpoint :: string
  ic_Service :: string
  ic_PreviewBytes :: int
  ic_TimeoutSeconds :: int

record InspectionConfig =
  in_Enabled :: bool
  in_ICAP :: ICAPConfig
  in_ThresholdBytes :: int
  in_Holding :: "EvidenceS3Conf option"
  in_Quarantine :: "EvidenceWORMConf option"

record CyberArkConfig =
  cy_BaseURL :: string
  cy_ClientCertPath :: string
  cy_ClientKeyPath :: string
  cy_CACertPath :: string
  cy_AppID :: string
  cy_Safe :: string
  cy_ObjectTemplate :: string
  cy_TimeoutSeconds :: int
  cy_BreakerFails :: int
  cy_BreakerCoolSec :: int

record APIToken =
  at_Token :: string
  at_Subject :: string
  at_Role :: string

record APICNRole =
  cn_CN :: string
  cn_Role :: string

record APIConfig =
  ap_Listen :: string
  ap_TLSCert :: string
  ap_TLSKey :: string
  ap_ClientCA :: string
  ap_Tokens :: "APIToken list"
  ap_CNRoles :: "APICNRole list"

record GatewayTLSConfig =
  gt_Listen :: string
  gt_Cert :: string
  gt_Key :: string
  gt_ClientCA :: string

record ApprovalConfig =
  ac_StorePath :: string
  ac_TTLSeconds :: int
  ac_ReleaseTTLSeconds :: int
  ac_UseCRD :: bool

record ExportTLSConfig =
  et_CA :: string
  et_Cert :: string
  et_Key :: string

record ExportFileConfig =
  ef_Path :: string

record ExportSyslogConfig =
  es_Address :: string
  es_Protocol :: string
  es_Facility :: string
  es_TLS :: "ExportTLSConfig option"

record ExportHTTPAuthConfig =
  ea_BearerEnv :: string
  ea_UserEnv :: string
  ea_PassEnv :: string

record ExportHTTPConfig =
  eh_URL :: string
  eh_BatchSize :: int
  eh_FlushIntervalSeconds :: int
  eh_Auth :: ExportHTTPAuthConfig
  eh_TLS :: "ExportTLSConfig option"

record ExporterSpec =
  sp_Name :: string
  sp_Format :: string
  sp_Transport :: string
  sp_BufferSize :: int
  sp_File :: "ExportFileConfig option"
  sp_Syslog :: "ExportSyslogConfig option"
  sp_HTTP :: "ExportHTTPConfig option"

record ExportConfig =
  ex_Enabled :: bool
  ex_Exporters :: "ExporterSpec list"

record OTelTLS =
  ot_CACert :: string
  ot_ClientCert :: string
  ot_ClientKey :: string

record OTelTraces =
  tr_Enabled :: "bool option"
  tr_SamplerV :: string
  tr_SampleRatio :: rat
  tr_MaxQueueSize :: int
  tr_MaxExportBatchSize :: int
  tr_ExportTimeoutSeconds :: int

record OTelMetrics =
  me_Enabled :: bool
  me_IntervalSeconds :: int

record OTelConfig =
  oc_Enabled :: bool
  oc_Endpoint :: string
  oc_ProtocolV :: string
  oc_Insecure :: bool
  oc_TLS :: OTelTLS
  oc_Headers :: "(string \<times> string) list"
  oc_Resource :: "(string \<times> string) list"
  oc_Traces :: OTelTraces
  oc_Metrics :: OTelMetrics
  oc_LogsEnabled :: bool

record TunnelInspectionConfig =
  tc_Enabled :: bool
  tc_MaxPrefixBytes :: int
  tc_ClassifyTimeoutSeconds :: int
  tc_Enforce :: bool
  tc_UnknownAction :: string

record ConfigFile =
  f_Listen :: string
  f_HostKey :: string
  f_TLS :: "GatewayTLSConfig option"
  f_LDAP :: LDAPConfig
  f_MFA :: MFAConfig
  f_Evidence :: EvidenceConfig
  f_Recording :: "RecordingConfig option"
  f_Inspection :: "InspectionConfig option"
  f_CyberArk :: "CyberArkConfig option"
  f_API :: "APIConfig option"
  f_Approval :: "ApprovalConfig option"
  f_PolicySrc :: "string option"
  f_Metrics :: "string option"
  f_FIPS :: "string option"             \<comment> \<open>the mode of a \<^verbatim>\<open>fips\<close> block\<close>
  f_Export :: "ExportConfig option"
  f_OTel :: "OTelConfig option"
  f_DrainGrace :: int
  f_Policy :: PolicyConfig
  f_TargetKnownHosts :: string
  f_TargetInsecureHostKey :: bool
  f_TargetAllowLoopback :: bool
  f_DisableSSH :: bool
  f_DisableTunnel :: bool
  f_DisableSFTP :: bool
  f_EnableSCP :: bool
  f_TunnelInspection :: "TunnelInspectionConfig option"

section \<open>Accessors with defaults\<close>

definition tls_toEventExport :: "ExportTLSConfig option \<Rightarrow> ex_TLSConfig option" where
  "tls_toEventExport c = map_option (\<lambda>c. \<lparr>xt_CA = et_CA c, xt_Cert = et_Cert c, xt_Key = et_Key c\<rparr>) c"

definition file_toEventExport :: "ExportFileConfig option \<Rightarrow> ex_FileConfig option" where
  "file_toEventExport c = map_option (\<lambda>c. \<lparr>xf_Path = ef_Path c\<rparr>) c"

definition syslog_toEventExport :: "ExportSyslogConfig option \<Rightarrow> ex_SyslogConfig option" where
  "syslog_toEventExport c = map_option (\<lambda>c. \<lparr>xs_Address = es_Address c, xs_Protocol = es_Protocol c,
     xs_Facility = es_Facility c, xs_TLS = tls_toEventExport (es_TLS c)\<rparr>) c"

definition http_toEventExport :: "ExportHTTPConfig option \<Rightarrow> ex_HTTPConfig option" where
  "http_toEventExport c = map_option (\<lambda>c. \<lparr>xh_URL = eh_URL c, xh_BatchSize = eh_BatchSize c,
     xh_FlushIntervalSeconds = eh_FlushIntervalSeconds c,
     xh_Auth = \<lparr>xa_BearerEnv = ea_BearerEnv (eh_Auth c), xa_UserEnv = ea_UserEnv (eh_Auth c), xa_PassEnv = ea_PassEnv (eh_Auth c)\<rparr>,
     xh_TLS = tls_toEventExport (eh_TLS c)\<rparr>) c"

definition ToEventExport :: "ExportConfig option \<Rightarrow> ex_Config" where
  "ToEventExport ec =
    (case ec of None \<Rightarrow> \<lparr>xg_Enabled = False, xg_Exporters = [], xg_Mode = ModeOff\<rparr>
     | Some ec \<Rightarrow> \<lparr>xg_Enabled = ex_Enabled ec,
         xg_Exporters = map (\<lambda>e. \<lparr>xc_Name = sp_Name e, xc_Format = sp_Format e, xc_Transport = sp_Transport e,
            xc_BufferSize = sp_BufferSize e, xc_File = file_toEventExport (sp_File e),
            xc_Syslog = syslog_toEventExport (sp_Syslog e), xc_HTTP = http_toEventExport (sp_HTTP e)\<rparr>) (ex_Exporters ec),
         xg_Mode = ModeOff\<rparr>)"

definition otel_Protocol :: "OTelConfig option \<Rightarrow> string" where
  "otel_Protocol o' = (case o' of None \<Rightarrow> ''grpc'' | Some c \<Rightarrow> if oc_ProtocolV c = [] then ''grpc'' else oc_ProtocolV c)"

definition otel_Sampler :: "OTelConfig option \<Rightarrow> string" where
  "otel_Sampler o' = (case o' of None \<Rightarrow> ''parentbased_always_on''
     | Some c \<Rightarrow> if tr_SamplerV (oc_Traces c) = [] then ''parentbased_always_on'' else tr_SamplerV (oc_Traces c))"

definition otel_SampleRatio :: "OTelConfig option \<Rightarrow> rat" where
  "otel_SampleRatio o' = (case o' of None \<Rightarrow> 1 | Some c \<Rightarrow> if tr_SampleRatio (oc_Traces c) \<le> 0 then 1 else tr_SampleRatio (oc_Traces c))"

definition otel_MaxQueueSize :: "OTelConfig option \<Rightarrow> int" where
  "otel_MaxQueueSize o' = (case o' of None \<Rightarrow> 2048 | Some c \<Rightarrow> if tr_MaxQueueSize (oc_Traces c) \<le> 0 then 2048 else tr_MaxQueueSize (oc_Traces c))"

definition otel_MaxExportBatchSize :: "OTelConfig option \<Rightarrow> int" where
  "otel_MaxExportBatchSize o' = (case o' of None \<Rightarrow> 512
     | Some c \<Rightarrow> if tr_MaxExportBatchSize (oc_Traces c) \<le> 0 then 512 else tr_MaxExportBatchSize (oc_Traces c))"

definition otel_ExportTimeout :: "OTelConfig option \<Rightarrow> int" where
  "otel_ExportTimeout o' = (case o' of None \<Rightarrow> 10
     | Some c \<Rightarrow> if tr_ExportTimeoutSeconds (oc_Traces c) \<le> 0 then 10 else tr_ExportTimeoutSeconds (oc_Traces c))"

definition otel_MetricsIntervalSeconds :: "OTelConfig option \<Rightarrow> int" where
  "otel_MetricsIntervalSeconds o' = (case o' of None \<Rightarrow> 60
     | Some c \<Rightarrow> if me_IntervalSeconds (oc_Metrics c) \<le> 0 then 60 else me_IntervalSeconds (oc_Metrics c))"

definition otel_TracesEnabled :: "OTelConfig option \<Rightarrow> bool" where
  "otel_TracesEnabled o' = (case o' of None \<Rightarrow> False
     | Some c \<Rightarrow> (case tr_Enabled (oc_Traces c) of None \<Rightarrow> True | Some b \<Rightarrow> b))"

definition otel_MetricsEnabled :: "OTelConfig option \<Rightarrow> bool" where
  "otel_MetricsEnabled o' = (case o' of None \<Rightarrow> False | Some c \<Rightarrow> me_Enabled (oc_Metrics c))"

definition otel_LogsEnabled :: "OTelConfig option \<Rightarrow> bool" where
  "otel_LogsEnabled o' = (case o' of None \<Rightarrow> False | Some c \<Rightarrow> oc_LogsEnabled c)"

definition DrainGraceSeconds :: "ConfigFile \<Rightarrow> int" where
  "DrainGraceSeconds f = (if f_DrainGrace f \<le> 0 then 30 else f_DrainGrace f)"

definition ApprovalTTL :: "ApprovalConfig option \<Rightarrow> int" where
  "ApprovalTTL a = (case a of None \<Rightarrow> 900 | Some c \<Rightarrow> if ac_TTLSeconds c \<le> 0 then 900 else ac_TTLSeconds c)"

definition ReleaseTTL :: "ApprovalConfig option \<Rightarrow> int" where
  "ReleaseTTL a = (case a of None \<Rightarrow> 86400 | Some c \<Rightarrow> if ac_ReleaseTTLSeconds c \<le> 0 then 86400 else ac_ReleaseTTLSeconds c)"

section \<open>Validation\<close>

datatype ConfigError =
    ListenRequired | TLSHalfConfigured | TLSListenSame | ServesNothing
  | NoEvidence | ManyEvidence | PipelineDataDir | PipelineSigningKey | WormEndpointBucket | WormMode
  | RecordingEmpty | RecordingBoth | IcapEndpointService | QuarantineEndpointBucket | QuarantineMode
  | MfaNoRadius | MfaRadiusServerSecret | FipsInvalidMode string
  | RoleEmptyName | RuleEmptyHost string | RuleBadCIDR string string | RuleBadRecord string string
  | RuleBadCredential string string | RulePinsAndLists string string | RuleListMode string string
  | RuleBadListEntry string string | RuleMixesWildcard string string | RuleBadProtocol string string
  | InjectNoCyberArk | CyberArkIncomplete | ApprovalMissing | ApprovalNoStore
  | FipsInsecureLDAP | FipsCleartextAPI
  | ExportEmpty | ExporterNoName | ExporterFormat string | ExporterTransport string
  | ExporterNoFile string | ExporterNoSyslog string | ExporterNoHTTP string | ExporterOtlpFormat string
  | OtelNoEndpoint | OtelProtocol | OtelSampler | UnknownActionInvalid

text \<open>The checks run in order; the first that fails is returned.\<close>

definition failing :: "bool \<Rightarrow> 'e \<Rightarrow> 'e option" where
  "failing c e = (if c then Some e else None)"

fun first_error :: "'e option list \<Rightarrow> 'e option" where
  "first_error [] = None"
| "first_error (None # es) = first_error es"
| "first_error (Some e # es) = Some e"

definition knownProtocol :: "string \<Rightarrow> bool" where
  "knownProtocol name = list_ex (\<lambda>p. p = name) Protocols"

definition bad_list_entry :: "string \<Rightarrow> bool" where
  "bad_list_entry u = (u \<noteq> ''*'' \<and> (u = [] \<or> list_ex (\<lambda>c. c \<in> set ('' @%+'' @ [CHR 0x09])) u))"

definition validate_rule :: "string \<Rightarrow> RuleConfig \<Rightarrow> ConfigError option" where
  "validate_rule role rule =
    first_error
     ([failing (rc_Host rule = []) (RuleEmptyHost role),
       failing (Contains (rc_Host rule) ''/'' \<and> ParseCIDR (rc_Host rule) = None) (RuleBadCIDR role (rc_Host rule)),
       failing (rc_Record rule \<notin> set ['''', ''none'', ''metadata-only'', ''full'']) (RuleBadRecord role (rc_Host rule)),
       failing (rc_Credential rule \<notin> set ['''', ''passthrough'', ''prompt'', ''deny'', ''inject'']) (RuleBadCredential role (rc_Host rule))]
      @ (if rc_AllowTargetUsers rule \<noteq> [] then
           [failing (rc_TargetUser rule \<noteq> []) (RulePinsAndLists role (rc_Host rule)),
            failing (rc_Credential rule \<in> set [''inject'', ''deny'']) (RuleListMode role (rc_Host rule)),
            failing (list_ex bad_list_entry (rc_AllowTargetUsers rule)) (RuleBadListEntry role (rc_Host rule)),
            failing (''*'' \<in> set (rc_AllowTargetUsers rule) \<and> 1 < length (rc_AllowTargetUsers rule)) (RuleMixesWildcard role (rc_Host rule))]
         else [])
      @ [failing (list_ex (\<lambda>want. \<not> knownProtocol want) (rc_ExpectProtocol rule)) (RuleBadProtocol role (rc_Host rule))])"

definition validatePolicyRoles :: "RoleConfig list \<Rightarrow> ConfigError option" where
  "validatePolicyRoles roles =
    first_error (concat (map (\<lambda>r. failing (rl_Name r = []) RoleEmptyName # map (validate_rule (rl_Name r)) (rl_Allow r)) roles))"

definition validate_exporter :: "ExporterSpec \<Rightarrow> ConfigError option" where
  "validate_exporter e =
    first_error
     [failing (sp_Name e = []) ExporterNoName,
      failing (sp_Format e \<notin> set [''json'', ''ecs'', ''cef'']) (ExporterFormat (sp_Name e)),
      (if sp_Transport e = ''file'' then failing (sp_File e = None) (ExporterNoFile (sp_Name e))
       else if sp_Transport e = ''syslog'' then failing (sp_Syslog e = None) (ExporterNoSyslog (sp_Name e))
       else if sp_Transport e = ''http'' then failing (sp_HTTP e = None) (ExporterNoHTTP (sp_Name e))
       else if sp_Transport e = ''otlp'' then failing (sp_Format e \<noteq> ''json'') (ExporterOtlpFormat (sp_Name e))
       else Some (ExporterTransport (sp_Name e)))]"

definition validateExportConfig :: "ExportConfig \<Rightarrow> ConfigError option" where
  "validateExportConfig ex =
    (if ex_Exporters ex = [] then Some ExportEmpty else first_error (map validate_exporter (ex_Exporters ex)))"

definition validateOTelConfig :: "OTelConfig \<Rightarrow> ConfigError option" where
  "validateOTelConfig o' =
    first_error
     [failing (oc_Endpoint o' = []) OtelNoEndpoint,
      failing (otel_Protocol (Some o') \<notin> set [''grpc'', ''http'']) OtelProtocol,
      failing (otel_Sampler (Some o') \<notin> set [''always_on'', ''always_off'', ''traceidratio'', ''parentbased_always_on'',
         ''parentbased_traceidratio'']) OtelSampler]"

definition FIPSMode :: "ConfigFile \<Rightarrow> fips_Mode" where
  "FIPSMode f = (case f_FIPS f of None \<Rightarrow> ModeOff | Some m \<Rightarrow> fst (ParseMode m))"

definition validateFIPS :: "ConfigFile \<Rightarrow> ConfigError option" where
  "validateFIPS f =
    (if FIPSMode f \<noteq> ModeEnforce then None
     else first_error
      [failing (ld_InsecureTLS (f_LDAP f)) FipsInsecureLDAP,
       (case f_API f of None \<Rightarrow> None | Some a \<Rightarrow> failing (ap_TLSCert a = []) FipsCleartextAPI)])"

definition worm_mode_ok :: "string \<Rightarrow> bool" where
  "worm_mode_ok m = (m = [] \<or> m = ''COMPLIANCE'' \<or> m = ''GOVERNANCE'')"

definition evidence_count :: "EvidenceConfig \<Rightarrow> nat" where
  "evidence_count e = (if ec_File e \<noteq> [] then 1 else 0) + (if ec_S3 e \<noteq> None then 1 else 0) + (if ec_Pipeline e \<noteq> None then 1 else 0)"

definition all_rules :: "ConfigFile \<Rightarrow> RuleConfig list" where
  "all_rules f = concat (map rl_Allow (pc_Roles (f_Policy f)))"

definition usesInject :: "ConfigFile \<Rightarrow> bool" where
  "usesInject f = list_ex (\<lambda>r. rc_Credential r = ''inject'') (all_rules f)"

definition usesApproval :: "ConfigFile \<Rightarrow> bool" where
  "usesApproval f = list_ex rc_RequireApproval (all_rules f)"

definition tunnel_defaults :: "TunnelInspectionConfig \<Rightarrow> TunnelInspectionConfig" where
  "tunnel_defaults ti =
    (let ti = (if tc_MaxPrefixBytes ti = 0 then ti\<lparr>tc_MaxPrefixBytes := 512\<rparr> else ti);
         ti = (if tc_ClassifyTimeoutSeconds ti = 0 then ti\<lparr>tc_ClassifyTimeoutSeconds := 5\<rparr> else ti)
     in if tc_UnknownAction ti = [] then ti\<lparr>tc_UnknownAction := ''allow''\<rparr> else ti)"

definition validate_checks :: "ConfigFile \<Rightarrow> ConfigError option list" where
  "validate_checks f =
    [failing (f_Listen f = []) ListenRequired]
    @ (case f_TLS f of None \<Rightarrow> []
       | Some t \<Rightarrow> [failing (gt_Cert t = [] \<or> gt_Key t = []) TLSHalfConfigured,
                    failing (gt_Listen t \<noteq> [] \<and> gt_Listen t = f_Listen f) TLSListenSame])
    @ [failing (f_DisableSSH f \<and> f_DisableTunnel f \<and> f_DisableSFTP f) ServesNothing,
       failing (evidence_count (f_Evidence f) = 0) NoEvidence,
       failing (1 < evidence_count (f_Evidence f)) ManyEvidence]
    @ (case ec_Pipeline (f_Evidence f) of None \<Rightarrow> []
       | Some p \<Rightarrow> [failing (ep_DataDir p = []) PipelineDataDir, failing (ep_SigningKey p = []) PipelineSigningKey]
           @ (case ep_WORM p of None \<Rightarrow> []
              | Some w \<Rightarrow> [failing (wo_Endpoint w = [] \<or> wo_Bucket w = []) WormEndpointBucket,
                           failing (\<not> worm_mode_ok (wo_Mode w)) WormMode]))
    @ (case f_Recording f of None \<Rightarrow> []
       | Some r \<Rightarrow> [failing (re_LocalDir r = [] \<and> re_S3 r = None) RecordingEmpty,
                    failing (re_LocalDir r \<noteq> [] \<and> re_S3 r \<noteq> None) RecordingBoth])
    @ (case f_Inspection f of None \<Rightarrow> []
       | Some i \<Rightarrow> if \<not> in_Enabled i then []
           else [failing (ic_Endpoint (in_ICAP i) = [] \<or> ic_Service (in_ICAP i) = []) IcapEndpointService,
                 (case in_Quarantine i of None \<Rightarrow> Some QuarantineEndpointBucket
                  | Some q \<Rightarrow> first_error [failing (wo_Endpoint q = [] \<or> wo_Bucket q = []) QuarantineEndpointBucket,
                                            failing (\<not> worm_mode_ok (wo_Mode q)) QuarantineMode])])
    @ (if mf_Enabled (f_MFA f) then
         [(case mf_RADIUS (f_MFA f) of None \<Rightarrow> Some MfaNoRadius
           | Some r \<Rightarrow> failing (ra_Server r = [] \<or> ra_Secret r = []) MfaRadiusServerSecret)] else [])
    @ [(case f_FIPS f of None \<Rightarrow> None | Some m \<Rightarrow> failing (snd (ParseMode m)) (FipsInvalidMode m)),
       validatePolicyRoles (pc_Roles (f_Policy f)),
       (if usesInject f then
          (case f_CyberArk f of None \<Rightarrow> Some InjectNoCyberArk
           | Some c \<Rightarrow> failing (cy_BaseURL c = [] \<or> cy_ClientCertPath c = [] \<or> cy_ClientKeyPath c = []) CyberArkIncomplete) else None),
       (if usesApproval f then
          (case f_Approval f of None \<Rightarrow> Some ApprovalMissing
           | Some a \<Rightarrow> failing (\<not> ac_UseCRD a \<and> ac_StorePath a = []) ApprovalNoStore) else None),
       validateFIPS f,
       (case f_Export f of None \<Rightarrow> None | Some ex \<Rightarrow> if ex_Enabled ex then validateExportConfig ex else None),
       (case f_OTel f of None \<Rightarrow> None | Some o' \<Rightarrow> if oc_Enabled o' then validateOTelConfig o' else None),
       (case f_TunnelInspection f of None \<Rightarrow> None
        | Some ti \<Rightarrow> failing (tc_UnknownAction (tunnel_defaults ti) \<noteq> ''allow'' \<and> tc_UnknownAction (tunnel_defaults ti) \<noteq> ''deny'')
            UnknownActionInvalid)]"

definition validate :: "ConfigFile \<Rightarrow> (ConfigError, ConfigFile) result" where
  "validate f =
    (case first_error (validate_checks f) of Some e \<Rightarrow> Inl e
     | None \<Rightarrow> Inr (f\<lparr>f_HostKey := (if f_HostKey f = [] then ''hostkey.pem'' else f_HostKey f),
                     f_TunnelInspection := map_option tunnel_defaults (f_TunnelInspection f)\<rparr>))"

section \<open>Loading and compiling\<close>

definition compile_rule :: "RuleConfig \<Rightarrow> Rule" where
  "compile_rule ru =
     \<lparr>ru_Host = rc_Host ru, ru_Ports = rc_Ports ru, ru_Record = RecordMode_Normalize (rc_Record ru),
      ru_Credential = rc_Credential ru, ru_RequireApproval = rc_RequireApproval ru, ru_TargetUser = rc_TargetUser ru,
      ru_AllowTargetUsers = rc_AllowTargetUsers ru, ru_ExpectProtocol = rc_ExpectProtocol ru\<rparr>"

definition CompilePolicy :: "PolicyConfig \<Rightarrow> Policy" where
  "CompilePolicy p = \<lparr>po_Roles = map (\<lambda>rc. \<lparr>ro_Name = rl_Name rc, ro_Groups = rl_Groups rc, ro_Allow = map compile_rule (rl_Allow rc)\<rparr>) (pc_Roles p)\<rparr>"

datatype load_error = ReadError string | ParseError string | Invalid ConfigError

definition Load :: "(string \<Rightarrow> string option) \<Rightarrow> (string \<Rightarrow> ConfigFile option) \<Rightarrow> string \<Rightarrow> (load_error, ConfigFile) result" where
  "Load read yaml path =
    (case read path of None \<Rightarrow> Inl (ReadError path)
     | Some raw \<Rightarrow> (case yaml raw of None \<Rightarrow> Inl (ParseError path)
        | Some f \<Rightarrow> map_sum Invalid id (validate f)))"

definition CompilePolicyBytes :: "(string \<Rightarrow> PolicyConfig option) \<Rightarrow> string \<Rightarrow> (load_error, Policy) result" where
  "CompilePolicyBytes yaml data =
    (case yaml data of None \<Rightarrow> Inl (ParseError [])
     | Some p \<Rightarrow> (case validatePolicyRoles (pc_Roles p) of Some e \<Rightarrow> Inl (Invalid e) | None \<Rightarrow> Inr (CompilePolicy p)))"

definition LoadPolicyDoc :: "(string \<Rightarrow> string option) \<Rightarrow> (string \<Rightarrow> PolicyConfig option) \<Rightarrow> string \<Rightarrow> (load_error, Policy) result" where
  "LoadPolicyDoc read yaml path =
    (case read path of None \<Rightarrow> Inl (ReadError path) | Some raw \<Rightarrow> CompilePolicyBytes yaml raw)"

section \<open>What a validated document guarantees\<close>

lemma failing_None [simp]: "failing c e = None \<longleftrightarrow> \<not> c"
  by (simp add: failing_def)

lemma first_error_None: "first_error es = None \<longleftrightarrow> (\<forall>x\<in>set es. x = None)"
  by (induction es rule: first_error.induct) auto

lemma first_error_split:
  "first_error (x # es) = None \<longleftrightarrow> x = None \<and> first_error es = None"
  "first_error (es @ es') = None \<longleftrightarrow> first_error es = None \<and> first_error es' = None"
  by (auto simp: first_error_None)

lemma validate_rule_None:
  "validate_rule role rule = None \<longleftrightarrow> rc_Host rule \<noteq> [] \<and> (Contains (rc_Host rule) ''/'' \<longrightarrow> ParseCIDR (rc_Host rule) \<noteq> None)
    \<and> rc_Record rule \<in> {[], ''none'', ''metadata-only'', ''full''}
    \<and> rc_Credential rule \<in> {[], ''passthrough'', ''prompt'', ''deny'', ''inject''}
    \<and> (rc_AllowTargetUsers rule \<noteq> [] \<longrightarrow> rc_TargetUser rule = [] \<and> rc_Credential rule \<notin> {''inject'', ''deny''}
         \<and> \<not> list_ex bad_list_entry (rc_AllowTargetUsers rule)
         \<and> \<not> (''*'' \<in> set (rc_AllowTargetUsers rule) \<and> 1 < length (rc_AllowTargetUsers rule)))
    \<and> (\<forall>want\<in>set (rc_ExpectProtocol rule). want \<in> set Protocols)"
  by (cases "rc_AllowTargetUsers rule = []")
    (simp_all add: validate_rule_def first_error_split list_ex_iff knownProtocol_def)

lemma validatePolicyRoles_None:
  "validatePolicyRoles roles = None \<longleftrightarrow> (\<forall>r\<in>set roles. rl_Name r \<noteq> [] \<and> (\<forall>rule\<in>set (rl_Allow r). validate_rule (rl_Name r) rule = None))"
  by (auto simp: validatePolicyRoles_def first_error_None)

lemma Normalize_valid: "m \<in> {[], ''none'', ''metadata-only'', ''full''} \<Longrightarrow> RecordMode_Normalize m = (if m = [] then RecordNone else m)"
  by (auto simp: RecordMode_Normalize_def RecordNone_def RecordMetadataOnly_def RecordFull_def)

text \<open>What one validated rule means for decisions that rest on it.\<close>

definition rule_effective :: "RuleConfig \<Rightarrow> bool" where
  "rule_effective ru =
    (rc_Host ru \<noteq> []
     \<and> (Contains (rc_Host ru) ''/'' \<longrightarrow> rule_cidr (compile_rule ru) \<noteq> None)
     \<and> ru_Record (compile_rule ru) = (if rc_Record ru = [] then RecordNone else rc_Record ru)
     \<and> (rc_Record ru = ''full'' \<longrightarrow> (\<forall>pr r n. \<not> ForwardingAllowed (allow_by pr r (compile_rule ru) n)))
     \<and> (\<forall>u login pr r n. u \<noteq> [] \<longrightarrow> allowsTargetUser (rc_AllowTargetUsers ru) u
           \<longrightarrow> ResolveTargetUser u (allow_by pr r (compile_rule ru) n) login = Inr u)
     \<and> set (rc_ExpectProtocol ru) \<subseteq> set Protocols)"

lemma validated_rule_effective:
  assumes "validate_rule role ru = None"
  shows "rule_effective ru"
proof -
  note v = assms [unfolded validate_rule_None]
  have cidr: "rule_cidr (compile_rule ru) \<noteq> None" if "Contains (rc_Host ru) ''/''"
  proof -
    have "rc_Host ru \<noteq> ''*''" using that by auto
    with v that show ?thesis by (simp add: rule_cidr_def compile_rule_def)
  qed
  have n: "RecordMode_Normalize (rc_Record ru) = (if rc_Record ru = [] then RecordNone else rc_Record ru)"
    using v by (intro Normalize_valid) blast
  have full: "\<not> ForwardingAllowed (allow_by pr r (compile_rule ru) n)" if "rc_Record ru = ''full''" for pr r n
    using that by (simp add: ForwardingAllowed_def allow_by_def compile_rule_def RecordMode_Normalize_def RecordFull_def)
  have user: "ResolveTargetUser u (allow_by pr r (compile_rule ru) n) login = Inr u"
    if "u \<noteq> []" "allowsTargetUser (rc_AllowTargetUsers ru) u" for u login pr r n
  proof -
    have "rc_AllowTargetUsers ru \<noteq> []" using that(2) by (auto simp: allowsTargetUser_def)
    then have "rc_TargetUser ru = []" "rc_Credential ru \<in> {[], ''passthrough'', ''prompt''}" using v by auto
    with that show ?thesis by (auto simp: ResolveTargetUser_def allow_by_def compile_rule_def)
  qed
  show ?thesis unfolding rule_effective_def
    using v cidr n full user by (auto simp: compile_rule_def)
qed


definition lab_policy_config :: PolicyConfig where
  "lab_policy_config = \<lparr>pc_Roles = [\<lparr>rl_Name = ''dba'', rl_Groups = [''DBA''], rl_Allow = [\<lparr>rc_Host = ''db1.lab.local'',
      rc_Ports = [5432], rc_Record = ''full'', rc_Credential = ''prompt'', rc_RequireApproval = False, rc_TargetUser = [],
      rc_AllowTargetUsers = [''svc_db1''], rc_ExpectProtocol = [''postgres'', ''tls'']\<rparr>]\<rparr>],
      pc_DisableCIDRHostnameResolution = False\<rparr>"


lemma validate_ok:
  assumes "validate f = Inr f'"
  shows "first_error (validate_checks f) = None"
    and "f' = f\<lparr>f_HostKey := (if f_HostKey f = [] then ''hostkey.pem'' else f_HostKey f),
             f_TunnelInspection := map_option tunnel_defaults (f_TunnelInspection f)\<rparr>"
  using assms by (auto simp: validate_def split: option.splits)

lemma tunnel_defaults_idem [simp]: "tunnel_defaults (tunnel_defaults ti) = tunnel_defaults ti"
  by (simp add: tunnel_defaults_def Let_def)

text \<open>The document after validation, in the terms of what the gateway needs to start.\<close>

definition config_complete :: "ConfigFile \<Rightarrow> bool" where
  "config_complete f =
    (f_Listen f \<noteq> [] \<and> f_HostKey f \<noteq> [] \<and> evidence_count (f_Evidence f) = 1
     \<and> \<not> (f_DisableSSH f \<and> f_DisableTunnel f \<and> f_DisableSFTP f)
     \<and> (\<forall>t. f_TLS f = Some t \<longrightarrow> gt_Cert t \<noteq> [] \<and> gt_Key t \<noteq> [] \<and> gt_Listen t \<noteq> f_Listen f)
     \<and> (usesInject f \<longrightarrow> (\<exists>c. f_CyberArk f = Some c \<and> cy_BaseURL c \<noteq> [] \<and> cy_ClientCertPath c \<noteq> [] \<and> cy_ClientKeyPath c \<noteq> []))
     \<and> (usesApproval f \<longrightarrow> (\<exists>a. f_Approval f = Some a \<and> (ac_UseCRD a \<or> ac_StorePath a \<noteq> [])))
     \<and> (mf_Enabled (f_MFA f) \<longrightarrow> (\<exists>r. mf_RADIUS (f_MFA f) = Some r \<and> ra_Server r \<noteq> [] \<and> ra_Secret r \<noteq> []))
     \<and> (FIPSMode f = ModeEnforce \<longrightarrow> \<not> ld_InsecureTLS (f_LDAP f) \<and> (\<forall>a. f_API f = Some a \<longrightarrow> ap_TLSCert a \<noteq> []))
     \<and> (\<forall>m. f_FIPS f = Some m \<longrightarrow> \<not> snd (ParseMode m))
     \<and> validatePolicyRoles (pc_Roles (f_Policy f)) = None)"

lemma validate_fields:
  assumes "validate f = Inr f'"
  shows "f_Listen f' = f_Listen f" "f_HostKey f' \<noteq> []" "f_Evidence f' = f_Evidence f" "f_TLS f' = f_TLS f" "f_LDAP f' = f_LDAP f"
    "f_MFA f' = f_MFA f" "f_CyberArk f' = f_CyberArk f" "f_API f' = f_API f" "f_Approval f' = f_Approval f" "f_FIPS f' = f_FIPS f"
    "f_Policy f' = f_Policy f" "f_DisableSSH f' = f_DisableSSH f" "f_DisableTunnel f' = f_DisableTunnel f" "f_DisableSFTP f' = f_DisableSFTP f"
    "f_Recording f' = f_Recording f" "f_Inspection f' = f_Inspection f" "f_Export f' = f_Export f" "f_OTel f' = f_OTel f"
    "f_TunnelInspection f' = map_option tunnel_defaults (f_TunnelInspection f)"
  by (simp_all add: validate_ok(2) [OF assms])

lemma validate_complete:
  assumes "validate f = Inr f'"
  shows "config_complete f'"
proof -
  note c = validate_ok(1) [OF assms, unfolded validate_checks_def first_error_split]
  note fs = validate_fields [OF assms]
  have u: "usesInject f' = usesInject f" "usesApproval f' = usesApproval f" "FIPSMode f' = FIPSMode f"
    by (simp_all add: usesInject_def usesApproval_def all_rules_def FIPSMode_def fs)
  have tls: "gt_Cert t \<noteq> [] \<and> gt_Key t \<noteq> [] \<and> gt_Listen t \<noteq> f_Listen f" if "f_TLS f = Some t" for t
    using c that by (auto simp: first_error_split)
  have inj: "\<exists>k. f_CyberArk f = Some k \<and> cy_BaseURL k \<noteq> [] \<and> cy_ClientCertPath k \<noteq> [] \<and> cy_ClientKeyPath k \<noteq> []" if "usesInject f"
    using c that by (auto split: option.splits)
  have app: "\<exists>a. f_Approval f = Some a \<and> (ac_UseCRD a \<or> ac_StorePath a \<noteq> [])" if "usesApproval f"
    using c that by (auto split: option.splits)
  have mfa: "\<exists>r. mf_RADIUS (f_MFA f) = Some r \<and> ra_Server r \<noteq> [] \<and> ra_Secret r \<noteq> []" if "mf_Enabled (f_MFA f)"
    using c that by (auto simp: first_error_split split: option.splits)
  have fips: "\<not> ld_InsecureTLS (f_LDAP f) \<and> (\<forall>a. f_API f = Some a \<longrightarrow> ap_TLSCert a \<noteq> [])" if "FIPSMode f = ModeEnforce"
  proof -
    have "validateFIPS f = None" using c by blast
    with that show ?thesis by (auto simp: validateFIPS_def first_error_split split: option.splits)
  qed
  have fm: "\<not> snd (ParseMode m)" if "f_FIPS f = Some m" for m using c that by (auto split: option.splits)
  have ev: "evidence_count (f_Evidence f) = 1" using c by auto
  have "f_Listen f \<noteq> []" "\<not> (f_DisableSSH f \<and> f_DisableTunnel f \<and> f_DisableSFTP f)" "validatePolicyRoles (pc_Roles (f_Policy f)) = None"
    using c by auto
  with tls inj app mfa fips fm ev show ?thesis unfolding config_complete_def fs u using fs(2) by blast
qed

text \<open>
  A configuration that validates can serve its policy: exactly one
  evidence backend, a vault for every injecting rule, an approval store for
  every rule that needs approval, a RADIUS server when a second factor is
  required, no half-configured TLS, and under enforced FIPS neither unverified
  LDAPS nor a cleartext control API.  Validating again changes nothing.
\<close>

theorem validated_config_complete:
  assumes "validate f = Inr f'"
  shows "config_complete f' \<and> validate f' = Inr f'"
proof -
  note fs = validate_fields [OF assms]
  have u: "usesInject f' = usesInject f" "usesApproval f' = usesApproval f" "validateFIPS f' = validateFIPS f"
    by (simp_all add: usesInject_def usesApproval_def all_rules_def validateFIPS_def FIPSMode_def fs)
  have "validate_checks f' = validate_checks f"
    unfolding validate_checks_def fs u by (cases "f_TunnelInspection f") simp_all
  then have "validate f' = Inr (f'\<lparr>f_HostKey := (if f_HostKey f' = [] then ''hostkey.pem'' else f_HostKey f'),
      f_TunnelInspection := map_option tunnel_defaults (f_TunnelInspection f')\<rparr>)"
    using validate_ok(1) [OF assms] by (simp add: validate_def)
  also have "\<dots> = Inr f'" using fs(2,19) validate_ok(2) [OF assms] by (simp add: option.map_comp comp_def)
  finally show ?thesis using validate_complete [OF assms] by simp
qed

definition lab_config :: ConfigFile where
  "lab_config = \<lparr>f_Listen = '':2222'', f_HostKey = [], f_TLS = None,
     f_LDAP = \<lparr>ld_URL = ''ldaps://dc1.lab.local'', ld_BaseDN = ''dc=lab,dc=local'', ld_BindDN = ''cn=svc'', ld_BindPassword = ''pw'',
        ld_UserFilter = ''(uid=%s)'', ld_InsecureTLS = False, ld_NestedGroups = False\<rparr>,
     f_MFA = \<lparr>mf_Enabled = False, mf_RADIUS = None\<rparr>,
     f_Evidence = \<lparr>ec_File = ''evidence.jsonl'', ec_S3 = None, ec_Pipeline = None\<rparr>,
     f_Recording = None, f_Inspection = None, f_CyberArk = None, f_API = None, f_Approval = None, f_PolicySrc = None,
     f_Metrics = None, f_FIPS = Some ''enforce'', f_Export = None, f_OTel = None, f_DrainGrace = 0,
     f_Policy = lab_policy_config, f_TargetKnownHosts = [], f_TargetInsecureHostKey = False, f_TargetAllowLoopback = False,
     f_DisableSSH = False, f_DisableTunnel = False, f_DisableSFTP = False, f_EnableSCP = False,
     f_TunnelInspection = Some \<lparr>tc_Enabled = True, tc_MaxPrefixBytes = 0, tc_ClassifyTimeoutSeconds = 0, tc_Enforce = True,
        tc_UnknownAction = []\<rparr>\<rparr>"

definition lab_config_validated :: ConfigFile where
  "lab_config_validated = lab_config\<lparr>f_HostKey := ''hostkey.pem'', f_TunnelInspection := Some \<lparr>tc_Enabled = True,
     tc_MaxPrefixBytes = 512, tc_ClassifyTimeoutSeconds = 5, tc_Enforce = True, tc_UnknownAction = ''allow''\<rparr>\<rparr>"

lemma lab_config_validates: "validate lab_config = Inr lab_config_validated"
proof -
  have p: "validatePolicyRoles (pc_Roles lab_policy_config) = None" by code_simp
  have r: "\<not> usesInject lab_config" "\<not> usesApproval lab_config"
    by (simp_all add: usesInject_def usesApproval_def all_rules_def lab_config_def lab_policy_config_def)
  have m: "ParseMode ''enforce'' = (ModeEnforce, False)" by code_simp
  have v: "validateFIPS lab_config = None"
    by (simp add: validateFIPS_def first_error_None lab_config_def)
  have "first_error (validate_checks lab_config) = None"
    by (simp add: validate_checks_def first_error_split r v) (simp add: lab_config_def p m evidence_count_def tunnel_defaults_def)
  then show ?thesis
    by (simp add: validate_def) (simp add: lab_config_def lab_config_validated_def tunnel_defaults_def)
qed

theorem validated_config_complete_witness:
  "validate lab_config = Inr lab_config_validated \<and> config_complete lab_config_validated
    \<and> validate lab_config_validated = Inr lab_config_validated"
  using validated_config_complete [OF lab_config_validates] lab_config_validates by simp

end
