(* ===== verification/Inspect.thy ===== *)
theory Inspect
  imports Net_IP Merkle
begin

text \<open>
  The ICAP client, \<^verbatim>\<open>internal/inspect\<close>: verdicts and transfer descriptions
  (\<^verbatim>\<open>inspect.go\<close>), the encapsulated HTTP header (\<^verbatim>\<open>encap.go\<close>), chunked coding
  (\<^verbatim>\<open>chunk.go\<close>) and the exchange with the server (\<^verbatim>\<open>icap.go\<close>).

  The connection is a byte string the server sends and a number of writes that
  succeed before the connection breaks; what the client wrote is returned.  A
  reader is the pieces its \<^verbatim>\<open>Read\<close> calls deliver and the error that ends
  them, \<open>None\<close> for end of file.
\<close>

section \<open>Verdicts\<close>

type_synonym Verdict = int

abbreviation (input) VerdictClean :: Verdict where "VerdictClean \<equiv> 0"
abbreviation (input) VerdictBlocked :: Verdict where "VerdictBlocked \<equiv> 1"
abbreviation (input) VerdictModified :: Verdict where "VerdictModified \<equiv> 2"

definition Verdict_String :: "Verdict \<Rightarrow> string" where
  "Verdict_String v = (if v = VerdictClean then ''clean'' else if v = VerdictBlocked then ''blocked''
     else if v = VerdictModified then ''modified'' else ''unknown'')"

record icap_Result =
  ir_Verdict :: Verdict
  ir_Reason :: string
  ir_Modified :: "string option"
  ir_ICAPStatus :: int

definition zero_Result :: icap_Result where
  "zero_Result = \<lparr>ir_Verdict = VerdictClean, ir_Reason = [], ir_Modified = None, ir_ICAPStatus = 0\<rparr>"

type_synonym Method = string

abbreviation RESPMOD :: Method where "RESPMOD \<equiv> ''RESPMOD''"
abbreviation REQMOD :: Method where "REQMOD \<equiv> ''REQMOD''"

record TransferMeta =
  tm_Filename :: string
  tm_ContentType :: string
  tm_Method :: Method
  tm_URL :: string

section \<open>Encapsulated HTTP header\<close>

abbreviation CRLF :: string where "CRLF \<equiv> [CHR 0x0D, CHR 0x0A]"

record encapHeaders =
  eh_bytes :: string
  eh_value :: string

definition encap_url :: "TransferMeta \<Rightarrow> string" where
  "encap_url meta =
    (if tm_URL meta \<noteq> [] then tm_URL meta
     else if tm_Filename meta \<noteq> [] then CHR ''/'' # TrimPrefix (tm_Filename meta) ''/''
     else ''/'')"

definition content_type_line :: "TransferMeta \<Rightarrow> string" where
  "content_type_line meta = (if tm_ContentType meta \<noteq> [] then ''Content-Type: '' @ tm_ContentType meta @ CRLF else [])"

definition encapsulatedHTTPHeaders :: "Method \<Rightarrow> TransferMeta \<Rightarrow> string \<Rightarrow> encapHeaders" where
  "encapsulatedHTTPHeaders method meta originHost =
    (let url = encap_url meta in
     if method = REQMOD then
       let b = ''POST '' @ url @ '' HTTP/1.1'' @ CRLF @ ''Host: '' @ originHost @ CRLF @ content_type_line meta @ CRLF
       in \<lparr>eh_bytes = b, eh_value = ''req-hdr=0, req-body='' @ show_nat (length b)\<rparr>
     else
       let req = ''GET '' @ url @ '' HTTP/1.1'' @ CRLF @ ''Host: '' @ originHost @ CRLF @ CRLF;
           res = ''HTTP/1.1 200 OK'' @ CRLF @ content_type_line meta @ CRLF
       in \<lparr>eh_bytes = req @ res,
           eh_value = ''req-hdr=0, res-hdr='' @ show_nat (length req) @ '', res-body='' @ show_nat (length req + length res)\<rparr>)"

section \<open>Chunked coding\<close>

text \<open>\<^verbatim>\<open>%x\<close> of a length.\<close>

fun show_hex :: "nat \<Rightarrow> string" where
  "show_hex n = (if n < 16 then [hex_digit n] else show_hex (n div 16) @ [hex_digit (n mod 16)])"

declare show_hex.simps [simp del]

text \<open>The writes of one chunk and of the terminator.\<close>

definition writeChunk :: "string \<Rightarrow> string list" where
  "writeChunk data = (if data = [] then [] else [show_hex (length data) @ CRLF, data, CRLF])"

definition writeLastChunk :: "bool \<Rightarrow> string list" where
  "writeLastChunk ieof = [if ieof then ''0; ieof'' @ CRLF @ CRLF else ''0'' @ CRLF @ CRLF]"

text \<open>\<^verbatim>\<open>bufio.Reader.ReadString('\n')\<close>: the line with its newline, or the end of the stream.\<close>

definition ReadLine :: "string \<Rightarrow> (string \<times> string) option" where
  "ReadLine r = (case IndexByte r (CHR 0x0A) of None \<Rightarrow> None | Some i \<Rightarrow> Some (take (Suc i) r, drop (Suc i) r))"

text \<open>\<^verbatim>\<open>strconv.ParseUint(s, 16, 32)\<close>.\<close>

definition ParseUint16_32 :: "string \<Rightarrow> nat option" where
  "ParseUint16_32 s = (if s \<noteq> [] \<and> list_all is_hex s \<and> read_hex s < 2 ^ 32 then Some (read_hex s) else None)"

definition maxChunkedBodyBytes :: nat where
  "maxChunkedBodyBytes = 67108864"

datatype icap_error =
    ChunkSizeLine | BadChunkSize string | ChunkTooLarge | ChunkData | ChunkTrailer
  | DialFailed string | ReadPreview string | WriteFailed | StreamBody string
  | ReadStatusLine | MalformedStatusLine string | BadStatus string | ReadHeaders
  | Unexpected100 | SkipHeaders | ICAPStatus int string

definition chunk_size_field :: "string \<Rightarrow> string" where
  "chunk_size_field line =
    (let s = TrimSpace line in
     case IndexByte s (CHR '';'') of None \<Rightarrow> s | Some i \<Rightarrow> TrimSpace (take i s))"

lemma ReadLine_shorter: "ReadLine r = Some (l, r') \<Longrightarrow> length r' < length r"
  by (auto simp: ReadLine_def split: option.splits dest: IndexByte_SomeD)

text \<open>The loop of \<open>readChunked\<close>; \<open>acc\<close> is the body decoded so far.\<close>

function read_chunks :: "string \<Rightarrow> string \<Rightarrow> (icap_error, string \<times> string) result" where
  "read_chunks acc r =
    (case ReadLine r of None \<Rightarrow> Inl ChunkSizeLine
     | Some (line, r1) \<Rightarrow>
        (case ParseUint16_32 (chunk_size_field line) of None \<Rightarrow> Inl (BadChunkSize (chunk_size_field line))
         | Some n \<Rightarrow>
            if n = 0 then Inr (acc, (case ReadLine r1 of None \<Rightarrow> [] | Some (_, r2) \<Rightarrow> r2))
            else if maxChunkedBodyBytes - length acc < n then Inl ChunkTooLarge
            else if length r1 < n then Inl ChunkData
            else if length r1 < n + 2 then Inl ChunkTrailer
            else read_chunks (acc @ take n r1) (drop (n + 2) r1)))"
  by auto
termination
  by (relation "measure (\<lambda>(acc, r). length r)") (auto dest: ReadLine_shorter)

declare read_chunks.simps [simp del]

definition readChunked :: "string \<Rightarrow> (icap_error, string \<times> string) result" where
  "readChunked r = read_chunks [] r"

section \<open>Responses\<close>

text \<open>
  \<^verbatim>\<open>net/textproto\<close>: a line without its line ending; a header block as the list of
  its canonical keys and values.  A header name is a token; names with a space
  are kept as they are, and anything else malformed is an error.
\<close>

definition tp_ReadLine :: "string \<Rightarrow> (string \<times> string) option" where
  "tp_ReadLine r = (case ReadLine r of
       Some (line, r') \<Rightarrow> Some (TrimSuffix (butlast line) [CHR 0x0D], r')
     | None \<Rightarrow> if r = [] then None else Some (TrimSuffix r [CHR 0x0D], []))"

definition is_token_byte :: "char \<Rightarrow> bool" where
  "is_token_byte c = (is_digit c \<or> (65 \<le> byte c \<and> byte c \<le> 90) \<or> (97 \<le> byte c \<and> byte c \<le> 122)
     \<or> c \<in> set ''!#$%&*+-.^_|~'' \<or> c = CHR 0x27 \<or> c = CHR 0x60)"

definition header_value_byte :: "char \<Rightarrow> bool" where
  "header_value_byte c = (byte c = 9 \<or> (32 \<le> byte c \<and> byte c \<noteq> 127))"

text \<open>Keys are compared after canonicalisation, which only changes the case of token bytes.\<close>

definition canonical_key :: "string \<Rightarrow> string option" where
  "canonical_key k = (if k = [] \<or> \<not> list_all (\<lambda>c. is_token_byte c \<or> c = CHR '' '') k then None
     else if CHR '' '' \<in> set k then Some k else Some (ToLower k))"

definition is_lws :: "char \<Rightarrow> bool" where
  "is_lws c = (c = CHR '' '' \<or> c = CHR 0x09)"

definition trim_lws :: "string \<Rightarrow> string" where
  "trim_lws s = rev (dropWhile is_lws (rev (dropWhile is_lws s)))"

lemma tp_ReadLine_shorter: "tp_ReadLine r = Some (l, r') \<Longrightarrow> length r' < length r"
  by (auto simp: tp_ReadLine_def split: option.splits if_splits dest: ReadLine_shorter)

text \<open>Continuation lines start with white space and are joined with one space.\<close>

function continued :: "string \<Rightarrow> string \<Rightarrow> string \<times> string" where
  "continued line r =
    (case r of [] \<Rightarrow> (line, r)
     | c # _ \<Rightarrow> if \<not> is_lws c then (line, r)
        else case tp_ReadLine r of None \<Rightarrow> (line, r)
         | Some (l, r') \<Rightarrow> continued (line @ '' '' @ trim_lws l) r')"
  by auto
termination
  by (relation "measure (\<lambda>(line, r). length r)") (auto dest: tp_ReadLine_shorter)

declare continued.simps [simp del]

lemma continued_shorter: "length (snd (continued line r)) \<le> length r"
proof (induction line r rule: continued.induct)
  case (1 line r)
  show ?case
  proof (cases r)
    case (Cons c cs)
    show ?thesis
    proof (cases "tp_ReadLine r")
      case (Some x)
      obtain l r' where x: "x = (l, r')" by (cases x)
      with Some Cons have t: "tp_ReadLine (c # cs) = Some (l, r')" by simp
      have "length (snd (continued (line @ '' '' @ trim_lws l) r')) \<le> length r'" if "is_lws c"
        using 1 [OF Cons _ t [folded Cons] refl] that Cons by simp
      moreover have "length r' < length r" using Some x tp_ReadLine_shorter by blast
      ultimately show ?thesis using Cons t
        by (cases "is_lws c") (simp_all add: continued.simps [of line "c # cs"])
    qed (use Cons in \<open>simp add: continued.simps [of line "c # cs"]\<close>)
  qed (simp add: continued.simps [of line "[]"])
qed

type_synonym MIMEHeader = "(string \<times> string) list"

function read_mime :: "MIMEHeader \<Rightarrow> string \<Rightarrow> (MIMEHeader \<times> string) option" where
  "read_mime acc r =
    (case tp_ReadLine r of None \<Rightarrow> None
     | Some (l, r1) \<Rightarrow>
        (let l1 = trim_lws l in
         if l1 = [] then Some (acc, r1)
         else if CHR '':'' \<notin> set l1 then None
         else let (kv, r2) = continued l1 r1 in
           case IndexByte kv (CHR '':'') of None \<Rightarrow> None
           | Some i \<Rightarrow>
              (case canonical_key (take i kv) of None \<Rightarrow> None
               | Some k \<Rightarrow> if \<not> list_all header_value_byte (drop (Suc i) kv) then None
                   else read_mime (acc @ [(k, dropWhile is_lws (drop (Suc i) kv))]) r2)))"
  by auto
termination
proof (relation "measure (\<lambda>(acc, r). length r)", goal_cases)
  case (2 acc r x l r1 l1 y kv r2 i k)
  from 2 have "continued l1 r1 = (kv, r2)" "tp_ReadLine r = Some (l, r1)" by simp_all
  with continued_shorter [of l1 r1] tp_ReadLine_shorter show ?case by fastforce
qed simp

declare read_mime.simps [simp del]

definition ReadMIMEHeader :: "string \<Rightarrow> (MIMEHeader \<times> string) option" where
  "ReadMIMEHeader r = (case r of c # _ \<Rightarrow> if is_lws c then None else read_mime [] r | [] \<Rightarrow> read_mime [] r)"

definition hdr_Get :: "MIMEHeader \<Rightarrow> string \<Rightarrow> string" where
  "hdr_Get hdr key = (case map_of hdr (ToLower key) of None \<Rightarrow> [] | Some v \<Rightarrow> v)"

text \<open>\<^verbatim>\<open>strings.SplitN(line, " ", 3)\<close>.\<close>

definition SplitN3 :: "string \<Rightarrow> string list" where
  "SplitN3 line =
    (case IndexByte line (CHR '' '') of None \<Rightarrow> [line]
     | Some i \<Rightarrow> (let rest = drop (Suc i) line in
        case IndexByte rest (CHR '' '') of None \<Rightarrow> [take i line, rest]
        | Some j \<Rightarrow> [take i line, take j rest, drop (Suc j) rest]))"

definition readResponseHead :: "string \<Rightarrow> (icap_error, int \<times> MIMEHeader \<times> string) result" where
  "readResponseHead br =
    (case tp_ReadLine br of None \<Rightarrow> Inl ReadStatusLine
     | Some (line, br1) \<Rightarrow>
        (let parts = SplitN3 line in
         if length parts < 2 \<or> \<not> HasPrefix (hd parts) ''ICAP/'' then Inl (MalformedStatusLine line)
         else case Atoi (parts ! 1) of None \<Rightarrow> Inl (BadStatus (parts ! 1))
         | Some status \<Rightarrow> (case ReadMIMEHeader br1 of None \<Rightarrow> Inl ReadHeaders
            | Some (hdr, br2) \<Rightarrow> Inr (status, hdr, br2))))"

definition parse_section :: "string \<Rightarrow> (string \<times> int) option" where
  "parse_section part0 =
    (let part = TrimSpace part0 in
     case IndexByte part (CHR ''='') of None \<Rightarrow> None
     | Some i \<Rightarrow> map_option (\<lambda>off. (TrimSpace (take i part), off)) (Atoi (TrimSpace (drop (Suc i) part))))"

definition parseEncapsulated :: "string \<Rightarrow> (string \<times> int) list" where
  "parseEncapsulated v = List.map_filter parse_section (split_byte (CHR '','') v)"

definition readModifiedBody :: "string \<Rightarrow> string \<Rightarrow> (icap_error, string option) result" where
  "readModifiedBody br encapsulated =
    (case filter (\<lambda>s. fst s \<in> set [''res-body'', ''req-body'', ''opt-body'']) (parseEncapsulated encapsulated) of
       [] \<Rightarrow> Inr None
     | ss \<Rightarrow> (let off = snd (last ss) in
         if 0 < off \<and> length br < nat off then Inl SkipHeaders
         else map_sum id (\<lambda>(b, _). Some b) (readChunked (if 0 < off then drop (nat off) br else br))))"

definition block_keys :: "string list" where
  "block_keys = [''X-Infection-Found'', ''X-Virus-Id'', ''X-Violations-Found'', ''X-Blocked-Reason'']"

definition blockReason :: "MIMEHeader \<Rightarrow> string option" where
  "blockReason hdr = map_option (\<lambda>k. k @ '': '' @ hdr_Get hdr k) (List.find (\<lambda>k. hdr_Get hdr k \<noteq> []) block_keys)"

definition finish :: "string \<Rightarrow> int \<Rightarrow> MIMEHeader \<Rightarrow> (icap_error, icap_Result) result" where
  "finish br status hdr =
    (if status = 204 then Inr (zero_Result\<lparr>ir_ICAPStatus := status\<rparr>)
     else if status = 200 then
       (case readModifiedBody br (hdr_Get hdr ''Encapsulated'') of Inl e \<Rightarrow> Inl e
        | Inr modified \<Rightarrow>
           (case blockReason hdr of
              Some reason \<Rightarrow> Inr (zero_Result\<lparr>ir_Verdict := VerdictBlocked, ir_Reason := reason, ir_ICAPStatus := status\<rparr>)
            | None \<Rightarrow> Inr (zero_Result\<lparr>ir_Verdict := VerdictModified, ir_Modified := modified, ir_ICAPStatus := status\<rparr>)))
     else Inl (ICAPStatus status (hdr_Get hdr ''X-ICAP-Reason'')))"

section \<open>The client\<close>

record icap_Config =
  cl_Endpoint :: string
  cl_Service :: string
  cl_Method :: Method
  cl_PreviewBytes :: int
  cl_Timeout :: duration
  cl_OriginHost :: string

definition icap_New :: "icap_Config \<Rightarrow> icap_Config" where
  "icap_New cfg =
     \<lparr>cl_Endpoint = cl_Endpoint cfg, cl_Service = TrimPrefix (cl_Service cfg) ''/'',
      cl_Method = (if cl_Method cfg = [] then RESPMOD else cl_Method cfg),
      cl_PreviewBytes = (if cl_PreviewBytes cfg = 0 then 4096 else cl_PreviewBytes cfg),
      cl_Timeout = (if cl_Timeout cfg = 0 then 30 * Second else cl_Timeout cfg),
      cl_OriginHost = (if cl_OriginHost cfg = [] then ''omni-sag'' else cl_OriginHost cfg)\<rparr>"

type_synonym reader = "string list \<times> string option"

fun drop_pieces :: "nat \<Rightarrow> string list \<Rightarrow> string list" where
  "drop_pieces n [] = []"
| "drop_pieces n (p # ps) = (if length p \<le> n then drop_pieces (n - length p) ps else drop n p # ps)"

text \<open>The reads of one piece through a buffer of \<open>n\<close> bytes.\<close>

function chunks :: "nat \<Rightarrow> string \<Rightarrow> string list" where
  "chunks n s = (if s = [] \<or> n = 0 then [] else take n s # chunks n (drop n s))"
  by auto
termination
  by (relation "measure (\<lambda>(n, s). length s)") auto

declare chunks.simps [simp del]

definition streamBufBytes :: nat where
  "streamBufBytes = 32768"

text \<open>\<open>send w ss\<close>: the writes that went out, and the budget left unless one failed.\<close>

definition send :: "nat \<Rightarrow> string list \<Rightarrow> string list \<times> nat option" where
  "send w ss = (take w ss, if length ss \<le> w then Some (w - length ss) else None)"

definition streamBody :: "nat \<Rightarrow> reader \<Rightarrow> string list \<times> icap_error option" where
  "streamBody w body =
    (case body of (pieces, berr) \<Rightarrow>
      (let ds = concat (map writeChunk (concat (map (chunks streamBufBytes) pieces))) in
       case send w (ds @ (if berr = None then writeLastChunk False else [])) of
         (ws, None) \<Rightarrow> (ws, Some WriteFailed)
       | (ws, Some _) \<Rightarrow> (ws, map_option StreamBody berr)))"

definition request_head :: "icap_Config \<Rightarrow> Method \<Rightarrow> bool \<Rightarrow> nat \<Rightarrow> string \<Rightarrow> string" where
  "request_head c method usePreview n encap =
     method @ '' icap://'' @ cl_Endpoint c @ ''/'' @ cl_Service c @ '' ICAP/1.0'' @ CRLF
     @ ''Host: '' @ cl_Endpoint c @ CRLF @ ''Allow: 204'' @ CRLF
     @ (if usePreview then ''Preview: '' @ show_nat n @ CRLF else [])
     @ ''Encapsulated: '' @ encap @ CRLF @ CRLF"

text \<open>After the body: the final response.\<close>

definition final_response :: "string \<Rightarrow> (icap_error, icap_Result) result" where
  "final_response br =
    (case readResponseHead br of Inl e \<Rightarrow> Inl e
     | Inr (status, hdr, br') \<Rightarrow> if status = 100 then Inl Unexpected100 else finish br' status hdr)"

definition stream_and_finish :: "nat \<Rightarrow> reader \<Rightarrow> string \<Rightarrow> string list \<times> (icap_error, icap_Result) result" where
  "stream_and_finish w body br =
    (case streamBody w body of (ws, Some e) \<Rightarrow> (ws, Inl e) | (ws, None) \<Rightarrow> (ws, final_response br))"

definition exchange ::
  "icap_Config \<Rightarrow> nat \<Rightarrow> string \<Rightarrow> Method \<Rightarrow> TransferMeta \<Rightarrow> reader \<Rightarrow> string list \<times> (icap_error, icap_Result) result" where
  "exchange c w br method meta body =
    (case body of (pieces, berr) \<Rightarrow>
     let encHdr = encapsulatedHTTPHeaders method meta (cl_OriginHost c);
         usePreview = (0 < cl_PreviewBytes c);
         n = nat (cl_PreviewBytes c);
         ended = (usePreview \<and> length (concat pieces) < n)
     in case (if ended then berr else None) of Some e \<Rightarrow> ([], Inl (ReadPreview e))
      | None \<Rightarrow>
       (let previewBuf = (if usePreview then take n (concat pieces) else []);
            rest = (if usePreview then drop_pieces n pieces else pieces) in
        case send w [request_head c method usePreview (length previewBuf) (eh_value encHdr), eh_bytes encHdr] of
          (ws, None) \<Rightarrow> (ws, Inl WriteFailed)
        | (ws, Some w1) \<Rightarrow>
           if \<not> usePreview then apfst ((@) ws) (stream_and_finish w1 (rest, berr) br)
           else case send w1 (writeChunk previewBuf @ writeLastChunk ended) of
             (ws', None) \<Rightarrow> (ws @ ws', Inl WriteFailed)
           | (ws', Some w2) \<Rightarrow>
              (case readResponseHead br of Inl e \<Rightarrow> (ws @ ws', Inl e)
               | Inr (status, hdr, br1) \<Rightarrow>
                  if status \<noteq> 100 then (ws @ ws', finish br1 status hdr)
                  else apfst ((@) (ws @ ws')) (stream_and_finish w2 (rest, berr) br1))))"

text \<open>\<open>conn\<close>: the dial error, or the write budget and the bytes the server sends.\<close>

definition icap_Inspect ::
  "icap_Config \<Rightarrow> (string, nat \<times> string) result \<Rightarrow> TransferMeta \<Rightarrow> reader \<Rightarrow> string list \<times> (icap_error, icap_Result) result" where
  "icap_Inspect c conn meta body =
    (case conn of Inl e \<Rightarrow> ([], Inl (DialFailed e))
     | Inr (w, br) \<Rightarrow> exchange c w br (if tm_Method meta = [] then cl_Method c else tm_Method meta) meta body)"

section \<open>Chunked coding round trip\<close>

lemma hex_digit_val: "n < 16 \<Longrightarrow> is_hex (hex_digit n) \<and> hex_val (hex_digit n) = n"
  by (auto simp: hex_digit_def is_hex_def is_digit_def hex_val_def byte_char_of)

lemma show_hex_hex: "list_all is_hex (show_hex n)"
proof (induction n rule: show_hex.induct)
  case (1 n)
  then show ?case by (cases "n < 16") (simp_all add: show_hex.simps [of n] hex_digit_val)
qed

lemma show_hex_nonempty [simp]: "show_hex n \<noteq> []"
  by (subst show_hex.simps) simp

lemma read_hex_snoc: "read_hex (s @ [c]) = 16 * read_hex s + hex_val c"
  by (simp add: read_hex_def)

lemma read_show_hex [simp]: "read_hex (show_hex n) = n"
proof (induction n rule: show_hex.induct)
  case (1 n)
  show ?case
  proof (cases "n < 16")
    case True
    then show ?thesis by (simp add: show_hex.simps [of n] read_hex_def hex_digit_val)
  next
    case False
    with 1 have "read_hex (show_hex n) = 16 * (n div 16) + hex_val (hex_digit (n mod 16))"
      by (simp add: show_hex.simps [of n] read_hex_snoc)
    then show ?thesis by (simp add: hex_digit_val)
  qed
qed

lemma is_hex_not: "is_hex c \<Longrightarrow> \<not> is_space c \<and> c \<noteq> CHR 0x0A \<and> c \<noteq> CHR '';''"
  by (auto simp: is_hex_def is_digit_def is_space_def byte_def)

lemma hex_TrimSpace: "list_all is_hex h \<Longrightarrow> h \<noteq> [] \<Longrightarrow> TrimSpace (h @ CRLF) = h"
proof -
  assume h: "list_all is_hex h" "h \<noteq> []"
  have sp: "is_space (CHR 0x0D)" "is_space (CHR 0x0A)" by (simp_all add: is_space_def byte_def)
  obtain a as where a: "h = a # as" using h(2) by (cases h) auto
  obtain b bs where b: "h = bs @ [b]" using h(2) by (cases h rule: rev_cases) auto
  have "\<not> is_space a" "\<not> is_space b" using h(1) is_hex_not
    by (simp add: a, simp add: b)
  then have "dropWhile is_space (h @ CRLF) = h @ CRLF" by (simp add: a)
  moreover have "dropWhile is_space (rev (h @ CRLF)) = rev h" using sp \<open>\<not> is_space b\<close> by (simp add: b)
  ultimately show ?thesis by (simp add: TrimSpace_def)
qed

lemma ReadLine_line: "CHR 0x0A \<notin> set l \<Longrightarrow> ReadLine (l @ CHR 0x0A # r) = Some (l @ [CHR 0x0A], r)"
  by (simp add: ReadLine_def IndexByte_append_first)

lemma read_chunks_one:
  assumes "d \<noteq> []" "length acc + length d \<le> maxChunkedBodyBytes"
  shows "read_chunks acc (concat (writeChunk d) @ r) = read_chunks (acc @ d) r"
proof -
  let ?h = "show_hex (length d)"
  have "CHR 0x0A \<notin> set (?h @ [CHR 0x0D])" using show_hex_hex [of "length d"] is_hex_not by (auto simp: list_all_iff)
  from ReadLine_line [OF this, of "d @ CRLF @ r"]
  have line: "ReadLine (concat (writeChunk d) @ r) = Some (?h @ CRLF, d @ CRLF @ r)" using assms(1) by (simp add: writeChunk_def)
  have "CHR '';'' \<notin> set ?h" using show_hex_hex is_hex_not by (auto simp: list_all_iff)
  then have field: "chunk_size_field (?h @ CRLF) = ?h"
    using hex_TrimSpace [OF show_hex_hex show_hex_nonempty] by (simp add: chunk_size_field_def IndexByte_None_iff [THEN iffD2])
  have "length d < 2 ^ 32" using assms(2) by (simp add: maxChunkedBodyBytes_def)
  then have size: "ParseUint16_32 ?h = Some (length d)" by (simp add: ParseUint16_32_def show_hex_hex)
  have "\<not> maxChunkedBodyBytes - length acc < length d" using assms(2) by simp
  then show ?thesis using assms(1) by (simp add: read_chunks.simps [of acc "concat (writeChunk d) @ r"] line field size)
qed

lemma read_chunks_end:
  assumes "CHR 0x0A \<notin> set l" "chunk_size_field (l @ CRLF) = ''0''"
  shows "read_chunks acc (l @ CRLF @ CRLF @ r) = Inr (acc, r)"
proof -
  have "CHR 0x0A \<notin> set (l @ [CHR 0x0D])" using assms(1) by simp
  from ReadLine_line [OF this, of "CRLF @ r"] have 1: "ReadLine (l @ CRLF @ CRLF @ r) = Some (l @ CRLF, CRLF @ r)" by simp
  have 2: "ReadLine (CRLF @ r) = Some (CRLF, r)" using ReadLine_line [of "[CHR 0x0D]" r] by simp
  have "ParseUint16_32 ''0'' = Some 0" by (simp add: ParseUint16_32_def is_hex_def is_digit_def read_hex_def hex_val_def byte_def)
  with 1 2 assms(2) show ?thesis
    unfolding read_chunks.simps [of acc "l @ CRLF @ CRLF @ r"] by (simp del: append_Cons append_Nil append.simps)
qed

lemma read_chunks_last: "read_chunks acc (concat (writeLastChunk ieof) @ r) = Inr (acc, r)"
proof -
  have "chunk_size_field (''0'' @ CRLF) = ''0''" "chunk_size_field (''0; ieof'' @ CRLF) = ''0''" by code_simp+
  then show ?thesis using read_chunks_end [of "''0''" acc r] read_chunks_end [of "''0; ieof''" acc r] by (simp add: writeLastChunk_def)
qed

definition chunked :: "string list \<Rightarrow> bool \<Rightarrow> string" where
  "chunked ds ieof = concat (concat (map writeChunk ds) @ writeLastChunk ieof)"

lemma read_chunks_all:
  "length acc + length (concat ds) \<le> maxChunkedBodyBytes \<Longrightarrow>
    read_chunks acc (concat (concat (map writeChunk ds)) @ r) = read_chunks (acc @ concat ds) r"
proof (induction ds arbitrary: acc)
  case (Cons d ds)
  show ?case
  proof (cases "d = []")
    case True
    with Cons show ?thesis by (simp add: writeChunk_def)
  next
    case False
    from Cons.prems have b: "length (acc @ d) + length (concat ds) \<le> maxChunkedBodyBytes" "length acc + length d \<le> maxChunkedBodyBytes" by auto
    have "read_chunks acc (concat (concat (map writeChunk (d # ds))) @ r)
        = read_chunks acc (concat (writeChunk d) @ (concat (concat (map writeChunk ds)) @ r))" by simp
    also have "\<dots> = read_chunks (acc @ d) (concat (concat (map writeChunk ds)) @ r)" by (rule read_chunks_one [OF False b(2)])
    finally show ?thesis using Cons.IH [OF b(1)] by simp
  qed
qed simp

text \<open>
  Chunked coding round trip: whatever pieces a body is written in, with
  either terminator, the decoder returns the body and leaves the stream just
  behind it, as long as the body is within the decoder's limit.
\<close>

theorem readChunked_roundtrip:
  assumes "length (concat ds) \<le> maxChunkedBodyBytes"
  shows "readChunked (chunked ds ieof @ rest) = Inr (concat ds, rest)"
  using read_chunks_all [of "[]" ds "concat (writeLastChunk ieof) @ rest"] assms read_chunks_last
  by (simp add: readChunked_def chunked_def)

theorem readChunked_roundtrip_witness:
  "readChunked (chunked [''EICAR'', [], ''-TEST''] True @ ''tail'') = Inr (''EICAR-TEST'', ''tail'')"
  using readChunked_roundtrip [of "[''EICAR'', [], ''-TEST'']" True "''tail''"] by (simp add: maxChunkedBodyBytes_def)

section \<open>What a clean verdict means\<close>

lemma concat_drop_pieces: "concat (drop_pieces n ps) = drop n (concat ps)"
  by (induction n ps rule: drop_pieces.induct) auto

lemma concat_chunks: "0 < n \<Longrightarrow> concat (chunks n s) = s"
proof (induction n s rule: chunks.induct)
  case (1 n s)
  then show ?case by (cases "s = []") (simp_all add: chunks.simps [of n s] chunks.simps [of n "[]"])
qed

lemma concat_chunks_map: "concat (concat (map (chunks streamBufBytes) ps)) = concat ps"
  by (induction ps) (simp_all add: concat_chunks streamBufBytes_def)

lemma send_ok: "send w ss = (ws, Some w') \<Longrightarrow> ws = ss"
  by (auto simp: send_def split: if_splits)

lemma finish_clean: "finish br status hdr = Inr res \<Longrightarrow> ir_Verdict res = VerdictClean \<Longrightarrow> status = 204 \<and> ir_ICAPStatus res = 204"
  by (auto simp: finish_def zero_Result_def split: if_splits sum.splits option.splits)

lemma stream_and_finish_clean:
  assumes "stream_and_finish w (pieces, berr) br = (ws, Inr res)" "ir_Verdict res = VerdictClean"
  shows "ir_ICAPStatus res = 204 \<and> berr = None \<and> (\<exists>ds. concat ds = concat pieces \<and> concat ws = chunked ds False)"
proof -
  let ?ds = "concat (map (chunks streamBufBytes) pieces)"
  from assms(1) have s: "streamBody w (pieces, berr) = (ws, None)" and f: "final_response br = Inr res"
    by (auto simp: stream_and_finish_def split: prod.splits option.splits)
  from s have b: "berr = None" and "ws = concat (map writeChunk ?ds) @ writeLastChunk False"
    by (auto simp: streamBody_def Let_def split: prod.splits option.splits dest: send_ok)
  then have "concat ws = chunked ?ds False" by (simp add: chunked_def)
  moreover have "ir_ICAPStatus res = 204" using f assms(2)
    by (auto simp: final_response_def split: sum.splits prod.splits if_splits dest: finish_clean)
  ultimately show ?thesis using b concat_chunks_map by blast
qed

lemma clean_verdict_spec:
  assumes "icap_Inspect c conn meta (pieces, berr) = (ws, Inr res)" "ir_Verdict res = VerdictClean"
  shows "ir_ICAPStatus res = 204 \<and> (\<exists>hdr tail. concat ws = hdr
      @ (if 0 < cl_PreviewBytes c then chunked [take (nat (cl_PreviewBytes c)) (concat pieces)] (length (concat pieces) < nat (cl_PreviewBytes c)) else [])
      @ tail
    \<and> (tail = [] \<and> 0 < cl_PreviewBytes c
       \<or> berr = None \<and> (\<exists>ds. concat ds = drop (nat (cl_PreviewBytes c)) (concat pieces) \<and> tail = chunked ds False)))"
proof -
  let ?n = "nat (cl_PreviewBytes c)" and ?body = "concat pieces"
  obtain w br mth where x: "exchange c w br mth meta (pieces, berr) = (ws, Inr res)"
    using assms(1) by (auto simp: icap_Inspect_def split: sum.splits)
  show ?thesis
  proof (cases "0 < cl_PreviewBytes c")
    case False
    with x obtain ws1 ws2 w1 where "stream_and_finish w1 (pieces, berr) br = (ws2, Inr res)" "ws = ws1 @ ws2"
      by (auto simp: exchange_def Let_def apfst_def map_prod_def split: prod.splits option.splits)
    with stream_and_finish_clean [OF this(1) assms(2)] False show ?thesis by auto
  next
    case True
    let ?pv = "writeChunk (take ?n ?body) @ writeLastChunk (length ?body < ?n)"
    have pv: "concat ?pv = chunked [take ?n ?body] (length ?body < ?n)" by (simp add: chunked_def)
    define ws1 where "ws1 = [request_head c mth True (length (take ?n ?body)) (eh_value (encapsulatedHTTPHeaders mth meta (cl_OriginHost c))),
       eh_bytes (encapsulatedHTTPHeaders mth meta (cl_OriginHost c))]"
    from x True have "\<exists>status hdr br1 w2. readResponseHead br = Inr (status, hdr, br1)
      \<and> (status \<noteq> 100 \<and> ws = ws1 @ ?pv \<and> finish br1 status hdr = Inr res
        \<or> (\<exists>ws2. ws = (ws1 @ ?pv) @ ws2 \<and> stream_and_finish w2 (drop_pieces ?n pieces, berr) br1 = (ws2, Inr res)))"
      unfolding ws1_def by (auto simp: exchange_def Let_def apfst_def map_prod_def split: prod.splits option.splits sum.splits if_splits dest!: send_ok)
    then obtain status hdr br1 w2 where r: "status \<noteq> 100 \<and> ws = ws1 @ ?pv \<and> finish br1 status hdr = Inr res
        \<or> (\<exists>ws2. ws = (ws1 @ ?pv) @ ws2 \<and> stream_and_finish w2 (drop_pieces ?n pieces, berr) br1 = (ws2, Inr res))"
      by blast
    then show ?thesis
    proof
      assume e: "status \<noteq> 100 \<and> ws = ws1 @ ?pv \<and> finish br1 status hdr = Inr res"
      then have "concat ws = concat ws1 @ chunked [take ?n ?body] (length ?body < ?n) @ []" using pv by simp
      moreover have "ir_ICAPStatus res = 204" using e finish_clean assms(2) by blast
      ultimately show ?thesis using True 
        by (intro conjI exI [of _ "concat ws1"] exI [of _ "[]"]) simp_all
    next
      assume "\<exists>ws2. ws = (ws1 @ ?pv) @ ws2 \<and> stream_and_finish w2 (drop_pieces ?n pieces, berr) br1 = (ws2, Inr res)"
      then obtain ws2 where e: "ws = (ws1 @ ?pv) @ ws2" "stream_and_finish w2 (drop_pieces ?n pieces, berr) br1 = (ws2, Inr res)" by blast
      then have "concat ws = concat ws1 @ chunked [take ?n ?body] (length ?body < ?n) @ concat ws2" using pv by simp
      with stream_and_finish_clean [OF e(2) assms(2)] True show ?thesis by (auto simp: concat_drop_pieces)
    qed
  qed
qed


definition lab_icap :: icap_Config where
  "lab_icap = icap_New \<lparr>cl_Endpoint = ''icap:1344'', cl_Service = ''/avscan'', cl_Method = [], cl_PreviewBytes = 8, cl_Timeout = 0, cl_OriginHost = []\<rparr>"

definition lab_meta :: TransferMeta where
  "lab_meta = \<lparr>tm_Filename = ''r.csv'', tm_ContentType = [], tm_Method = REQMOD, tm_URL = []\<rparr>"

definition lab_scan :: "string list \<times> (icap_error, icap_Result) result" where
  "lab_scan = icap_Inspect lab_icap (Inr (9, ''ICAP/1.0 204 No Content'' @ CRLF @ ''ISTag: x'' @ CRLF @ CRLF)) lab_meta ([''a,'', ''b,c''], None)"

lemma lab_scan_clean: "snd lab_scan = Inr (zero_Result\<lparr>ir_ICAPStatus := 204\<rparr>)"
  by code_simp


text \<open>
  A file name with line breaks in it writes header lines of its own into the
  message the scanner sees.
\<close>

lemma encap_header_injection:
  assumes "tm_URL meta = []" "tm_Filename meta = ''a HTTP/1.1'' @ CRLF @ ''X-Skip: 1''"
  shows "eh_bytes (encapsulatedHTTPHeaders REQMOD meta host) =
    ''POST /a HTTP/1.1'' @ CRLF @ ''X-Skip: 1 HTTP/1.1'' @ CRLF @ ''Host: '' @ host @ CRLF @ content_type_line meta @ CRLF"
  using assms by (simp add: encapsulatedHTTPHeaders_def encap_url_def TrimPrefix_def)

end
