(* ===== verification/Inspect_Gate.thy ===== *)
theory Inspect_Gate
  imports Inspect
begin

text \<open>
  The inspection gate, \<^verbatim>\<open>internal/inspectgate/gate.go\<close>: uploads up to the
  threshold are inspected from memory, larger ones while they stream to a
  holding store; everything is copied to the quarantine store and only an
  explicitly clean upload is allowed.

  The inspector, the hash and the outcome of each store call are arguments;
  a store is the list of its objects, newest first.
\<close>

section \<open>State\<close>

type_synonym blobs = "(string \<times> string) list"

record gate_Decision =
  gd_Allow :: bool
  gd_Verdict :: string
  gd_Reason :: string
  gd_SHA256 :: string
  gd_Bytes :: int
  gd_ICAPStatus :: int
  gd_QuarantineKey :: string

definition zero_gate_Decision :: gate_Decision where
  "zero_gate_Decision = \<lparr>gd_Allow = False, gd_Verdict = [], gd_Reason = [], gd_SHA256 = [], gd_Bytes = 0,
     gd_ICAPStatus = 0, gd_QuarantineKey = []\<rparr>"

record Gate =
  g_holding :: "blobs option"
  g_quarantine :: blobs
  g_threshold :: int

text \<open>\<open>New\<close>: the inspector and the quarantine store are required.\<close>

definition gate_New :: "bool \<Rightarrow> blobs option \<Rightarrow> blobs option \<Rightarrow> int \<Rightarrow> (string, Gate) result" where
  "gate_New hasInspector holding quarantine threshold =
    (if \<not> hasInspector then Inl ''inspectgate: inspector is required''
     else case quarantine of None \<Rightarrow> Inl ''inspectgate: quarantine store is required''
     | Some q \<Rightarrow> Inr \<lparr>g_holding = holding, g_quarantine = q, g_threshold = (if threshold \<le> 0 then 1048576 else threshold)\<rparr>)"

type_synonym Inspector = "TransferMeta \<Rightarrow> string \<Rightarrow> icap_Result \<times> string option"

text \<open>
  The environment of one inspection: the hash, the formatted clock readings of
  the two keys, the error of the quarantine write, how many bytes the holding
  upload took before it failed, and the errors of reading the holding copy back
  and deleting it.
\<close>

record gate_env =
  ge_sha :: "string \<Rightarrow> string"
  ge_now :: "nat \<Rightarrow> string"
  ge_qput :: "string option"
  ge_hput :: "(nat \<times> string) option"
  ge_hget :: "string option"
  ge_hdel :: bool

definition gate_key :: "gate_env \<Rightarrow> nat \<Rightarrow> string \<Rightarrow> TransferMeta \<Rightarrow> string" where
  "gate_key env site kind meta =
     kind @ ''/'' @ ge_now env site @ ''-'' @ (if tm_Filename meta = [] then ''unnamed'' else tm_Filename meta)"

section \<open>Operations\<close>

definition quarantineBytes :: "Gate \<Rightarrow> gate_env \<Rightarrow> TransferMeta \<Rightarrow> string \<Rightarrow> Gate \<times> string \<times> string option" where
  "quarantineBytes g env meta data =
    (case ge_qput env of Some e \<Rightarrow> (g, [], Some (''inspectgate: quarantine put: '' @ e))
     | None \<Rightarrow> (let key = gate_key env 1 ''quarantine'' meta in (g\<lparr>g_quarantine := (key, data) # g_quarantine g\<rparr>, key, None)))"

definition modified_reason :: "string \<Rightarrow> string" where
  "modified_reason r = ''content modification required; delivering sanitized content is not supported - refused: '' @ r"

text \<open>Verdict and reason of a scan that is not clean.\<close>

definition refused :: "gate_Decision \<Rightarrow> icap_Result \<Rightarrow> string option \<Rightarrow> gate_Decision" where
  "refused dec res err =
    (case err of Some e \<Rightarrow> dec\<lparr>gd_Verdict := ''error'', gd_Reason := e\<rparr>
     | None \<Rightarrow>
        if ir_Verdict res = VerdictBlocked then dec\<lparr>gd_Verdict := ''blocked'', gd_Reason := ir_Reason res\<rparr>
        else if ir_Verdict res = VerdictModified then dec\<lparr>gd_Verdict := ''modified'', gd_Reason := modified_reason (ir_Reason res)\<rparr>
        else dec\<lparr>gd_Verdict := ''error'', gd_Reason := ''unrecognized inspector verdict '' @ show_int (ir_Verdict res)\<rparr>)"

definition inspectSmall :: "Gate \<Rightarrow> gate_env \<Rightarrow> Inspector \<Rightarrow> TransferMeta \<Rightarrow> string \<Rightarrow> Gate \<times> gate_Decision \<times> string option" where
  "inspectSmall g env insp meta data =
    (case insp meta data of (res, err) \<Rightarrow>
     let dec = zero_gate_Decision\<lparr>gd_SHA256 := hexBytes (ge_sha env data), gd_Bytes := int (length data), gd_ICAPStatus := ir_ICAPStatus res\<rparr>
     in case quarantineBytes g env meta data of (g', key, qerr) \<Rightarrow>
        if err = None \<and> ir_Verdict res = VerdictClean then
          (case qerr of Some e \<Rightarrow> (g', dec\<lparr>gd_Verdict := ''error'', gd_Reason := ''quarantine write failed: '' @ e\<rparr>, Some e)
           | None \<Rightarrow> (g', dec\<lparr>gd_Allow := True, gd_Verdict := ''clean'', gd_QuarantineKey := key\<rparr>, None))
        else (g', (refused dec res err)\<lparr>gd_QuarantineKey := key\<rparr>, qerr))"

definition promote :: "Gate \<Rightarrow> gate_env \<Rightarrow> string \<Rightarrow> string \<Rightarrow> Gate \<times> string option" where
  "promote g env srcKey dstKey =
    (case (ge_hget env, g_holding g) of
       (None, Some h) \<Rightarrow>
         (case map_of h srcKey of None \<Rightarrow> (g, Some (''get holding '' @ srcKey))
          | Some data \<Rightarrow>
             (case ge_qput env of Some e \<Rightarrow> (g, Some (''put quarantine '' @ dstKey @ '': '' @ e))
              | None \<Rightarrow> (g\<lparr>g_quarantine := (dstKey, data) # g_quarantine g,
                          g_holding := Some (if ge_hdel env then filter (\<lambda>kv. fst kv \<noteq> srcKey) h else h)\<rparr>, None)))
     | _ \<Rightarrow> (g, Some (''get holding '' @ srcKey)))"

text \<open>
  \<open>inspectLarge\<close>: \<open>copied\<close> is what went through the tee, the whole content unless
  the holding upload or the reader failed.  The inspector sees the same bytes.
\<close>

definition inspectLarge ::
  "Gate \<Rightarrow> gate_env \<Rightarrow> Inspector \<Rightarrow> TransferMeta \<Rightarrow> string \<Rightarrow> string option \<Rightarrow> Gate \<times> gate_Decision \<times> string option" where
  "inspectLarge g env insp meta content copyErr =
    (let holdKey = gate_key env 0 ''holding'' meta;
         copied = (case ge_hput env of Some (n, _) \<Rightarrow> take n content | None \<Rightarrow> content) in
     case insp meta copied of (res, ierr) \<Rightarrow>
     let dec = zero_gate_Decision\<lparr>gd_SHA256 := hexBytes (ge_sha env copied), gd_Bytes := int (length copied), gd_ICAPStatus := ir_ICAPStatus res\<rparr>
     in case ge_hput env of Some (_, e) \<Rightarrow> (g, dec, Some (''inspectgate: holding upload: '' @ e))
      | None \<Rightarrow>
         (let g1 = g\<lparr>g_holding := map_option (\<lambda>h. (holdKey, copied) # h) (g_holding g)\<rparr>;
              qkey = gate_key env 1 ''quarantine'' meta;
              failed = (case ierr of Some e \<Rightarrow> Some e | None \<Rightarrow> copyErr);
              clean = (failed = None \<and> ir_Verdict res = VerdictClean);
              dec1 = (if clean then dec else refused dec res failed) in
          case promote g1 env holdKey qkey of
            (g2, Some e) \<Rightarrow> (g2, if clean then dec\<lparr>gd_Verdict := ''error'', gd_Reason := ''quarantine write failed: '' @ e\<rparr> else dec1,
                             Some (''inspectgate: quarantine: '' @ e))
          | (g2, None) \<Rightarrow> (g2, if clean then dec\<lparr>gd_Allow := True, gd_Verdict := ''clean'', gd_QuarantineKey := qkey\<rparr>
                                else dec1\<lparr>gd_QuarantineKey := qkey\<rparr>, None)))"

text \<open>\<open>content\<close> is what the reader delivers before \<open>rerr\<close> (\<open>None\<close>: end of file).\<close>

definition gate_Inspect ::
  "Gate \<Rightarrow> gate_env \<Rightarrow> Inspector \<Rightarrow> TransferMeta \<Rightarrow> string \<Rightarrow> string option \<Rightarrow> Gate \<times> gate_Decision \<times> string option" where
  "gate_Inspect g env insp meta content rerr =
    (if int (length content) \<le> g_threshold g then
       (case rerr of Some e \<Rightarrow> (g, zero_gate_Decision, Some (''inspectgate: read content: '' @ e))
        | None \<Rightarrow> inspectSmall g env insp meta content)
     else if g_holding g = None then
       (g, zero_gate_Decision\<lparr>gd_Verdict := ''error'', gd_Bytes := g_threshold g + 1,
             gd_Reason := ''file exceeds inline inspection limit and no holding store is configured''\<rparr>, None)
     else inspectLarge g env insp meta content rerr)"

definition QuarantineReader :: "Gate \<Rightarrow> string \<Rightarrow> string option" where
  "QuarantineReader g key = map_of (g_quarantine g) key"

section \<open>Allowed means clean, complete and kept\<close>

lemma refused_not_allowed [simp]: "gd_Allow (refused dec res err) = gd_Allow dec"
  by (simp add: refused_def split: option.splits)

lemma refused_fields [simp]: "gd_SHA256 (refused dec res err) = gd_SHA256 dec" "gd_Bytes (refused dec res err) = gd_Bytes dec"
  by (simp_all add: refused_def split: option.splits)

lemma zero_gate_fields [simp]: "\<not> gd_Allow zero_gate_Decision"
  by (simp add: zero_gate_Decision_def)

text \<open>One statement for both sizes; the decision's shape in each outcome.\<close>

definition kept :: "gate_env \<Rightarrow> Gate \<Rightarrow> gate_Decision \<Rightarrow> string \<Rightarrow> bool" where
  "kept env g dec content = (QuarantineReader g (gd_QuarantineKey dec) = Some content
     \<and> gd_SHA256 dec = hexBytes (ge_sha env content) \<and> gd_Bytes dec = int (length content))"

lemma inspectSmall_spec:
  assumes "inspectSmall g env insp meta data = (g', dec, err)"
  shows "(err = None \<longrightarrow> kept env g' dec data)
    \<and> (gd_Allow dec \<longrightarrow> err = None \<and> snd (insp meta data) = None \<and> ir_Verdict (fst (insp meta data)) = VerdictClean)
    \<and> (gd_Allow dec \<longleftrightarrow> gd_Verdict dec = ''clean'')"
  using assms
  by (auto simp: inspectSmall_def quarantineBytes_def kept_def QuarantineReader_def refused_def Let_def
      split: prod.splits option.splits if_splits)

lemma promote_spec: "promote (g\<lparr>g_holding := Some ((src, data) # h)\<rparr>) env src dst = (g', None) \<Longrightarrow> QuarantineReader g' dst = Some data"
  by (auto simp: promote_def QuarantineReader_def split: option.splits)

lemma inspectLarge_spec:
  assumes "inspectLarge g env insp meta content rerr = (g', dec, err)" and h: "g_holding g = Some h"
  shows "(err = None \<longrightarrow> kept env g' dec content)
    \<and> (gd_Allow dec \<longrightarrow> err = None \<and> rerr = None \<and> snd (insp meta content) = None \<and> ir_Verdict (fst (insp meta content)) = VerdictClean)"
proof (cases "ge_hput env")
  case (Some x)
  with assms show ?thesis by (auto simp: inspectLarge_def Let_def split: prod.splits)
next
  case None
  obtain res ierr where i: "insp meta content = (res, ierr)" by (cases "insp meta content")
  show ?thesis using assms(1) None i
    by (auto simp: inspectLarge_def Let_def h kept_def split: prod.splits option.splits if_splits dest!: promote_spec)
qed

lemma gate_spec:
  assumes "gate_Inspect g env insp meta content rerr = (g', dec, err)"
  shows "(gd_Allow dec \<longrightarrow> err = None \<and> rerr = None \<and> insp meta content = (fst (insp meta content), None)
      \<and> ir_Verdict (fst (insp meta content)) = VerdictClean \<and> kept env g' dec content)
    \<and> (err = None \<longrightarrow> kept env g' dec content \<or> g_holding g = None \<and> int (length content) > g_threshold g \<and> \<not> gd_Allow dec)"
proof -
  consider (small) "int (length content) \<le> g_threshold g" | (none) "int (length content) > g_threshold g" "g_holding g = None"
    | (large) h where "int (length content) > g_threshold g" "g_holding g = Some h" by (cases "g_holding g") fastforce+
  then show ?thesis
  proof cases
    case small
    show ?thesis
    proof (cases rerr)
      case None
      with assms small have "inspectSmall g env insp meta content = (g', dec, err)" by (simp add: gate_Inspect_def)
      from inspectSmall_spec [OF this] None show ?thesis by (cases "insp meta content") auto
    qed (use assms small in \<open>auto simp: gate_Inspect_def\<close>)
  next
    case none
    with assms show ?thesis by (auto simp: gate_Inspect_def)
  next
    case large
    with assms have "inspectLarge g env insp meta content rerr = (g', dec, err)" by (simp add: gate_Inspect_def)
    from inspectLarge_spec [OF this large(2)] show ?thesis by (cases "insp meta content") auto
  qed
qed


definition lab_gate :: Gate where
  "lab_gate = \<lparr>g_holding = Some [], g_quarantine = [], g_threshold = 4\<rparr>"

definition lab_gate_env :: gate_env where
  "lab_gate_env = \<lparr>ge_sha = id, ge_now = (\<lambda>_. ''20260101''), ge_qput = None, ge_hput = None, ge_hget = None, ge_hdel = True\<rparr>"


section \<open>The gate over the ICAP client\<close>

text \<open>
  What the gate relies on in its inspector: content called clean was scanned.
\<close>

locale inspector =
  fixes insp :: Inspector and scanned :: "TransferMeta \<Rightarrow> string \<Rightarrow> bool"
  assumes clean_scanned: "insp meta body = (res, None) \<Longrightarrow> ir_Verdict res = VerdictClean \<Longrightarrow> scanned meta body"
begin

lemma allowed_scanned:
  assumes "gate_Inspect g env insp meta content rerr = (g', dec, err)" "gd_Allow dec"
  shows "scanned meta content \<and> kept env g' dec content"
  using gate_spec [OF assms(1)] assms(2) clean_scanned by blast

end

text \<open>
  The ICAP client as an inspector: \<open>net\<close> gives the connection of each call.
  \<open>presented\<close>: the server answered 204 after it was sent the headers, the preview
  and, unless it decided on the preview, the rest of the body.
\<close>

type_synonym icap_net = "TransferMeta \<Rightarrow> string \<Rightarrow> (string, nat \<times> string) result"

definition icap_insp :: "icap_Config \<Rightarrow> icap_net \<Rightarrow> Inspector" where
  "icap_insp c net meta body =
    (case icap_Inspect c (net meta body) meta ([body], None) of (_, Inr res) \<Rightarrow> (res, None) | (_, Inl e) \<Rightarrow> (zero_Result, Some ''icap error''))"

definition presented :: "icap_Config \<Rightarrow> icap_net \<Rightarrow> TransferMeta \<Rightarrow> string \<Rightarrow> bool" where
  "presented c net meta body =
    (\<exists>ws res hdr tail. icap_Inspect c (net meta body) meta ([body], None) = (ws, Inr res) \<and> ir_ICAPStatus res = 204
     \<and> concat ws = hdr @ (if 0 < cl_PreviewBytes c then chunked [take (nat (cl_PreviewBytes c)) body] (length body < nat (cl_PreviewBytes c)) else []) @ tail
     \<and> (tail = [] \<and> 0 < cl_PreviewBytes c \<or> (\<exists>ds. concat ds = drop (nat (cl_PreviewBytes c)) body \<and> tail = chunked ds False)))"

interpretation icap: inspector "icap_insp c net" "presented c net" for c net
proof
  fix meta body res
  assume "icap_insp c net meta body = (res, None)" and v: "ir_Verdict res = VerdictClean"
  then obtain ws where w: "icap_Inspect c (net meta body) meta ([body], None) = (ws, Inr res)"
    by (auto simp: icap_insp_def split: prod.splits sum.splits)
  have "concat [body] = body" by simp
  from clean_verdict_spec [OF w v, unfolded this] w show "presented c net meta body"
    unfolding presented_def by blast
qed

end
