(* ===== verification/Upload.thy ===== *)
theory Upload
  imports Inspect_Gate "HOL-Library.AList"
begin

text \<open>
  File contents passing through the gateway, \<^verbatim>\<open>internal/session/sftp.go\<close>: the
  bounded reordering of concurrent writes in front of the inspection gate
  (\<^verbatim>\<open>inspectUpload\<close>), the same reordering of reads behind the download manifest
  (\<^verbatim>\<open>downloadTap\<close>), and the bounded buffer that serves a released file
  (\<^verbatim>\<open>readCloserAtAdapter\<close>).  Calls on one handle are serialised by its mutex, so a
  history is the sequence of calls in lock order.
\<close>

section \<open>Reordering by offset\<close>

text \<open>
  \<open>ro_out\<close> is what has been streamed on; the Go map of pending chunks is an
  association list.
\<close>

record reorder =
  ro_out :: string
  ro_expOff :: int
  ro_pending :: "(int \<times> string) list"
  ro_pendingBytes :: int

definition empty_reorder :: reorder where
  "empty_reorder = \<lparr>ro_out = [], ro_expOff = 0, ro_pending = [], ro_pendingBytes = 0\<rparr>"

definition maxReorderBytes :: int where
  "maxReorderBytes = 33554432"

lemma delete_shorter: "map_of xs k = Some v \<Longrightarrow> length (AList.delete k xs) < length xs"
  by (induction xs) (auto simp: AList.delete_eq less_Suc_eq_le split: if_splits)

text \<open>
  The flush loop.  \<open>accept\<close> tells whether the pipe still takes a chunk when so
  many bytes went through it; a hash always does.
\<close>

function flush :: "(nat \<Rightarrow> bool) \<Rightarrow> reorder \<Rightarrow> reorder \<times> bool" where
  "flush accept u =
    (case map_of (ro_pending u) (ro_expOff u) of None \<Rightarrow> (u, True)
     | Some chunk \<Rightarrow>
        (let u1 = u\<lparr>ro_pending := AList.delete (ro_expOff u) (ro_pending u), ro_pendingBytes := ro_pendingBytes u - int (length chunk)\<rparr>
         in if \<not> accept (length (ro_out u)) then (u1, False)
            else flush accept (u1\<lparr>ro_out := ro_out u @ chunk, ro_expOff := ro_expOff u + int (length chunk)\<rparr>)))"
  by auto
termination
  by (relation "measure (\<lambda>(accept, u). length (ro_pending u))") (auto simp: delete_shorter)

declare flush.simps [simp del]

definition stash :: "reorder \<Rightarrow> int \<Rightarrow> string \<Rightarrow> reorder" where
  "stash u off buf =
    (if map_of (ro_pending u) off = None then u\<lparr>ro_pendingBytes := ro_pendingBytes u + int (length buf)\<rparr> else u)"

section \<open>Uploads under inspection\<close>

datatype write_error = NegativeOffset | RewindWrite | WindowExceeded | PipeClosed

definition WriteAt :: "(nat \<Rightarrow> bool) \<Rightarrow> reorder \<Rightarrow> string \<Rightarrow> int \<Rightarrow> reorder \<times> (write_error, nat) result" where
  "WriteAt accept u p off =
    (if off < 0 then (u, Inl NegativeOffset)
     else if off < ro_expOff u then (u, Inl RewindWrite)
     else let u1 = stash u off p in
       if ro_pendingBytes u1 > maxReorderBytes then (u1, Inl WindowExceeded)
       else case flush accept (u1\<lparr>ro_pending := AList.update off p (ro_pending u1)\<rparr>) of
         (u2, True) \<Rightarrow> (u2, Inr (length p))
       | (u2, False) \<Rightarrow> (u2, Inl PipeClosed))"

text \<open>\<open>Close\<close>, once the gate has decided on what was streamed to it.\<close>

definition iu_Close :: "reorder \<Rightarrow> gate_Decision \<Rightarrow> string option \<Rightarrow> gate_Decision \<times> string option" where
  "iu_Close u dec inspErr =
    (if ro_pendingBytes u > 0 then
       (dec\<lparr>gd_Allow := False, gd_Verdict := ''error'', gd_Reason := ''upload not contiguous: content could not be fully inspected''\<rparr>,
        Some ''upload refused: incomplete/gapped stream not fully inspected'')
     else case inspErr of Some e \<Rightarrow> (dec, Some (''upload refused: '' @ e))
     | None \<Rightarrow> (dec, if \<not> gd_Allow dec then Some (''upload refused: content '' @ gd_Verdict dec @ '' ('' @ gd_Reason dec @ '')'') else None))"

text \<open>A history of writes; the second component collects the accepted ones.\<close>

definition upload_step :: "(nat \<Rightarrow> bool) \<Rightarrow> reorder \<times> (int \<times> string) list \<Rightarrow> int \<times> string \<Rightarrow> reorder \<times> (int \<times> string) list" where
  "upload_step accept s w =
    (case WriteAt accept (fst s) (snd w) (fst w) of (u, r) \<Rightarrow> (u, if is_ok r then snd s @ [w] else snd s))"

section \<open>Downloads\<close>

definition observe :: "reorder \<Rightarrow> string \<Rightarrow> int \<Rightarrow> reorder" where
  "observe u b off =
    (if off < ro_expOff u then u
     else let u1 = stash u off b in
       if ro_pendingBytes u1 > maxReorderBytes then u1
       else fst (flush (\<lambda>_. True) (u1\<lparr>ro_pending := AList.update off b (ro_pending u1)\<rparr>)))"

text \<open>The manifest of \<^verbatim>\<open>downloadTap.Close\<close>: how many bytes, and their hash.\<close>

definition manifest :: "(string \<Rightarrow> string) \<Rightarrow> reorder \<Rightarrow> int \<times> string" where
  "manifest sha u = (ro_expOff u, hexBytes (sha (ro_out u)))"

definition maxReleaseReadBytes :: nat where
  "maxReleaseReadBytes = 67108864"

datatype read_error = EOF | ReleaseTooLarge | SourceError string

text \<open>
  \<^verbatim>\<open>readCloserAtAdapter.ReadAt\<close> for a source of \<open>content\<close> ending in \<open>rerr\<close>: the
  bytes copied into a buffer of \<open>n\<close> bytes, and the error.
\<close>

definition adapter_ReadAt :: "string \<Rightarrow> string option \<Rightarrow> nat \<Rightarrow> nat \<Rightarrow> string \<times> read_error option" where
  "adapter_ReadAt content rerr n off =
    (if length content > maxReleaseReadBytes then ([], Some ReleaseTooLarge)
     else case rerr of Some e \<Rightarrow> ([], Some (SourceError e))
     | None \<Rightarrow> if off \<ge> length content then ([], Some EOF)
        else let p = take n (drop off content) in (p, if length p < n then Some EOF else None))"

definition ListAt :: "'a list \<Rightarrow> nat \<Rightarrow> nat \<Rightarrow> 'a list \<times> read_error option" where
  "ListAt l n off =
    (if off \<ge> length l then ([], Some EOF)
     else let p = take n (drop off l) in (p, if length p < n then Some EOF else None))"

section \<open>Every accepted byte was inspected\<close>

definition slice_at :: "string \<Rightarrow> int \<Rightarrow> nat \<Rightarrow> string" where
  "slice_at s off n = take n (drop (nat off) s)"

text \<open>
  The invariant: the accounting is exact, and an accepted write is pending or
  in the stream at its offset.
\<close>

definition pending_size :: "(int \<times> string) list \<Rightarrow> int" where
  "pending_size ps = (\<Sum>kv\<leftarrow>ps. int (length (snd kv)))"

definition streamed :: "reorder \<Rightarrow> int \<times> string \<Rightarrow> bool" where
  "streamed u w = (0 \<le> fst w \<and> fst w + int (length (snd w)) \<le> ro_expOff u \<and> slice_at (ro_out u) (fst w) (length (snd w)) = snd w)"

definition covered :: "(int \<times> string) list \<Rightarrow> string \<Rightarrow> bool" where
  "covered ws out = (\<forall>i < length out. \<exists>w \<in> set ws. fst w \<le> int i \<and> int i < fst w + int (length (snd w)) \<and> out ! i = snd w ! nat (int i - fst w))"

definition upload_inv :: "reorder \<times> (int \<times> string) list \<Rightarrow> bool" where
  "upload_inv s = (case s of (u, ws) \<Rightarrow>
     ro_expOff u = int (length (ro_out u)) \<and> ro_pendingBytes u \<ge> pending_size (ro_pending u) \<and> distinct (map fst (ro_pending u))
     \<and> set (ro_pending u) \<subseteq> set ws \<and> (\<forall>w \<in> set ws. w \<in> set (ro_pending u) \<or> streamed u w) \<and> covered ws (ro_out u))"

lemma pending_size_simps [simp]: "pending_size [] = 0" "pending_size (kv # ps) = int (length (snd kv)) + pending_size ps"
  by (simp_all add: pending_size_def)

lemma pending_size_delete:
  "distinct (map fst ps) \<Longrightarrow> map_of ps k = Some c \<Longrightarrow> pending_size (AList.delete k ps) = pending_size ps - int (length c)"
proof (induction ps)
  case (Cons x xs)
  show ?case
  proof (cases "fst x = k")
    case True
    with Cons.prems(1) have "AList.delete k xs = xs" by (auto intro: delete_idem)
    with True Cons.prems show ?thesis by (auto simp: AList.delete_eq)
  next
    case False
    with Cons show ?thesis by (auto simp: AList.delete_eq)
  qed
qed simp

lemma pending_size_nonneg: "0 \<le> pending_size ps"
  by (induction ps) simp_all

lemma pending_size_le0: "pending_size ps \<le> 0 \<Longrightarrow> kv \<in> set ps \<Longrightarrow> snd kv = []"
proof (induction ps)
  case (Cons x xs)
  have "int (length (snd x)) \<le> 0" "pending_size xs \<le> 0" using Cons.prems(1) pending_size_nonneg [of xs]
    unfolding pending_size_simps by linarith+
  with Cons show ?case by auto
qed simp

lemma update_new: "map_of xs k = None \<Longrightarrow> AList.update k v xs = xs @ [(k, v)]"
  by (induction xs) (auto split: if_splits)

lemma set_delete: "set (AList.delete k ps) = {kv \<in> set ps. fst kv \<noteq> k}"
  by (auto simp: AList.delete_eq)

lemma slice_at_append: "off + int n \<le> int (length s) \<Longrightarrow> 0 \<le> off \<Longrightarrow> slice_at (s @ t) off n = slice_at s off n"
  by (simp add: slice_at_def)

lemma slice_at_end: "slice_at (s @ t) (int (length s)) (length t) = t"
  by (simp add: slice_at_def)

lemma flush_step_inv:
  assumes inv: "upload_inv (u, ws)" and c: "map_of (ro_pending u) (ro_expOff u) = Some chunk"
  shows "upload_inv (u\<lparr>ro_pending := AList.delete (ro_expOff u) (ro_pending u), ro_pendingBytes := ro_pendingBytes u - int (length chunk),
     ro_out := ro_out u @ chunk, ro_expOff := ro_expOff u + int (length chunk)\<rparr>, ws)" (is "upload_inv (?u, ws)")
proof -
  let ?e = "ro_expOff u"
  have e: "?e = int (length (ro_out u))" and size: "ro_pendingBytes u \<ge> pending_size (ro_pending u)" and d: "distinct (map fst (ro_pending u))"
    and sub: "set (ro_pending u) \<subseteq> set ws" and acc: "\<And>w. w \<in> set ws \<Longrightarrow> w \<in> set (ro_pending u) \<or> streamed u w"
    and cov: "covered ws (ro_out u)" using inv by (auto simp: upload_inv_def)
  have cw: "(?e, chunk) \<in> set ws" using map_of_SomeD [OF c] sub by auto
  have "w \<in> set (ro_pending ?u) \<or> streamed ?u w" if w: "w \<in> set ws" for w
    using acc [OF w]
  proof
    assume p: "w \<in> set (ro_pending u)"
    show ?thesis
    proof (cases "fst w = ?e")
      case True
      have "snd w = chunk" using p c d True by (metis map_of_eq_Some_iff prod.collapse option.inject)
      with True show ?thesis using slice_at_end [of "ro_out u" chunk] e by (simp add: streamed_def)
    next
      case False
      with p show ?thesis by (simp add: set_delete)
    qed
  next
    assume "streamed u w"
    then have "streamed ?u w" using e slice_at_append [of "fst w" "length (snd w)" "ro_out u" chunk] by (simp add: streamed_def)
    then show ?thesis ..
  qed
  moreover have "covered ws (ro_out u @ chunk)"
    unfolding covered_def
  proof (intro allI impI)
    fix i assume i: "i < length (ro_out u @ chunk)"
    show "\<exists>w\<in>set ws. fst w \<le> int i \<and> int i < fst w + int (length (snd w)) \<and> (ro_out u @ chunk) ! i = snd w ! nat (int i - fst w)"
    proof (cases "i < length (ro_out u)")
      case True
      with cov show ?thesis by (auto simp: covered_def nth_append)
    next
      case False
      with i cw e show ?thesis by (intro bexI [of _ "(?e, chunk)"]) (auto simp: nth_append nat_diff_distrib)
    qed
  qed
  moreover have "set (AList.delete ?e (ro_pending u)) \<subseteq> set ws" using sub by (auto simp: set_delete)
  ultimately show ?thesis using e size d pending_size_delete [OF d c] by (simp add: upload_inv_def distinct_delete)
qed

lemma flush_all: "snd (flush (\<lambda>_. True) u)"
proof (induction "\<lambda>_ :: nat. True" u rule: flush.induct)
  case (1 u)
  then show ?case by (cases "map_of (ro_pending u) (ro_expOff u)") (auto simp: flush.simps [of "\<lambda>_. True" u] Let_def)
qed

lemma flush_inv: "upload_inv (u, ws) \<Longrightarrow> upload_inv (fst (flush (\<lambda>_. True) u), ws)"
proof (induction "\<lambda>_ :: nat. True" u rule: flush.induct)
  case (1 u)
  show ?case
  proof (cases "map_of (ro_pending u) (ro_expOff u)")
    case None
    with 1 show ?thesis by (simp add: flush.simps [of "\<lambda>_. True" u])
  next
    case (Some c)
    from 1(1) [OF Some refl] flush_step_inv [OF 1(2) Some] Some show ?thesis by (simp add: flush.simps [of "\<lambda>_. True" u] Let_def)
  qed
qed

text \<open>No write repeats the offset of a chunk that is still pending.\<close>

fun no_rewrite :: "reorder \<times> (int \<times> string) list \<Rightarrow> (int \<times> string) list \<Rightarrow> bool" where
  "no_rewrite s [] = True"
| "no_rewrite s (w # ws) = (map_of (ro_pending (fst s)) (fst w) = None \<and> no_rewrite (upload_step (\<lambda>_. True) s w) ws)"

lemma upload_step_inv:
  assumes inv: "upload_inv s" and fresh: "map_of (ro_pending (fst s)) (fst w) = None"
  shows "upload_inv (upload_step (\<lambda>_. True) s w)"
proof -
  obtain u ws where s: "s = (u, ws)" by (cases s)
  obtain off p where w: "w = (off, p)" by (cases w)
  let ?u1 = "u\<lparr>ro_pendingBytes := ro_pendingBytes u + int (length p)\<rparr>"
  let ?u2 = "?u1\<lparr>ro_pending := AList.update off p (ro_pending u)\<rparr>"
  have n: "map_of (ro_pending u) off = None" using fresh s w by simp
  note up = update_new [OF n]
  show ?thesis
  proof (cases "off < 0 \<or> off < ro_expOff u \<or> ro_pendingBytes ?u1 > maxReorderBytes")
    case True
    have "upload_inv (?u1, ws)" using inv s by (auto simp: upload_inv_def streamed_def)
    with True inv s w n show ?thesis by (auto simp: upload_step_def WriteAt_def stash_def Let_def)
  next
    case False
    have "upload_inv (?u2, ws @ [w])" using inv s w n False
      by (auto simp: upload_inv_def up streamed_def covered_def map_of_eq_None_iff pending_size_def)
    note i = flush_inv [OF this]
    obtain u3 where f: "flush (\<lambda>_. True) ?u2 = (u3, True)" using flush_all [of ?u2] by (cases "flush (\<lambda>_. True) ?u2") auto
    have "WriteAt (\<lambda>_. True) u p off = (u3, Inr (length p))" using False n f by (simp add: WriteAt_def stash_def)
    with i f s w show ?thesis by (simp add: upload_step_def)
  qed
qed

lemma upload_run_inv: "upload_inv s \<Longrightarrow> no_rewrite s ws \<Longrightarrow> upload_inv (run_steps (upload_step (\<lambda>_. True)) s ws)"
proof (induction ws arbitrary: s)
  case (Cons w ws)
  then have "upload_inv (upload_step (\<lambda>_. True) s w)" by (intro upload_step_inv) simp_all
  with Cons show ?case by simp
qed simp

lemma upload_inv_empty: "upload_inv (empty_reorder, [])"
  by (simp add: upload_inv_def empty_reorder_def covered_def)

text \<open>
  C19.  Reassembly in front of the inspector: whatever order the writes of an
  upload arrive in, if no write repeats the offset of a chunk still waiting,
  then an upload that \<open>Close\<close> accepts was inspected completely: every accepted
  write stands in the inspected stream at its offset, and every byte of the
  stream was written there by the client.
\<close>

theorem upload_inspected_completely:
  assumes "run_steps (upload_step (\<lambda>_. True)) (empty_reorder, []) ws = (u, acc)"
    and "no_rewrite (empty_reorder, []) ws"
    and "iu_Close u dec inspErr = (dec', None)"
  shows "(\<forall>w\<in>set acc. slice_at (ro_out u) (fst w) (length (snd w)) = snd w)
    \<and> covered acc (ro_out u) \<and> inspErr = None \<and> dec' = dec \<and> gd_Allow dec"
proof -
  have inv: "upload_inv (u, acc)" using upload_run_inv [OF upload_inv_empty assms(2)] assms(1) by simp
  have c: "ro_pendingBytes u \<le> 0" "inspErr = None" "dec' = dec" "gd_Allow dec"
    using assms(3) by (auto simp: iu_Close_def split: if_splits option.splits)
  with inv have "pending_size (ro_pending u) \<le> 0" by (auto simp: upload_inv_def)
  then have "slice_at (ro_out u) (fst w) (length (snd w)) = snd w" if "w \<in> set acc" for w
    using inv that pending_size_le0 by (fastforce simp: upload_inv_def streamed_def slice_at_def)
  with c inv show ?thesis by (simp add: upload_inv_def)
qed

definition lab_clean :: gate_Decision where
  "lab_clean = zero_gate_Decision\<lparr>gd_Allow := True, gd_Verdict := ''clean''\<rparr>"

theorem upload_inspected_completely_witness:
  "\<exists>u acc. run_steps (upload_step (\<lambda>_. True)) (empty_reorder, []) [(3, ''de''), (0, ''abc'')] = (u, acc)
    \<and> iu_Close u lab_clean None = (lab_clean, None) \<and> covered acc (ro_out u) \<and> ro_out u = ''abcde''"
proof -
  let ?s = "run_steps (upload_step (\<lambda>_. True)) (empty_reorder, []) [(3, ''de''), (0, ''abc'')]"
  have e: "?s = (\<lparr>ro_out = ''abcde'', ro_expOff = 5, ro_pending = [], ro_pendingBytes = 0\<rparr>, [(3, ''de''), (0, ''abc'')])"
    by (simp add: upload_step_def WriteAt_def stash_def empty_reorder_def maxReorderBytes_def flush.simps)
  have n: "no_rewrite (empty_reorder, []) [(3, ''de''), (0, ''abc'')]"
    by (simp add: upload_step_def WriteAt_def stash_def empty_reorder_def maxReorderBytes_def flush.simps)
  have c: "iu_Close \<lparr>ro_out = ''abcde'', ro_expOff = 5, ro_pending = [], ro_pendingBytes = 0\<rparr> lab_clean None = (lab_clean, None)"
    by (simp add: iu_Close_def lab_clean_def)
  from upload_inspected_completely [OF e n c] show ?thesis using e c by simp
qed


section \<open>The download manifest\<close>

definition tap_inv :: "string \<Rightarrow> reorder \<Rightarrow> bool" where
  "tap_inv file u = (take (length (ro_out u)) file = ro_out u \<and> ro_expOff u = int (length (ro_out u))
     \<and> (\<forall>kv \<in> set (ro_pending u). slice_at file (fst kv) (length (snd kv)) = snd kv))"

lemma tap_flush_inv: "tap_inv file u \<Longrightarrow> tap_inv file (fst (flush (\<lambda>_. True) u))"
proof (induction "\<lambda>_ :: nat. True" u rule: flush.induct)
  case (1 u)
  show ?case
  proof (cases "map_of (ro_pending u) (ro_expOff u)")
    case None
    with 1 show ?thesis by (simp add: flush.simps [of "\<lambda>_. True" u])
  next
    case (Some c)
    let ?n = "length (ro_out u)"
    have o: "take ?n file = ro_out u" and e: "ro_expOff u = int ?n" using 1(2) by (auto simp: tap_inv_def)
    have "slice_at file (ro_expOff u) (length c) = c" using 1(2) map_of_SomeD [OF Some] by (auto simp: tap_inv_def)
    then have "take (length c) (drop ?n file) = c" using e by (simp add: slice_at_def)
    with o have oc: "take (?n + length c) file = ro_out u @ c" by (simp add: take_add)
    let ?u = "u\<lparr>ro_pending := AList.delete (ro_expOff u) (ro_pending u), ro_pendingBytes := ro_pendingBytes u - int (length c),
      ro_out := ro_out u @ c, ro_expOff := ro_expOff u + int (length c)\<rparr>"
    have "tap_inv file ?u" using 1(2) e oc by (simp add: tap_inv_def set_delete)
    with 1(1) [OF Some refl] have "tap_inv file (fst (flush (\<lambda>_. True) ?u))" by simp
    then show ?thesis using Some by (simp add: flush.simps [of "\<lambda>_. True" u] Let_def)
  qed
qed

lemma observe_inv:
  assumes "tap_inv file u" "slice_at file off (length b) = b"
  shows "tap_inv file (observe u b off)"
proof -
  have "tap_inv file ((stash u off b)\<lparr>ro_pending := AList.update off b (ro_pending (stash u off b))\<rparr>)"
    using assms set_update_subset [of off b "ro_pending u"] by (auto simp: tap_inv_def stash_def)
  from tap_flush_inv [OF this] assms(1) show ?thesis by (auto simp: observe_def Let_def tap_inv_def stash_def)
qed

text \<open>
  The evidence of a download is a true statement about the file: however
  the reads arrive (out of order, repeated, or beyond the buffer bound), the
  recorded size and hash are those of a prefix of the file that was served.
\<close>

theorem download_manifest_true:
  assumes "\<forall>r\<in>set reads. slice_at file (fst r) (length (snd r)) = snd r"
  shows "\<exists>n. manifest sha (foldl (\<lambda>u r. observe u (snd r) (fst r)) empty_reorder reads) = (int n, hexBytes (sha (take n file))) \<and> n \<le> length file"
proof -
  have "tap_inv file (foldl (\<lambda>u r. observe u (snd r) (fst r)) u reads)" if "tap_inv file u" for u
    using that assms by (induction reads arbitrary: u) (auto intro: observe_inv)
  moreover have "tap_inv file empty_reorder" by (simp add: tap_inv_def empty_reorder_def)
  ultimately have i: "tap_inv file (foldl (\<lambda>u r. observe u (snd r) (fst r)) empty_reorder reads)" (is "tap_inv file ?u") by blast
  then have "length (take (length (ro_out ?u)) file) = length (ro_out ?u)" unfolding tap_inv_def by presburger
  then have "length (ro_out ?u) \<le> length file" by simp
  with i show ?thesis by (intro exI [of _ "length (ro_out ?u)"]) (simp add: manifest_def tap_inv_def)
qed

theorem download_manifest_true_witness:
  "\<exists>n. manifest id (foldl (\<lambda>u r. observe u (snd r) (fst r)) empty_reorder [(2, ''cd''), (0, ''ab'')]) = (int n, hexBytes (id (take n ''abcd''))) \<and> n \<le> length ''abcd''"
  by (rule download_manifest_true) (simp add: slice_at_def)

end
