(* ===== verification/Session.thy ===== *)
theory Session
  imports Dialer Ratelimit Release Inspect_Gate Tunnel_Inspect
begin

text \<open>
  The SSH front door, \<^verbatim>\<open>internal/session/session.go\<close>: the server with its options,
  the user-name grammar (\<^verbatim>\<open>target.go\<close>), password authentication with the
  brute-force limiter and the second factor, the prompt for a target password,
  and the principal that the connection's permissions carry.

  The authenticator and the second factor are arguments, and so are the clock,
  fresh identifiers and the random token, by call site.
\<close>

section \<open>The server\<close>

record Identity =
  id_User :: string
  id_Groups :: "string list"

type_synonym Authenticator = "string \<Rightarrow> string \<Rightarrow> (string, Identity) result"

record MFARequest =
  mr_Username :: string
  mr_Password :: string
  mr_SourceIP :: string

type_synonym MFAProvider = "MFARequest \<Rightarrow> string option"

record Server =
  sv_dialer :: Dialer
  sv_mfa :: "MFAProvider option"
  sv_recordStore :: bool                   \<comment> \<open>a recording store is configured\<close>
  sv_inspect :: "Gate option"
  sv_cred :: "Provider option"
  sv_bfLimiter :: Limiter
  sv_approvals :: "approval_ops option"
  sv_approvalTTL :: duration
  sv_releases :: "ReleaseStore option"
  sv_releaseTTL :: duration
  sv_pendingSecrets :: "(string \<times> Secret) list"
  sv_dialerPeek :: "(Principal \<Rightarrow> string \<Rightarrow> Decision) option"
  sv_targetHostKeyCB :: "(string \<Rightarrow> bool) option"
  sv_allowLoopbackTargets :: bool
  sv_debug :: bool
  sv_sshDisabled :: bool
  sv_tunnelDisabled :: bool
  sv_sftpDisabled :: bool
  sv_scpEnabled :: bool
  sv_tunnelInspect :: TunnelInspectConfig

type_synonym ServerOption = "Server \<Rightarrow> Server"

definition sess_WithDebug :: "bool \<Rightarrow> ServerOption" where "sess_WithDebug b = (\<lambda>s. s\<lparr>sv_debug := b\<rparr>)"
definition WithSSHDisabled :: "bool \<Rightarrow> ServerOption" where "WithSSHDisabled b = (\<lambda>s. s\<lparr>sv_sshDisabled := b\<rparr>)"
definition WithTunnelDisabled :: "bool \<Rightarrow> ServerOption" where "WithTunnelDisabled b = (\<lambda>s. s\<lparr>sv_tunnelDisabled := b\<rparr>)"
definition WithSFTPDisabled :: "bool \<Rightarrow> ServerOption" where "WithSFTPDisabled b = (\<lambda>s. s\<lparr>sv_sftpDisabled := b\<rparr>)"
definition WithSCPEnabled :: "bool \<Rightarrow> ServerOption" where "WithSCPEnabled b = (\<lambda>s. s\<lparr>sv_scpEnabled := b\<rparr>)"
definition WithMFA :: "MFAProvider option \<Rightarrow> ServerOption" where "WithMFA p = (\<lambda>s. s\<lparr>sv_mfa := p\<rparr>)"
definition WithRecording :: "bool \<Rightarrow> ServerOption" where "WithRecording b = (\<lambda>s. s\<lparr>sv_recordStore := b\<rparr>)"
definition WithInspection :: "Gate option \<Rightarrow> ServerOption" where "WithInspection g = (\<lambda>s. s\<lparr>sv_inspect := g\<rparr>)"
definition sess_WithApprovals :: "approval_ops option \<Rightarrow> duration \<Rightarrow> ServerOption" where
  "sess_WithApprovals st ttl = (\<lambda>s. s\<lparr>sv_approvals := st, sv_approvalTTL := ttl\<rparr>)"
definition WithReleases :: "ReleaseStore option \<Rightarrow> duration \<Rightarrow> ServerOption" where
  "WithReleases st ttl = (\<lambda>s. s\<lparr>sv_releases := st, sv_releaseTTL := ttl\<rparr>)"
definition sess_WithCredentialProvider :: "Provider option \<Rightarrow> ServerOption" where
  "sess_WithCredentialProvider p = (\<lambda>s. s\<lparr>sv_cred := p\<rparr>)"
definition WithDialerPeek :: "(Principal \<Rightarrow> string \<Rightarrow> Decision) option \<Rightarrow> ServerOption" where
  "WithDialerPeek f = (\<lambda>s. s\<lparr>sv_dialerPeek := f\<rparr>)"
definition WithTargetHostKeyCallback :: "(string \<Rightarrow> bool) option \<Rightarrow> ServerOption" where
  "WithTargetHostKeyCallback cb = (\<lambda>s. s\<lparr>sv_targetHostKeyCB := cb\<rparr>)"
definition WithInsecureTargetHostKey :: ServerOption where
  "WithInsecureTargetHostKey = (\<lambda>s. s\<lparr>sv_targetHostKeyCB := Some (\<lambda>_. True)\<rparr>)"
definition sess_WithLoopbackTargetsAllowed :: ServerOption where
  "sess_WithLoopbackTargetsAllowed = (\<lambda>s. s\<lparr>sv_allowLoopbackTargets := True\<rparr>)"
definition WithBruteForceLimiter :: "Limiter option \<Rightarrow> ServerOption" where
  "WithBruteForceLimiter l = (\<lambda>s. case l of None \<Rightarrow> s | Some lim \<Rightarrow> s\<lparr>sv_bfLimiter := lim\<rparr>)"
definition WithTunnelInspection :: "TunnelInspectConfig \<Rightarrow> ServerOption" where
  "WithTunnelInspection cfg = (\<lambda>s. s\<lparr>sv_tunnelInspect := cfg\<rparr>)"

definition no_inspection :: TunnelInspectConfig where
  "no_inspection = \<lparr>ti_Enabled = False, ti_MaxPrefixBytes = 0, ti_Enforce = False, ti_UnknownDeny = False\<rparr>"

definition Server_New :: "Dialer \<Rightarrow> ServerOption list \<Rightarrow> Server" where
  "Server_New d opts =
     foldl (\<lambda>s opt. opt s)
       \<lparr>sv_dialer = d, sv_mfa = None, sv_recordStore = False, sv_inspect = None, sv_cred = None, sv_bfLimiter = rl_New DefaultConfig,
        sv_approvals = None, sv_approvalTTL = 0, sv_releases = None, sv_releaseTTL = 0, sv_pendingSecrets = [], sv_dialerPeek = None,
        sv_targetHostKeyCB = None, sv_allowLoopbackTargets = False, sv_debug = False, sv_sshDisabled = False,
        sv_tunnelDisabled = False, sv_sftpDisabled = False, sv_scpEnabled = False, sv_tunnelInspect = no_inspection\<rparr> opts"

section \<open>The user-name grammar\<close>

definition splitTargetUser :: "string \<Rightarrow> string \<times> string \<times> bool" where
  "splitTargetUser raw =
    (case IndexByte raw (CHR ''%'') of None \<Rightarrow> (raw, [], False) | Some i \<Rightarrow> (take i raw, drop (Suc i) raw, True))"

definition splitPcodeSelector :: "string \<Rightarrow> string \<times> string" where
  "splitPcodeSelector loginUser =
    (case IndexByte loginUser (CHR ''+'') of None \<Rightarrow> (loginUser, []) | Some i \<Rightarrow> (take i loginUser, drop (Suc i) loginUser))"

text \<open>\<open>None\<close>: not ok, authentication fails closed.\<close>

definition splitTargetAccount :: "string \<Rightarrow> (string \<times> string) option" where
  "splitTargetAccount targetSpec =
    (case IndexByte targetSpec (CHR ''@'') of None \<Rightarrow> Some ([], targetSpec)
     | Some i \<Rightarrow>
        (let targetUser = take i targetSpec; hostSpec = drop (Suc i) targetSpec in
         if targetUser = [] \<or> hostSpec = [] \<or> list_ex (\<lambda>c. c = CHR '' '' \<or> c = CHR 0x09) targetUser \<or> CHR ''@'' \<in> set hostSpec
         then None else Some (targetUser, hostSpec)))"

definition splitTargetHostPort :: "string \<Rightarrow> string \<times> int" where
  "splitTargetHostPort hostspec =
    (case SplitHostPort hostspec of None \<Rightarrow> (hostspec, 0)
     | Some (h, p) \<Rightarrow> (case Atoi p of None \<Rightarrow> (hostspec, 0)
        | Some n \<Rightarrow> if n < 1 \<or> n > 65535 then (hostspec, 0) else (h, n)))"

text \<open>\<open>None\<close> is a nil address.\<close>

definition hostOf :: "string option \<Rightarrow> string" where
  "hostOf addr = (case addr of None \<Rightarrow> [] | Some a \<Rightarrow> (case SplitHostPort a of Some (h, _) \<Rightarrow> h | None \<Rightarrow> a))"

section \<open>Target passwords awaiting use\<close>

definition stashTargetSecret :: "Server \<Rightarrow> Secret \<Rightarrow> string \<Rightarrow> Server" where
  "stashTargetSecret s sec token = s\<lparr>sv_pendingSecrets := AList.update token sec (sv_pendingSecrets s)\<rparr>"

definition takeTargetSecret :: "Server \<Rightarrow> string \<Rightarrow> Server \<times> Secret option" where
  "takeTargetSecret s token =
     (s\<lparr>sv_pendingSecrets := AList.delete token (sv_pendingSecrets s)\<rparr>, map_of (sv_pendingSecrets s) token)"

section \<open>Permissions\<close>

abbreviation groupSep :: char where "groupSep \<equiv> CHR 0x00"

type_synonym Permissions = "(string \<times> string) list"

definition ext :: "Permissions \<Rightarrow> string \<Rightarrow> string" where
  "ext perms k = (case map_of perms k of None \<Rightarrow> [] | Some v \<Rightarrow> v)"

definition split_groups :: "string \<Rightarrow> string list" where
  "split_groups g = (if g = [] then [] else split_byte groupSep g)"

definition principalFrom :: "Permissions option \<Rightarrow> Principal" where
  "principalFrom perms =
    (case perms of
       None \<Rightarrow> \<lparr>pr_User = [], pr_Groups = [], pr_TargetHost = [], pr_TargetSecretToken = [], pr_TargetPort = 0,
                pr_RequestedTargetUser = [], pr_SelectedRole = []\<rparr>
     | Some p \<Rightarrow>
        \<lparr>pr_User = ext p ''user'',
         pr_Groups = split_groups (ext p ''groups''),
         pr_TargetHost = ext p ''target_host'',
         pr_TargetSecretToken = ext p ''target_secret_token'',
         pr_TargetPort = (case Atoi (ext p ''target_port'') of None \<Rightarrow> 0 | Some n \<Rightarrow> n),
         pr_RequestedTargetUser = ext p ''requested_target_user'',
         pr_SelectedRole = ext p ''selected_pcode''\<rparr>)"

section \<open>Authentication\<close>

text \<open>What the user name asks for.\<close>

record login_request =
  lr_user :: string
  lr_pcode :: string
  lr_hasTarget :: bool
  lr_targetUser :: string
  lr_host :: string
  lr_port :: int

definition parse_login :: "string \<Rightarrow> login_request option" where
  "parse_login raw =
    (case splitTargetUser raw of (loginUser0, targetSpec, hasTarget) \<Rightarrow>
     case splitPcodeSelector loginUser0 of (loginUser, pcode) \<Rightarrow>
     case splitTargetAccount targetSpec of None \<Rightarrow> None
     | Some (requested, hostSpec) \<Rightarrow>
        (case splitTargetHostPort hostSpec of (h, p) \<Rightarrow>
          Some \<lparr>lr_user = loginUser, lr_pcode = pcode, lr_hasTarget = hasTarget, lr_targetUser = requested, lr_host = h, lr_port = p\<rparr>))"

definition login_name :: "string \<Rightarrow> string" where
  "login_name raw = fst (splitPcodeSelector (fst (splitTargetUser raw)))"

text \<open>
  The environment of one call: clock readings and identifiers by call site, and
  the text of a rounded duration.
\<close>

record auth_env =
  ae_clock :: "nat \<Rightarrow> time"
  ae_uuid :: "nat \<Rightarrow> string"
  ae_fmt :: "duration \<Rightarrow> string"

text \<open>The keyboard-interactive step that a prompt-mode target asks for.\<close>

record prompt_step =
  ps_prompt :: string
  ps_id :: Identity
  ps_login :: login_request

datatype auth_outcome = AuthFail | AuthOK Permissions | AuthPrompt prompt_step

definition auth_event :: "auth_env \<Rightarrow> nat \<Rightarrow> string \<Rightarrow> string \<Rightarrow> string \<Rightarrow> bool \<Rightarrow> string \<Rightarrow> string \<Rightarrow> Event" where
  "auth_event env site ty user srcIP allow reason detail =
     emit (zero_event\<lparr>ev_Time := ae_clock env site, ev_Type := ty, ev_User := user, ev_SourceIP := srcIP,
             ev_Allow := BoolPtr allow, ev_Reason := reason, ev_Detail := detail\<rparr>) (ae_uuid env site)"

definition effective_user :: "Decision \<Rightarrow> string \<Rightarrow> string" where
  "effective_user d user = (if d_TargetUser d = [] then user else d_TargetUser d)"

text \<open>The event of a refused target account, at authentication and at the dial alike.\<close>

definition target_user_denied :: "time \<Rightarrow> string \<Rightarrow> string \<Rightarrow> string \<Rightarrow> string \<Rightarrow> Decision \<Rightarrow> string \<Rightarrow> Event" where
  "target_user_denied t uid user srcIP target d requested =
     emit (zero_event\<lparr>ev_Time := t, ev_Type := TypeCredential, ev_User := user, ev_SourceIP := srcIP,
             ev_Target := target, ev_TargetUser := effective_user d user, ev_Allow := BoolPtr False,
             ev_CredentialMode := d_CredentialMode d, ev_Outcome := outcome_string OutcomeDenied,
             ev_Reason := ''target user denied'',
             ev_Detail := ''requested='' @ requested @ '' effective='' @ effective_user d user\<rparr>) uid"

definition login_principal :: "Identity \<Rightarrow> login_request \<Rightarrow> Principal" where
  "login_principal ident lr =
     \<lparr>pr_User = id_User ident, pr_Groups = id_Groups ident, pr_TargetHost = [], pr_TargetSecretToken = [],
      pr_TargetPort = lr_port lr, pr_RequestedTargetUser = lr_targetUser lr, pr_SelectedRole = lr_pcode lr\<rparr>"

definition login_permissions :: "Identity \<Rightarrow> login_request \<Rightarrow> Permissions" where
  "login_permissions ident lr =
     [(''user'', id_User ident), (''groups'', Join (id_Groups ident) [groupSep])]
     @ (if lr_hasTarget lr then [(''target_host'', lr_host lr)] else [])
     @ (if 0 < lr_port lr then [(''target_port'', show_int (lr_port lr))] else [])
     @ (if lr_pcode lr \<noteq> [] then [(''selected_pcode'', lr_pcode lr)] else [])
     @ (if lr_targetUser lr \<noteq> [] then [(''requested_target_user'', lr_targetUser lr)] else [])"

definition record_failure :: "Server \<Rightarrow> auth_env \<Rightarrow> string \<Rightarrow> Server" where
  "record_failure s env srcIP = s\<lparr>sv_bfLimiter := rl_RecordFailure (sv_bfLimiter s) srcIP (ae_clock env 1) (ae_clock env 2)\<rparr>"

text \<open>After both factors: the target account, and whether its password is asked for.\<close>

definition finish_login ::
  "Server \<Rightarrow> auth_env \<Rightarrow> string \<Rightarrow> Identity \<Rightarrow> login_request \<Rightarrow> Server \<times> Event list \<times> auth_outcome" where
  "finish_login s env srcIP ident lr =
    (case (lr_hasTarget lr, sv_dialerPeek s) of
       (True, Some peek) \<Rightarrow>
        (let decision = peek (login_principal ident lr) (lr_host lr) in
         case ResolveTargetUser (lr_targetUser lr) decision (id_User ident) of
           Inl _ \<Rightarrow>
            (let port = (if d_Port decision \<le> 0 then lr_port lr else d_Port decision);
                 target = (if 0 < port then JoinHostPort (lr_host lr) (show_int port) else lr_host lr)
             in (record_failure s env srcIP,
                 [target_user_denied (ae_clock env 6) (ae_uuid env 6) (id_User ident) srcIP target decision (lr_targetUser lr)], AuthFail))
         | Inr targetUser \<Rightarrow>
            if Mode_Normalize (d_CredentialMode decision) = ModePrompt
            then (s, [], AuthPrompt \<lparr>ps_prompt = targetUser @ ''@'' @ lr_host lr @ '' password: '', ps_id = ident, ps_login = lr\<rparr>)
            else (s, [], AuthOK (login_permissions ident lr)))
     | _ \<Rightarrow> (s, [], AuthOK (login_permissions ident lr)))"

definition passwordCallback ::
  "Server \<Rightarrow> auth_env \<Rightarrow> Authenticator \<Rightarrow> string option \<Rightarrow> string \<Rightarrow> string \<Rightarrow> Server \<times> Event list \<times> auth_outcome" where
  "passwordCallback s0 env auth addr user password =
    (let srcIP = hostOf addr in
     case rl_Allow (sv_bfLimiter s0) srcIP (ae_clock env 0) of (lim, ok, retry) \<Rightarrow>
     let s = s0\<lparr>sv_bfLimiter := lim\<rparr> in
     if \<not> ok then
       (s, [auth_event env 3 TypeAuth (login_name user) srcIP False ''rate limited: too many failed attempts''
              (''locked out, retry after '' @ ae_fmt env retry)], AuthFail)
     else case parse_login user of
       None \<Rightarrow> (record_failure s env srcIP,
                [auth_event env 3 TypeAuth (login_name user) srcIP False ''malformed target specification'' []], AuthFail)
     | Some lr \<Rightarrow>
        (case auth (lr_user lr) password of
           Inl _ \<Rightarrow> (record_failure s env srcIP,
                     [auth_event env 3 TypeAuth (lr_user lr) srcIP False ''authentication failed'' []], AuthFail)
         | Inr ident \<Rightarrow>
            (let ev = auth_event env 4 TypeAuth (id_User ident) srcIP True ''authenticated'' [];
                 factor2 = map_option (\<lambda>verify. verify \<lparr>mr_Username = id_User ident, mr_Password = password, mr_SourceIP = srcIP\<rparr> = None) (sv_mfa s);
                 mev = (case factor2 of None \<Rightarrow> []
                   | Some b \<Rightarrow> [auth_event env 5 TypeMFA (id_User ident) srcIP b (if b then ''mfa approved'' else ''mfa denied'') []])
             in if factor2 = Some False then (record_failure s env srcIP, ev # mev, AuthFail)
                else case finish_login (s\<lparr>sv_bfLimiter := rl_RecordSuccess (sv_bfLimiter s) srcIP\<rparr>) env srcIP ident lr of
                  (s', evs, r) \<Rightarrow> (s', ev # mev @ evs, r))))"

text \<open>
  The keyboard-interactive callback: one non-empty answer, which is stashed under
  a fresh token.  \<open>answers\<close> is \<open>None\<close> when the challenge failed.
\<close>

definition promptCallback :: "Server \<Rightarrow> prompt_step \<Rightarrow> string list option \<Rightarrow> string \<Rightarrow> Server \<times> Permissions option" where
  "promptCallback s ps answers token =
    (case answers of
       Some [a] \<Rightarrow>
        if a = [] then (s, None)
        else (stashTargetSecret s (Secret_New a) token,
              Some [(''user'', id_User (ps_id ps)), (''groups'', Join (id_Groups (ps_id ps)) [groupSep]),
                    (''target_host'', lr_host (ps_login ps)), (''target_port'', show_int (lr_port (ps_login ps))),
                    (''target_secret_token'', token), (''selected_pcode'', lr_pcode (ps_login ps)),
                    (''requested_target_user'', lr_targetUser (ps_login ps))])
     | _ \<Rightarrow> (s, None))"

section \<open>User names round trip\<close>

text \<open>The user name a client writes for a request.\<close>

definition show_login :: "login_request \<Rightarrow> string" where
  "show_login lr =
     lr_user lr @ (if lr_pcode lr = [] then [] else ''+'' @ lr_pcode lr)
     @ (if \<not> lr_hasTarget lr then []
        else ''%'' @ (if lr_targetUser lr = [] then [] else lr_targetUser lr @ ''@'')
             @ (if lr_port lr = 0 then lr_host lr else JoinHostPort (lr_host lr) (show_int (lr_port lr))))"

definition wf_login :: "login_request \<Rightarrow> bool" where
  "wf_login lr =
    (CHR ''%'' \<notin> set (lr_user lr) \<and> CHR ''+'' \<notin> set (lr_user lr) \<and> CHR ''%'' \<notin> set (lr_pcode lr)
     \<and> (if lr_hasTarget lr
        then CHR ''@'' \<notin> set (lr_targetUser lr) \<and> CHR '' '' \<notin> set (lr_targetUser lr) \<and> CHR 0x09 \<notin> set (lr_targetUser lr)
          \<and> CHR ''@'' \<notin> set (lr_host lr) \<and> lr_host lr \<noteq> []
          \<and> (if lr_port lr = 0 then splitTargetHostPort (lr_host lr) = (lr_host lr, 0)
             else 1 \<le> lr_port lr \<and> lr_port lr \<le> 65535 \<and> CHR ''['' \<notin> set (lr_host lr) \<and> CHR '']'' \<notin> set (lr_host lr))
        else lr_targetUser lr = [] \<and> lr_host lr = [] \<and> lr_port lr = 0))"

lemma show_int_no: "0 \<le> n \<Longrightarrow> \<not> is_digit c \<Longrightarrow> c \<notin> set (show_int n)"
  by (simp add: show_int_def show_nat_notin)

lemma split_host_port:
  assumes "1 \<le> n" "n \<le> 65535" "CHR ''['' \<notin> set h" "CHR '']'' \<notin> set h"
  shows "splitTargetHostPort (JoinHostPort h (show_int n)) = (h, n)"
proof -
  have "\<not> is_digit (CHR '':'')" "\<not> is_digit (CHR ''['')" "\<not> is_digit (CHR '']'')" by (simp_all add: is_digit_def byte_def)
  then have "SplitHostPort (JoinHostPort h (show_int n)) = Some (h, show_int n)"
    using assms by (intro Split_JoinHostPort) (simp_all add: show_int_no)
  moreover have "Atoi (show_int n) = Some n" using assms by (intro Atoi_show_int) (simp_all add: int64_max_def)
  ultimately show ?thesis using assms by (simp add: splitTargetHostPort_def)
qed

lemma JoinHostPort_no_at: "CHR ''@'' \<notin> set h \<Longrightarrow> 0 \<le> n \<Longrightarrow> CHR ''@'' \<notin> set (JoinHostPort h (show_int n)) \<and> JoinHostPort h (show_int n) \<noteq> []"
  using show_int_no [of n "CHR ''@''"] by (auto simp: JoinHostPort_def is_digit_def byte_def)

lemma split_account:
  assumes "CHR ''@'' \<notin> set u" "CHR '' '' \<notin> set u" "CHR 0x09 \<notin> set u" "CHR ''@'' \<notin> set h" "h \<noteq> []"
  shows "splitTargetAccount ((if u = [] then [] else u @ ''@'') @ h) = Some (u, h)"
proof (cases "u = []")
  case True
  with assms(4) show ?thesis by (simp add: splitTargetAccount_def IndexByte_None_iff [THEN iffD2])
next
  case False
  with assms show ?thesis by (auto simp: splitTargetAccount_def IndexByte_append_first list_ex_iff)
qed

lemma split_user: "CHR ''%'' \<notin> set u \<Longrightarrow> splitTargetUser (u @ ''%'' @ t) = (u, t, True)" "CHR ''%'' \<notin> set u \<Longrightarrow> splitTargetUser u = (u, [], False)"
  by (simp_all add: splitTargetUser_def IndexByte_append_first IndexByte_None_iff [THEN iffD2])

lemma split_pcode: "CHR ''+'' \<notin> set u \<Longrightarrow> splitPcodeSelector (u @ (if pc = [] then [] else ''+'' @ pc)) = (u, pc)"
  by (simp add: splitPcodeSelector_def IndexByte_append_first IndexByte_None_iff [THEN iffD2])

text \<open>
  The user-name grammar is unambiguous: the name written for a login, an
  optional role selector, an optional target account and a host with an
  optional port (IPv6 in brackets) is read back as exactly that request.
\<close>

theorem login_name_roundtrip:
  assumes "wf_login lr"
  shows "parse_login (show_login lr) = Some lr"
proof -
  let ?u = "lr_user lr @ (if lr_pcode lr = [] then [] else ''+'' @ lr_pcode lr)"
  let ?h = "if lr_port lr = 0 then lr_host lr else JoinHostPort (lr_host lr) (show_int (lr_port lr))"
  have u: "CHR ''%'' \<notin> set ?u" and pc: "splitPcodeSelector ?u = (lr_user lr, lr_pcode lr)"
    using assms split_pcode by (auto simp: wf_login_def)
  show ?thesis
  proof (cases "lr_hasTarget lr")
    case False
    have e: "splitTargetAccount [] = Some ([], [])" "splitTargetHostPort [] = ([], 0)" by code_simp+
    from False have "show_login lr = ?u" by (simp add: show_login_def)
    with split_user(2) [OF u] pc e assms False show ?thesis by (simp add: parse_login_def wf_login_def)
  next
    case True
    with assms have "splitTargetHostPort ?h = (lr_host lr, lr_port lr)" by (auto simp: wf_login_def split_host_port split: if_splits)
    moreover have "splitTargetAccount ((if lr_targetUser lr = [] then [] else lr_targetUser lr @ ''@'') @ ?h) = Some (lr_targetUser lr, ?h)"
      using True assms JoinHostPort_no_at [of "lr_host lr" "lr_port lr"] by (intro split_account) (auto simp: wf_login_def split: if_splits)
    moreover have "show_login lr = ?u @ ''%'' @ ((if lr_targetUser lr = [] then [] else lr_targetUser lr @ ''@'') @ ?h)"
      using True by (simp add: show_login_def)
    ultimately show ?thesis using split_user(1) [OF u] pc True by (simp only: parse_login_def prod.case option.case) simp
  qed
qed

definition lab_login :: login_request where
  "lab_login = \<lparr>lr_user = ''alice'', lr_pcode = ''p1234'', lr_hasTarget = True, lr_targetUser = ''svc_db1'', lr_host = ''2001:db8::1'', lr_port = 22\<rparr>"

theorem login_name_roundtrip_witness:
  "show_login lab_login = ''alice+p1234%svc_db1@[2001:db8::1]:22'' \<and> parse_login (show_login lab_login) = Some lab_login"
  using login_name_roundtrip [of lab_login] by (simp add: lab_login_def wf_login_def) code_simp

section \<open>What the permissions carry\<close>

lemma split_Join: "(\<forall>g\<in>set gs. c \<notin> set g) \<Longrightarrow> gs \<noteq> [] \<Longrightarrow> split_byte c (Join gs [c]) = gs"
proof (induction gs "[c]" rule: Join.induct)
  case (3 x y ys)
  then show ?case by (simp add: split_byte_append)
qed (simp_all add: split_byte_no_sep)

lemma Join_Nil: "Join gs [c] = [] \<longleftrightarrow> gs = [] \<or> gs = [[]]"
  by (cases gs; cases "tl gs") auto

definition wf_groups :: "string list \<Rightarrow> bool" where
  "wf_groups gs = (list_all (\<lambda>g. groupSep \<notin> set g) gs \<and> gs \<noteq> [[]])"

lemma groups_roundtrip:
  "wf_groups gs \<Longrightarrow> split_groups (Join gs [groupSep]) = gs"
  using split_Join [of gs groupSep] by (auto simp: split_groups_def wf_groups_def list_all_iff Join_Nil)

lemma Atoi_empty [simp]: "Atoi [] = None"
  by (simp add: Atoi_def Atoi_abs_def)

lemma principal_of_login:
  assumes "wf_groups (id_Groups ident)" "0 \<le> lr_port lr" "lr_port lr \<le> 65535"
  shows "principalFrom (Some (login_permissions ident lr)) =
    (login_principal ident lr)\<lparr>pr_TargetHost := (if lr_hasTarget lr then lr_host lr else [])\<rparr>"
proof -
  have "Atoi (show_int (lr_port lr)) = Some (lr_port lr)" using assms by (intro Atoi_show_int) (simp_all add: int64_max_def)
  with assms groups_roundtrip [OF assms(1)] show ?thesis
    by (simp add: principalFrom_def login_permissions_def login_principal_def ext_def)
qed

lemma principal_of_prompt:
  assumes "promptCallback s ps answers token = (s', Some perms)" "wf_groups (id_Groups (ps_id ps))" "0 \<le> lr_port (ps_login ps)" "lr_port (ps_login ps) \<le> 65535"
  shows "principalFrom (Some perms) = (login_principal (ps_id ps) (ps_login ps))\<lparr>pr_TargetHost := lr_host (ps_login ps), pr_TargetSecretToken := token\<rparr>
    \<and> (\<exists>a. answers = Some [a] \<and> a \<noteq> [] \<and> snd (takeTargetSecret s' token) = Some (Secret_New a))"
proof -
  have "Atoi (show_int (lr_port (ps_login ps))) = Some (lr_port (ps_login ps))" using assms(3,4) by (intro Atoi_show_int) (simp_all add: int64_max_def)
  moreover obtain a where "answers = Some [a]" "a \<noteq> []" using assms(1) by (auto simp: promptCallback_def split: option.splits list.splits if_splits)
  ultimately show ?thesis using assms(1) groups_roundtrip [OF assms(2)]
    by (auto simp: promptCallback_def principalFrom_def login_principal_def ext_def stashTargetSecret_def takeTargetSecret_def update_conv')
qed

lemma parse_login_port: "parse_login raw = Some lr \<Longrightarrow> 0 \<le> lr_port lr \<and> lr_port lr \<le> 65535"
  by (auto simp: parse_login_def splitTargetHostPort_def split: prod.splits option.splits if_splits)

section \<open>Who gets in\<close>

definition admitted :: "Server \<Rightarrow> auth_env \<Rightarrow> string option \<Rightarrow> bool" where
  "admitted s env addr = fst (snd (rl_Allow (sv_bfLimiter s) (hostOf addr) (ae_clock env 0)))"

definition second_factor_ok :: "Server \<Rightarrow> Identity \<Rightarrow> string \<Rightarrow> string \<Rightarrow> bool" where
  "second_factor_ok s ident password srcIP =
    (case sv_mfa s of None \<Rightarrow> True
     | Some verify \<Rightarrow> verify \<lparr>mr_Username = id_User ident, mr_Password = password, mr_SourceIP = srcIP\<rparr> = None)"

definition account_ok :: "Server \<Rightarrow> Identity \<Rightarrow> login_request \<Rightarrow> bool" where
  "account_ok s ident lr =
    (case (lr_hasTarget lr, sv_dialerPeek s) of
       (True, Some peek) \<Rightarrow> is_ok (ResolveTargetUser (lr_targetUser lr) (peek (login_principal ident lr) (lr_host lr)) (id_User ident))
     | _ \<Rightarrow> True)"

text \<open>The identity behind an attempt that passes every gate.\<close>

definition authenticated :: "Server \<Rightarrow> auth_env \<Rightarrow> Authenticator \<Rightarrow> string option \<Rightarrow> string \<Rightarrow> string \<Rightarrow> Identity \<Rightarrow> login_request \<Rightarrow> bool" where
  "authenticated s env auth addr user password ident lr =
    (admitted s env addr \<and> parse_login user = Some lr \<and> auth (lr_user lr) password = Inr ident
     \<and> second_factor_ok s ident password (hostOf addr) \<and> account_ok s ident lr)"

lemma auth_event_fields [simp]:
  "ev_Allow (auth_event env site ty user srcIP allow reason detail) = Some allow"
  "ev_User (auth_event env site ty user srcIP allow reason detail) = user"
  "ev_Type (auth_event env site ty user srcIP allow reason detail) = ty"
  "ev_SourceIP (auth_event env site ty user srcIP allow reason detail) = srcIP"
  by (simp_all add: auth_event_def emit_def zero_event_def BoolPtr_def)

lemma target_user_denied_fields [simp]:
  "ev_Allow (target_user_denied t uid user srcIP target d requested) = Some False"
  "ev_Type (target_user_denied t uid user srcIP target d requested) = TypeCredential"
  "ev_SourceIP (target_user_denied t uid user srcIP target d requested) = srcIP"
  by (simp_all add: target_user_denied_def emit_def zero_event_def BoolPtr_def)

lemma finish_login_cases:
  assumes "finish_login s env srcIP ident lr = (s', evs, r)"
  shows "if account_ok s ident lr then s' = s \<and> evs = [] \<and> (r = AuthOK (login_permissions ident lr)
        \<or> (\<exists>ps. r = AuthPrompt ps \<and> ps_id ps = ident \<and> ps_login ps = lr \<and> lr_hasTarget lr))
      else r = AuthFail \<and> s' = record_failure s env srcIP \<and> (\<exists>e. evs = [e] \<and> ev_Allow e = Some False \<and> ev_SourceIP e = srcIP)"
  using assms
  by (auto simp: finish_login_def account_ok_def Let_def is_ok_def split: bool.splits option.splits sum.splits if_splits)

text \<open>The last thing done to the limiter was to record a failure of the source.\<close>

definition failure_counted :: "auth_env \<Rightarrow> string \<Rightarrow> Server \<Rightarrow> bool" where
  "failure_counted env srcIP s = (\<exists>lim. sv_bfLimiter s = rl_RecordFailure lim srcIP (ae_clock env 1) (ae_clock env 2))"

lemma failure_counted_record [simp]: "failure_counted env srcIP (record_failure s env srcIP)"
  by (auto simp: failure_counted_def record_failure_def)

text \<open>What one call does, in terms of its gates.\<close>

lemma passwordCallback_cases:
  assumes "passwordCallback s env auth addr user password = (s', evs, r)"
  shows "(r = AuthFail \<and> (\<exists>e\<in>set evs. ev_Allow e = Some False \<and> ev_SourceIP e = hostOf addr) \<and> (\<nexists>ident lr. authenticated s env auth addr user password ident lr)
       \<and> (admitted s env addr \<longrightarrow> failure_counted env (hostOf addr) s'))
    \<or> (\<exists>ident lr. authenticated s env auth addr user password ident lr
       \<and> (r = AuthOK (login_permissions ident lr) \<or> (\<exists>ps. r = AuthPrompt ps \<and> ps_id ps = ident \<and> ps_login ps = lr \<and> lr_hasTarget lr))
       \<and> (\<exists>e\<in>set evs. ev_Type e = TypeAuth \<and> ev_User e = id_User ident \<and> ev_Allow e = Some True) \<and> list_all (\<lambda>e. ev_Allow e = Some True) evs
       \<and> s' = s\<lparr>sv_bfLimiter := rl_RecordSuccess (fst (rl_Allow (sv_bfLimiter s) (hostOf addr) (ae_clock env 0))) (hostOf addr)\<rparr>)"
proof -
  let ?src = "hostOf addr"
  obtain lim ok retry where a: "rl_Allow (sv_bfLimiter s) ?src (ae_clock env 0) = (lim, ok, retry)" by (metis prod.exhaust)
  then have ad: "admitted s env addr \<longleftrightarrow> ok" by (simp add: admitted_def)
  let ?s = "s\<lparr>sv_bfLimiter := lim\<rparr>"
  show ?thesis
  proof (cases "ok \<and> parse_login user \<noteq> None")
    case False
    with assms a ad show ?thesis
      by (auto simp: passwordCallback_def authenticated_def Let_def split: if_splits option.splits)
  next
    case True
    then obtain lr where lr: "parse_login user = Some lr" by auto
    show ?thesis
    proof (cases "auth (lr_user lr) password")
      case (Inl e)
      with assms a ad True lr show ?thesis by (auto simp: passwordCallback_def authenticated_def Let_def)
    next
      case (Inr ident)
      have sf: "second_factor_ok s ident password ?src \<longleftrightarrow>
          map_option (\<lambda>verify. verify \<lparr>mr_Username = id_User ident, mr_Password = password, mr_SourceIP = ?src\<rparr> = None) (sv_mfa s) \<noteq> Some False"
        by (auto simp: second_factor_ok_def split: option.splits)
      show ?thesis
      proof (cases "second_factor_ok s ident password ?src")
        case False
        with assms a ad True lr Inr sf show ?thesis
          by (auto simp: passwordCallback_def authenticated_def Let_def)
      next
        case sok: True
        let ?s2 = "s\<lparr>sv_bfLimiter := rl_RecordSuccess lim ?src\<rparr>"
        obtain s2 fevs r2 where f: "finish_login ?s2 env ?src ident lr = (s2, fevs, r2)" by (metis prod.exhaust)
        have acc: "account_ok ?s2 ident lr = account_ok s ident lr" by (simp add: account_ok_def)
        have "s' = s2 \<and> r = r2 \<and> (\<exists>e mev. evs = e # mev @ fevs \<and> ev_Type e = TypeAuth \<and> ev_User e = id_User ident \<and> ev_Allow e = Some True
            \<and> list_all (\<lambda>e. ev_Allow e = Some True) mev)"
          using assms a True lr Inr sok [unfolded sf] f
          by (auto simp: passwordCallback_def Let_def second_factor_ok_def split: option.splits if_splits)
        then obtain e mev where p: "s' = s2" "r = r2" "evs = e # mev @ fevs" "ev_Type e = TypeAuth" "ev_User e = id_User ident" "ev_Allow e = Some True"
            "list_all (\<lambda>e. ev_Allow e = Some True) mev" by blast
        note fc = finish_login_cases [OF f, unfolded acc]
        show ?thesis
        proof (cases "account_ok s ident lr")
          case True
          with fc p a ad \<open>ok \<and> _\<close> lr Inr sok have "authenticated s env auth addr user password ident lr" by (simp add: authenticated_def)
          with True fc p a show ?thesis by auto
        next
          case False
          with fc p ad lr Inr have "\<nexists>ident lr. authenticated s env auth addr user password ident lr" by (auto simp: authenticated_def)
          with False fc p show ?thesis by auto
        qed
      qed
    qed
  qed
qed


text \<open>
  Every attempt leaves evidence and is counted: a refused attempt has a
  denial event with its source address and, unless the source was throttled
  already, ends with one more failure recorded for that source; a successful
  one has an allow event for the identity the directory returned and only allow
  events.  The principal of the connection is that identity with its groups
  unchanged, and with the role selector, account, host and port the client
  asked for.
\<close>

theorem authentication_evidence:
  assumes "passwordCallback s env auth addr user password = (s', evs, r)"
  shows "(r = AuthFail \<longrightarrow> (\<exists>e\<in>set evs. ev_Allow e = Some False \<and> ev_SourceIP e = hostOf addr)
        \<and> (admitted s env addr \<longrightarrow> failure_counted env (hostOf addr) s'))
    \<and> (\<forall>perms. r = AuthOK perms \<longrightarrow> (\<exists>ident lr. authenticated s env auth addr user password ident lr \<and> list_all (\<lambda>e. ev_Allow e = Some True) evs
        \<and> (\<exists>e\<in>set evs. ev_Type e = TypeAuth \<and> ev_User e = id_User ident)
        \<and> (wf_groups (id_Groups ident) \<longrightarrow> principalFrom (Some perms) =
             (login_principal ident lr)\<lparr>pr_TargetHost := (if lr_hasTarget lr then lr_host lr else [])\<rparr>)))"
  using passwordCallback_cases [OF assms]
proof
  assume "\<exists>ident lr. authenticated s env auth addr user password ident lr
       \<and> (r = AuthOK (login_permissions ident lr) \<or> (\<exists>ps. r = AuthPrompt ps \<and> ps_id ps = ident \<and> ps_login ps = lr \<and> lr_hasTarget lr))
       \<and> (\<exists>e\<in>set evs. ev_Type e = TypeAuth \<and> ev_User e = id_User ident \<and> ev_Allow e = Some True) \<and> list_all (\<lambda>e. ev_Allow e = Some True) evs
       \<and> s' = s\<lparr>sv_bfLimiter := rl_RecordSuccess (fst (rl_Allow (sv_bfLimiter s) (hostOf addr) (ae_clock env 0))) (hostOf addr)\<rparr>"
  then obtain ident lr where a: "authenticated s env auth addr user password ident lr" and al: "list_all (\<lambda>e. ev_Allow e = Some True) evs"
    and e: "\<exists>e\<in>set evs. ev_Type e = TypeAuth \<and> ev_User e = id_User ident"
    and r: "r = AuthOK (login_permissions ident lr) \<or> (\<exists>ps. r = AuthPrompt ps \<and> ps_id ps = ident \<and> ps_login ps = lr \<and> lr_hasTarget lr)" by blast
  from a have "0 \<le> lr_port lr" "lr_port lr \<le> 65535" using parse_login_port by (auto simp: authenticated_def)
  with principal_of_login have p: "wf_groups (id_Groups ident) \<Longrightarrow> principalFrom (Some (login_permissions ident lr)) =
      (login_principal ident lr)\<lparr>pr_TargetHost := (if lr_hasTarget lr then lr_host lr else [])\<rparr>" by blast
  from r show ?thesis
  proof
    assume "r = AuthOK (login_permissions ident lr)"
    then have "r \<noteq> AuthFail" "\<And>perms. r = AuthOK perms \<Longrightarrow> perms = login_permissions ident lr" by simp_all
    with a al e p show ?thesis by blast
  qed auto
qed auto

text \<open>A small server: one user, no second factor, no policy lookup.\<close>

definition lab_auth :: Authenticator where
  "lab_auth user pw = (if user = ''alice'' \<and> pw = ''s3cret'' then Inr \<lparr>id_User = ''alice'', id_Groups = [''DBA'', ''Staff'']\<rparr> else Inl ''no'')"

definition lab_auth_env :: auth_env where
  "lab_auth_env = \<lparr>ae_clock = (\<lambda>n. 1000 + int n), ae_uuid = (\<lambda>_. ''u''), ae_fmt = (\<lambda>_. ''1s'')\<rparr>"

definition lab_server :: Server where
  "lab_server = Server_New lab_dialer []"

lemma lab_server_fields [simp]: "sv_mfa lab_server = None" "sv_dialerPeek lab_server = None" "sv_bfLimiter lab_server = rl_New DefaultConfig"
  "sv_targetHostKeyCB lab_server = None" "sv_pendingSecrets lab_server = []" "sv_cred lab_server = None"
  by (simp_all add: lab_server_def Server_New_def)

lemma lab_Allow: "rl_Allow (rl_New DefaultConfig) k t = (rl_New DefaultConfig, True, 0)"
  by (simp add: rl_Allow_def rl_New_def DefaultConfig_def)

lemma lab_parse: "parse_login ''alice+p1'' = Some \<lparr>lr_user = ''alice'', lr_pcode = ''p1'', lr_hasTarget = False, lr_targetUser = [], lr_host = [], lr_port = 0\<rparr>"
  by code_simp

theorem authentication_evidence_witness:
  "\<exists>s' evs perms ident lr. passwordCallback lab_server lab_auth_env lab_auth (Some ''10.1.1.9:4022'') ''alice+p1'' ''s3cret'' = (s', evs, AuthOK perms)
    \<and> authenticated lab_server lab_auth_env lab_auth (Some ''10.1.1.9:4022'') ''alice+p1'' ''s3cret'' ident lr
    \<and> list_all (\<lambda>e. ev_Allow e = Some True) evs \<and> (\<exists>e\<in>set evs. ev_Type e = TypeAuth \<and> ev_User e = id_User ident)"
proof -
  have "\<exists>s' evs perms. passwordCallback lab_server lab_auth_env lab_auth (Some ''10.1.1.9:4022'') ''alice+p1'' ''s3cret'' = (s', evs, AuthOK perms)"
    by (simp add: passwordCallback_def lab_Allow lab_parse lab_auth_def finish_login_def Let_def)
  then obtain s' evs perms where p: "passwordCallback lab_server lab_auth_env lab_auth (Some ''10.1.1.9:4022'') ''alice+p1'' ''s3cret'' = (s', evs, AuthOK perms)" by blast
  from authentication_evidence [OF p] p show ?thesis by blast
qed

end
