(* ===== verification/Session_Target.thy ===== *)
theory Session_Target
  imports Session
begin

text \<open>
  The gateway's second SSH leg to the real target, \<^verbatim>\<open>internal/session/target.go\<close> and
  \<^verbatim>\<open>agentfwd.go\<close>: the account and credential it authenticates with, the guarded
  dial, and the per-connection cache of the target client.

  The SSH handshake with the target and the client's forwarded agent are
  arguments.
\<close>

section \<open>State\<close>

datatype AuthMethod = Password string | KeyboardInteractive string | PublicKeys "string list"

definition passwordAuthMethods :: "string \<Rightarrow> AuthMethod list" where
  "passwordAuthMethods secret = [Password secret, KeyboardInteractive secret]"

record ClientConfig =
  cc_User :: string
  cc_Auth :: "AuthMethod list"

text \<open>What the client's agent channel gives: a refusal to open it, an error, or keys.\<close>

datatype agent_reply = NoAgentChannel string | AgentError string | AgentKeys "string list"

definition forwardedAgentSigners :: "agent_reply \<Rightarrow> (string, string list) result" where
  "forwardedAgentSigners a =
    (case a of NoAgentChannel e \<Rightarrow> Inl (''session: no forwarded agent available (client must connect with ssh -A): '' @ e)
     | AgentError e \<Rightarrow> Inl (''session: forwarded agent has no usable keys: '' @ e)
     | AgentKeys ks \<Rightarrow> if ks = [] then Inl ''session: forwarded agent returned no signers'' else Inr ks)"

text \<open>
  \<open>te_agent\<close> is \<open>None\<close> without a client connection; \<open>te_handshake\<close> gives the error of
  the SSH handshake (host key verification included) with the target.
\<close>

record target_env =
  te_clock :: "nat \<Rightarrow> time"
  te_uuid :: "nat \<Rightarrow> string"
  te_net :: os_net
  te_agent :: "agent_reply option"
  te_handshake :: "(string \<Rightarrow> bool) \<Rightarrow> ClientConfig \<Rightarrow> string \<Rightarrow> string option"

datatype target_error =
    TargetDenied string
  | TargetFailClosed string
  | TargetDial DialError
  | TargetHandshake string

text \<open>A connected target client: the address connected to and how it authenticated.\<close>

type_synonym target_client = "string \<times> ClientConfig"

section \<open>Dialing the target\<close>

definition emitTargetCredential ::
  "target_env \<Rightarrow> Principal \<Rightarrow> string \<Rightarrow> string \<Rightarrow> int \<Rightarrow> string \<Rightarrow> Mode \<Rightarrow> string \<Rightarrow> string \<Rightarrow> bool \<Rightarrow> Event" where
  "emitTargetCredential env pr srcIP host port targetUser mode outcome reason allow =
     emit (zero_event\<lparr>ev_Time := te_clock env 0, ev_Type := TypeCredential, ev_User := pr_User pr, ev_SourceIP := srcIP,
             ev_Target := JoinHostPort host (show_int port), ev_TargetUser := targetUser, ev_Allow := BoolPtr allow,
             ev_CredentialMode := mode, ev_Outcome := outcome, ev_Reason := reason\<rparr>) (te_uuid env 0)"

text \<open>
  The credential switch of \<open>dialTarget\<close>: the server (its provider's breaker moves,
  a stashed secret is consumed), the event, and the error or the methods to
  authenticate with.
\<close>

definition target_credential ::
  "Server \<Rightarrow> target_env \<Rightarrow> Principal \<Rightarrow> string \<Rightarrow> Decision \<Rightarrow> string \<Rightarrow> int \<Rightarrow> string \<Rightarrow> string
    \<Rightarrow> Server \<times> Event \<times> (target_error, AuthMethod list) result" where
  "target_credential s env pr srcIP decision host port token targetUser =
    (let mode = Mode_Normalize (d_CredentialMode decision);
         ev = (\<lambda>outcome reason allow. emitTargetCredential env pr srcIP host port targetUser mode outcome reason allow)
     in if mode = ModeDeny then
          (let reason = ''credential mode deny for target '' @ host
           in (s, ev (outcome_string OutcomeDenied) reason False, Inl (TargetDenied reason)))
        else if mode = ModeInject then
          (case sv_cred s of
             None \<Rightarrow> (let reason = ''inject configured for '' @ host @ '' but no credential provider''
                      in (s, ev ''fail_closed'' reason False, Inl (TargetFailClosed reason)))
           | Some p \<Rightarrow>
              (case Resolve p \<lparr>cr_User = pr_User pr, cr_Target = JoinHostPort host (show_int port), cr_Mode = ModeInject\<rparr>
                       (te_clock env 1) (te_clock env 2) of
                 (p', _, res, Some e) \<Rightarrow> (s\<lparr>sv_cred := Some p'\<rparr>, ev ''fail_closed'' (cred_error_string e) False, Inl (TargetFailClosed (cred_error_string e)))
               | (p', _, res, None) \<Rightarrow> (s\<lparr>sv_cred := Some p'\<rparr>, ev (outcome_string (rs_Outcome res)) (rs_Reason res) True,
                                       Inr (passwordAuthMethods (Secret_Bytes (rs_Secret res))))))
        else if mode = ModePrompt then
          (case takeTargetSecret s token of
             (s', None) \<Rightarrow> (let reason = ''prompt mode for '' @ host @ '' but no target password was collected''
                           in (s', ev ''fail_closed'' reason False, Inl (TargetFailClosed reason)))
           | (s', Some sec) \<Rightarrow> (s', ev (outcome_string OutcomePrompt) ''prompt credential collected'' True,
                               Inr (passwordAuthMethods (Secret_Bytes (Some sec)))))
        else if mode = ModePassthrough then
          (case te_agent env of
             None \<Rightarrow> (let reason = ''passthrough mode for '' @ host @ '' but no client connection to forward from''
                      in (s, ev ''fail_closed'' reason False, Inl (TargetFailClosed reason)))
           | Some a \<Rightarrow>
              (case forwardedAgentSigners a of
                 Inl e \<Rightarrow> (s, ev ''fail_closed'' e False, Inl (TargetFailClosed e))
               | Inr signers \<Rightarrow> (s, ev (outcome_string OutcomePassthrough) ''forwarded agent signers obtained'' True, Inr [PublicKeys signers])))
        else
          (let reason = ''unknown credential mode '' @ d_CredentialMode decision @ '' for '' @ host
           in (s, ev ''fail_closed'' reason False, Inl (TargetFailClosed reason))))"

definition dialTarget ::
  "Server \<Rightarrow> target_env \<Rightarrow> Principal \<Rightarrow> string \<Rightarrow> Decision \<Rightarrow> string \<Rightarrow> int \<Rightarrow> string
    \<Rightarrow> Server \<times> Event list \<times> string list \<times> (target_error, target_client) result" where
  "dialTarget s env pr srcIP decision host port token =
    (case ResolveTargetUser (pr_RequestedTargetUser pr) decision (pr_User pr) of
       Inl _ \<Rightarrow> (s, [target_user_denied (te_clock env 0) (te_uuid env 0) (pr_User pr) srcIP (JoinHostPort host (show_int port)) decision
                       (pr_RequestedTargetUser pr)], [], Inl (TargetDenied ''target user denied''))
     | Inr targetUser \<Rightarrow>
        (case sv_targetHostKeyCB s of
           None \<Rightarrow> (s, [], [], Inl (TargetFailClosed ''no target host-key callback configured''))
         | Some cb \<Rightarrow>
            (case target_credential s env pr srcIP decision host port token targetUser of
               (s1, ev, Inl e) \<Rightarrow> (s1, [ev], [], Inl e)
             | (s1, ev, Inr methods) \<Rightarrow>
                (let addr = JoinHostPort host (show_int port); cfg = \<lparr>cc_User = targetUser, cc_Auth = methods\<rparr> in
                 case DialGuarded (te_net env) addr (d_MatchedCIDR decision) (sv_allowLoopbackTargets s) of
                   (tried, Inl e) \<Rightarrow> (s1, [ev], tried, Inl (TargetDial e))
                 | (tried, Inr conn) \<Rightarrow>
                    (case te_handshake env cb cfg conn of
                       Some e \<Rightarrow> (s1\<lparr>sv_bfLimiter := rl_RecordFailure (sv_bfLimiter s1) srcIP (te_clock env 3) (te_clock env 4)\<rparr>,
                                 [ev], tried, Inl (TargetHandshake e))
                     | None \<Rightarrow> (s1, [ev], tried, Inr (conn, cfg)))))))"

section \<open>One target client per connection\<close>

record 'c targetConnCache =
  tc_result :: "'c option"          \<comment> \<open>the result of the one dial, once dialed\<close>

definition newTargetConnCache :: "'c targetConnCache" where
  "newTargetConnCache = \<lparr>tc_result = None\<rparr>"

text \<open>\<open>dial\<close> gives the new world and the result; it runs only on the first call.\<close>

definition getOrDial :: "'c targetConnCache \<Rightarrow> ('w \<Rightarrow> 'w \<times> 'c) \<Rightarrow> 'w \<Rightarrow> 'c targetConnCache \<times> 'w \<times> 'c" where
  "getOrDial c dial w =
    (case tc_result c of Some r \<Rightarrow> (c, w, r)
     | None \<Rightarrow> (case dial w of (w', r) \<Rightarrow> (c\<lparr>tc_result := Some r\<rparr>, w', r)))"

section \<open>What a connected target leg means\<close>

lemma emitTargetCredential_fields [simp]:
  "ev_Allow (emitTargetCredential env pr srcIP host port u mode outcome reason allow) = Some allow"
  "ev_Type (emitTargetCredential env pr srcIP host port u mode outcome reason allow) = TypeCredential"
  "ev_TargetUser (emitTargetCredential env pr srcIP host port u mode outcome reason allow) = u"
  "ev_CredentialMode (emitTargetCredential env pr srcIP host port u mode outcome reason allow) = mode"
  "ev_User (emitTargetCredential env pr srcIP host port u mode outcome reason allow) = pr_User pr"
  "ev_SourceIP (emitTargetCredential env pr srcIP host port u mode outcome reason allow) = srcIP"
  by (simp_all add: emitTargetCredential_def emit_def zero_event_def BoolPtr_def)

text \<open>The authentication methods that a credential mode permits.\<close>

definition methods_of_mode :: "Server \<Rightarrow> target_env \<Rightarrow> Principal \<Rightarrow> string \<Rightarrow> int \<Rightarrow> string \<Rightarrow> Mode \<Rightarrow> AuthMethod list \<Rightarrow> bool" where
  "methods_of_mode s env pr host port token mode methods =
    (if mode = ModeInject then
       (\<exists>p sec. sv_cred s = Some p \<and> methods = passwordAuthMethods (Secret_Bytes sec)
          \<and> rs_Secret (fst (snd (snd (Resolve p \<lparr>cr_User = pr_User pr, cr_Target = JoinHostPort host (show_int port), cr_Mode = ModeInject\<rparr>
                (te_clock env 1) (te_clock env 2))))) = sec
          \<and> snd (snd (snd (Resolve p \<lparr>cr_User = pr_User pr, cr_Target = JoinHostPort host (show_int port), cr_Mode = ModeInject\<rparr>
                (te_clock env 1) (te_clock env 2)))) = None)
     else if mode = ModePrompt then (\<exists>sec. map_of (sv_pendingSecrets s) token = Some sec \<and> methods = passwordAuthMethods (Secret_Bytes (Some sec)))
     else if mode = ModePassthrough then (\<exists>ks. te_agent env = Some (AgentKeys ks) \<and> ks \<noteq> [] \<and> methods = [PublicKeys ks])
     else False)"

lemma target_credential_cases:
  assumes "target_credential s env pr srcIP decision host port token u = (s1, ev, r)"
  shows "ev_Type ev = TypeCredential \<and> ev_TargetUser ev = u \<and> ev_User ev = pr_User pr \<and> ev_SourceIP ev = srcIP
    \<and> ev_CredentialMode ev = Mode_Normalize (d_CredentialMode decision) \<and> ev_Allow ev = Some (is_ok r)
    \<and> (\<forall>ms. r = Inr ms \<longrightarrow> methods_of_mode s env pr host port token (Mode_Normalize (d_CredentialMode decision)) ms)
    \<and> sv_bfLimiter s1 = sv_bfLimiter s"
  using assms
  by (auto simp: target_credential_def Let_def methods_of_mode_def takeTargetSecret_def forwardedAgentSigners_def
      split: if_splits option.splits prod.splits sum.splits agent_reply.splits)

lemma target_credential_no_handshake: "target_credential s env pr srcIP decision host port token u \<noteq> (s1, ev, Inl (TargetHandshake e))"
  by (auto simp: target_credential_def Let_def split: if_splits option.splits prod.splits sum.splits)

lemma DialGuarded_ok:
  assumes "DialGuarded os addr n lo = (tried, Inr conn)"
  shows "on_connect os conn \<and> (\<forall>net. n = Some net \<longrightarrow> guardWithinCIDR conn net = None)
    \<and> (if lo then guardResolvedAddrAllowLoopback conn = None else guardResolvedAddr conn = None)"
proof -
  let ?c = "compose_control (if lo then guardResolvedAddrAllowLoopback else guardResolvedAddr) n"
  have d: "dial_serial ?c (on_connect os) (NoAddress addr) (on_lookup os addr) = (tried, Inr conn)"
    using assms by (simp add: DialGuarded_def netDial_def)
  have t: "conn \<in> set tried" "on_connect os conn"
    using dial_serial_result [of ?c "on_connect os" "NoAddress addr" "on_lookup os addr" conn] d by simp_all
  moreover have "?c conn = None"
    using dial_serial_guarded [of conn ?c "on_connect os" "NoAddress addr" "on_lookup os addr"] d t(1) by simp
  ultimately show ?thesis by (simp add: compose_passes split: if_splits)
qed


definition lab_target_env :: target_env where
  "lab_target_env = \<lparr>te_clock = (\<lambda>n. 2000 + int n), te_uuid = (\<lambda>_. ''v''),
     te_net = \<lparr>on_lookup = (\<lambda>_. [''10.0.0.5:5432'']), on_connect = (\<lambda>_. True)\<rparr>,
     te_agent = Some (AgentKeys [''alice-key'']), te_handshake = (\<lambda>cb cfg conn. None)\<rparr>"

definition lab_target_server :: Server where
  "lab_target_server = Server_New lab_dialer [WithTargetHostKeyCallback (Some (\<lambda>k. k = ''known''))]"

definition lab_principal :: Principal where
  "lab_principal = \<lparr>pr_User = ''alice'', pr_Groups = [''DBA''], pr_TargetHost = ''db1.lab.local'', pr_TargetSecretToken = [], pr_TargetPort = 0,
     pr_RequestedTargetUser = [], pr_SelectedRole = []\<rparr>"

definition lab_decision :: Decision where
  "lab_decision = allow_by lab_principal dba_role lab_rule None"

lemma lab_leg:
  "dialTarget lab_target_server lab_target_env lab_principal ''10.1.1.9'' lab_decision ''db1.lab.local'' 5432 [] =
    (lab_target_server, [emitTargetCredential lab_target_env lab_principal ''10.1.1.9'' ''db1.lab.local'' 5432 ''alice'' ModePassthrough
        ''passthrough'' ''forwarded agent signers obtained'' True], [''10.0.0.5:5432''],
     Inr (''10.0.0.5:5432'', \<lparr>cc_User = ''alice'', cc_Auth = [PublicKeys [''alice-key'']]\<rparr>))"
  by (simp add: dialTarget_def target_credential_def lab_decision_def allow_by_def lab_rule_def lab_principal_def ResolveTargetUser_def
      lab_target_server_def Server_New_def WithTargetHostKeyCallback_def lab_target_env_def Mode_Normalize_def forwardedAgentSigners_def
      outcome_string_def DialGuarded_def netDial_def compose_control_def lab_guard Let_def)


text \<open>
  Every attempt that reaches the credential switch leaves one credential event;
  a server without a host-key check refuses before it, with none.
\<close>

lemma dialTarget_evidence:
  assumes "dialTarget s env pr srcIP decision host port token = (s', evs, tried, r)" "sv_targetHostKeyCB s \<noteq> None"
  shows "\<exists>e. evs = [e] \<and> ev_Type e = TypeCredential \<and> ev_SourceIP e = srcIP"
  using assms target_credential_cases
  by (fastforce simp: dialTarget_def Let_def split: sum.splits option.splits prod.splits)

lemma no_host_key_no_evidence:
  assumes "sv_targetHostKeyCB s = None" "ResolveTargetUser (pr_RequestedTargetUser pr) decision (pr_User pr) = Inr u"
  shows "dialTarget s env pr srcIP decision host port token = (s, [], [], Inl (TargetFailClosed ''no target host-key callback configured''))"
  using assms by (simp add: dialTarget_def)

section \<open>The typed password is used once\<close>

lemma prompt_secret_used_once:
  assumes "target_credential s env pr srcIP decision host port token u = (s1, ev, Inr ms)" "Mode_Normalize (d_CredentialMode decision) = ModePrompt"
  shows "snd (target_credential s1 env' pr' srcIP' decision host' port' token u') =
    (emitTargetCredential env' pr' srcIP' host' port' u' ModePrompt ''fail_closed'' (''prompt mode for '' @ host' @ '' but no target password was collected'') False,
     Inl (TargetFailClosed (''prompt mode for '' @ host' @ '' but no target password was collected'')))"
  using assms by (auto simp: target_credential_def takeTargetSecret_def Let_def delete_conv' split: option.splits)

lemma getOrDial_once:
  "getOrDial c dial w = (c', w', r) \<Longrightarrow> getOrDial c' dial' v = (c', v, r)"
  by (auto simp: getOrDial_def split: option.splits prod.splits)

section \<open>Guessing target passwords\<close>

text \<open>
  One source repeats: log in at the gateway, have the target refuse the
  credential, disconnect.  \<open>n\<close> counts the refused attempts.
\<close>

inductive guesses :: "string \<Rightarrow> nat \<Rightarrow> Server \<Rightarrow> Server \<Rightarrow> bool" where
  guesses_start: "guesses src 0 s s"
| guesses_round: "guesses src n s0 s \<Longrightarrow> passwordCallback s aenv auth addr user pw = (s1, aevs, r) \<Longrightarrow> r \<noteq> AuthFail \<Longrightarrow> hostOf addr = src
    \<Longrightarrow> sv_bfLimiter s2 = sv_bfLimiter s1 \<Longrightarrow> dialTarget s2 tenv pr src decision host port token = (s3, tevs, tried, Inl (TargetHandshake e))
    \<Longrightarrow> guesses src (Suc n) s0 s3"

inductive_cases guessesE: "guesses src n s s'"

definition unlocked :: "Limiter \<Rightarrow> string \<Rightarrow> bool" where
  "unlocked l src = (src = [] \<or> (case map_of (l_entries l) src of None \<Rightarrow> True | Some e \<Rightarrow> e_lockedUntil e \<le> 0))"

lemma unlocked_allowed: "unlocked l src \<Longrightarrow> 0 \<le> now \<Longrightarrow> fst (snd (rl_Allow l src now))"
  by (auto simp: unlocked_def rl_Allow_def Let_def Before_def split: option.splits)

lemma fail_entry_fresh:
  assumes "1 < MaxFailures c"
  shows "e_lockedUntil (fail_entry c \<lparr>e_failures = 0, e_windowStart = now, e_lockedUntil = 0, e_level = 0, e_lastSeen = now\<rparr> now) = 0"
  using assms by (simp add: fail_entry_def Let_def)

text \<open>The gateway login clears what the target's refusal recorded.\<close>

lemma failure_after_success:
  assumes "1 < MaxFailures (l_cfg l)"
  shows "unlocked (rl_RecordFailure (rl_RecordSuccess l src) src now now2) src"
proof (cases "src = []")
  case False
  let ?l = "l\<lparr>l_entries := AList.delete src (l_entries l)\<rparr>"
  let ?e = "\<lparr>e_failures = 0, e_windowStart = now, e_lockedUntil = 0, e_level = 0, e_lastSeen = now\<rparr>"
  have n: "map_of (l_entries ?l) src = None" by (simp add: delete_conv')
  obtain l' b where i: "insertLocked ?l src ?e now2 = (l', b)" by (cases "insertLocked ?l src ?e now2")
  have "map_of (filter P (AList.delete src (l_entries l))) src = None" for P
    by (auto simp: map_of_eq_None_iff AList.delete_eq)
  then have "\<not> b \<Longrightarrow> map_of (l_entries l') src = None"
    using i n by (auto simp: insertLocked_def reclaimStaleLocked_def Let_def split: if_splits)
  then show ?thesis using False n i fail_entry_fresh [OF assms]
    by (cases b) (auto simp: rl_RecordFailure_def rl_RecordSuccess_def unlocked_def update_conv')
qed (simp add: unlocked_def)

lemma limiter_cfg: "l_cfg (fst (rl_Allow l k t)) = l_cfg l" "l_cfg (rl_RecordSuccess l k) = l_cfg l" "l_cfg (rl_RecordFailure l k t t2) = l_cfg l"
  by (auto simp: rl_Allow_def rl_RecordSuccess_def rl_RecordFailure_def insertLocked_def reclaimStaleLocked_def Let_def split: option.splits prod.splits)

lemma dialTarget_handshake_limiter:
  assumes "dialTarget s env pr srcIP decision host port token = (s', evs, tried, Inl (TargetHandshake e))"
  shows "\<exists>t t2. sv_bfLimiter s' = rl_RecordFailure (sv_bfLimiter s) srcIP t t2"
proof -
  from assms obtain u cb s1 ev ms where c: "target_credential s env pr srcIP decision host port token u = (s1, ev, Inr ms)"
    and s': "s' = s1\<lparr>sv_bfLimiter := rl_RecordFailure (sv_bfLimiter s1) srcIP (te_clock env 3) (te_clock env 4)\<rparr>"
  proof (cases "ResolveTargetUser (pr_RequestedTargetUser pr) decision (pr_User pr)")
    case (Inr u)
    with assms that show ?thesis
      by (cases "target_credential s env pr srcIP decision host port token u")
        (auto simp: dialTarget_def Let_def target_credential_no_handshake split: sum.splits option.splits prod.splits)
  qed (simp add: dialTarget_def)
  from target_credential_cases [OF c] s' show ?thesis by auto
qed

text \<open>
  Guessing target passwords is not throttled: however often one source logs
  in at the gateway, has the target refuse its credential and reconnects, its
  next attempt is admitted.  Each refusal is recorded as a failure of the
  source, but the gateway login that every attempt starts with clears the
  count, so it never gets past one.
\<close>

theorem target_guesses_never_throttled:
  assumes "guesses src n s s'" "1 < MaxFailures (l_cfg (sv_bfLimiter s))" "unlocked (sv_bfLimiter s) src" "0 \<le> now"
  shows "fst (snd (rl_Allow (sv_bfLimiter s') src now))"
proof -
  have "unlocked (sv_bfLimiter s') src \<and> l_cfg (sv_bfLimiter s') = l_cfg (sv_bfLimiter s)" using assms(1-3)
  proof (induction rule: guesses.induct)
    case (guesses_round src n s0 s aenv auth addr user pw s1 aevs r s2 tenv pr decision host port token s3 tevs tried e)
    let ?l = "fst (rl_Allow (sv_bfLimiter s) src (ae_clock aenv 0))"
    have "sv_bfLimiter s1 = rl_RecordSuccess ?l src" using passwordCallback_cases [OF guesses_round.hyps(2)] guesses_round.hyps(3,4) by auto
    moreover obtain t t2 where "sv_bfLimiter s3 = rl_RecordFailure (sv_bfLimiter s2) src t t2"
      using dialTarget_handshake_limiter [OF guesses_round.hyps(6)] by blast
    ultimately have "sv_bfLimiter s3 = rl_RecordFailure (rl_RecordSuccess ?l src) src t t2" using guesses_round.hyps(5) by simp
    with guesses_round.IH guesses_round.prems failure_after_success [of ?l src t t2] show ?case by (simp add: limiter_cfg)
  qed simp
  with unlocked_allowed assms(4) show ?thesis by blast
qed

definition lab_refusing_env :: target_env where
  "lab_refusing_env = lab_target_env\<lparr>te_handshake := (\<lambda>cb cfg conn. Some ''unable to authenticate'')\<rparr>"

abbreviation lab_at :: "Limiter \<Rightarrow> Server" where
  "lab_at l \<equiv> lab_target_server\<lparr>sv_bfLimiter := l\<rparr>"

lemma lab_refused:
  "dialTarget (lab_at l) lab_refusing_env lab_principal ''10.1.1.9'' lab_decision ''db1.lab.local'' 5432 [] =
    (lab_at (rl_RecordFailure l ''10.1.1.9'' 2003 2004), [emitTargetCredential lab_refusing_env lab_principal ''10.1.1.9'' ''db1.lab.local'' 5432 ''alice''
       ModePassthrough ''passthrough'' ''forwarded agent signers obtained'' True], [''10.0.0.5:5432''], Inl (TargetHandshake ''unable to authenticate''))"
  by (simp add: dialTarget_def target_credential_def lab_decision_def allow_by_def lab_rule_def lab_principal_def ResolveTargetUser_def
      lab_target_server_def Server_New_def WithTargetHostKeyCallback_def lab_refusing_env_def lab_target_env_def Mode_Normalize_def forwardedAgentSigners_def
      outcome_string_def DialGuarded_def netDial_def compose_control_def lab_guard Let_def)

lemma lab_host: "hostOf (Some ''10.1.1.9:4022'') = ''10.1.1.9''"
  by code_simp

lemma lab_login_ok:
  assumes "unlocked l ''10.1.1.9''"
  shows "\<exists>evs perms. passwordCallback (lab_at l) lab_auth_env lab_auth (Some ''10.1.1.9:4022'') ''alice+p1'' ''s3cret''
    = (lab_at (rl_RecordSuccess (fst (rl_Allow l ''10.1.1.9'' 1000)) ''10.1.1.9''), evs, AuthOK perms)"
proof -
  have "fst (snd (rl_Allow l ''10.1.1.9'' 1000))" using unlocked_allowed [OF assms, of 1000] by simp
  then obtain l1 d where "rl_Allow l ''10.1.1.9'' 1000 = (l1, True, d)" by (metis prod.collapse)
  then show ?thesis
    by (simp add: passwordCallback_def lab_parse lab_auth_def finish_login_def Let_def lab_host lab_auth_env_def
        lab_target_server_def Server_New_def WithTargetHostKeyCallback_def)
qed

lemma lab_guesses: "\<exists>l. guesses ''10.1.1.9'' n lab_target_server (lab_at l) \<and> unlocked l ''10.1.1.9'' \<and> l_cfg l = DefaultConfig"
proof (induction n)
  case 0
  have "lab_target_server = lab_at (rl_New DefaultConfig)"
    by (simp add: lab_target_server_def Server_New_def WithTargetHostKeyCallback_def)
  moreover have "unlocked (rl_New DefaultConfig) ''10.1.1.9''" "l_cfg (rl_New DefaultConfig) = DefaultConfig"
    by (simp_all add: unlocked_def rl_New_def DefaultConfig_def)
  ultimately show ?case using guesses_start by metis
next
  case (Suc n)
  then obtain l where g: "guesses ''10.1.1.9'' n lab_target_server (lab_at l)" and u: "unlocked l ''10.1.1.9''" and c: "l_cfg l = DefaultConfig" by blast
  let ?l1 = "fst (rl_Allow l ''10.1.1.9'' 1000)"
  obtain evs perms where p: "passwordCallback (lab_at l) lab_auth_env lab_auth (Some ''10.1.1.9:4022'') ''alice+p1'' ''s3cret''
      = (lab_at (rl_RecordSuccess ?l1 ''10.1.1.9''), evs, AuthOK perms)" using lab_login_ok [OF u] by blast
  from guesses_round [OF g p _ lab_host refl lab_refused]
  have "guesses ''10.1.1.9'' (Suc n) lab_target_server (lab_at (rl_RecordFailure (rl_RecordSuccess ?l1 ''10.1.1.9'') ''10.1.1.9'' 2003 2004))" by simp
  moreover have "1 < MaxFailures (l_cfg ?l1)" using c by (simp add: limiter_cfg DefaultConfig_def)
  ultimately show ?case using failure_after_success c limiter_cfg by metis
qed

theorem target_guesses_never_throttled_witness:
  "\<exists>s'. guesses ''10.1.1.9'' 1000 lab_target_server s' \<and> fst (snd (rl_Allow (sv_bfLimiter s') ''10.1.1.9'' 5000))"
proof -
  obtain l where g: "guesses ''10.1.1.9'' 1000 lab_target_server (lab_at l)" using lab_guesses by blast
  have "sv_bfLimiter lab_target_server = rl_New DefaultConfig"
    by (simp add: lab_target_server_def Server_New_def WithTargetHostKeyCallback_def)
  then have "1 < MaxFailures (l_cfg (sv_bfLimiter lab_target_server))" "unlocked (sv_bfLimiter lab_target_server) ''10.1.1.9''"
    by (simp_all add: rl_New_def DefaultConfig_def unlocked_def)
  from target_guesses_never_throttled [OF g this, of 5000] g show ?thesis by auto
qed

end
