(* ===== verification/Registry.thy ===== *)
theory Registry
  imports Go_Std Omni_Prelude "HOL-Library.AList" "HOL-Library.Sublist"
begin

text \<open>
  The live-session registry, \<^verbatim>\<open>internal/sessions/registry.go\<close>, that the SSH data
  path writes and the control API reads.  Go maps are association lists, a
  subscriber's channel is the list of events it has not received yet.  A
  terminate hook is the connection it closes; clock readings and the fresh
  session identifier are arguments.
\<close>

section \<open>State\<close>

record reg_Info =
  in_ID :: string
  in_User :: string
  in_SourceIP :: string
  in_Target :: string
  in_TargetUser :: string
  in_Start :: time
  in_Channels :: int

record 'c reg_entry =
  en_info :: reg_Info
  en_terminate :: "'c option"

record sup_Event =
  se_Time :: time
  se_Kind :: string
  se_Target :: string
  se_Detail :: string

record 'c Registry =
  r_entries :: "(string \<times> 'c reg_entry) list"
  r_nextSub :: nat
  r_subs :: "(string \<times> (nat \<times> sup_Event list) list) list"

definition NewRegistry :: "'c Registry" where
  "NewRegistry = \<lparr>r_entries = [], r_nextSub = 0, r_subs = []\<rparr>"

section \<open>Supervision events\<close>

definition subCapacity :: nat where
  "subCapacity = 64"

text \<open>The non-blocking send to one subscriber.\<close>

definition sub_offer :: "sup_Event list \<Rightarrow> sup_Event \<Rightarrow> sup_Event list" where
  "sub_offer q ev = (if length q < subCapacity then q @ [ev] else q)"

definition sub_map :: "'c Registry \<Rightarrow> string \<Rightarrow> (nat \<times> sup_Event list) list" where
  "sub_map r i = (case map_of (r_subs r) i of None \<Rightarrow> [] | Some m \<Rightarrow> m)"

definition stamp :: "time \<Rightarrow> sup_Event \<Rightarrow> sup_Event" where
  "stamp now ev = (if IsZero (se_Time ev) then ev\<lparr>se_Time := now\<rparr> else ev)"

definition Publish :: "'c Registry \<Rightarrow> string \<Rightarrow> sup_Event \<Rightarrow> time \<Rightarrow> 'c Registry" where
  "Publish r i ev now =
     r\<lparr>r_subs := AList.map_ran (\<lambda>k m. if k = i then AList.map_ran (\<lambda>_ q. sub_offer q (stamp now ev)) m else m) (r_subs r)\<rparr>"

definition Subscribe :: "'c Registry \<Rightarrow> string \<Rightarrow> 'c Registry \<times> nat" where
  "Subscribe r i =
    (let sub = Suc (r_nextSub r)
     in (r\<lparr>r_nextSub := sub, r_subs := AList.update i (AList.update sub [] (sub_map r i)) (r_subs r)\<rparr>, sub))"

definition Unsubscribe :: "'c Registry \<Rightarrow> string \<Rightarrow> nat \<Rightarrow> 'c Registry" where
  "Unsubscribe r i sub =
    (case map_of (r_subs r) i of None \<Rightarrow> r
     | Some m \<Rightarrow>
        (let m' = AList.delete sub m
         in r\<lparr>r_subs := (if m' = [] then AList.delete i (r_subs r) else AList.update i m' (r_subs r))\<rparr>))"

text \<open>A receive from the subscriber's channel; \<open>None\<close> is a receive that would block.\<close>

definition sub_receive :: "'c Registry \<Rightarrow> string \<Rightarrow> nat \<Rightarrow> 'c Registry \<times> sup_Event option" where
  "sub_receive r i sub =
    (case map_of (sub_map r i) sub of
       Some (ev # q) \<Rightarrow> (r\<lparr>r_subs := AList.update i (AList.update sub q (sub_map r i)) (r_subs r)\<rparr>, Some ev)
     | _ \<Rightarrow> (r, None))"

section \<open>Sessions\<close>

definition Register :: "'c Registry \<Rightarrow> reg_Info \<Rightarrow> 'c option \<Rightarrow> string \<Rightarrow> time \<Rightarrow> 'c Registry \<times> string" where
  "Register r info hook uid now =
    (let info1 = info\<lparr>in_ID := uid\<rparr>;
         info2 = (if IsZero (in_Start info1) then info1\<lparr>in_Start := now\<rparr> else info1)
     in (r\<lparr>r_entries := AList.update uid \<lparr>en_info = info2, en_terminate = hook\<rparr> (r_entries r)\<rparr>, uid))"

definition end_event :: sup_Event where
  "end_event = \<lparr>se_Time = 0, se_Kind = ''session_end'', se_Target = [], se_Detail = []\<rparr>"

definition Deregister :: "'c Registry \<Rightarrow> string \<Rightarrow> time \<Rightarrow> 'c Registry" where
  "Deregister r i now = (let r1 = Publish r i end_event now in r1\<lparr>r_entries := AList.delete i (r_entries r1)\<rparr>)"

definition add_channels :: "int \<Rightarrow> 'c reg_entry \<Rightarrow> 'c reg_entry" where
  "add_channels delta e =
     (let n = in_Channels (en_info e) + delta
      in e\<lparr>en_info := (en_info e)\<lparr>in_Channels := (if n < 0 then 0 else n)\<rparr>\<rparr>)"

definition AddChannels :: "'c Registry \<Rightarrow> string \<Rightarrow> int \<Rightarrow> 'c Registry" where
  "AddChannels r i delta =
    (case map_of (r_entries r) i of None \<Rightarrow> r
     | Some e \<Rightarrow> r\<lparr>r_entries := AList.update i (add_channels delta e) (r_entries r)\<rparr>)"

text \<open>What a connection registers (\<^verbatim>\<open>handleConn\<close>); the other fields are zero.\<close>

definition conn_Info :: "string \<Rightarrow> string \<Rightarrow> string \<Rightarrow> reg_Info" where
  "conn_Info user srcIP targetUser =
     \<lparr>in_ID = [], in_User = user, in_SourceIP = srcIP, in_Target = [], in_TargetUser = targetUser, in_Start = 0, in_Channels = 0\<rparr>"

text \<open>\<open>order\<close> is the order in which the map iteration delivers the entries.\<close>

definition rg_List :: "('c reg_entry) list \<Rightarrow> reg_Info list" where
  "rg_List order = sort_key in_Start (map en_info order)"

definition rg_Get :: "'c Registry \<Rightarrow> string \<Rightarrow> reg_Info option" where
  "rg_Get r i = map_option en_info (map_of (r_entries r) i)"

datatype reg_error = SessionNotFound | NotTerminable

definition Terminate :: "'c Registry \<Rightarrow> string \<Rightarrow> (reg_error, 'c) result" where
  "Terminate r i =
    (case map_of (r_entries r) i of None \<Rightarrow> Inl SessionNotFound
     | Some e \<Rightarrow> (case en_terminate e of None \<Rightarrow> Inl NotTerminable | Some c \<Rightarrow> Inr c))"

section \<open>Histories\<close>

datatype 'c reg_event =
    DoRegister string string string "'c option" string time
  | DoDeregister string time
  | DoPublish string sup_Event time
  | DoSubscribe string
  | DoUnsubscribe string nat
  | DoReceive string nat
  | DoAddChannels string int

fun reg_step :: "'c Registry \<Rightarrow> 'c reg_event \<Rightarrow> 'c Registry" where
  "reg_step r (DoRegister user src tu hook uid now) = fst (Register r (conn_Info user src tu) hook uid now)"
| "reg_step r (DoDeregister i now) = Deregister r i now"
| "reg_step r (DoPublish i ev now) = Publish r i ev now"
| "reg_step r (DoSubscribe i) = fst (Subscribe r i)"
| "reg_step r (DoUnsubscribe i sub) = Unsubscribe r i sub"
| "reg_step r (DoReceive i sub) = fst (sub_receive r i sub)"
| "reg_step r (DoAddChannels i delta) = AddChannels r i delta"

interpretation sub_queue: bounded_queue sub_offer "\<lambda>q. q" "\<lambda>_. subCapacity"
  by unfold_locales (simp_all add: sub_offer_def)

text \<open>
  The invariant: no session or subscription is listed twice, an entry carries its
  own identifier and a count that is not negative, and no channel holds more
  than its capacity.
\<close>

definition entries_ok :: "(string \<times> 'c reg_entry) list \<Rightarrow> bool" where
  "entries_ok es \<longleftrightarrow> distinct (map fst es) \<and> (\<forall>(i, e)\<in>set es. in_ID (en_info e) = i \<and> 0 \<le> in_Channels (en_info e))"

definition sub_ok :: "nat \<Rightarrow> (nat \<times> sup_Event list) list \<Rightarrow> bool" where
  "sub_ok nxt m \<longleftrightarrow> distinct (map fst m) \<and> m \<noteq> [] \<and> (\<forall>(n, q)\<in>set m. n \<le> nxt \<and> length q \<le> subCapacity)"

definition subs_ok :: "nat \<Rightarrow> (string \<times> (nat \<times> sup_Event list) list) list \<Rightarrow> bool" where
  "subs_ok nxt ss \<longleftrightarrow> distinct (map fst ss) \<and> (\<forall>(i, m)\<in>set ss. sub_ok nxt m)"

definition reg_inv :: "'c Registry \<Rightarrow> bool" where
  "reg_inv r \<longleftrightarrow> entries_ok (r_entries r) \<and> subs_ok (r_nextSub r) (r_subs r)"

lemma update_mem: "x \<in> set (AList.update k v xs) \<Longrightarrow> x = (k, v) \<or> x \<in> set xs"
  using set_update_subset by fastforce

lemma delete_mem: "x \<in> set (AList.delete k xs) \<Longrightarrow> x \<in> set xs"
  by (simp add: AList.delete_eq)

lemma fst_map_ran [simp]: "map fst (AList.map_ran f xs) = map fst xs"
  by (simp add: map_ran_def case_prod_beta comp_def)

lemma map_ran_mem: "x \<in> set (AList.map_ran f xs) \<Longrightarrow> \<exists>k v. (k, v) \<in> set xs \<and> x = (k, f k v)"
  by (auto simp: map_ran_def)

lemma map_ran_Nil_iff [simp]: "AList.map_ran f xs = [] \<longleftrightarrow> xs = []"
  by (simp add: map_ran_def)

lemma entries_update: "entries_ok es \<Longrightarrow> in_ID (en_info e) = i \<Longrightarrow> 0 \<le> in_Channels (en_info e) \<Longrightarrow> entries_ok (AList.update i e es)"
  by (auto simp: entries_ok_def distinct_update dest!: update_mem)

lemma entries_delete: "entries_ok es \<Longrightarrow> entries_ok (AList.delete i es)"
  by (auto simp: entries_ok_def distinct_delete dest!: delete_mem)

lemma entries_mem: "entries_ok es \<Longrightarrow> map_of es i = Some e \<Longrightarrow> in_ID (en_info e) = i \<and> 0 \<le> in_Channels (en_info e)"
  by (auto simp: entries_ok_def dest: map_of_SomeD)

lemma subs_update: "subs_ok nxt ss \<Longrightarrow> sub_ok nxt m \<Longrightarrow> subs_ok nxt (AList.update i m ss)"
  by (auto simp: subs_ok_def distinct_update dest!: update_mem)

lemma subs_delete: "subs_ok nxt ss \<Longrightarrow> subs_ok nxt (AList.delete i ss)"
  by (auto simp: subs_ok_def distinct_delete dest!: delete_mem)

lemma subs_mem: "subs_ok nxt ss \<Longrightarrow> map_of ss i = Some m \<Longrightarrow> sub_ok nxt m"
  by (auto simp: subs_ok_def dest: map_of_SomeD)

lemma update_nonempty [simp]: "AList.update k v xs \<noteq> []"
  by (induction xs) auto

lemma sub_ok_update: "sub_ok nxt m \<or> m = [] \<Longrightarrow> n \<le> nxt \<Longrightarrow> length q \<le> subCapacity \<Longrightarrow> sub_ok nxt (AList.update n q m)"
  by (auto simp: sub_ok_def distinct_update dest!: update_mem)

lemma sub_ok_mono: "sub_ok nxt m \<Longrightarrow> nxt \<le> nxt' \<Longrightarrow> sub_ok nxt' m"
  by (auto simp: sub_ok_def)

lemma subs_ok_mono: "subs_ok nxt ss \<Longrightarrow> nxt \<le> nxt' \<Longrightarrow> subs_ok nxt' ss"
  by (auto simp: subs_ok_def intro: sub_ok_mono)

lemma sub_ok_publish: "sub_ok nxt m \<Longrightarrow> sub_ok nxt (AList.map_ran (\<lambda>_ q. sub_offer q ev) m)"
  using sub_queue.put_bounded [of _ ev] by (fastforce simp: sub_ok_def dest!: map_ran_mem)

lemma Publish_inv: "reg_inv r \<Longrightarrow> reg_inv (Publish r i ev now)"
  by (fastforce simp: reg_inv_def Publish_def subs_ok_def intro: sub_ok_publish split: if_splits dest!: map_ran_mem)

lemma sub_map_ok: "subs_ok nxt (r_subs r) \<Longrightarrow> sub_ok nxt (sub_map r i) \<or> sub_map r i = []"
  by (auto simp: sub_map_def split: option.splits dest: subs_mem)

lemma Subscribe_inv: "reg_inv r \<Longrightarrow> reg_inv (fst (Subscribe r i))"
proof -
  assume r: "reg_inv r"
  let ?n = "Suc (r_nextSub r)"
  from r have s: "subs_ok ?n (r_subs r)" by (auto simp: reg_inv_def intro: subs_ok_mono)
  have "sub_ok ?n (AList.update ?n [] (sub_map r i))" by (rule sub_ok_update [OF sub_map_ok [OF s]]) simp_all
  with r s show ?thesis by (simp add: reg_inv_def Subscribe_def Let_def subs_update)
qed

lemma sub_ok_delete: "sub_ok nxt m \<Longrightarrow> AList.delete n m \<noteq> [] \<Longrightarrow> sub_ok nxt (AList.delete n m)"
  by (auto simp: sub_ok_def distinct_delete dest!: delete_mem)

lemma Unsubscribe_inv: "reg_inv r \<Longrightarrow> reg_inv (Unsubscribe r i n)"
  by (auto simp: reg_inv_def Unsubscribe_def Let_def subs_delete intro!: subs_update intro: sub_ok_delete dest: subs_mem split: option.splits)

lemma sub_mem: "sub_ok nxt m \<Longrightarrow> map_of m n = Some q \<Longrightarrow> n \<le> nxt \<and> length q \<le> subCapacity"
  by (auto simp: sub_ok_def dest!: map_of_SomeD)

lemma sub_receive_inv: "reg_inv r \<Longrightarrow> reg_inv (fst (sub_receive r i n))"
proof -
  assume r: "reg_inv r"
  then have s: "sub_ok (r_nextSub r) (sub_map r i) \<or> sub_map r i = []" using sub_map_ok by (auto simp: reg_inv_def)
  show ?thesis
  proof (cases "\<exists>ev q. map_of (sub_map r i) n = Some (ev # q)")
    case True
    then obtain ev q where q: "map_of (sub_map r i) n = Some (ev # q)" by blast
    with s have "n \<le> r_nextSub r" "length q \<le> subCapacity" by (auto dest: sub_mem)
    then have "sub_ok (r_nextSub r) (AList.update n q (sub_map r i))" by (rule sub_ok_update [OF s])
    with r q show ?thesis by (simp add: sub_receive_def reg_inv_def subs_update)
  next
    case False
    with r show ?thesis by (auto simp: sub_receive_def split: option.splits list.splits)
  qed
qed

lemma Register_inv: "reg_inv r \<Longrightarrow> 0 \<le> in_Channels info \<Longrightarrow> reg_inv (fst (Register r info hook uid now))"
  by (simp add: reg_inv_def Register_def Let_def entries_update)

lemma AddChannels_inv: "reg_inv r \<Longrightarrow> reg_inv (AddChannels r i delta)"
  by (auto simp: reg_inv_def AddChannels_def add_channels_def Let_def intro!: entries_update dest: entries_mem split: option.splits)

lemma Deregister_inv: "reg_inv r \<Longrightarrow> reg_inv (Deregister r i now)"
  using Publish_inv [of r i end_event now] by (simp add: reg_inv_def Deregister_def Let_def entries_delete)

lemma reg_step_inv: "reg_inv r \<Longrightarrow> reg_inv (reg_step r e)"
  by (cases e) (simp_all add: Register_inv conn_Info_def Deregister_inv Publish_inv Subscribe_inv Unsubscribe_inv sub_receive_inv AddChannels_inv)

interpretation registry: guarded_machine reg_step reg_inv
  by unfold_locales (rule reg_step_inv)

text \<open>
  Whatever the sessions and supervisors do, the registry lists no session
  twice, reports each under its own identifier with a channel count that is never
  negative, and buffers at most 64 events for a supervisor, so a supervisor that
  stops reading costs a bounded amount of memory and never blocks a session.
\<close>

theorem registry_bounded:
  "reg_inv (run_steps reg_step (NewRegistry :: 'c Registry) es)"
  by (rule registry.run_invar) (simp add: NewRegistry_def reg_inv_def entries_ok_def subs_ok_def)

section \<open>What a supervisor sees\<close>

text \<open>The events that a history delivers to subscription \<open>n\<close> of session \<open>i\<close>, and those published for \<open>i\<close>.\<close>

fun received :: "string \<Rightarrow> nat \<Rightarrow> 'c Registry \<Rightarrow> 'c reg_event list \<Rightarrow> sup_Event list" where
  "received i n r [] = []"
| "received i n r (e # es) =
    (case e of DoReceive j m \<Rightarrow> if j = i \<and> m = n then (case snd (sub_receive r i n) of None \<Rightarrow> [] | Some ev \<Rightarrow> [ev]) else []
     | _ \<Rightarrow> []) @ received i n (reg_step r e) es"

fun published_by :: "string \<Rightarrow> 'c reg_event \<Rightarrow> sup_Event list" where
  "published_by i (DoPublish j ev now) = (if j = i then [stamp now ev] else [])"
| "published_by i (DoDeregister j now) = (if j = i then [stamp now end_event] else [])"
| "published_by i _ = []"

definition published :: "string \<Rightarrow> 'c reg_event list \<Rightarrow> sup_Event list" where
  "published i es = concat (map (published_by i) es)"

abbreviation pending_of :: "'c Registry \<Rightarrow> string \<Rightarrow> nat \<Rightarrow> sup_Event list option" where
  "pending_of r i n \<equiv> map_of (sub_map r i) n"

lemma pending_Publish: "pending_of (Publish r j ev now) i n =
    map_option (\<lambda>q. if j = i then sub_offer q (stamp now ev) else q) (pending_of r i n)"
  by (auto simp: Publish_def sub_map_def map_ran_conv option.map_comp comp_def option.map_ident split: option.splits)

lemma r_subs_unaffected: "r_subs (fst (Register r info h u t)) = r_subs r" "r_subs (AddChannels r j d) = r_subs r"
  by (simp_all add: Register_def Let_def AddChannels_def split: option.splits)

lemma pending_Deregister: "pending_of (Deregister r j now) i n = pending_of (Publish r j end_event now) i n"
  by (simp add: Deregister_def Let_def sub_map_def)

lemma pending_Subscribe: "n \<le> r_nextSub r \<Longrightarrow> pending_of (fst (Subscribe r j)) i n = pending_of r i n"
  by (simp add: Subscribe_def Let_def sub_map_def update_conv' split: option.splits)

lemma pending_Unsubscribe:
  "pending_of (Unsubscribe r j m) i n = (if j = i \<and> m = n then None else pending_of r i n)"
proof (cases "map_of (r_subs r) j")
  case None
  then show ?thesis by (auto simp: Unsubscribe_def sub_map_def)
next
  case (Some ms)
  show ?thesis
  proof (cases "AList.delete m ms = []")
    case True
    then have "map_of ms n = None" if "m \<noteq> n" for n using that by (metis delete_conv' fun_upd_other map_of.simps(1))
    with True Some show ?thesis by (auto simp: Unsubscribe_def sub_map_def delete_conv' split: option.splits)
  next
    case False
    with Some show ?thesis by (auto simp: Unsubscribe_def sub_map_def delete_conv' update_conv' split: option.splits)
  qed
qed

lemma pending_receive:
  "pending_of (fst (sub_receive r j m)) i n =
    (if j = i \<and> m = n then map_option (\<lambda>q. tl q) (pending_of r i n) else pending_of r i n)"
  by (auto simp: sub_receive_def sub_map_def update_conv' split: option.splits list.splits)

lemma received_receive: "pending_of r i n = Some q \<Longrightarrow> snd (sub_receive r i n) = (case q of [] \<Rightarrow> None | ev # _ \<Rightarrow> Some ev)"
  by (simp add: sub_receive_def split: list.splits)

text \<open>One step: nothing that is queued is lost, and what is added was published.\<close>

lemma stream_step:
  assumes "reg_inv r" "pending_of r i n = Some q" "e \<noteq> DoUnsubscribe i n"
  shows "\<exists>q' p. pending_of (reg_step r e) i n = Some q' \<and> received i n r [e] @ q' = q @ p \<and> subseq p (published_by i e)
    \<and> (length q + length (published_by i e) \<le> subCapacity \<longrightarrow> p = published_by i e)"
proof (cases e)
  case (DoRegister user src tu hook uid now)
  with assms(2) show ?thesis by (simp add: sub_map_def r_subs_unaffected)
next
  case (DoDeregister j now)
  with assms(2) show ?thesis by (auto simp: pending_Deregister pending_Publish sub_offer_def)
next
  case (DoPublish j ev now)
  with assms(2) show ?thesis by (auto simp: pending_Publish sub_offer_def)
next
  case (DoSubscribe j)
  from assms(1,2) have "n \<le> r_nextSub r"
    by (auto simp: reg_inv_def sub_map_def dest: subs_mem sub_mem split: option.splits)
  with DoSubscribe assms(2) show ?thesis by (simp add: pending_Subscribe)
next
  case (DoUnsubscribe j m)
  with assms(2,3) show ?thesis by (auto simp: pending_Unsubscribe)
next
  case (DoReceive j m)
  with assms(2) show ?thesis by (cases q) (auto simp: pending_receive received_receive)
next
  case (DoAddChannels j d)
  with assms(2) show ?thesis by (simp add: sub_map_def r_subs_unaffected)
qed

lemma stream_run:
  "reg_inv r \<Longrightarrow> pending_of r i n = Some q \<Longrightarrow> DoUnsubscribe i n \<notin> set es \<Longrightarrow>
    \<exists>q' p. pending_of (run_steps reg_step r es) i n = Some q' \<and> received i n r es @ q' = q @ p \<and> subseq p (published i es)
      \<and> (length q + length (published i es) \<le> subCapacity \<longrightarrow> p = published i es)"
proof (induction es arbitrary: r q)
  case Nil
  then show ?case by (simp add: published_def)
next
  case (Cons e es)
  from Cons.prems obtain q1 p1 where 1: "pending_of (reg_step r e) i n = Some q1" "received i n r [e] @ q1 = q @ p1"
    "subseq p1 (published_by i e)" "length q + length (published_by i e) \<le> subCapacity \<longrightarrow> p1 = published_by i e"
    using stream_step [of r i n q e] by auto
  from Cons.IH [OF reg_step_inv 1(1)] Cons.prems obtain q' p where 2:
    "pending_of (run_steps reg_step (reg_step r e) es) i n = Some q'" "received i n (reg_step r e) es @ q' = q1 @ p"
    "subseq p (published i es)" "length q1 + length (published i es) \<le> subCapacity \<longrightarrow> p = published i es" by auto
  have len: "length q1 \<le> length q + length (published_by i e)"
    using arg_cong [OF 1(2), of length] list_emb_length [OF 1(3)] by simp
  have "received i n r (e # es) @ q' = q @ p1 @ p" using 1(2) 2(2) by (metis append.assoc append_Nil2 received.simps)
  moreover have "subseq (p1 @ p) (published i (e # es))" using 1(3) 2(3) by (simp add: published_def list_emb_append_mono)
  moreover have "length q + length (published i (e # es)) \<le> subCapacity \<longrightarrow> p1 @ p = published i (e # es)"
    using 1(4) 2(4) len by (auto simp: published_def)
  ultimately show ?case using 2(1) by auto
qed

text \<open>
  A supervisor sees the session's events in order and without inventions:
  what it has received and what is still buffered is what was buffered first
  followed by a subsequence of the events published since, and all of them as
  long as at most 64 are outstanding.
\<close>

theorem supervision_stream:
  assumes "reg_inv r" and "pending_of r i n = Some q" and "DoUnsubscribe i n \<notin> set es"
  shows "\<exists>q' p. pending_of (run_steps reg_step r es) i n = Some q' \<and> received i n r es @ q' = q @ p \<and> subseq p (published i es)
      \<and> (length q + length (published i es) \<le> subCapacity \<longrightarrow> p = published i es)"
  by (rule stream_run [OF assms])

definition opened :: sup_Event where
  "opened = \<lparr>se_Time = 7, se_Kind = ''channel_open'', se_Target = [], se_Detail = ''session''\<rparr>"

definition lab_registry :: "nat Registry" where
  "lab_registry = run_steps reg_step NewRegistry [DoRegister ''alice'' ''192.0.2.7'' [] (Some 1) ''s1'' 5, DoSubscribe ''s1'']"

lemma lab_registry_ok: "reg_inv lab_registry" "pending_of lab_registry ''s1'' 1 = Some []"
proof -
  show "reg_inv lab_registry" unfolding lab_registry_def
    by (rule registry.run_invar) (simp add: NewRegistry_def reg_inv_def entries_ok_def subs_ok_def)
  show "pending_of lab_registry ''s1'' 1 = Some []" by code_simp
qed

theorem supervision_stream_witness:
  "received ''s1'' 1 lab_registry [DoPublish ''s1'' opened 8, DoReceive ''s1'' 1, DoDeregister ''s1'' 9, DoReceive ''s1'' 1]
     = [opened, stamp 9 end_event]"
proof -
  let ?es = "[DoPublish ''s1'' opened 8, DoReceive ''s1'' 1, DoDeregister ''s1'' 9, DoReceive ''s1'' 1] :: nat reg_event list"
  have "length ([] :: sup_Event list) + length (published ''s1'' ?es) \<le> subCapacity"
    "published ''s1'' ?es = [opened, stamp 9 end_event]" "length (received ''s1'' 1 lab_registry ?es) = 2"
    by code_simp+
  with supervision_stream [OF lab_registry_ok, of ?es] show ?thesis by (auto simp: append_eq_conv_conj)
qed

text \<open>
  A supervisor attached to a session that ends learns of the end exactly when
  it has fewer than 64 unread events at that moment.  Otherwise the
  \<^verbatim>\<open>session_end\<close> event is dropped like any other and is never sent again, so the
  stream of a supervisor that fell behind stays open although the session is over.
\<close>

theorem session_end_seen_iff:
  assumes "reg_inv r" and "pending_of r i n = Some q" and "DoUnsubscribe i n \<notin> set es"
    and "\<forall>ev\<in>set q \<union> set (published i es). se_Kind ev \<noteq> ''session_end''"
  shows "\<exists>q'. pending_of (run_steps reg_step (Deregister r i now) es) i n = Some q'
    \<and> ((\<exists>ev\<in>set (received i n (Deregister r i now) es @ q'). se_Kind ev = ''session_end'') \<longleftrightarrow> length q < subCapacity)"
proof -
  let ?r = "Deregister r i now" and ?q = "sub_offer q (stamp now end_event)"
  have q: "pending_of ?r i n = Some ?q" using assms(2) by (simp add: pending_Deregister pending_Publish)
  from stream_run [OF Deregister_inv [OF assms(1)] q assms(3)] obtain q' p where
    1: "pending_of (run_steps reg_step ?r es) i n = Some q'" "received i n ?r es @ q' = ?q @ p" "subseq p (published i es)" by blast
  have "se_Kind ev \<noteq> ''session_end''" if "ev \<in> set p" for ev
    using assms(4) list_emb_set [OF 1(3) that] by auto
  moreover have "se_Kind (stamp now end_event) = ''session_end''" by (simp add: stamp_def end_event_def)
  ultimately have "(\<exists>ev\<in>set (?q @ p). se_Kind ev = ''session_end'') \<longleftrightarrow> length q < subCapacity"
    using assms(4) by (auto simp: sub_offer_def)
  with 1(1) show ?thesis unfolding 1(2) [symmetric] by blast
qed

theorem session_end_seen_iff_witness:
  "\<exists>q'. pending_of (run_steps reg_step (Deregister (run_steps reg_step lab_registry (replicate 64 (DoPublish ''s1'' opened 8))) ''s1'' 9)
        [DoReceive ''s1'' 1]) ''s1'' 1 = Some q'
    \<and> \<not> (\<exists>ev\<in>set (received ''s1'' 1 (Deregister (run_steps reg_step lab_registry (replicate 64 (DoPublish ''s1'' opened 8))) ''s1'' 9)
        [DoReceive ''s1'' 1] @ q'). se_Kind ev = ''session_end'')"
proof -
  let ?P = "replicate 64 (DoPublish ''s1'' opened 8) :: nat reg_event list" and ?g = "[DoReceive ''s1'' 1] :: nat reg_event list"
  let ?r = "run_steps reg_step lab_registry ?P"
  have inv: "reg_inv ?r" by (rule registry.run_invar [OF lab_registry_ok(1)])
  have "published ''s1'' ?P = replicate 64 opened" "received ''s1'' 1 lab_registry ?P = []" "DoUnsubscribe ''s1'' 1 \<notin> set ?P"
    by code_simp+
  with stream_run [OF lab_registry_ok, of ?P] have q: "pending_of ?r ''s1'' 1 = Some (replicate 64 opened)"
    by (auto simp: subCapacity_def)
  have "DoUnsubscribe ''s1'' 1 \<notin> set ?g" "\<forall>ev\<in>set (replicate 64 opened) \<union> set (published ''s1'' ?g). se_Kind ev \<noteq> ''session_end''"
    by code_simp+
  from session_end_seen_iff [OF inv q this, of 9] show ?thesis by (simp only: length_replicate subCapacity_def less_irrefl eq_False)
qed

end
