(* ===== verification/Api.thy ===== *)
theory Api
  imports Registry Approval Policy
begin

text \<open>
  The control-plane HTTP API, \<^verbatim>\<open>internal/api\<close>: roles and authorizers (\<^verbatim>\<open>auth.go\<close>),
  routes and session handlers (\<^verbatim>\<open>server.go\<close>), approval decisions and the supervision
  stream (\<^verbatim>\<open>approvals.go\<close>).

  A request carries what the handlers read of it: the method, the path split at
  its slashes, the \<^verbatim>\<open>Authorization\<close> header and the common name of the verified
  client certificate.  Responses keep the status code and the value that is
  encoded; the JSON text is not modelled.
\<close>

section \<open>Roles and authorizers\<close>

type_synonym api_Role = string

abbreviation RoleViewer :: api_Role where "RoleViewer \<equiv> ''viewer''"
abbreviation RoleOperator :: api_Role where "RoleOperator \<equiv> ''operator''"
abbreviation RoleAdmin :: api_Role where "RoleAdmin \<equiv> ''admin''"

definition role_rank :: "api_Role \<Rightarrow> int" where
  "role_rank r = (if r = RoleAdmin then 3 else if r = RoleOperator then 2 else if r = RoleViewer then 1 else 0)"

definition atLeast_role :: "api_Role \<Rightarrow> api_Role \<Rightarrow> bool" where
  "atLeast_role r need = (role_rank r \<ge> role_rank need \<and> role_rank r > 0)"

record api_Identity =
  ai_Subject :: string
  ai_Role :: api_Role

record api_request =
  hq_Method :: string
  hq_Path :: "string list"
  hq_Authorization :: string
  hq_PeerCN :: "string option"     \<comment> \<open>\<open>None\<close>: no TLS or no verified certificate\<close>

type_synonym Authorizer = "api_request \<Rightarrow> api_Identity option"

definition CutPrefix :: "string \<Rightarrow> string \<Rightarrow> string option" where
  "CutPrefix s p = (if HasPrefix s p then Some (drop (length p) s) else None)"

definition token_Authorize :: "(string \<times> api_Identity) list \<Rightarrow> Authorizer" where
  "token_Authorize tokens r =
    (case CutPrefix (hq_Authorization r) ''Bearer '' of None \<Rightarrow> None
     | Some tok \<Rightarrow>
        if tok = [] then None
        else case map_of tokens tok of None \<Rightarrow> None
        | Some i \<Rightarrow> if role_rank (ai_Role i) = 0 then None else Some i)"

definition mtls_Authorize :: "(string \<times> api_Role) list \<Rightarrow> Authorizer" where
  "mtls_Authorize cnRoles r =
    (case hq_PeerCN r of None \<Rightarrow> None
     | Some cn \<Rightarrow>
        (case map_of cnRoles cn of None \<Rightarrow> None
         | Some role \<Rightarrow> if role_rank role = 0 then None else Some \<lparr>ai_Subject = cn, ai_Role = role\<rparr>))"

section \<open>The policy view\<close>

record RuleView =
  rv_Host :: string
  rv_Ports :: "int list"
  rv_Record :: string
  rv_Credential :: string
  rv_RequireApproval :: bool

record RoleView =
  ov_Name :: string
  ov_Groups :: "string list"
  ov_Allow :: "RuleView list"

record PolicyView =
  pv_Roles :: "RoleView list"

definition rule_view :: "Rule \<Rightarrow> RuleView" where
  "rule_view rule = \<lparr>rv_Host = ru_Host rule, rv_Ports = ru_Ports rule, rv_Record = ru_Record rule,
     rv_Credential = ru_Credential rule, rv_RequireApproval = ru_RequireApproval rule\<rparr>"

definition PolicyToView :: "Policy \<Rightarrow> PolicyView" where
  "PolicyToView p = \<lparr>pv_Roles =
     map (\<lambda>r. \<lparr>ov_Name = ro_Name r, ov_Groups = ro_Groups r, ov_Allow = map rule_view (ro_Allow r)\<rparr>) (po_Roles p)\<rparr>"

section \<open>The server\<close>

text \<open>The \<^verbatim>\<open>approval.Store\<close> behind the API: none, the file store, or the CRD stub.\<close>

datatype api_store = NoStore | FileApprovals FileStore | CRDApprovals

record 'c api_Server =
  ax_reg :: "'c Registry"
  ax_policy :: Policy
  ax_authz :: Authorizer
  ax_approvals :: api_store
  ax_ready :: bool

text \<open>
  What one request meets: the order in which the registry's map is iterated,
  whether closing a connection succeeds, and for a decision the directory, the
  other callers of the store, the clock readings and the outcome of the write.
\<close>

record 'c api_env =
  xe_order :: "'c reg_entry list"
  xe_close :: "'c \<Rightarrow> bool"
  xe_groups :: GroupLookup
  xe_others :: "FileStore \<Rightarrow> FileStore"
  xe_clock :: "nat \<Rightarrow> time"
  xe_wok :: bool

datatype api_body =
    JStatus string
  | JError string
  | JSessions "reg_Info list"
  | JSession reg_Info
  | JPolicy PolicyView
  | JApprovals "ApprovalRequest list"
  | JApproval ApprovalRequest
  | JStream string nat

type_synonym response = "int \<times> api_body"

text \<open>A handler's effect: the server, the response, and the connection it closed.\<close>

type_synonym 'c handled = "'c api_Server \<times> response \<times> 'c option"

definition reply :: "'c api_Server \<Rightarrow> int \<Rightarrow> api_body \<Rightarrow> 'c handled" where
  "reply s code body = (s, (code, body), None)"

definition listSessions :: "'c api_Server \<Rightarrow> 'c api_env \<Rightarrow> 'c handled" where
  "listSessions s env = reply s 200 (JSessions (rg_List (xe_order env)))"

definition getSession :: "'c api_Server \<Rightarrow> string \<Rightarrow> 'c handled" where
  "getSession s i =
    (case rg_Get (ax_reg s) i of None \<Rightarrow> reply s 404 (JError ''session not found'')
     | Some info \<Rightarrow> reply s 200 (JSession info))"

definition terminateSession :: "'c api_Server \<Rightarrow> 'c api_env \<Rightarrow> string \<Rightarrow> 'c handled" where
  "terminateSession s env i =
    (case Terminate (ax_reg s) i of
       Inl SessionNotFound \<Rightarrow> reply s 404 (JError ''session not found'')
     | Inl NotTerminable \<Rightarrow> reply s 409 (JError ''session cannot be terminated'')
     | Inr c \<Rightarrow> (s, if xe_close env c then (200, JStatus ''terminated'') else (500, JError ''terminate failed''), Some c))"

definition getPolicy :: "'c api_Server \<Rightarrow> 'c handled" where
  "getPolicy s = reply s 200 (JPolicy (PolicyToView (ax_policy s)))"

definition listApprovals :: "'c api_Server \<Rightarrow> 'c api_env \<Rightarrow> 'c handled" where
  "listApprovals s env = reply s 200 (JApprovals (case ax_approvals s of NoStore \<Rightarrow> []
     | FileApprovals st \<Rightarrow> fs_List st (xe_clock env 0) | CRDApprovals \<Rightarrow> crd_List))"

definition getApproval :: "'c api_Server \<Rightarrow> 'c api_env \<Rightarrow> string \<Rightarrow> 'c handled" where
  "getApproval s env i =
    (case ax_approvals s of NoStore \<Rightarrow> reply s 503 (JError ''approvals not enabled'')
     | st \<Rightarrow>
        (case (case st of FileApprovals f \<Rightarrow> fs_Get f i (xe_clock env 0) | _ \<Rightarrow> crd_Get i) of
           None \<Rightarrow> reply s 404 (JError ''approval not found'')
         | Some r \<Rightarrow> reply s 200 (JApproval r)))"

definition decision_error :: "ApprovalError \<Rightarrow> response" where
  "decision_error e = (case e of
       ErrNotFound \<Rightarrow> (404, JError ''approval not found'')
     | ErrFourEyes \<Rightarrow> (403, JError ''four-eyes: you may not decide your own request'')
     | ErrNotPeerGroup \<Rightarrow> (403, JError ''group-scoped four-eyes: you are not a member of the requester's role-granting group'')
     | ErrNotPending \<Rightarrow> (409, JError ''approval is not pending'')
     | ErrStoreUnavailable \<Rightarrow> (503, JError ''approval store unavailable'')
     | ErrCtx \<Rightarrow> (500, JError ''decision failed''))"

definition decision_response :: "(ApprovalError, ApprovalRequest) result \<Rightarrow> response" where
  "decision_response r = (case r of Inl e \<Rightarrow> decision_error e | Inr req \<Rightarrow> (200, JApproval req))"

definition decideApproval :: "'c api_Server \<Rightarrow> 'c api_env \<Rightarrow> api_Identity \<Rightarrow> string \<Rightarrow> bool \<Rightarrow> 'c handled" where
  "decideApproval s env caller i approve =
    (let approver = ai_Subject caller in
     case ax_approvals s of
       NoStore \<Rightarrow> reply s 503 (JError ''approvals not enabled'')
     | CRDApprovals \<Rightarrow> (s, decision_response (if approve then crd_Approve i approver else crd_Deny i approver), None)
     | FileApprovals st \<Rightarrow>
        (case (if approve then fs_Approve else fs_Deny) st (xe_groups env) (xe_others env) i approver
                (xe_clock env 0) (xe_clock env 1) (xe_clock env 2) (xe_clock env 3) (xe_wok env) of
           (st', r) \<Rightarrow> (s\<lparr>ax_approvals := FileApprovals st'\<rparr>, decision_response r, None)))"

text \<open>
  \<open>streamSession\<close> attaches a supervisor; the loop then writes the events it
  receives until the session ends (or the client goes away).
\<close>

definition streamSession :: "'c api_Server \<Rightarrow> string \<Rightarrow> 'c handled" where
  "streamSession s i =
    (case rg_Get (ax_reg s) i of None \<Rightarrow> reply s 404 (JError ''session not found'')
     | Some _ \<Rightarrow> (case Subscribe (ax_reg s) i of (reg, sub) \<Rightarrow> (s\<lparr>ax_reg := reg\<rparr>, (200, JStream i sub), None)))"

fun stream_loop :: "sup_Event list \<Rightarrow> sup_Event list \<times> bool" where
  "stream_loop [] = ([], False)"
| "stream_loop (ev # evs) =
    (if se_Kind ev = ''session_end'' then ([ev], True)
     else (case stream_loop evs of (out, ended) \<Rightarrow> (ev # out, ended)))"

section \<open>Routes\<close>

datatype route =
    RHealth | RReady | RListSessions | RGetSession string | RTerminate string | RStream string
  | RGetPolicy | RListApprovals | RGetApproval string | RApprove string | RDeny string

definition is_get :: "string \<Rightarrow> bool" where
  "is_get m = (m = ''GET'' \<or> m = ''HEAD'')"

text \<open>The patterns of \<^verbatim>\<open>routes\<close>; a wildcard matches one segment that is not empty.\<close>

fun api_route :: "string \<Rightarrow> string list \<Rightarrow> route option" where
  "api_route m [a] =
    (if \<not> is_get m then None else if a = ''healthz'' then Some RHealth else if a = ''readyz'' then Some RReady else None)"
| "api_route m [a, v, c] =
    (if a = ''api'' \<and> v = ''v1'' \<and> is_get m then
       (if c = ''sessions'' then Some RListSessions else if c = ''policy'' then Some RGetPolicy
        else if c = ''approvals'' then Some RListApprovals else None) else None)"
| "api_route m [a, v, c, i] =
    (if a = ''api'' \<and> v = ''v1'' \<and> i \<noteq> [] then
       (if c = ''sessions'' then (if is_get m then Some (RGetSession i) else if m = ''DELETE'' then Some (RTerminate i) else None)
        else if c = ''approvals'' \<and> is_get m then Some (RGetApproval i) else None) else None)"
| "api_route m [a, v, c, i, x] =
    (if a = ''api'' \<and> v = ''v1'' \<and> i \<noteq> [] then
       (if c = ''sessions'' \<and> x = ''stream'' \<and> is_get m then Some (RStream i)
        else if c = ''approvals'' \<and> m = ''POST'' then
          (if x = ''approve'' then Some (RApprove i) else if x = ''deny'' then Some (RDeny i) else None)
        else None) else None)"
| "api_route m _ = None"

definition require :: "'c api_Server \<Rightarrow> api_request \<Rightarrow> api_Role \<Rightarrow> (api_Identity \<Rightarrow> 'c handled) \<Rightarrow> 'c handled" where
  "require s rq need h =
    (case ax_authz s rq of None \<Rightarrow> reply s 401 (JError ''unauthenticated'')
     | Some i \<Rightarrow> if \<not> atLeast_role (ai_Role i) need then reply s 403 (JError (''forbidden: requires '' @ need)) else h i)"

definition ServeHTTP :: "'c api_Server \<Rightarrow> 'c api_env \<Rightarrow> api_request \<Rightarrow> 'c handled" where
  "ServeHTTP s env rq =
    (case api_route (hq_Method rq) (hq_Path rq) of
       None \<Rightarrow> reply s 404 (JError ''404 page not found'')
     | Some RHealth \<Rightarrow> reply s 200 (JStatus ''ok'')
     | Some RReady \<Rightarrow> if ax_ready s then reply s 200 (JStatus ''ready'') else reply s 503 (JStatus ''not ready'')
     | Some RListSessions \<Rightarrow> require s rq RoleViewer (\<lambda>_. listSessions s env)
     | Some (RGetSession i) \<Rightarrow> require s rq RoleViewer (\<lambda>_. getSession s i)
     | Some (RTerminate i) \<Rightarrow> require s rq RoleOperator (\<lambda>_. terminateSession s env i)
     | Some (RStream i) \<Rightarrow> require s rq RoleViewer (\<lambda>_. streamSession s i)
     | Some RGetPolicy \<Rightarrow> require s rq RoleViewer (\<lambda>_. getPolicy s)
     | Some RListApprovals \<Rightarrow> require s rq RoleViewer (\<lambda>_. listApprovals s env)
     | Some (RGetApproval i) \<Rightarrow> require s rq RoleViewer (\<lambda>_. getApproval s env i)
     | Some (RApprove i) \<Rightarrow> require s rq RoleOperator (\<lambda>caller. decideApproval s env caller i True)
     | Some (RDeny i) \<Rightarrow> require s rq RoleOperator (\<lambda>caller. decideApproval s env caller i False))"

section \<open>Who may do what\<close>

text \<open>The contract of an \<^verbatim>\<open>Authorizer\<close>: an identity it returns has a known role.\<close>

locale api_authorizer =
  fixes authorize :: Authorizer
  assumes ranked: "authorize rq = Some i \<Longrightarrow> 0 < role_rank (ai_Role i)"
begin

lemma admitted_iff: "authorize rq = Some i \<Longrightarrow> atLeast_role (ai_Role i) need \<longleftrightarrow> role_rank need \<le> role_rank (ai_Role i)"
  using ranked by (auto simp: atLeast_role_def)

lemma viewer_admitted: "authorize rq = Some i \<Longrightarrow> atLeast_role (ai_Role i) RoleViewer"
  using ranked [of rq i] admitted_iff [of rq i RoleViewer] by (simp add: role_rank_def)

end

interpretation token: api_authorizer "token_Authorize tokens" for tokens
  by unfold_locales (auto simp: token_Authorize_def role_rank_def split: option.splits if_splits)

interpretation mtls: api_authorizer "mtls_Authorize cnRoles" for cnRoles
  by unfold_locales (auto simp: mtls_Authorize_def role_rank_def split: option.splits if_splits)

text \<open>How a guarded handler ends.\<close>

lemma require_cases:
  assumes "require s rq need h = x"
  obtains (refused) code msg where "x = reply s code (JError msg)" "code = 401 \<or> code = 403"
    "\<not> (\<exists>i. ax_authz s rq = Some i \<and> atLeast_role (ai_Role i) need)"
  | (admitted) i where "ax_authz s rq = Some i" "atLeast_role (ai_Role i) need" "x = h i"
  using assms by (cases "ax_authz s rq") (auto simp: require_def split: if_splits)

definition state_changing :: "'c api_Server \<Rightarrow> 'c handled \<Rightarrow> bool" where
  "state_changing s x \<longleftrightarrow> ax_approvals (fst x) \<noteq> ax_approvals s \<or> ax_policy (fst x) \<noteq> ax_policy s
     \<or> r_entries (ax_reg (fst x)) \<noteq> r_entries (ax_reg s) \<or> snd (snd x) \<noteq> None"

definition operator_route :: "route \<Rightarrow> bool" where
  "operator_route r = (case r of RTerminate _ \<Rightarrow> True | RApprove _ \<Rightarrow> True | RDeny _ \<Rightarrow> True | _ \<Rightarrow> False)"

definition probe_route :: "route \<Rightarrow> bool" where
  "probe_route r = (r = RHealth \<or> r = RReady)"

lemma readers_change_nothing [simp]:
  "\<not> state_changing s (reply s code body)" "\<not> state_changing s (listSessions s env)" "\<not> state_changing s (getSession s i)"
  "\<not> state_changing s (streamSession s i)" "\<not> state_changing s (getPolicy s)" "\<not> state_changing s (listApprovals s env)"
  "\<not> state_changing s (getApproval s env i)"
  by (auto simp: state_changing_def reply_def listSessions_def getSession_def streamSession_def getPolicy_def listApprovals_def
      getApproval_def Subscribe_def Let_def split: option.splits api_store.splits prod.splits)

lemma require_effect: "state_changing s (require s rq need h) \<Longrightarrow> \<exists>i. ax_authz s rq = Some i \<and> atLeast_role (ai_Role i) need \<and> state_changing s (h i)"
  by (cases rule: require_cases [OF refl, of s rq need h]) auto

lemma require_success: "fst (snd (require s rq need h)) = (200, body) \<Longrightarrow> \<exists>i. ax_authz s rq = Some i \<and> atLeast_role (ai_Role i) need"
  by (cases rule: require_cases [OF refl, of s rq need h]) (auto simp: reply_def)

text \<open>
  C37.  Fail closed: a request gets a positive answer on anything but the two
  health probes only for a caller that the authorizer identified with at least
  the viewer role, and only a caller with at least the operator role ever changes
  the approvals, the sessions or closes a connection; no request changes the
  policy.
\<close>

theorem api_access:
  assumes "api_route (hq_Method rq) (hq_Path rq) = Some r"
  shows "(fst (snd (ServeHTTP s env rq)) = (200, body) \<longrightarrow> probe_route r \<or>
      (\<exists>i. ax_authz s rq = Some i \<and> atLeast_role (ai_Role i) (if operator_route r then RoleOperator else RoleViewer)))
    \<and> (state_changing s (ServeHTTP s env rq) \<longrightarrow>
      operator_route r \<and> (\<exists>i. ax_authz s rq = Some i \<and> atLeast_role (ai_Role i) RoleOperator))"
  using assms
  by (cases r) (auto simp: ServeHTTP_def probe_route_def operator_route_def dest: require_success require_effect split: if_splits)

definition lab_tokens :: "(string \<times> api_Identity) list" where
  "lab_tokens = [(''t-bob'', \<lparr>ai_Subject = ''bob'', ai_Role = RoleOperator\<rparr>), (''t-eve'', \<lparr>ai_Subject = ''eve'', ai_Role = RoleViewer\<rparr>)]"

definition lab_api :: "nat api_Server" where
  "lab_api = \<lparr>ax_reg = lab_registry, ax_policy = \<lparr>po_Roles = []\<rparr>, ax_authz = token_Authorize lab_tokens,
     ax_approvals = FileApprovals (as_store lab_created), ax_ready = True\<rparr>"

definition lab_api_env :: "nat api_env" where
  "lab_api_env = \<lparr>xe_order = [], xe_close = (\<lambda>_. True), xe_groups = (\<lambda>_. None), xe_others = (\<lambda>st. st), xe_clock = (\<lambda>_. 1), xe_wok = True\<rparr>"

definition lab_call :: "string \<Rightarrow> string \<Rightarrow> string list \<Rightarrow> api_request" where
  "lab_call m tok path = \<lparr>hq_Method = m, hq_Path = path, hq_Authorization = ''Bearer '' @ tok, hq_PeerCN = None\<rparr>"

theorem api_access_witness:
  "snd (snd (ServeHTTP lab_api lab_api_env (lab_call ''DELETE'' ''t-bob'' [''api'', ''v1'', ''sessions'', ''s1'']))) = Some 1
    \<and> (\<exists>i. ax_authz lab_api (lab_call ''DELETE'' ''t-bob'' [''api'', ''v1'', ''sessions'', ''s1'']) = Some i
        \<and> atLeast_role (ai_Role i) RoleOperator)
    \<and> \<not> state_changing lab_api (ServeHTTP lab_api lab_api_env (lab_call ''DELETE'' ''t-eve'' [''api'', ''v1'', ''sessions'', ''s1'']))"
proof -
  let ?b = "lab_call ''DELETE'' ''t-bob'' [''api'', ''v1'', ''sessions'', ''s1'']"
  let ?e = "lab_call ''DELETE'' ''t-eve'' [''api'', ''v1'', ''sessions'', ''s1'']"
  have r: "api_route (hq_Method rq) (hq_Path rq) = Some (RTerminate ''s1'')" if "rq = ?b \<or> rq = ?e" for rq
    using that by (auto simp: lab_call_def is_get_def)
  have "map_option (\<lambda>i. atLeast_role (ai_Role i) RoleOperator) (ax_authz lab_api ?e) = Some False" by code_simp
  then have "\<not> (\<exists>i. ax_authz lab_api ?e = Some i \<and> atLeast_role (ai_Role i) RoleOperator)" by auto
  with api_access [OF r [of ?e], of lab_api lab_api_env] have "\<not> state_changing lab_api (ServeHTTP lab_api lab_api_env ?e)" by blast
  moreover have c: "snd (snd (ServeHTTP lab_api lab_api_env ?b)) = Some 1" by code_simp
  moreover from c have "state_changing lab_api (ServeHTTP lab_api lab_api_env ?b)" by (simp add: state_changing_def)
  with api_access [OF r [of ?b], of lab_api lab_api_env] have "\<exists>i. ax_authz lab_api ?b = Some i \<and> atLeast_role (ai_Role i) RoleOperator" by blast
  ultimately show ?thesis by blast
qed

section \<open>Decisions are made by the caller\<close>

text \<open>Other callers do not rewrite a request: its requester stays.\<close>

definition keeps_requesters :: "FileStore \<Rightarrow> FileStore \<Rightarrow> bool" where
  "keeps_requesters st st' \<longleftrightarrow>
    (\<forall>k r r'. map_of (fs_requests st) k = Some r \<longrightarrow> map_of (fs_requests st') k = Some r' \<longrightarrow> rq_Requester r' = rq_Requester r)"

lemma decide_commit_result:
  "snd (decide_commit s rid approver status t3 t4 wok) = Inr r' \<Longrightarrow>
    \<exists>r. map_of (fs_requests s) rid = Some r \<and> r' = r\<lparr>rq_Status := status, rq_Approver := approver, rq_DecidedAt := t3\<rparr>"
  by (auto simp: decide_commit_def Let_def split: option.splits prod.splits bool.splits)

lemma fs_decide_result:
  assumes "fs_decide st gl others rid approver status t1 t2 t3 t4 wok = (st', Inr r)" and "keeps_requesters st (others st)"
  shows "rq_Approver r = approver \<and> rq_Status r = status \<and> four_eyes approver r"
proof -
  obtain r0 where r0: "map_of (fs_requests st) rid = Some r0" "four_eyes approver r0"
    using assms(1) by (auto simp: fs_decide_def decide_check_def four_eyes_def split: option.splits if_splits)
  have "\<exists>s'. (s' = st \<or> s' = others st) \<and> snd (decide_commit s' rid approver status t3 t4 wok) = Inr r"
    using assms(1) by (auto simp: fs_decide_def split: decide_next.splits option.splits)
  then obtain s' where s': "s' = st \<or> s' = others st" "snd (decide_commit s' rid approver status t3 t4 wok) = Inr r" by blast
  from decide_commit_result [OF s'(2)] obtain r1 where
    r1: "map_of (fs_requests s') rid = Some r1" "r = r1\<lparr>rq_Status := status, rq_Approver := approver, rq_DecidedAt := t3\<rparr>" by blast
  have "rq_Requester r1 = rq_Requester r0" using s'(1) r0(1) r1(1) assms(2) by (auto simp: keeps_requesters_def)
  with r0(2) r1(2) show ?thesis by (simp add: four_eyes_def)
qed

text \<open>
  Four-eyes over the API is against the verified caller: an approval that the
  API confirms was decided by the authenticated operator, who is recorded as the
  approver and is not the requester, whatever name the request might carry and
  whatever other callers of the store do meanwhile.
\<close>

theorem api_decision_by_caller:
  assumes "ServeHTTP s env rq = (s', (200, JApproval r), closed)"
    and "api_route (hq_Method rq) (hq_Path rq) = Some (RApprove i)"
    and "\<And>st. ax_approvals s = FileApprovals st \<Longrightarrow> keeps_requesters st (xe_others env st)"
  shows "\<exists>caller. ax_authz s rq = Some caller \<and> atLeast_role (ai_Role caller) RoleOperator
    \<and> rq_Approver r = ai_Subject caller \<and> rq_Status r = StatusApproved \<and> four_eyes (ai_Subject caller) r"
proof -
  from assms(1,2) have "require s rq RoleOperator (\<lambda>caller. decideApproval s env caller i True) = (s', (200, JApproval r), closed)"
    by (simp add: ServeHTTP_def)
  then obtain caller where c: "ax_authz s rq = Some caller" "atLeast_role (ai_Role caller) RoleOperator"
    "decideApproval s env caller i True = (s', (200, JApproval r), closed)"
    by (cases rule: require_cases) (auto simp: reply_def)
  from c(3) obtain st st' where "ax_approvals s = FileApprovals st"
    "fs_decide st (xe_groups env) (xe_others env) i (ai_Subject caller) StatusApproved
       (xe_clock env 0) (xe_clock env 1) (xe_clock env 2) (xe_clock env 3) (xe_wok env) = (st', Inr r)"
    by (auto simp: decideApproval_def Let_def reply_def decision_response_def decision_error_def crd_Approve_def fs_Approve_def
        split: api_store.splits prod.splits sum.splits ApprovalError.splits)
  with fs_decide_result [OF this(2) assms(3)] c(1,2) show ?thesis by blast
qed

theorem api_decision_by_caller_witness:
  "\<exists>s' r closed. ServeHTTP lab_api lab_api_env (lab_call ''POST'' ''t-bob'' [''api'', ''v1'', ''approvals'', ''r1'', ''approve''])
      = (s', (200, JApproval r), closed) \<and> rq_Approver r = ''bob'' \<and> four_eyes ''bob'' r"
proof -
  let ?rq = "lab_call ''POST'' ''t-bob'' [''api'', ''v1'', ''approvals'', ''r1'', ''approve'']"
  have "case ServeHTTP lab_api lab_api_env ?rq of (s', (c, JApproval r), closed) \<Rightarrow> c = 200 | _ \<Rightarrow> False" by code_simp
  then obtain s' r closed where x: "ServeHTTP lab_api lab_api_env ?rq = (s', (200, JApproval r), closed)"
    by (auto split: prod.splits api_body.splits)
  have "api_route (hq_Method ?rq) (hq_Path ?rq) = Some (RApprove ''r1'')" by (simp add: lab_call_def is_get_def)
  from api_decision_by_caller [OF x this] have "\<exists>caller. ax_authz lab_api ?rq = Some caller \<and> rq_Approver r = ai_Subject caller
      \<and> four_eyes (ai_Subject caller) r" by (auto simp: lab_api_def lab_api_env_def keeps_requesters_def)
  moreover have "map_option ai_Subject (ax_authz lab_api ?rq) = Some ''bob''" by code_simp
  ultimately show ?thesis using x by auto
qed

end
