(* ===== verification/Explain.thy ===== *)
theory Explain
  imports Api
begin

text \<open>
  The rule trace of the operator's console, \<^verbatim>\<open>internal/tui/explain.go\<close>: the policy
  is rebuilt from the API's view of it and evaluated with the same decision
  procedure as the gateway, but offline, without resolving names.
\<close>

definition rule_of_view :: "RuleView \<Rightarrow> Rule" where
  "rule_of_view ru = \<lparr>ru_Host = rv_Host ru, ru_Ports = rv_Ports ru, ru_Record = rv_Record ru, ru_Credential = rv_Credential ru,
     ru_RequireApproval = rv_RequireApproval ru, ru_TargetUser = [], ru_AllowTargetUsers = [], ru_ExpectProtocol = []\<rparr>"

definition PolicyFromView :: "PolicyView \<Rightarrow> Policy" where
  "PolicyFromView pv = \<lparr>po_Roles =
     map (\<lambda>v. \<lparr>ro_Name = ov_Name v, ro_Groups = ov_Groups v, ro_Allow = map rule_of_view (ov_Allow v)\<rparr>) (pv_Roles pv)\<rparr>"

record Explanation =
  xp_Decision :: Decision
  xp_Reachable :: bool
  xp_Lines :: "string list"

definition orNone :: "string \<Rightarrow> string" where
  "orNone s = (if s = [] then ''none'' else s)"

definition rolesHeld :: "Policy \<Rightarrow> Principal \<Rightarrow> string list" where
  "rolesHeld p pr =
    (let have_groups = map ToLower (pr_Groups pr)
     in map ro_Name (filter (\<lambda>r. list_ex (\<lambda>g. ToLower g \<in> set have_groups) (ro_Groups r)) (po_Roles p)))"

definition unevaluatedCIDRRules :: "Policy \<Rightarrow> Principal \<Rightarrow> string \<Rightarrow> nat" where
  "unevaluatedCIDRRules p pr host =
    (if ParseIP host \<noteq> None then 0
     else let have_groups = map ToLower (pr_Groups pr)
       in length (filter (\<lambda>rule. ru_Host rule \<noteq> ''*'' \<and> Contains (ru_Host rule) ''/'')
            (concat (map ro_Allow (filter (\<lambda>r. list_ex (\<lambda>g. ToLower g \<in> set have_groups) (ro_Groups r)) (po_Roles p))))))"

text \<open>The principal that \<open>Explain\<close> asks about: only the user and the groups are set.\<close>

definition asked :: "string \<Rightarrow> string list \<Rightarrow> Principal" where
  "asked user groups = \<lparr>pr_User = user, pr_Groups = groups, pr_TargetHost = [], pr_TargetSecretToken = [], pr_TargetPort = 0,
     pr_RequestedTargetUser = [], pr_SelectedRole = []\<rparr>"

abbreviation arrow :: string where "arrow \<equiv> [CHR 0xE2, CHR 0x86, CHR 0x92]"

definition allow_lines :: "Decision \<Rightarrow> string list" where
  "allow_lines d =
     [''  record:     '' @ orNone (d_RecordMode d), ''  credential: '' @ orNone (d_CredentialMode d)]
     @ (if d_RequireApproval d then [''  four-eyes:  approval required before connect''] else [])
     @ (if \<not> ForwardingAllowed d then [''  forwarding: -L REFUSED (target requires full recording)''] else [])"

text \<open>\<open>q\<close> is the quoting of \<^verbatim>\<open>fmt\<close>'s \<^verbatim>\<open>%q\<close>.\<close>

definition deny_lines :: "(string \<Rightarrow> string) \<Rightarrow> Policy \<Rightarrow> Principal \<Rightarrow> string \<Rightarrow> string list" where
  "deny_lines q p pr host =
    (let held = rolesHeld p pr; n = unevaluatedCIDRRules p pr host in
     [if held \<noteq> [] then ''  roles held: '' @ Join held '', '' else ''  roles held: none (no group grants a role)'']
     @ (if n > 0 then [''  NOTE: '' @ show_nat n @ '' CIDR rule(s) held could grant this if '' @ q host @
          '' resolves inside their range '' @ em_dash @
          '' Explain checks offline and does not resolve hostnames, so this deny is not conclusive''] else []))"

definition Explain :: "(string \<Rightarrow> string) \<Rightarrow> PolicyView \<Rightarrow> string \<Rightarrow> string list \<Rightarrow> string \<Rightarrow> int \<Rightarrow> Explanation" where
  "Explain q pv user groups host port =
    (let p = PolicyFromView pv; pr = asked user groups;
         d = Decide p pr \<lparr>t_Host = host, t_Port = port\<rparr> None;
         credDeny = (d_Allow d \<and> d_CredentialMode d = ''deny'')
     in \<lparr>xp_Decision = d, xp_Reachable = (d_Allow d \<and> \<not> credDeny),
         xp_Lines = (user @ '' (groups: '' @ Join groups '','' @ '')  '' @ arrow @ ''  '' @ host @ '':'' @ show_int port) #
           (if d_Allow d then
              (if credDeny then ''ALLOW by policy '' @ em_dash @ '' but connection REFUSED (credential mode: deny)''
               else ''ALLOW '' @ em_dash @ '' matched role '' @ d_MatchedRole d) # allow_lines d
            else (''DENY '' @ em_dash @ '' '' @ d_Reason d) # deny_lines q p pr host)\<rparr>)"

section \<open>The view keeps what a decision depends on\<close>

text \<open>A rule as it looks after the round trip: what a decision carries for the session is gone.\<close>

definition viewed_rule :: "Rule \<Rightarrow> Rule" where
  "viewed_rule r = r\<lparr>ru_TargetUser := [], ru_AllowTargetUsers := [], ru_ExpectProtocol := []\<rparr>"

definition viewed_role :: "Role \<Rightarrow> Role" where
  "viewed_role r = r\<lparr>ro_Allow := map viewed_rule (ro_Allow r)\<rparr>"

definition viewed_decision :: "Decision \<Rightarrow> Decision" where
  "viewed_decision d = d\<lparr>d_TargetUser := [], d_AllowTargetUsers := [], d_ExpectProtocol := []\<rparr>"

lemma PolicyFromView_ToView: "PolicyFromView (PolicyToView p) = \<lparr>po_Roles = map viewed_role (po_Roles p)\<rparr>"
  by (simp add: PolicyFromView_def PolicyToView_def viewed_role_def viewed_rule_def rule_of_view_def rule_view_def comp_def)

lemma viewed_simps [simp]:
  "ro_Name (viewed_role r) = ro_Name r" "ro_Groups (viewed_role r) = ro_Groups r"
  "matches (viewed_rule ru) t = matches ru t" "rule_cidr (viewed_rule ru) = rule_cidr ru" "matchesPort (viewed_rule ru) n = matchesPort ru n"
  "allow_by pr (viewed_role r) (viewed_rule ru) c = viewed_decision (allow_by pr r ru c)"
  "viewed_decision (deny s) = deny s"
  by (simp_all add: viewed_role_def viewed_rule_def matches_def matchesPort_def rule_cidr_def allow_by_def viewed_decision_def deny_def)

lemma rolesFor_viewed: "rolesFor \<lparr>po_Roles = map viewed_role rs\<rparr> pr = map viewed_role (rolesFor \<lparr>po_Roles = rs\<rparr> pr)"
  by (simp add: rolesFor_def Let_def filter_map comp_def)

lemma find_map: "List.find P (map f xs) = map_option f (List.find (P \<circ> f) xs)"
  by (induction xs) auto

lemma selectRoles_viewed:
  "selectRoles \<lparr>po_Roles = map viewed_role rs\<rparr> pr = map_option (map viewed_role) (selectRoles \<lparr>po_Roles = rs\<rparr> pr)"
  by (simp add: selectRoles_def Let_def rolesFor_viewed find_map comp_def split: option.splits)

lemma role_rules_viewed: "role_rules (map viewed_role rs) = map (map_prod viewed_role viewed_rule) (role_rules rs)"
  by (induction rs) (auto simp: role_rules_def viewed_role_def)

lemma roleNames_viewed: "roleNames (map viewed_role rs) = roleNames rs"
  by (simp add: roleNames_def comp_def)

lemma range_hit_viewed: "range_hit t res (map_prod viewed_role viewed_rule x) = range_hit t res x"
  by (simp add: range_hit_def split: option.splits)

lemma Decide_viewed: "Decide \<lparr>po_Roles = map viewed_role rs\<rparr> pr t res = viewed_decision (Decide \<lparr>po_Roles = rs\<rparr> pr t res)"
  by (simp add: Decide_eq selectRoles_viewed role_rules_viewed roleNames_viewed find_map comp_def range_hit_viewed split: option.splits)

text \<open>Offline, a name resolves to nothing: what is allowed then is allowed with any resolver.\<close>

lemma targetIPs_offline: "targetIPs host None = (case ParseIP host of Some ip \<Rightarrow> [ip] | None \<Rightarrow> [])"
  by (simp add: targetIPs_def split: option.splits)

lemma Decide_same_addresses: "targetIPs (t_Host t) res = targetIPs (t_Host t) res' \<Longrightarrow> Decide p pr t res = Decide p pr t res'"
  unfolding Decide_def by (elim ssubst) (rule refl)

lemma range_hit_offline: "ParseIP (t_Host t) = None \<Longrightarrow> \<not> range_hit t None x"
  by (simp add: range_hit_def targetIPs_offline allIn_def split: option.splits)

lemma Decide_offline:
  assumes "d_Allow (Decide p pr t None)"
  shows "Decide p pr t res = Decide p pr t None"
proof (cases "ParseIP (t_Host t)")
  case None
  then have "List.find (range_hit t None) xs = None" for xs by (simp add: find_None_iff range_hit_offline)
  with assms show ?thesis by (auto simp: Decide_eq split: option.splits if_splits)
next
  case (Some ip)
  then have "targetIPs (t_Host t) res = targetIPs (t_Host t) None" by (simp add: targetIPs_def)
  then show ?thesis by (rule Decide_same_addresses)
qed

text \<open>Without the note, no rule that is held is a range, so a resolver changes nothing.\<close>

lemma no_range_rules:
  assumes "unevaluatedCIDRRules p pr host = 0" and "ParseIP host = None" and "pr_SelectedRole pr = []"
    and "x \<in> set (role_rules (rolesFor p pr))"
  shows "rule_cidr (snd x) = None"
  using assms by (fastforce simp: unevaluatedCIDRRules_def rolesFor_def role_rules_def rule_cidr_def Let_def filter_empty_conv)

lemma Decide_no_ranges:
  assumes "unevaluatedCIDRRules p pr (t_Host t) = 0" and "pr_SelectedRole pr = []"
  shows "Decide p pr t res = Decide p pr t None"
proof (cases "ParseIP (t_Host t)")
  case (Some ip)
  then have "targetIPs (t_Host t) res = targetIPs (t_Host t) None" by (simp add: targetIPs_def)
  then show ?thesis by (rule Decide_same_addresses)
next
  case None
  have "List.find (range_hit t r) (role_rules (rolesFor p pr)) = None" for r
    using no_range_rules [OF assms(1) None assms(2)] by (auto simp: find_None_iff range_hit_def)
  then show ?thesis using assms(2) by (auto simp: Decide_eq selectRoles_def Let_def split: option.splits)
qed

text \<open>
  The trace tells the truth about the gateway: what \<open>Explain\<close> shows for the
  view of a policy is the gateway's own decision for that policy, up to the
  account and protocol settings that the view leaves out, whenever it is an
  allow, and also when it is a deny without the note about ranges; with the note
  a resolver may only turn the deny into an allow.  The roles it lists are those
  the gateway counts as held.
\<close>

theorem explanation_true:
  "(let e = Explain q (PolicyToView p) user groups host port; pr = asked user groups; t = \<lparr>t_Host = host, t_Port = port\<rparr> in
     (d_Allow (xp_Decision e) \<or> unevaluatedCIDRRules p pr host = 0 \<longrightarrow> xp_Decision e = viewed_decision (Decide p pr t res))
     \<and> (xp_Reachable e \<longrightarrow> d_Allow (Decide p pr t res) \<and> d_CredentialMode (Decide p pr t res) \<noteq> ''deny'')
     \<and> rolesHeld (PolicyFromView (PolicyToView p)) pr = map ro_Name (rolesFor p pr))"
proof -
  let ?pr = "asked user groups" and ?t = "\<lparr>t_Host = host, t_Port = port\<rparr>"
  let ?e = "Explain q (PolicyToView p) user groups host port"
  have p: "\<lparr>po_Roles = po_Roles p\<rparr> = p" by simp
  have e: "xp_Decision ?e = viewed_decision (Decide p ?pr ?t None)"
    using Decide_viewed [of "po_Roles p" ?pr ?t None] by (simp add: Explain_def Let_def PolicyFromView_ToView p)
  have v: "d_Allow (viewed_decision d) = d_Allow d" "d_CredentialMode (viewed_decision d) = d_CredentialMode d" for d
    by (simp_all add: viewed_decision_def)
  have "Decide p ?pr ?t None = Decide p ?pr ?t res" if "d_Allow (Decide p ?pr ?t None) \<or> unevaluatedCIDRRules p ?pr host = 0"
    using that Decide_offline [of p ?pr ?t res] Decide_no_ranges [of p ?pr ?t res] by (auto simp: asked_def)
  moreover have "xp_Reachable ?e \<longleftrightarrow> d_Allow (xp_Decision ?e) \<and> d_CredentialMode (xp_Decision ?e) \<noteq> ''deny''"
    by (auto simp: Explain_def Let_def)
  moreover have "rolesHeld (PolicyFromView (PolicyToView p)) ?pr = map ro_Name (rolesFor p ?pr)"
    by (simp add: rolesHeld_def rolesFor_def Let_def PolicyFromView_ToView filter_map comp_def)
  ultimately show ?thesis by (auto simp: Let_def e v)
qed

definition lab_view_policy :: Policy where
  "lab_view_policy = \<lparr>po_Roles = [\<lparr>ro_Name = ''dba'', ro_Groups = [''DBA''], ro_Allow =
     [\<lparr>ru_Host = ''db1'', ru_Ports = [5432], ru_Record = ''none'', ru_Credential = ''inject'', ru_RequireApproval = True,
       ru_TargetUser = ''postgres'', ru_AllowTargetUsers = [], ru_ExpectProtocol = [''postgres'']\<rparr>]\<rparr>]\<rparr>"

theorem explanation_true_witness:
  "d_Allow (Decide lab_view_policy (asked ''alice'' [''dba'']) \<lparr>t_Host = ''db1'', t_Port = 5432\<rparr> (Some (\<lambda>_. None)))
    \<and> xp_Reachable (Explain id (PolicyToView lab_view_policy) ''alice'' [''dba''] ''db1'' 5432)"
proof -
  let ?d = "Decide (PolicyFromView (PolicyToView lab_view_policy)) (asked ''alice'' [''dba'']) \<lparr>t_Host = ''db1'', t_Port = 5432\<rparr> None"
  have "d_Allow ?d \<and> d_CredentialMode ?d = ''inject''" by code_simp
  then have "xp_Reachable (Explain id (PolicyToView lab_view_policy) ''alice'' [''dba''] ''db1'' 5432)"
    by (simp add: Explain_def Let_def)
  with explanation_true [of id lab_view_policy "''alice''" "[''dba'']" "''db1''" 5432 "Some (\<lambda>_. None)"] show ?thesis by (simp add: Let_def)
qed

end
