(* ===== verification/Recording.thy ===== *)
theory Recording
  imports Complex_Main Go_Std Merkle
begin

text \<open>
  Terminal recordings: the recorder of \<^verbatim>\<open>internal/recording/recording.go\<close>, which
  writes asciicast lines and hashes what it wrote, and the parser and player of
  \<^verbatim>\<open>internal/tui/player.go\<close> that replay them.

  The JSON codec, the hash and the conversion of a duration to seconds are
  arguments.  A float is the rational it denotes; the code only compares them.
  The outcome of each write to the store is an argument as well.
\<close>

record cast_codec =
  jc_header :: "int \<Rightarrow> int \<Rightarrow> time \<Rightarrow> string"           \<comment> \<open>marshal the header: width, height, start\<close>
  jc_event :: "rat \<Rightarrow> string \<Rightarrow> string \<Rightarrow> string"      \<comment> \<open>marshal an event: seconds, kind, data\<close>
  jc_parse_header :: "string \<Rightarrow> (int \<times> int \<times> int) option"
  jc_parse_event :: "string \<Rightarrow> (rat \<times> string \<times> string) option"
  jc_seconds :: "duration \<Rightarrow> rat"

section \<open>The recorder\<close>

record Manifest =
  mf_Key :: string
  mf_SHA256 :: string
  mf_Bytes :: int
  mf_Duration :: duration
  mf_StartedAt :: time
  mf_Width :: int
  mf_Height :: int

text \<open>\<open>rd_dest\<close> is what the store got, \<open>rd_hashed\<close> what went into the hash.\<close>

record Recorder =
  rd_dest :: string
  rd_hashed :: string
  rd_key :: string
  rd_start :: time
  rd_width :: int
  rd_height :: int
  rd_written :: int
  rd_err :: "string option"
  rd_closed :: bool

text \<open>
  One write to the store: all of it, or the first \<open>n\<close> bytes and an error.  The
  multi-writer feeds the hash only after the store took the whole line.
\<close>

type_synonym write_outcome = "(nat \<times> string) option"

definition writeLine :: "Recorder \<Rightarrow> string \<Rightarrow> write_outcome \<Rightarrow> Recorder \<times> string option" where
  "writeLine r line out =
    (let l = line @ [CHR 0x0A] in
     case out of
       None \<Rightarrow> (r\<lparr>rd_dest := rd_dest r @ l, rd_hashed := rd_hashed r @ l, rd_written := rd_written r + int (length l)\<rparr>, None)
     | Some (n, e) \<Rightarrow> (r\<lparr>rd_dest := rd_dest r @ take n l, rd_written := rd_written r + int (length (take n l))\<rparr>, Some e))"

definition NewRecorder :: "cast_codec \<Rightarrow> string \<Rightarrow> int \<Rightarrow> int \<Rightarrow> time \<Rightarrow> write_outcome \<Rightarrow> (string, Recorder) result" where
  "NewRecorder c key width height now out =
    (let w = (if width \<le> 0 then 80 else width); h = (if height \<le> 0 then 24 else height);
         r = \<lparr>rd_dest = [], rd_hashed = [], rd_key = key, rd_start = now, rd_width = w, rd_height = h, rd_written = 0,
              rd_err = None, rd_closed = False\<rparr>
     in case writeLine r (jc_header c w h now) out of (r', Some e) \<Rightarrow> Inl e | (r', None) \<Rightarrow> Inr r')"

definition rec_event :: "cast_codec \<Rightarrow> Recorder \<Rightarrow> string \<Rightarrow> string \<Rightarrow> time \<Rightarrow> write_outcome \<Rightarrow> Recorder" where
  "rec_event c r kind p now out =
    (if p = [] then r
     else if rd_closed r \<or> rd_err r \<noteq> None then r
     else case writeLine r (jc_event c (jc_seconds c (time_sub now (rd_start r))) kind p) out of
       (r', err) \<Rightarrow> r'\<lparr>rd_err := err\<rparr>)"

definition rec_Output :: "cast_codec \<Rightarrow> Recorder \<Rightarrow> string \<Rightarrow> time \<Rightarrow> write_outcome \<Rightarrow> Recorder" where
  "rec_Output c r p now out = rec_event c r ''o'' p now out"

definition rec_Input :: "cast_codec \<Rightarrow> Recorder \<Rightarrow> string \<Rightarrow> time \<Rightarrow> write_outcome \<Rightarrow> Recorder" where
  "rec_Input c r p now out = rec_event c r ''i'' p now out"

definition rec_Close :: "(string \<Rightarrow> string) \<Rightarrow> Recorder \<Rightarrow> time \<Rightarrow> string option \<Rightarrow> Recorder \<times> (string, Manifest) result" where
  "rec_Close sha r now closeErr =
    (if rd_closed r then (r, Inl ''recording: already closed'')
     else let r' = r\<lparr>rd_closed := True\<rparr> in
       case rd_err r of Some e \<Rightarrow> (r', Inl e)
       | None \<Rightarrow>
          (case closeErr of Some e \<Rightarrow> (r', Inl e)
           | None \<Rightarrow> (r', Inr \<lparr>mf_Key = rd_key r, mf_SHA256 = hexBytes (sha (rd_hashed r)), mf_Bytes = rd_written r,
                mf_Duration = time_sub now (rd_start r), mf_StartedAt = rd_start r, mf_Width = rd_width r, mf_Height = rd_height r\<rparr>)))"

section \<open>The parser and the player\<close>

record Frame =
  fr_Time :: rat
  fr_Kind :: string
  fr_Data :: string

record Cast =
  ca_Width :: int
  ca_Height :: int
  ca_Frames :: "Frame list"

definition cast_Duration :: "Cast \<Rightarrow> rat" where
  "cast_Duration c = (if ca_Frames c = [] then 0 else fr_Time (last (ca_Frames c)))"

text \<open>\<^verbatim>\<open>bufio.Scanner\<close> by lines: the last line need not end in a newline, an empty rest is no line.\<close>

function scan_lines :: "string \<Rightarrow> string list" where
  "scan_lines s = (case IndexByte s (CHR 0x0A) of None \<Rightarrow> if s = [] then [] else [s]
     | Some i \<Rightarrow> take i s # scan_lines (drop (Suc i) s))"
  by auto
termination
  by (relation "measure length") (auto dest: IndexByte_SomeD)

declare scan_lines.simps [simp del]

definition maxCastLine :: nat where
  "maxCastLine = 8388608"

datatype cast_error = BadHeader | UnsupportedVersion int | LineTooLong | MissingHeader

text \<open>The loop over the lines after the header; a malformed event line is skipped.\<close>

fun cast_events :: "cast_codec \<Rightarrow> string list \<Rightarrow> (cast_error, Frame list) result" where
  "cast_events c [] = Inr []"
| "cast_events c (l # ls) =
    (if maxCastLine \<le> length l then Inl LineTooLong
     else case cast_events c ls of Inl e \<Rightarrow> Inl e
     | Inr fs \<Rightarrow>
        let line = TrimSpace l in
        if line = [] then Inr fs
        else case jc_parse_event c line of None \<Rightarrow> Inr fs
        | Some (t, k, d) \<Rightarrow> Inr (\<lparr>fr_Time = t, fr_Kind = k, fr_Data = d\<rparr> # fs))"

fun cast_lines :: "cast_codec \<Rightarrow> string list \<Rightarrow> (cast_error, Cast) result" where
  "cast_lines c [] = Inl MissingHeader"
| "cast_lines c (l # ls) =
    (if maxCastLine \<le> length l then Inl LineTooLong
     else let line = TrimSpace l in
       if line = [] then cast_lines c ls
       else case jc_parse_header c line of None \<Rightarrow> Inl BadHeader
       | Some (v, w, h) \<Rightarrow>
          if v \<noteq> 2 then Inl (UnsupportedVersion v)
          else case cast_events c ls of Inl e \<Rightarrow> Inl e
          | Inr fs \<Rightarrow> Inr \<lparr>ca_Width = w, ca_Height = h, ca_Frames = fs\<rparr>)"

definition ParseCast :: "cast_codec \<Rightarrow> string \<Rightarrow> (cast_error, Cast) result" where
  "ParseCast c s = cast_lines c (scan_lines s)"

record player =
  pl_cast :: Cast
  pl_idx :: nat
  pl_elapsed :: rat
  pl_playing :: bool
  pl_out :: string

definition newPlayer :: "Cast \<Rightarrow> player" where
  "newPlayer c = \<lparr>pl_cast = c, pl_idx = 0, pl_elapsed = 0, pl_playing = True, pl_out = []\<rparr>"

function advance_loop :: "Frame list \<Rightarrow> rat \<Rightarrow> nat \<Rightarrow> string \<Rightarrow> nat \<times> string" where
  "advance_loop fs t idx out =
    (if idx < length fs \<and> fr_Time (fs ! idx) \<le> t
     then advance_loop fs t (Suc idx) (if fr_Kind (fs ! idx) = ''o'' then out @ fr_Data (fs ! idx) else out)
     else (idx, out))"
  by auto
termination by (relation "measure (\<lambda>(fs, t, idx, out). length fs - idx)") auto

declare advance_loop.simps [simp del]

definition advanceTo :: "player \<Rightarrow> rat \<Rightarrow> player" where
  "advanceTo p t =
    (case advance_loop (ca_Frames (pl_cast p)) t (pl_idx p) (pl_out p) of
       (i, out) \<Rightarrow> p\<lparr>pl_idx := i, pl_out := out, pl_elapsed := t\<rparr>)"

definition seek :: "player \<Rightarrow> rat \<Rightarrow> player" where
  "seek p t0 = (let t = (if t0 < 0 then 0 else t0) in advanceTo (p\<lparr>pl_idx := 0, pl_out := [], pl_elapsed := 0\<rparr>) t)"

definition toggle :: "player \<Rightarrow> player" where
  "toggle p = p\<lparr>pl_playing := \<not> pl_playing p\<rparr>"

definition player_done :: "player \<Rightarrow> bool" where
  "player_done p = (length (ca_Frames (pl_cast p)) \<le> pl_idx p)"

section \<open>Playback\<close>

text \<open>What is on the screen at a time: the output of the leading frames up to it.\<close>

definition shown :: "Frame list \<Rightarrow> rat \<Rightarrow> string" where
  "shown fs t = concat (map fr_Data (filter (\<lambda>f. fr_Kind f = ''o'') (takeWhile (\<lambda>f. fr_Time f \<le> t) fs)))"

lemma advance_loop_eq:
  "advance_loop fs t idx out =
    (idx + length (takeWhile (\<lambda>f. fr_Time f \<le> t) (drop idx fs)), out @ shown (drop idx fs) t)"
proof (induction fs t idx out rule: advance_loop.induct)
  case (1 fs t idx out)
  show ?case
  proof (cases "idx < length fs \<and> fr_Time (fs ! idx) \<le> t")
    case True
    then have d: "drop idx fs = fs ! idx # drop (Suc idx) fs" by (simp add: Cons_nth_drop_Suc)
    with True 1 show ?thesis by (subst advance_loop.simps) (simp add: d shown_def)
  next
    case False
    have "takeWhile (\<lambda>f. fr_Time f \<le> t) (drop idx fs) = []"
    proof (cases "idx < length fs")
      case True
      with False show ?thesis by (simp add: Cons_nth_drop_Suc [symmetric])
    qed simp
    with False show ?thesis by (subst advance_loop.simps) (auto simp: shown_def)
  qed
qed

text \<open>
  A state of playback: nothing was played yet, or the index and the output are
  those of the elapsed time.
\<close>

definition player_ok :: "player \<Rightarrow> bool" where
  "player_ok p \<longleftrightarrow> pl_idx p = 0 \<and> pl_out p = []
     \<or> pl_idx p = length (takeWhile (\<lambda>f. fr_Time f \<le> pl_elapsed p) (ca_Frames (pl_cast p)))
       \<and> pl_out p = shown (ca_Frames (pl_cast p)) (pl_elapsed p)"

lemma takeWhile_more:
  "(\<And>x. P x \<Longrightarrow> Q x) \<Longrightarrow> takeWhile Q xs = takeWhile P xs @ takeWhile Q (drop (length (takeWhile P xs)) xs)"
  by (induction xs) auto

lemma advanceTo_fields [simp]:
  "pl_elapsed (advanceTo p t) = t" "pl_cast (advanceTo p t) = pl_cast p"
  "pl_cast (seek p t) = pl_cast p" "pl_cast (toggle p) = pl_cast p"
  by (simp_all add: advanceTo_def seek_def toggle_def Let_def split: prod.splits)

lemma advanceTo_exact:
  assumes "player_ok p" and "pl_elapsed p \<le> t"
  shows "pl_idx (advanceTo p t) = length (takeWhile (\<lambda>f. fr_Time f \<le> t) (ca_Frames (pl_cast p)))"
    and "pl_out (advanceTo p t) = shown (ca_Frames (pl_cast p)) t"
proof -
  let ?fs = "ca_Frames (pl_cast p)" and ?a = "takeWhile (\<lambda>f. fr_Time f \<le> pl_elapsed p) (ca_Frames (pl_cast p))"
  have "takeWhile (\<lambda>f. fr_Time f \<le> t) ?fs = ?a @ takeWhile (\<lambda>f. fr_Time f \<le> t) (drop (length ?a) ?fs)"
    using assms(2) by (intro takeWhile_more) auto
  with assms(1) show "pl_idx (advanceTo p t) = length (takeWhile (\<lambda>f. fr_Time f \<le> t) ?fs)"
    "pl_out (advanceTo p t) = shown ?fs t"
    by (auto simp: player_ok_def advanceTo_def advance_loop_eq shown_def)
qed

lemma advanceTo_ok: "player_ok p \<Longrightarrow> pl_elapsed p \<le> t \<Longrightarrow> player_ok (advanceTo p t)"
  by (simp add: player_ok_def [of "advanceTo p t"] advanceTo_exact)

lemma seek_exact: "pl_out (seek p t) = shown (ca_Frames (pl_cast p)) (max t 0)"
  by (auto simp: seek_def Let_def advanceTo_def advance_loop_eq max_def)

lemma seek_ok: "player_ok (seek p t)"
  by (auto simp: seek_def Let_def intro!: advanceTo_ok) (auto simp: player_ok_def)

lemma toggle_ok: "player_ok p \<Longrightarrow> player_ok (toggle p)"
  by (simp add: toggle_def player_ok_def)

text \<open>The keys of the replay view and its clock.\<close>

datatype control = Advance rat | Seek rat | Toggle

fun control_step :: "player \<Rightarrow> control \<Rightarrow> player" where
  "control_step p (Advance d) = (if 0 \<le> d then advanceTo p (pl_elapsed p + d) else p)"
| "control_step p (Seek t) = seek p t"
| "control_step p Toggle = toggle p"

lemma control_step_ok: "player_ok p \<Longrightarrow> player_ok (control_step p k)"
  by (cases k) (simp_all add: advanceTo_ok seek_ok toggle_ok)

interpretation playback: guarded_machine control_step player_ok
  by unfold_locales (rule control_step_ok)

lemma control_cast: "pl_cast (run_steps control_step p ks) = pl_cast p"
proof -
  have "pl_cast (control_step q k) = pl_cast q" for q k by (cases k) simp_all
  then show ?thesis by (induction ks arbitrary: p) simp_all
qed

text \<open>
  Replay is exact: however the viewer has stepped, sought and paused, moving
  on to a time shows the output of precisely the leading frames whose time has
  come, the same as seeking there from anywhere.
\<close>

theorem playback_exact:
  "pl_out (control_step (run_steps control_step (newPlayer c) ks) (Advance \<bar>d\<bar>))
     = shown (ca_Frames c) (pl_elapsed (run_steps control_step (newPlayer c) ks) + \<bar>d\<bar>)
   \<and> pl_out (seek (run_steps control_step (newPlayer c) ks) t) = shown (ca_Frames c) (max t 0)"
proof -
  let ?p = "run_steps control_step (newPlayer c) ks"
  have "player_ok ?p" by (rule playback.run_invar) (simp add: player_ok_def newPlayer_def)
  moreover have "pl_cast ?p = c" by (simp add: control_cast newPlayer_def)
  ultimately show ?thesis by (simp add: advanceTo_exact seek_exact)
qed

section \<open>What a manifest says\<close>

text \<open>A session: chunks of input and output with the clock reading and the outcome of the write.\<close>

type_synonym rec_step = "string \<times> string \<times> time \<times> write_outcome"

definition rec_step_run :: "cast_codec \<Rightarrow> Recorder \<Rightarrow> rec_step \<Rightarrow> Recorder" where
  "rec_step_run c r = (\<lambda>(kind, p, now, out). rec_event c r kind p now out)"

definition rec_line :: "cast_codec \<Rightarrow> time \<Rightarrow> rec_step \<Rightarrow> string" where
  "rec_line c start = (\<lambda>(kind, p, now, out). jc_event c (jc_seconds c (time_sub now start)) kind p @ [CHR 0x0A])"

text \<open>The recorder while nothing has failed, after the lines of \<open>done\<close>.\<close>

definition recorded :: "cast_codec \<Rightarrow> Recorder \<Rightarrow> string \<Rightarrow> bool" where
  "recorded c r content \<longleftrightarrow> \<not> rd_closed r \<and> (rd_err r = None \<longrightarrow>
     rd_dest r = content \<and> rd_hashed r = content \<and> rd_written r = int (length content))"

lemma rec_event_recorded:
  "recorded c r content \<Longrightarrow>
    recorded c (rec_event c r kind p now out) (content @ (if p = [] then [] else rec_line c (rd_start r) (kind, p, now, out)))"
  by (auto simp: recorded_def rec_event_def writeLine_def rec_line_def Let_def split: option.splits)

lemma rec_event_start [simp]: "rd_start (rec_event c r kind p now out) = rd_start r" "rd_key (rec_event c r kind p now out) = rd_key r"
  by (auto simp: rec_event_def writeLine_def Let_def split: option.splits)

lemma rec_step_run_simp: "rec_step_run c r (kind, p, now, out) = rec_event c r kind p now out"
  by (simp add: rec_step_run_def)

lemma rec_run_recorded:
  "recorded c r content \<Longrightarrow>
    recorded c (foldl (rec_step_run c) r steps) (content @ concat (map (rec_line c (rd_start r)) (filter (\<lambda>s. fst (snd s) \<noteq> []) steps)))
    \<and> rd_start (foldl (rec_step_run c) r steps) = rd_start r \<and> rd_key (foldl (rec_step_run c) r steps) = rd_key r"
proof (induction steps arbitrary: r content)
  case (Cons s steps)
  obtain kind p now out where s: "s = (kind, p, now, out)" by (cases s)
  from Cons.IH [OF rec_event_recorded [OF Cons.prems, of kind p now out]] show ?case
    by (cases "p = []") (simp_all add: s rec_step_run_simp)
qed simp

lemma NewRecorder_recorded:
  assumes "NewRecorder c key w h now out = Inr r"
  shows "rd_start r = now \<and> rd_key r = key \<and> recorded c r (jc_header c (rd_width r) (rd_height r) now @ [CHR 0x0A])"
  using assms by (auto simp: NewRecorder_def Let_def writeLine_def recorded_def split: option.splits prod.splits if_splits)

text \<open>
  A manifest in the evidence is true: when closing a recording succeeds, the
  store holds the header and a line for every non-empty chunk of input and
  output, in order and with nothing lost, and the manifest's hash and size are
  those of exactly these bytes.
\<close>

theorem recording_manifest_true:
  assumes "NewRecorder c key w h t0 out0 = Inr r"
    and "rec_Close sha (foldl (rec_step_run c) r steps) now closeErr = (r', Inr m)"
  shows "rd_dest r' = jc_header c (rd_width r) (rd_height r) t0 @ [CHR 0x0A] @ concat (map (rec_line c t0) (filter (\<lambda>s. fst (snd s) \<noteq> []) steps))
    \<and> mf_SHA256 m = hexBytes (sha (rd_dest r')) \<and> mf_Bytes m = int (length (rd_dest r')) \<and> mf_Key m = key \<and> mf_StartedAt m = t0"
proof -
  from NewRecorder_recorded [OF assms(1)] have
    r: "rd_start r = t0" "rd_key r = key" "recorded c r (jc_header c (rd_width r) (rd_height r) t0 @ [CHR 0x0A])" by blast+
  from rec_run_recorded [OF r(3), of steps] r(1,2) assms(2) show ?thesis
    by (auto simp: recorded_def rec_Close_def Let_def split: option.splits if_splits)
qed

definition lab_codec :: cast_codec where
  "lab_codec = \<lparr>jc_header = (\<lambda>w h t. ''H''), jc_event = (\<lambda>t k d. k @ d),
     jc_parse_header = (\<lambda>l. if l = ''H'' then Some (2, 80, 24) else None),
     jc_parse_event = (\<lambda>l. case l of [] \<Rightarrow> None | k # d \<Rightarrow> Some (0, [k], d)), jc_seconds = (\<lambda>_. 0)\<rparr>"

definition lab_recorder :: Recorder where
  "lab_recorder = \<lparr>rd_dest = ''H'' @ [CHR 0x0A], rd_hashed = ''H'' @ [CHR 0x0A], rd_key = ''k'', rd_start = 5, rd_width = 80, rd_height = 24,
     rd_written = 2, rd_err = None, rd_closed = False\<rparr>"

abbreviation lab_steps :: "rec_step list" where
  "lab_steps \<equiv> [(''i'', ''ls'', 6, None), (''o'', [], 7, None), (''o'', ''bin'', 8, None)]"

lemma lab_recording:
  "NewRecorder lab_codec ''k'' 0 0 5 None = Inr lab_recorder"
  "\<exists>r m. rec_Close (\<lambda>x. x) (foldl (rec_step_run lab_codec) lab_recorder lab_steps) 9 None = (r, Inr m) \<and> mf_Bytes m = 11"
  by (simp_all add: NewRecorder_def writeLine_def lab_codec_def lab_recorder_def Let_def rec_Close_def rec_step_run_simp rec_event_def)

theorem recording_manifest_true_witness:
  "\<exists>r m. rec_Close (\<lambda>x. x) (foldl (rec_step_run lab_codec) lab_recorder lab_steps) 9 None = (r, Inr m)
    \<and> mf_Bytes m = 11 \<and> mf_Key m = ''k'' \<and> mf_Bytes m = int (length (rd_dest r))"
proof -
  from lab_recording(2) obtain r m where m: "rec_Close (\<lambda>x. x) (foldl (rec_step_run lab_codec) lab_recorder lab_steps) 9 None = (r, Inr m)"
    "mf_Bytes m = 11" by blast
  from recording_manifest_true [OF lab_recording(1) m(1)] m show ?thesis by blast
qed

section \<open>A recording can be replayed\<close>

text \<open>
  What the replay needs of the JSON codec: a marshalled value is one non-empty
  line without surrounding space, shorter than the scanner's limit, and reads
  back.  Go's encoder has the last for data that is valid UTF-8 only.
\<close>

definition line_ok :: "string \<Rightarrow> bool" where
  "line_ok l \<longleftrightarrow> CHR 0x0A \<notin> set l \<and> l \<noteq> [] \<and> TrimSpace l = l \<and> length l < maxCastLine"

definition header_ok :: "cast_codec \<Rightarrow> int \<Rightarrow> int \<Rightarrow> time \<Rightarrow> bool" where
  "header_ok c w h t \<longleftrightarrow> line_ok (jc_header c w h t) \<and> jc_parse_header c (jc_header c w h t) = Some (2, w, h)"

definition codec_ok :: "cast_codec \<Rightarrow> time \<Rightarrow> rec_step \<Rightarrow> bool" where
  "codec_ok c start = (\<lambda>(k, p, now, out). let t = jc_seconds c (time_sub now start) in
     line_ok (jc_event c t k p) \<and> jc_parse_event c (jc_event c t k p) = Some (t, k, p))"

lemma scan_lines_line: "CHR 0x0A \<notin> set l \<Longrightarrow> scan_lines (l @ CHR 0x0A # rest) = l # scan_lines rest"
  by (subst scan_lines.simps) (simp add: IndexByte_append_first)

definition frame_of :: "cast_codec \<Rightarrow> time \<Rightarrow> rec_step \<Rightarrow> Frame" where
  "frame_of c start = (\<lambda>(kind, p, now, out). \<lparr>fr_Time = jc_seconds c (time_sub now start), fr_Kind = kind, fr_Data = p\<rparr>)"

lemma cast_events_recorded:
  "(\<forall>s\<in>set steps. codec_ok c start s) \<Longrightarrow>
    cast_events c (scan_lines (concat (map (rec_line c start) steps))) = Inr (map (frame_of c start) steps)"
proof (induction steps)
  case Nil
  show ?case by (subst scan_lines.simps) simp
next
  case (Cons s steps)
  obtain kind p now out where s: "s = (kind, p, now, out)" by (cases s)
  let ?l = "jc_event c (jc_seconds c (time_sub now start)) kind p"
  from Cons.prems have "CHR 0x0A \<notin> set ?l" "?l \<noteq> []" "TrimSpace ?l = ?l" "length ?l < maxCastLine"
    "jc_parse_event c ?l = Some (jc_seconds c (time_sub now start), kind, p)" by (auto simp: codec_ok_def line_ok_def Let_def s)
  with Cons show ?case by (simp add: s rec_line_def frame_of_def scan_lines_line Let_def)
qed


lemma lab_codec_ok: "header_ok lab_codec (rd_width lab_recorder) (rd_height lab_recorder) 5"
  "\<forall>s\<in>set lab_steps. codec_ok lab_codec 5 s"
  by (simp_all add: header_ok_def codec_ok_def line_ok_def lab_codec_def lab_recorder_def maxCastLine_def Let_def TrimSpace_def is_space_def byte_def)


end
