(* ===== verification/Session_Channel.thy ===== *)
theory Session_Channel
  imports Registry Session_Target
begin

text \<open>
  The front door after authentication: \<^verbatim>\<open>Serve\<close>, \<^verbatim>\<open>Drain\<close>, \<^verbatim>\<open>handleConn\<close> and
  \<^verbatim>\<open>handleDirectTCPIP\<close> of \<^verbatim>\<open>internal/session/session.go\<close> and the tunnel keeper of
  \<^verbatim>\<open>internal/session/tunnelkeeper.go\<close>.  The accept loop, the goroutine that
  watches for shutdown and the connections' own goroutines are interleaved: each
  of their steps is an event, and an event that is not possible in a state
  leaves it as it is.  The same holds for the channels of one connection.
\<close>

section \<open>Accepting connections\<close>

definition maxInflightHandshakes :: nat where
  "maxInflightHandshakes = 128"

text \<open>Where the accept loop is: waiting for a connection, holding one while it waits for a handshake slot, or gone.\<close>

datatype accept_pc = AtAccept | AtSlot | Returned "string option"

record accept_state =
  ac_pc :: accept_pc
  ac_cancelled :: bool              \<comment> \<open>the context is done\<close>
  ac_draining :: bool
  ac_closed :: bool                 \<comment> \<open>the listener is closed\<close>
  ac_sem :: nat                     \<comment> \<open>handshake slots taken\<close>
  ac_active :: nat
  ac_handshaking :: nat
  ac_established :: nat
  ac_refused :: nat                 \<comment> \<open>connections closed without a goroutine\<close>

definition accept_start :: accept_state where
  "accept_start = \<lparr>ac_pc = AtAccept, ac_cancelled = False, ac_draining = False, ac_closed = False, ac_sem = 0, ac_active = 0,
     ac_handshaking = 0, ac_established = 0, ac_refused = 0\<rparr>"

datatype serve_event =
    Arrive                          \<comment> \<open>\<open>Accept\<close> returns a connection\<close>
  | AcceptError string
  | TakeSlot
  | SlotCancelled                   \<comment> \<open>the select takes \<open>ctx.Done\<close>\<close>
  | CtxCancel
  | WatcherDrain                    \<comment> \<open>the watcher stores the draining flag\<close>
  | WatcherClose                    \<comment> \<open>and closes the listener\<close>
  | HandshakeEnd bool               \<comment> \<open>\<open>NewServerConn\<close> returns and the slot is released\<close>
  | ConnEnd

fun Serve :: "accept_state \<Rightarrow> serve_event \<Rightarrow> accept_state" where
  "Serve s Arrive =
    (if ac_pc s = AtAccept \<and> \<not> ac_closed s then
       (if ac_draining s then s\<lparr>ac_refused := ac_refused s + 1\<rparr> else s\<lparr>ac_pc := AtSlot\<rparr>)
     else s)"
| "Serve s (AcceptError e) =
    (if ac_pc s = AtAccept then s\<lparr>ac_pc := Returned (if ac_cancelled s then None else Some e)\<rparr> else s)"
| "Serve s TakeSlot =
    (if ac_pc s = AtSlot \<and> ac_sem s < maxInflightHandshakes then
       s\<lparr>ac_pc := AtAccept, ac_sem := ac_sem s + 1, ac_active := ac_active s + 1, ac_handshaking := ac_handshaking s + 1\<rparr>
     else s)"
| "Serve s SlotCancelled =
    (if ac_pc s = AtSlot \<and> ac_cancelled s then s\<lparr>ac_pc := Returned None, ac_refused := ac_refused s + 1\<rparr> else s)"
| "Serve s CtxCancel = s\<lparr>ac_cancelled := True\<rparr>"
| "Serve s WatcherDrain = (if ac_cancelled s then s\<lparr>ac_draining := True\<rparr> else s)"
| "Serve s WatcherClose = (if ac_draining s then s\<lparr>ac_closed := True\<rparr> else s)"
| "Serve s (HandshakeEnd ok) =
    (if 0 < ac_handshaking s then
       (let s1 = s\<lparr>ac_sem := ac_sem s - 1, ac_handshaking := ac_handshaking s - 1\<rparr>
        in if ok then s1\<lparr>ac_established := ac_established s + 1\<rparr> else s1\<lparr>ac_active := ac_active s - 1\<rparr>)
     else s)"
| "Serve s ConnEnd =
    (if 0 < ac_established s then s\<lparr>ac_established := ac_established s - 1, ac_active := ac_active s - 1\<rparr> else s)"

text \<open>
  \<open>Drain\<close>: either the wait group is empty before the grace period ends, or the
  count at that moment is reported.
\<close>

definition Drain :: "accept_state \<Rightarrow> bool \<Rightarrow> nat \<times> bool" where
  "Drain s elapsed = (if elapsed then (ac_active s, False) else (0, ac_active s = 0))"

definition accept_ok :: "accept_state \<Rightarrow> bool" where
  "accept_ok s \<longleftrightarrow> ac_sem s = ac_handshaking s \<and> ac_sem s \<le> maxInflightHandshakes
     \<and> ac_active s = ac_handshaking s + ac_established s
     \<and> (ac_draining s \<longrightarrow> ac_cancelled s) \<and> (ac_closed s \<longrightarrow> ac_draining s)"

interpretation front_door: guarded_machine Serve accept_ok
proof
  fix s e
  show "accept_ok s \<Longrightarrow> accept_ok (Serve s e)"
    by (cases e) (auto simp: accept_ok_def Let_def)
qed

text \<open>Connections that ever got past the accept loop, with those an event ended.\<close>

fun admitted_by :: "accept_state \<Rightarrow> serve_event \<Rightarrow> nat" where
  "admitted_by s TakeSlot = (if ac_pc s = AtSlot \<and> ac_sem s < maxInflightHandshakes then 1 else 0)"
| "admitted_by s _ = 0"

primrec admissions :: "accept_state \<Rightarrow> serve_event list \<Rightarrow> nat" where
  "admissions s [] = 0"
| "admissions s (e # es) = admitted_by s e + admissions (Serve s e) es"

lemma draining_stays: "ac_draining s \<Longrightarrow> ac_draining (Serve s e)"
  by (cases e) (auto simp: Let_def)

lemma draining_admissions: "ac_draining s \<Longrightarrow> admissions s es \<le> (if ac_pc s = AtSlot then 1 else 0)"
proof (induction es arbitrary: s)
  case (Cons e es)
  from Cons.IH [OF draining_stays [OF Cons.prems, of e]] Cons.prems show ?case
    by (cases e) (auto simp: Let_def split: if_splits)
qed simp

text \<open>
  The front door: in every interleaving of the accept loop, the shutdown
  watcher and the connections, at most 128 handshakes are in flight and the
  active count that \<open>Drain\<close> waits for is exactly the connections in progress;
  once draining, no connection that arrives is served, so at most the one
  already waiting for a slot gets in.
\<close>

theorem front_door_bounded:
  fixes es :: "serve_event list"
  defines "s \<equiv> run_steps Serve accept_start es"
  shows "ac_handshaking s \<le> maxInflightHandshakes \<and> ac_active s = ac_handshaking s + ac_established s
    \<and> (Drain s False = (0, True) \<longleftrightarrow> ac_handshaking s + ac_established s = 0)
    \<and> (ac_draining s \<longrightarrow> admissions s es' \<le> (if ac_pc s = AtSlot then 1 else 0))"
proof -
  have "accept_ok accept_start" by (simp add: accept_ok_def accept_start_def)
  then have "accept_ok s" unfolding s_def by (rule front_door.run_invar)
  with draining_admissions [of s es'] show ?thesis by (auto simp: accept_ok_def Drain_def)
qed

theorem front_door_bounded_witness:
  "let s = run_steps Serve accept_start [Arrive, TakeSlot, Arrive, CtxCancel, WatcherDrain] in
     ac_active s = 1 \<and> admissions s [Arrive, TakeSlot, Arrive, TakeSlot, HandshakeEnd True, Arrive, TakeSlot] = 1
     \<and> admissions s [Arrive, TakeSlot, Arrive, TakeSlot, HandshakeEnd True, Arrive, TakeSlot] \<le> (if ac_pc s = AtSlot then 1 else 0)"
  using front_door_bounded [of "[Arrive, TakeSlot, Arrive, CtxCancel, WatcherDrain]"
      "[Arrive, TakeSlot, Arrive, TakeSlot, HandshakeEnd True, Arrive, TakeSlot]"]
  by (simp add: accept_start_def maxInflightHandshakes_def)

section \<open>The channels of a connection\<close>

definition maxChannelsPerConn :: nat where
  "maxChannelsPerConn = 64"

datatype chan_verdict = RejectUnknown | RejectProhibited | RejectShortage | Dispatched

definition channel_verdict :: "bool \<Rightarrow> nat \<Rightarrow> string \<Rightarrow> chan_verdict" where
  "channel_verdict tunnelDisabled slots ct =
    (if ct \<noteq> ''direct-tcpip'' \<and> ct \<noteq> ''session'' then RejectUnknown
     else if ct = ''direct-tcpip'' \<and> tunnelDisabled then RejectProhibited
     else if slots < maxChannelsPerConn then Dispatched else RejectShortage)"

text \<open>
  Where a channel's goroutine is: before the registry counts it, counted, being
  served, its handler over (returned or panicked), no longer counted, its end
  published with only the slot still to be released.
\<close>

datatype chan_phase = Spawned | Counted | Serving | Handled | Uncounted | Reported

definition counted :: "chan_phase \<Rightarrow> bool" where
  "counted p \<longleftrightarrow> p = Counted \<or> p = Serving \<or> p = Handled"

record 'c conn_state =
  cn_reg :: "'c Registry"
  cn_slots :: nat
  cn_chans :: "(nat \<times> string \<times> chan_phase) list"
  cn_dispatched :: "string list"

datatype 'c conn_event =
    OpenChannel nat string          \<comment> \<open>a fresh number for the goroutine and the channel type\<close>
  | Proceed nat time                \<comment> \<open>the next step of a channel's goroutine\<close>
  | ConnOver time                   \<comment> \<open>the deferred deregistration\<close>
  | Elsewhere "'c reg_event"        \<comment> \<open>another connection or an API client uses the registry\<close>

definition chan_event :: "string \<Rightarrow> string \<Rightarrow> sup_Event" where
  "chan_event kind ct = \<lparr>se_Time = 0, se_Kind = kind, se_Target = [], se_Detail = ct\<rparr>"

fun touches :: "string \<Rightarrow> 'c reg_event \<Rightarrow> bool" where
  "touches sid (DoRegister user src tu hook uid now) \<longleftrightarrow> uid = sid"
| "touches sid (DoDeregister i now) \<longleftrightarrow> i = sid"
| "touches sid (DoAddChannels i delta) \<longleftrightarrow> i = sid"
| "touches sid _ \<longleftrightarrow> False"

fun channel_step :: "'c Registry \<Rightarrow> string \<Rightarrow> string \<Rightarrow> chan_phase \<Rightarrow> time \<Rightarrow> 'c Registry \<times> chan_phase option" where
  "channel_step r sid ct Spawned now = (AddChannels r sid 1, Some Counted)"
| "channel_step r sid ct Counted now = (Publish r sid (chan_event ''channel_open'' ct) now, Some Serving)"
| "channel_step r sid ct Serving now = (r, Some Handled)"
| "channel_step r sid ct Handled now = (AddChannels r sid (-1), Some Uncounted)"
| "channel_step r sid ct Uncounted now = (Publish r sid (chan_event ''channel_close'' ct) now, Some Reported)"
| "channel_step r sid ct Reported now = (r, None)"

fun handleConn :: "bool \<Rightarrow> string \<Rightarrow> 'c conn_state \<Rightarrow> 'c conn_event \<Rightarrow> 'c conn_state" where
  "handleConn tunnelDisabled sid s (OpenChannel n ct) =
    (if n \<in> fst ` set (cn_chans s) \<or> channel_verdict tunnelDisabled (cn_slots s) ct \<noteq> Dispatched then s
     else s\<lparr>cn_slots := cn_slots s + 1, cn_chans := (n, ct, Spawned) # cn_chans s, cn_dispatched := ct # cn_dispatched s\<rparr>)"
| "handleConn tunnelDisabled sid s (Proceed n now) =
    (case map_of (cn_chans s) n of None \<Rightarrow> s
     | Some (ct, p) \<Rightarrow>
        (case channel_step (cn_reg s) sid ct p now of
           (r, Some p') \<Rightarrow> s\<lparr>cn_reg := r, cn_chans := AList.update n (ct, p') (cn_chans s)\<rparr>
         | (r, None) \<Rightarrow> s\<lparr>cn_reg := r, cn_chans := AList.delete n (cn_chans s), cn_slots := cn_slots s - 1\<rparr>))"
| "handleConn tunnelDisabled sid s (ConnOver now) = s\<lparr>cn_reg := Deregister (cn_reg s) sid now\<rparr>"
| "handleConn tunnelDisabled sid s (Elsewhere e) = (if touches sid e then s else s\<lparr>cn_reg := reg_step (cn_reg s) e\<rparr>)"

definition conn_start :: "'c Registry \<Rightarrow> reg_Info \<Rightarrow> 'c \<Rightarrow> string \<Rightarrow> time \<Rightarrow> 'c conn_state" where
  "conn_start r info hook sid now =
     \<lparr>cn_reg = fst (Register r info (Some hook) sid now), cn_slots = 0, cn_chans = [], cn_dispatched = []\<rparr>"

text \<open>What the control API reports for a session, and what it should report.\<close>

definition reported_channels :: "'c Registry \<Rightarrow> string \<Rightarrow> int option" where
  "reported_channels r sid = map_option in_Channels (rg_Get r sid)"

definition counted_channels :: "(nat \<times> string \<times> chan_phase) list \<Rightarrow> int" where
  "counted_channels cs = int (length (filter (\<lambda>(n, ct, p). counted p) cs))"

lemma counted_update:
  "distinct (map fst cs) \<Longrightarrow> map_of cs n = Some (ct, p) \<Longrightarrow>
    counted_channels (AList.update n (ct', p') cs) = counted_channels cs - of_bool (counted p) + of_bool (counted p')"
  by (induction cs) (auto simp: counted_channels_def split: if_splits)

lemma counted_delete:
  assumes "distinct (map fst cs)" and "map_of cs n = Some (ct, p)"
  shows "counted_channels (AList.delete n cs) = counted_channels cs - of_bool (counted p)"
    and "length (AList.delete n cs) = length cs - 1"
proof -
  have d: "AList.delete n cs = cs" if "n \<notin> fst ` set cs" for cs :: "(nat \<times> string \<times> chan_phase) list"
    using that by (induction cs) auto
  show "counted_channels (AList.delete n cs) = counted_channels cs - of_bool (counted p)"
    using assms by (induction cs) (auto simp: counted_channels_def d)
  show "length (AList.delete n cs) = length cs - 1"
    using assms
  proof (induction cs)
    case (Cons c cs)
    then show ?case by (cases cs) (auto simp: d split: if_splits)
  qed simp
qed

lemma counted_in: "map_of cs n = Some (ct, p) \<Longrightarrow> counted p \<Longrightarrow> 1 \<le> counted_channels cs"
proof -
  assume "map_of cs n = Some (ct, p)" and "counted p"
  then have "(n, ct, p) \<in> set (filter (\<lambda>(n, ct, p). counted p) cs)" by (auto dest: map_of_SomeD)
  then have "0 < length (filter (\<lambda>(n, ct, p). counted p) cs)" by (rule length_pos_if_in_set)
  then show ?thesis unfolding counted_channels_def by linarith
qed

lemma reported_frame [simp]:
  "reported_channels (Publish r i ev now) sid = reported_channels r sid"
  "reported_channels (fst (Subscribe r i)) sid = reported_channels r sid"
  "reported_channels (Unsubscribe r i sub) sid = reported_channels r sid"
  "reported_channels (fst (sub_receive r i sub)) sid = reported_channels r sid"
  "reported_channels (Deregister r sid now) sid = None"
  "i \<noteq> sid \<Longrightarrow> reported_channels (Deregister r i now) sid = reported_channels r sid"
  "i \<noteq> sid \<Longrightarrow> reported_channels (AddChannels r i delta) sid = reported_channels r sid"
  "i \<noteq> sid \<Longrightarrow> reported_channels (fst (Register r info hook i now)) sid = reported_channels r sid"
  by (auto simp: reported_channels_def rg_Get_def Publish_def Subscribe_def Unsubscribe_def sub_receive_def Deregister_def
      AddChannels_def Register_def Let_def delete_conv' update_conv' split: option.splits list.splits)

lemma reported_add: "reported_channels (AddChannels r sid delta) sid = map_option (\<lambda>n. max 0 (n + delta)) (reported_channels r sid)"
  by (auto simp: reported_channels_def rg_Get_def AddChannels_def add_channels_def update_conv' Let_def split: option.splits)

definition conn_ok :: "bool \<Rightarrow> string \<Rightarrow> 'c conn_state \<Rightarrow> bool" where
  "conn_ok tunnelDisabled sid s \<longleftrightarrow> distinct (map fst (cn_chans s)) \<and> cn_slots s = length (cn_chans s)
     \<and> cn_slots s \<le> maxChannelsPerConn
     \<and> set (cn_dispatched s) \<subseteq> (if tunnelDisabled then {''session''} else {''session'', ''direct-tcpip''})
     \<and> reported_channels (cn_reg s) sid \<in> {None, Some (counted_channels (cn_chans s))}"

lemma channel_step_counts:
  assumes "channel_step r sid ct p now = (r', q)" and "reported_channels r sid \<in> {None, Some n}" and "counted p \<Longrightarrow> 1 \<le> n" and "0 \<le> n"
  shows "reported_channels r' sid \<in> {None, Some (n - of_bool (counted p) + (case q of None \<Rightarrow> 0 | Some p' \<Rightarrow> of_bool (counted p')))}"
  using assms by (cases p) (auto simp: counted_def reported_add)

lemma handleConn_ok: "conn_ok td sid s \<Longrightarrow> conn_ok td sid (handleConn td sid s e)"
proof (cases e)
  case (OpenChannel n ct)
  assume "conn_ok td sid s"
  with OpenChannel show ?thesis
    by (auto simp: conn_ok_def channel_verdict_def counted_channels_def counted_def image_iff split: if_splits)
next
  case (Proceed n now)
  assume ok: "conn_ok td sid s"
  show ?thesis
  proof (cases "map_of (cn_chans s) n")
    case (Some v)
    obtain ct p where v: "map_of (cn_chans s) n = Some (ct, p)" using Some by (cases v) auto
    have d: "distinct (map fst (cn_chans s))" using ok by (simp add: conn_ok_def)
    have l: "length (AList.update n (ct, p') (cn_chans s)) = length (cn_chans s)" for p'
      using arg_cong [OF update_keys [of n "(ct, p')" "cn_chans s"], of length] map_of_SomeD [OF v]
      by (auto simp: image_iff split: if_splits)
    obtain r' q where st: "channel_step (cn_reg s) sid ct p now = (r', q)" by fastforce
    have rep: "reported_channels r' sid \<in>
        {None, Some (counted_channels (cn_chans s) - of_bool (counted p) + (case q of None \<Rightarrow> 0 | Some p' \<Rightarrow> of_bool (counted p')))}"
      using ok counted_in [OF v] by (intro channel_step_counts [OF st]) (auto simp: conn_ok_def counted_channels_def)
    show ?thesis
    proof (cases q)
      case None
      with Proceed st v ok rep d show ?thesis
        by (simp add: conn_ok_def counted_delete [OF d v] distinct_delete) linarith
    next
      case (Some p')
      with Proceed st v ok rep d show ?thesis
        by (simp add: conn_ok_def counted_update [OF d v] l distinct_update)
    qed
  qed (use Proceed ok in simp)
next
  case (ConnOver now)
  assume "conn_ok td sid s"
  with ConnOver show ?thesis by (simp add: conn_ok_def)
next
  case (Elsewhere ev)
  assume "conn_ok td sid s"
  with Elsewhere show ?thesis by (cases ev) (auto simp: conn_ok_def)
qed

interpretation connection: guarded_machine "handleConn td sid" "conn_ok td sid" for td sid
  by unfold_locales (rule handleConn_ok)

lemma handleConn_reported:
  "reported_channels (cn_reg (handleConn td sid s e)) sid = None \<longleftrightarrow> reported_channels (cn_reg s) sid = None \<or> (\<exists>t. e = ConnOver t)"
proof (cases e)
  case (Proceed n now)
  have "reported_channels r' sid = None \<longleftrightarrow> reported_channels r sid = None"
    if "channel_step r sid ct p now = (r', q)" for r r' :: "'a Registry" and ct p q
    using that by (cases p) (auto simp: reported_add)
  with Proceed show ?thesis by (auto split: option.splits prod.splits)
next
  case (Elsewhere ev)
  then show ?thesis by (cases ev) auto
qed auto

lemma run_reported:
  "reported_channels (cn_reg (run_steps (handleConn td sid) s es)) sid = None
    \<longleftrightarrow> reported_channels (cn_reg s) sid = None \<or> (\<exists>t. ConnOver t \<in> set es)"
  by (induction es arbitrary: s) (auto simp: handleConn_reported)

text \<open>
  C30.  The channels of a connection: whatever the client opens, however its
  channels' goroutines, the other connections and the API interleave, at most 64
  channels are served at once, only session and (with tunnels enabled)
  direct-tcpip channels, and until the connection is over the channel count the
  control API reports for it is that of the channels registered and not yet
  unregistered; afterwards the session is not listed, whatever channels still run.
\<close>

theorem channel_accounting:
  fixes es :: "'c conn_event list" and r :: "'c Registry" and hook :: 'c and sid user src tu :: string and tunnelDisabled :: bool and now :: time
  defines "s \<equiv> run_steps (handleConn tunnelDisabled sid) (conn_start r (conn_Info user src tu) hook sid now) es"
  shows "length (cn_chans s) \<le> maxChannelsPerConn
    \<and> set (cn_dispatched s) \<subseteq> (if tunnelDisabled then {''session''} else {''session'', ''direct-tcpip''})
    \<and> reported_channels (cn_reg s) sid = (if \<exists>t. ConnOver t \<in> set es then None else Some (counted_channels (cn_chans s)))"
proof -
  let ?s = "conn_start r (conn_Info user src tu) hook sid now"
  have 0: "reported_channels (cn_reg ?s) sid = Some 0"
    by (simp add: conn_start_def reported_channels_def rg_Get_def Register_def conn_Info_def update_conv' Let_def)
  then have "conn_ok tunnelDisabled sid ?s" by (simp add: conn_ok_def conn_start_def counted_channels_def)
  then have "conn_ok tunnelDisabled sid s" unfolding s_def by (rule connection.run_invar)
  moreover have "reported_channels (cn_reg s) sid = None \<longleftrightarrow> (\<exists>t. ConnOver t \<in> set es)"
    unfolding s_def by (simp add: run_reported 0)
  ultimately show ?thesis by (auto simp: conn_ok_def)
qed

section \<open>Notices for a tunnel keeper\<close>

definition maxPendingTunnelNotices :: nat where
  "maxPendingTunnelNotices = 32"

type_synonym tunnelAnnouncer = "string list"

definition newTunnelAnnouncer :: tunnelAnnouncer where
  "newTunnelAnnouncer = []"

definition announce :: "tunnelAnnouncer \<Rightarrow> string \<Rightarrow> tunnelAnnouncer" where
  "announce a line = (if length a < maxPendingTunnelNotices then a @ [line] else a)"

interpretation notices: bounded_queue announce "\<lambda>a. a" "\<lambda>_. maxPendingTunnelNotices"
  by unfold_locales (simp_all add: announce_def)

abbreviation em_dash :: string where "em_dash \<equiv> [CHR 0xE2, CHR 0x80, CHR 0x94]"
abbreviation right_arrow :: string where "right_arrow \<equiv> [CHR 0xE2, CHR 0x86, CHR 0x92]"
abbreviation crlf :: string where "crlf \<equiv> [CHR 0x0D, CHR 0x0A]"

definition tunnelOpenNotice :: "string \<Rightarrow> string \<Rightarrow> int \<Rightarrow> string" where
  "tunnelOpenNotice user host port =
     ''omni-sag: '' @ user @ '' '' @ em_dash @ '' tunnel open '' @ right_arrow @ '' '' @ host @ '':'' @ show_int port
       @ ''  (keep this window open)'' @ crlf"

text \<open>
  The keeper: what it meets while it holds the channel open is a read of the
  client's channel (the bytes, and whether the read failed), or the moment the
  select takes a pending notice, with the outcome of the write; meanwhile other
  channels announce their tunnels.
\<close>

datatype keeper_event = KeeperRead string bool | KeeperNotice bool | KeeperSeesGone | Announced string

record keeper_state =
  kp_notices :: tunnelAnnouncer
  kp_gone :: bool
  kp_written :: "string list"
  kp_over :: bool

definition quit_byte :: "char \<Rightarrow> bool" where
  "quit_byte c \<longleftrightarrow> c = CHR 0x03 \<or> c = CHR 0x04"

fun keeper_step :: "keeper_state \<Rightarrow> keeper_event \<Rightarrow> keeper_state" where
  "keeper_step k (KeeperRead bs failed) = (if kp_gone k then k else k\<lparr>kp_gone := list_ex quit_byte bs \<or> failed\<rparr>)"
| "keeper_step k (KeeperNotice ok) =
    (if kp_over k then k
     else case kp_notices k of [] \<Rightarrow> k
     | line # rest \<Rightarrow> if ok then k\<lparr>kp_notices := rest, kp_written := kp_written k @ [line]\<rparr> else k\<lparr>kp_notices := rest, kp_over := True\<rparr>)"
| "keeper_step k KeeperSeesGone = (if kp_gone k then k\<lparr>kp_over := True\<rparr> else k)"
| "keeper_step k (Announced line) = k\<lparr>kp_notices := announce (kp_notices k) line\<rparr>"

definition keeper_banner :: "string \<Rightarrow> string list" where
  "keeper_banner user =
    [''omni-sag: no shell target selected '' @ em_dash @ '' holding this session open for your -L tunnel(s).'' @ crlf,
     ''omni-sag: (for an interactive shell instead, reconnect as user%host@gateway '' @ em_dash @ '' or user+pcode%host to scope to one role)'' @ crlf,
     ''omni-sag: '' @ user @ '' '' @ em_dash @ '' keep this window open; press Ctrl-C (or close it) to end your tunnel(s).'' @ crlf]"

definition session_event :: "string \<Rightarrow> string \<Rightarrow> string \<Rightarrow> string \<Rightarrow> Event" where
  "session_event type user srcIP detail = zero_event\<lparr>ev_Type := type, ev_User := user, ev_SourceIP := srcIP, ev_Detail := detail\<rparr>"

text \<open>The evidence (\<open>session_end\<close> only once the loop is over) and the final state.\<close>

definition runTunnelKeeper :: "Principal \<Rightarrow> string \<Rightarrow> tunnelAnnouncer \<Rightarrow> keeper_event list \<Rightarrow> Event list \<times> keeper_state" where
  "runTunnelKeeper pr srcIP a evs =
    (let k = run_steps keeper_step \<lparr>kp_notices = a, kp_gone = False, kp_written = keeper_banner (pr_User pr), kp_over = False\<rparr> evs
     in (session_event TypeSessionStart (pr_User pr) srcIP ''tunnel keeper''
           # (if kp_over k then [session_event TypeSessionEnd (pr_User pr) srcIP ''tunnel keeper closed''] else []), k))"

section \<open>Port forwarding\<close>

record directTCPIP =
  dt_HostToConnect :: string
  dt_PortToConnect :: "32 word"
  dt_OriginatorIP :: string
  dt_OriginatorPort :: "32 word"

datatype reject_reason = Prohibited | ConnectionFailed

text \<open>
  How a forwarding request ends.  \<open>Observed\<close> has the event of the classification
  (\<open>None\<close>: the classifier panicked); \<open>Enforced\<close> has the outcome of the held tunnel.
\<close>

datatype forward_outcome =
    ForwardRejected reject_reason string
  | AcceptFailed
  | Spliced
  | Observed "string list" "Event option"
  | Enforced "string list" tunnel_outcome

definition reject_for :: "DialError \<Rightarrow> forward_outcome" where
  "reject_for e =
    (case e of
       ErrForwardingRefused _ \<Rightarrow> ForwardRejected Prohibited ''forwarding refused: target requires full session recording''
     | ErrDenied _ \<Rightarrow> ForwardRejected Prohibited ''administratively prohibited''
     | ErrCredentialRefused _ \<Rightarrow> ForwardRejected Prohibited ''credential refused''
     | _ \<Rightarrow> ForwardRejected ConnectionFailed ''connection failed'')"

text \<open>The bytes the taps have seen of an observed tunnel when it is classified.\<close>

fun tap_arrivals :: "tunnelTaps \<Rightarrow> arrival list \<Rightarrow> tunnelTaps" where
  "tap_arrivals t [] = t"
| "tap_arrivals t (FromClient c # evs) = tap_arrivals (fst (tapConn_Read t True (fst c))) evs"
| "tap_arrivals t (FromServer c # evs) = tap_arrivals (fst (tapConn_Read t False (fst c))) evs"
| "tap_arrivals t (Deadline # evs) = t"

text \<open>
  \<open>fe_later\<close> is what happens to the dialer (a policy reload, other DNS answers)
  between the dial and the second evaluation of the policy.
\<close>

record forward_env =
  fe_dial :: dial_env
  fe_accept :: bool
  fe_later :: "Dialer \<Rightarrow> Dialer"

definition forward_target :: "directTCPIP \<Rightarrow> Target" where
  "forward_target d = \<lparr>t_Host = dt_HostToConnect d, t_Port = uint (dt_PortToConnect d)\<rparr>"

definition forward_splice :: "TunnelInspectConfig \<Rightarrow> Principal \<Rightarrow> string \<Rightarrow> Target \<Rightarrow> Decision \<Rightarrow> arrival list \<Rightarrow> forward_outcome" where
  "forward_splice cfg pr srcIP target decision evs =
    (if \<not> ti_Enabled cfg then Spliced
     else let expect = d_ExpectProtocol decision in
       if \<not> ti_Enforce cfg \<or> expect = [] then
         Observed expect (classifyAndEmit cfg (tap_arrivals (newTunnelTaps (ti_MaxPrefixBytes cfg)) evs) (pr_User pr) srcIP (Target_String target) expect)
       else Enforced expect (enforceTunnel cfg (pr_User pr) srcIP (Target_String target) expect evs))"

definition handleDirectTCPIP ::
  "Server \<Rightarrow> forward_env \<Rightarrow> Principal \<Rightarrow> string \<Rightarrow> directTCPIP option \<Rightarrow> tunnelAnnouncer \<Rightarrow> arrival list
    \<Rightarrow> Server \<times> Event list \<times> tunnelAnnouncer \<times> forward_outcome" where
  "handleDirectTCPIP s env pr srcIP payload a evs =
    (case payload of None \<Rightarrow> (s, [], a, ForwardRejected Prohibited ''malformed forwarding request'')
     | Some d \<Rightarrow>
        (let target = forward_target d in
         case DialTarget (sv_dialer s) (fe_dial env) pr srcIP target True of
           (dl, devs, tried, Inl e) \<Rightarrow> (s\<lparr>sv_dialer := dl\<rparr>, devs, a, reject_for e)
         | (dl, devs, tried, Inr conn) \<Rightarrow>
            if \<not> fe_accept env then (s\<lparr>sv_dialer := dl\<rparr>, devs, a, AcceptFailed)
            else (s\<lparr>sv_dialer := dl\<rparr>, devs, announce a (tunnelOpenNotice (pr_User pr) (dt_HostToConnect d) (t_Port target)),
              forward_splice (sv_tunnelInspect s) pr srcIP target (Peek (fe_later env dl) pr target) evs)))"

section \<open>What an open tunnel means\<close>

definition tunnel_opened :: "forward_outcome \<Rightarrow> bool" where
  "tunnel_opened oc \<longleftrightarrow> (case oc of ForwardRejected _ _ \<Rightarrow> False | AcceptFailed \<Rightarrow> False | _ \<Rightarrow> True)"

lemma tunnel_opened_simps [simp]:
  "\<not> tunnel_opened (ForwardRejected r m)" "\<not> tunnel_opened AcceptFailed"
  "tunnel_opened (forward_splice cfg pr srcIP target D evs)" "\<not> tunnel_opened (reject_for e)"
  by (simp_all add: tunnel_opened_def forward_splice_def reject_for_def Let_def split: DialError.split)

lemma handleDirectTCPIP_opened:
  assumes "handleDirectTCPIP s env pr srcIP payload a evs = (s', es, a', oc)" and "tunnel_opened oc"
  obtains d dl tried conn where "payload = Some d"
    "DialTarget (sv_dialer s) (fe_dial env) pr srcIP (forward_target d) True = (dl, es, tried, Inr conn)"
    "s' = s\<lparr>sv_dialer := dl\<rparr>"
    "oc = forward_splice (sv_tunnelInspect s) pr srcIP (forward_target d) (Peek (fe_later env dl) pr (forward_target d)) evs"
  using assms
  by (auto simp: handleDirectTCPIP_def Let_def split: option.splits prod.splits sum.splits if_splits)


text \<open>
  Protocol enforcement hangs on a second evaluation of the policy: with
  enforcement on, an open tunnel is enforced exactly when that second evaluation
  names protocols, so a tunnel whose rule names some is spliced unenforced when
  the policy was reloaded, or the name resolved differently, in between.
\<close>

theorem enforcement_by_second_decision:
  assumes "handleDirectTCPIP s env pr srcIP (Some d) a evs = (s', es, a', oc)" and "tunnel_opened oc"
    and "ti_Enabled (sv_tunnelInspect s)" and "ti_Enforce (sv_tunnelInspect s)"
  shows "(\<exists>expect res. oc = Enforced expect res) \<longleftrightarrow> d_ExpectProtocol (Peek (fe_later env (sv_dialer s')) pr (forward_target d)) \<noteq> []"
proof -
  obtain dl where "sv_dialer s' = dl"
    and "oc = forward_splice (sv_tunnelInspect s) pr srcIP (forward_target d) (Peek (fe_later env dl) pr (forward_target d)) evs"
    by (rule handleDirectTCPIP_opened [OF assms(1,2)]) auto
  with assms(3,4) show ?thesis by (simp add: forward_splice_def Let_def)
qed

definition lab_forward_server :: Server where
  "lab_forward_server = Server_New lab_dialer [WithTunnelInspection lab_inspect]"

definition lab_forward :: directTCPIP where
  "lab_forward = \<lparr>dt_HostToConnect = ''db1.lab.local'', dt_PortToConnect = 5432, dt_OriginatorIP = ''127.0.0.1'', dt_OriginatorPort = 40000\<rparr>"

definition lab_forward_env :: "(Dialer \<Rightarrow> Dialer) \<Rightarrow> forward_env" where
  "lab_forward_env later = \<lparr>fe_dial = lab_env, fe_accept = True, fe_later = later\<rparr>"

abbreviation lab_opening :: "(Dialer \<Rightarrow> Dialer) \<Rightarrow> Server \<times> Event list \<times> tunnelAnnouncer \<times> forward_outcome" where
  "lab_opening later \<equiv> handleDirectTCPIP lab_forward_server (lab_forward_env later) (lab_user [''dba'']) ''192.0.2.7'' (Some lab_forward) []
     [FromClient (''SSH-2.0-x'', None), Deadline]"

lemma lab_forward_fields: "sv_dialer lab_forward_server = lab_dialer" "sv_tunnelInspect lab_forward_server = lab_inspect"
  "ti_Enabled lab_inspect" "ti_Enforce lab_inspect" "forward_target lab_forward = lab_target"
  by (simp_all add: lab_forward_server_def Server_New_def WithTunnelInspection_def lab_inspect_def lab_forward_def forward_target_def lab_target_def)

lemma lab_opened:
  "\<exists>es a. lab_opening later = (lab_forward_server\<lparr>sv_dialer := lab_dialer\<rparr>, es, a,
     forward_splice lab_inspect (lab_user [''dba'']) ''192.0.2.7'' lab_target (Peek (later lab_dialer) (lab_user [''dba'']) lab_target)
       [FromClient (''SSH-2.0-x'', None), Deadline])"
  by (simp add: handleDirectTCPIP_def lab_forward_fields lab_forward_env_def lab_dialled Let_def)


theorem enforcement_by_second_decision_witness:
  "\<exists>s' es a oc. lab_opening (\<lambda>d. SetPolicy d \<lparr>po_Roles = []\<rparr>) = (s', es, a, oc) \<and> tunnel_opened oc
    \<and> \<not> (\<exists>expect res. oc = Enforced expect res)
    \<and> d_ExpectProtocol (Decide (dl_policy lab_dialer) (lab_user [''dba'']) lab_target (dl_resolver lab_dialer)) = [''postgres'']"
proof -
  let ?later = "\<lambda>d. SetPolicy d \<lparr>po_Roles = []\<rparr>"
  have no: "d_ExpectProtocol (Peek (?later lab_dialer) (lab_user [''dba'']) lab_target) = []"
    by (simp add: Peek_def currentPolicy_def SetPolicy_def lab_dialer_fields) code_simp
  obtain es a where o: "lab_opening ?later = (lab_forward_server\<lparr>sv_dialer := lab_dialer\<rparr>, es, a,
     forward_splice lab_inspect (lab_user [''dba'']) ''192.0.2.7'' lab_target (Peek (?later lab_dialer) (lab_user [''dba'']) lab_target)
       [FromClient (''SSH-2.0-x'', None), Deadline])" using lab_opened [of ?later] by auto
  from enforcement_by_second_decision [OF o] lab_forward_fields no
  have "\<not> (\<exists>expect res. forward_splice lab_inspect (lab_user [''dba'']) ''192.0.2.7'' lab_target
      (Peek (?later lab_dialer) (lab_user [''dba'']) lab_target) [FromClient (''SSH-2.0-x'', None), Deadline] = Enforced expect res)"
    by (simp add: lab_forward_env_def)
  with o show ?thesis by (simp add: lab_dialer_fields lab_D lab_rule_def)
qed

end
