(* ===== verification/Session_Open.thy ===== *)
theory Session_Open
  imports Session_Channel
begin

text \<open>
  How a shell, an SFTP subsystem and an SCP command get to their target: the same
  opening steps of \<^verbatim>\<open>runRecordedShell\<close> (\<^verbatim>\<open>interactive.go\<close>), \<^verbatim>\<open>runSFTP\<close>
  (\<^verbatim>\<open>sftp.go\<close>) and \<^verbatim>\<open>runSCPTransfer\<close> (\<^verbatim>\<open>scp.go\<close>) under \<^verbatim>\<open>internal/session\<close>.  A
  target must have been selected, the policy is asked again, and the one target
  client of the connection is dialed or reused.  The texts of Go errors are an
  argument.
\<close>

record open_env =
  oe_target :: target_env
  oe_text :: "target_error \<Rightarrow> string"

datatype refusal = NoTargetSelected | PolicyRefused string | DialRefused string

definition peeked :: "Server \<Rightarrow> Principal \<Rightarrow> Decision" where
  "peeked s pr = (case sv_dialerPeek s of None \<Rightarrow> deny [] | Some f \<Rightarrow> f pr (pr_TargetHost pr))"

definition refusal_reason :: "Decision \<Rightarrow> string" where
  "refusal_reason d = (if d_Reason d = [] then ''no policy decision available for this target'' else d_Reason d)"

definition target_port :: "Decision \<Rightarrow> int" where
  "target_port d = (if d_Port d \<le> 0 then 22 else d_Port d)"

type_synonym client_cache = "(target_error, target_client) result targetConnCache"

definition dial_client :: "open_env \<Rightarrow> Principal \<Rightarrow> string \<Rightarrow> Decision \<Rightarrow> Server \<times> Event list \<Rightarrow> (Server \<times> Event list) \<times> (target_error, target_client) result" where
  "dial_client env pr srcIP decision w =
    (case dialTarget (fst w) (oe_target env) pr srcIP decision (pr_TargetHost pr) (target_port decision) (pr_TargetSecretToken pr) of
       (s, evs, tried, r) \<Rightarrow> ((s, snd w @ evs), r))"

definition open_target ::
  "Server \<Rightarrow> open_env \<Rightarrow> Principal \<Rightarrow> string \<Rightarrow> client_cache
    \<Rightarrow> Server \<times> client_cache \<times> Event list \<times> (refusal, Decision \<times> target_client) result" where
  "open_target s env pr srcIP tch =
    (if pr_TargetHost pr = [] then (s, tch, [], Inl NoTargetSelected)
     else let decision = peeked s pr in
       if \<not> d_Allow decision then (s, tch, [], Inl (PolicyRefused (refusal_reason decision)))
       else case getOrDial tch (dial_client env pr srcIP decision) (s, []) of
         (tch', (s', evs), Inl e) \<Rightarrow> (s', tch', evs, Inl (DialRefused (oe_text env e)))
       | (tch', (s', evs), Inr client) \<Rightarrow> (s', tch', evs, Inr (decision, client)))"

fun refusal_text :: "refusal \<Rightarrow> string" where
  "refusal_text NoTargetSelected = ''no target selected''"
| "refusal_text (PolicyRefused reason) = reason"
| "refusal_text (DialRefused e) = e"

text \<open>
  An opened target: the policy allows it now, and the client is the one the
  connection already had or a fresh one.
\<close>

lemma open_target_cases:
  assumes "open_target s env pr srcIP tch = (s', tch', evs, Inr (decision, client))"
  obtains (reused) "tc_result tch = Some (Inr client)" "s' = s" "tch' = tch" "evs = []"
      "pr_TargetHost pr \<noteq> []" "decision = peeked s pr" "d_Allow decision"
  | (dialed) tried where "tc_result tch = None" "tc_result tch' = Some (Inr client)"
      "dialTarget s (oe_target env) pr srcIP decision (pr_TargetHost pr) (target_port decision) (pr_TargetSecretToken pr)
         = (s', evs, tried, Inr client)"
      "pr_TargetHost pr \<noteq> []" "decision = peeked s pr" "d_Allow decision"
  using assms
  by (cases "tc_result tch")
    (auto simp: open_target_def getOrDial_def dial_client_def Let_def split: if_splits prod.splits sum.splits)

lemma open_target_once: "tc_result tch = Some r \<Longrightarrow> fst (snd (open_target s env pr srcIP tch)) = tch \<and> fst (open_target s env pr srcIP tch) = s"
  by (auto simp: open_target_def getOrDial_def Let_def split: sum.splits)

end
