(* ===== verification/Session_Files.thy ===== *)
theory Session_Files
  imports Session_Open Upload Release
begin

text \<open>
  File transfers through the gateway: the SFTP request handlers of
  \<^verbatim>\<open>internal/session/sftp.go\<close> (\<^verbatim>\<open>remoteFS\<close>) with the virtual \<^verbatim>\<open>/releases\<close>
  directory, the quarantined upload handle and its release, and \<^verbatim>\<open>runSFTP\<close>.  The
  SFTP client towards the target is third-party code: what it answers is an
  argument, and the operations it is asked for are collected, so that a theorem
  can say what reaches the target.
\<close>

section \<open>Paths\<close>

text \<open>
  \<^verbatim>\<open>path.Clean\<close> of a rooted path: empty and dot elements vanish, a dot-dot
  removes the element before it, and at the root nothing.
\<close>

definition elements :: "string \<Rightarrow> string list" where
  "elements p = filter (\<lambda>c. c \<noteq> [] \<and> c \<noteq> ''.'') (split_byte (CHR ''/'') p)"

fun resolve_dots :: "string list \<Rightarrow> string list \<Rightarrow> string list" where
  "resolve_dots acc [] = rev acc"
| "resolve_dots acc (c # cs) = (if c = ''..'' then resolve_dots (tl acc) cs else resolve_dots (c # acc) cs)"

definition cleanPath :: "string \<Rightarrow> string" where
  "cleanPath p = ''/'' @ Join (resolve_dots [] (elements (''/'' @ p))) ''/''"

definition path_Base :: "string \<Rightarrow> string" where
  "path_Base p =
    (if p = [] then ''.''
     else let q = rev (dropWhile (\<lambda>c. c = CHR ''/'') (rev p))
       in if q = [] then ''/'' else last (split_byte (CHR ''/'') q))"

definition releasesPrefix :: string where
  "releasesPrefix = ''/releases''"

definition isReleasesPath :: "string \<Rightarrow> bool" where
  "isReleasesPath p \<longleftrightarrow> p = releasesPrefix \<or> HasPrefix p (releasesPrefix @ ''/'')"

definition releaseIDFrom :: "string \<Rightarrow> string" where
  "releaseIDFrom p = (if p = releasesPrefix then [] else TrimPrefix p (releasesPrefix @ ''/''))"

section \<open>Requests and the target\<close>

record sftp_Request =
  sr_Method :: string
  sr_Filepath :: string
  sr_Target :: string

text \<open>The calls on the target's SFTP client; \<open>target\<close> gives the error of each.\<close>

datatype target_op =
    OpOpen string | OpCreate string | OpReadDir string | OpStat string
  | OpRemove string | OpRename string string | OpMkdir string | OpRmdir string

type_synonym target_fs = "target_op \<Rightarrow> string option"

datatype file_error = ErrNotExist | SftpError string

text \<open>\<^verbatim>\<open>remoteFS\<close>: the gate, the stores and the TTLs are those of the server.\<close>

record remoteFS =
  rf_user :: string
  rf_srcIP :: string
  rf_matchedGroups :: "string list"

datatype read_handle = DownloadTap string | ReleaseReader Release string

datatype write_handle = TargetFile string | QuarantineHandle string

datatype file_info = TargetInfos string | ReleaseInfo Release | ReleaseDir

section \<open>Reading and listing\<close>

definition readRelease :: "Server \<Rightarrow> remoteFS \<Rightarrow> time \<Rightarrow> string \<Rightarrow> (file_error, read_handle) result" where
  "readRelease s fs now p =
    (case sv_releases s of None \<Rightarrow> Inl (SftpError ''sftp: /releases is not enabled'')
     | Some rs \<Rightarrow>
        (let rid = releaseIDFrom p in
         if rid = [] then Inl (SftpError (''sftp: '' @ p @ '' is a directory''))
         else case rel_Get rs (rf_user fs) rid now of None \<Rightarrow> Inl ErrNotExist
         | Some rel \<Rightarrow>
            (case sv_inspect s of None \<Rightarrow> Inl (SftpError ''sftp: /releases is not enabled'')
             | Some g \<Rightarrow>
                (case QuarantineReader g (rl_QuarantineKey rel) of None \<Rightarrow> Inl (SftpError (''sftp: read release '' @ rid))
                 | Some content \<Rightarrow> Inr (ReleaseReader rel content)))))"

definition Fileread :: "Server \<Rightarrow> remoteFS \<Rightarrow> target_fs \<Rightarrow> time \<Rightarrow> sftp_Request \<Rightarrow> target_op list \<times> (file_error, read_handle) result" where
  "Fileread s fs target now r =
    (let p = cleanPath (sr_Filepath r) in
     if isReleasesPath p then ([], readRelease s fs now p)
     else case target (OpOpen p) of Some e \<Rightarrow> ([OpOpen p], Inl (SftpError e)) | None \<Rightarrow> ([OpOpen p], Inr (DownloadTap p)))"

definition listReleases :: "Server \<Rightarrow> remoteFS \<Rightarrow> time \<Rightarrow> string \<Rightarrow> string \<Rightarrow> (file_error, file_info list) result" where
  "listReleases s fs now meth p =
    (case sv_releases s of None \<Rightarrow> Inl (SftpError ''sftp: /releases is not enabled'')
     | Some rs \<Rightarrow>
        if meth = ''Stat'' then
          (let rid = releaseIDFrom p in
           if rid = [] then Inr [ReleaseDir]
           else case rel_Get rs (rf_user fs) rid now of None \<Rightarrow> Inl ErrNotExist | Some rel \<Rightarrow> Inr [ReleaseInfo rel])
        else Inr (map ReleaseInfo (ListFor rs (rf_user fs) now)))"

definition Filelist :: "Server \<Rightarrow> remoteFS \<Rightarrow> target_fs \<Rightarrow> time \<Rightarrow> sftp_Request \<Rightarrow> target_op list \<times> (file_error, file_info list) result" where
  "Filelist s fs target now r =
    (let p = cleanPath (sr_Filepath r) in
     if isReleasesPath p then ([], listReleases s fs now (sr_Method r) p)
     else if sr_Method r = ''List'' then
       ([OpReadDir p], case target (OpReadDir p) of Some e \<Rightarrow> Inl (SftpError e) | None \<Rightarrow> Inr [TargetInfos p])
     else if sr_Method r = ''Stat'' then
       ([OpStat p], case target (OpStat p) of Some e \<Rightarrow> Inl (SftpError e) | None \<Rightarrow> Inr [TargetInfos p])
     else ([], Inl (SftpError (''sftp: unsupported list method '' @ sr_Method r))))"

text \<open>What an entry of \<^verbatim>\<open>/releases\<close> shows: its name is the identifier, read-only, of unknown size.\<close>

fun info_Name :: "file_info \<Rightarrow> string" where
  "info_Name (ReleaseInfo rel) = rl_ID rel"
| "info_Name ReleaseDir = ''releases''"
| "info_Name (TargetInfos p) = path_Base p"

section \<open>Commands\<close>

definition file_event :: "string \<Rightarrow> remoteFS \<Rightarrow> Event" where
  "file_event type fs = zero_event\<lparr>ev_Type := type, ev_User := rf_user fs, ev_SourceIP := rf_srcIP fs\<rparr>"

definition emitFilecmd :: "remoteFS \<Rightarrow> string \<Rightarrow> string \<Rightarrow> string \<Rightarrow> string option \<Rightarrow> Event" where
  "emitFilecmd fs op p detail err =
     (file_event TypeTransfer fs)\<lparr>ev_Path := p, ev_Direction := op, ev_Allow := BoolPtr (err = None),
        ev_Reason := (case err of Some e \<Rightarrow> e | None \<Rightarrow> []), ev_Detail := detail\<rparr>"

definition run_cmd :: "remoteFS \<Rightarrow> target_fs \<Rightarrow> target_op \<Rightarrow> string \<Rightarrow> string \<Rightarrow> string \<Rightarrow> target_op list \<times> Event list \<times> file_error option" where
  "run_cmd fs target op name p detail = ([op], [emitFilecmd fs name p detail (target op)], map_option SftpError (target op))"

definition Filecmd :: "remoteFS \<Rightarrow> target_fs \<Rightarrow> sftp_Request \<Rightarrow> target_op list \<times> Event list \<times> file_error option" where
  "Filecmd fs target r =
    (let p = cleanPath (sr_Filepath r); m = sr_Method r in
     if isReleasesPath p then ([], [], Some (SftpError ''sftp: /releases is read-only''))
     else if m = ''Remove'' then run_cmd fs target (OpRemove p) ''remove'' p ''sftp filecmd: remove''
     else if m = ''Rename'' then
       (let q = cleanPath (sr_Target r) in run_cmd fs target (OpRename p q) ''rename'' p (''sftp filecmd: rename to '' @ q))
     else if m = ''Mkdir'' then run_cmd fs target (OpMkdir p) ''mkdir'' p ''sftp filecmd: mkdir''
     else if m = ''Rmdir'' then run_cmd fs target (OpRmdir p) ''rmdir'' p ''sftp filecmd: rmdir''
     else ([], [], None))"

definition Filewrite :: "Server \<Rightarrow> target_fs \<Rightarrow> sftp_Request \<Rightarrow> target_op list \<times> (file_error, write_handle) result" where
  "Filewrite s target r =
    (let p = cleanPath (sr_Filepath r) in
     if isReleasesPath p then ([], Inl (SftpError ''sftp: /releases is read-only''))
     else if sv_inspect s = None then
       ([OpCreate p], case target (OpCreate p) of Some e \<Rightarrow> Inl (SftpError e) | None \<Rightarrow> Inr (TargetFile p))
     else ([], Inr (QuarantineHandle p)))"

section \<open>Releasing an upload\<close>

text \<open>
  The environment of a close: clock readings, the fresh release identifier and
  whether the release store's write succeeds.
\<close>

record close_env =
  ce_now :: "nat \<Rightarrow> time"
  ce_uid :: string
  ce_wok :: bool
  ce_stamp :: "time \<Rightarrow> string"       \<comment> \<open>formatting of a time\<close>

definition release_request :: "remoteFS \<Rightarrow> string \<Rightarrow> gate_Decision \<Rightarrow> ApprovalRequest" where
  "release_request fs p dec =
     zero_request\<lparr>rq_Kind := KindQuarantineRelease, rq_Requester := rf_user fs, rq_RequesterGroups := rf_matchedGroups fs,
       rq_Subject := gd_QuarantineKey dec, rq_Reason := ''release '' @ gd_QuarantineKey dec @ '' to '' @ p\<rparr>"

definition inspection_event :: "remoteFS \<Rightarrow> string \<Rightarrow> gate_Decision \<Rightarrow> Event" where
  "inspection_event fs p dec =
     (file_event TypeInspection fs)\<lparr>ev_Path := p, ev_Direction := ''upload'', ev_Bytes := gd_Bytes dec, ev_SHA256 := gd_SHA256 dec,
       ev_Verdict := gd_Verdict dec, ev_ICAPStatus := gd_ICAPStatus dec, ev_ObjectKey := gd_QuarantineKey dec,
       ev_Allow := BoolPtr (gd_Allow dec), ev_Reason := gd_Reason dec, ev_Detail := ''sftp content inspection''\<rparr>"

definition approval_event :: "remoteFS \<Rightarrow> string \<Rightarrow> string \<Rightarrow> bool option \<Rightarrow> string \<Rightarrow> string \<Rightarrow> Event" where
  "approval_event fs p rid allow outcome reason =
     (file_event TypeApproval fs)\<lparr>ev_Target := p, ev_ObjectKey := rid, ev_Allow := allow, ev_Outcome := outcome, ev_Reason := reason\<rparr>"

definition released_event :: "remoteFS \<Rightarrow> close_env \<Rightarrow> string \<Rightarrow> gate_Decision \<Rightarrow> Release \<Rightarrow> Event" where
  "released_event fs env p dec rel =
     (file_event TypeTransfer fs)\<lparr>ev_Path := p, ev_Direction := ''released'', ev_Bytes := gd_Bytes dec, ev_SHA256 := gd_SHA256 dec,
       ev_ObjectKey := gd_QuarantineKey dec,
       ev_Detail := ''released to /releases (id='' @ rl_ID rel @ '', expires='' @ ce_stamp env (rl_ExpiresAt rel) @ '') '' @ em_dash
         @ '' pull-download by '' @ rf_user fs @ '', not pushed to target''\<rparr>"

definition doClose :: "Server \<Rightarrow> remoteFS \<Rightarrow> close_env \<Rightarrow> string \<Rightarrow> gate_Decision \<times> string option \<Rightarrow> Server \<times> Event list \<times> string option" where
  "doClose s fs env p closed =
    (case closed of (dec, inspErr) \<Rightarrow>
     let ev = inspection_event fs p dec in
     case inspErr of Some e \<Rightarrow> (s, [ev], Some e)
     | None \<Rightarrow>
     case sv_approvals s of
       None \<Rightarrow> (s, [ev], Some (''sftp: upload quarantined (key='' @ gd_QuarantineKey dec @ '') but no approval store is configured to release it''))
     | Some st \<Rightarrow>
     case ap_Create st (release_request fs p dec) (sv_approvalTTL s) of
       Inl e \<Rightarrow> (s, [ev], Some ''sftp: create release request'')
     | Inr req \<Rightarrow>
     case ap_Wait st (rq_ID req) of (final, werr) \<Rightarrow>
     let approved = (werr = None \<and> Approved final (ce_now env 0));
         evs = [ev, approval_event fs p (rq_ID req) None ''requested'' ''quarantine release pending'',
                approval_event fs p (rq_ID req) (BoolPtr approved) (if approved then ''granted'' else ''refused'')
                  (''quarantine release '' @ EffectiveStatus final (ce_now env 1))]
     in if \<not> approved then
          (s, evs, Some (''sftp: upload to '' @ p @ '' denied: quarantine release '' @ EffectiveStatus final (ce_now env 2)))
        else case sv_releases s of
          None \<Rightarrow> (s, evs, Some (''sftp: upload '' @ p @ '' approved for release (key='' @ gd_QuarantineKey dec @ '') but no release store is configured''))
        | Some rs \<Rightarrow>
        case rel_Create rs \<lparr>rl_ID = [], rl_QuarantineKey = gd_QuarantineKey dec, rl_Requester = rf_user fs, rl_OriginalFilename = p,
                rl_ApprovedAt = 0, rl_ExpiresAt = 0\<rparr> (sv_releaseTTL s) (ce_uid env) (ce_now env 3) (ce_now env 4) (ce_wok env) of
          (rs', Inl e) \<Rightarrow> (s\<lparr>sv_releases := Some rs'\<rparr>, evs, Some (''sftp: record release for '' @ p))
        | (rs', Inr rel) \<Rightarrow> (s\<lparr>sv_releases := Some rs'\<rparr>, evs @ [released_event fs env p dec rel], None))"

definition upload_meta :: "string \<Rightarrow> TransferMeta" where
  "upload_meta p = \<lparr>tm_Filename = path_Base p, tm_ContentType = [], tm_Method = REQMOD, tm_URL = []\<rparr>"

text \<open>
  Closing a quarantined upload whose writes left the reordering state \<open>u\<close>: the
  inspection ends with the stream, then its result decides.
\<close>

definition close_upload ::
  "Server \<Rightarrow> remoteFS \<Rightarrow> close_env \<Rightarrow> gate_env \<Rightarrow> Inspector \<Rightarrow> string \<Rightarrow> reorder \<Rightarrow> Server \<times> Event list \<times> string option" where
  "close_upload s fs env genv insp p u =
    (case sv_inspect s of None \<Rightarrow> (s, [], None)
     | Some g \<Rightarrow>
        (case gate_Inspect g genv insp (upload_meta p) (ro_out u) None of (g', dec, gerr) \<Rightarrow>
           doClose (s\<lparr>sv_inspect := Some g'\<rparr>) fs env p (iu_Close u dec gerr)))"

section \<open>A session of requests\<close>

record sftp_state =
  ss_server :: Server
  ss_open :: "string list"            \<comment> \<open>quarantined uploads not closed yet\<close>
  ss_ops :: "target_op list"
  ss_events :: "Event list"

datatype sftp_call =
    CallGet sftp_Request time
  | CallPut sftp_Request
  | CallCmd sftp_Request
  | CallList sftp_Request time
  | CallClose string reorder close_env gate_env Inspector

fun sftp_step :: "remoteFS \<Rightarrow> target_fs \<Rightarrow> sftp_state \<Rightarrow> sftp_call \<Rightarrow> sftp_state" where
  "sftp_step fs target st (CallGet r now) = st\<lparr>ss_ops := ss_ops st @ fst (Fileread (ss_server st) fs target now r)\<rparr>"
| "sftp_step fs target st (CallPut r) =
    (case Filewrite (ss_server st) target r of
       (ops, Inr (QuarantineHandle p)) \<Rightarrow> st\<lparr>ss_ops := ss_ops st @ ops, ss_open := p # ss_open st\<rparr>
     | (ops, _) \<Rightarrow> st\<lparr>ss_ops := ss_ops st @ ops\<rparr>)"
| "sftp_step fs target st (CallCmd r) =
    (case Filecmd fs target r of (ops, evs, _) \<Rightarrow> st\<lparr>ss_ops := ss_ops st @ ops, ss_events := ss_events st @ evs\<rparr>)"
| "sftp_step fs target st (CallList r now) = st\<lparr>ss_ops := ss_ops st @ fst (Filelist (ss_server st) fs target now r)\<rparr>"
| "sftp_step fs target st (CallClose p u env genv insp) =
    (if p \<notin> set (ss_open st) then st
     else case close_upload (ss_server st) fs env genv insp p u of
       (s, evs, _) \<Rightarrow> st\<lparr>ss_server := s, ss_open := remove1 p (ss_open st), ss_events := ss_events st @ evs\<rparr>)"

definition runSFTP ::
  "Server \<Rightarrow> open_env \<Rightarrow> Principal \<Rightarrow> string \<Rightarrow> client_cache \<Rightarrow> string option \<Rightarrow> target_fs \<Rightarrow> sftp_call list
    \<Rightarrow> client_cache \<times> sftp_state" where
  "runSFTP s env pr srcIP tch clientErr target calls =
    (let start = session_event TypeSessionStart (pr_User pr) srcIP ''sftp'';
         over = (\<lambda>detail. session_event TypeSessionEnd (pr_User pr) srcIP detail) in
     case open_target s env pr srcIP tch of
       (s', tch', evs, Inl r) \<Rightarrow>
         (tch', \<lparr>ss_server = s', ss_open = [], ss_ops = [], ss_events = start # evs @ [over (''sftp refused: '' @ refusal_text r)]\<rparr>)
     | (s', tch', evs, Inr (decision, client)) \<Rightarrow>
        (case clientErr of
           Some e \<Rightarrow> (tch', \<lparr>ss_server = s', ss_open = [], ss_ops = [],
                        ss_events = start # evs @ [over (''sftp refused: target sftp client: '' @ e)]\<rparr>)
         | None \<Rightarrow>
            (let fs = \<lparr>rf_user = pr_User pr, rf_srcIP = srcIP, rf_matchedGroups = d_MatchedGroups decision\<rparr>;
                 st = run_steps (sftp_step fs target) \<lparr>ss_server = s', ss_open = [], ss_ops = [], ss_events = start # evs\<rparr> calls
             in (tch', st\<lparr>ss_events := ss_events st @ [over []]\<rparr>))))"

section \<open>Clean paths\<close>

lemma split_byte_parts: "x \<in> set (split_byte c s) \<Longrightarrow> c \<notin> set x"
  by (induction s arbitrary: x) (auto split: if_splits list.splits)

lemma elements_no_slash: "c \<in> set (elements p) \<Longrightarrow> CHR ''/'' \<notin> set c \<and> c \<noteq> [] \<and> c \<noteq> ''.''"
  using split_byte_parts by (auto simp: elements_def)

lemma resolve_dots_set: "set (resolve_dots acc cs) \<subseteq> set acc \<union> (set cs - {''..''})"
proof (induction acc cs rule: resolve_dots.induct)
  case (2 acc c cs)
  then show ?case using list.set_sel(2) [of acc] by (cases acc) auto
qed simp

lemma resolve_dots_clean: "''..'' \<notin> set cs \<Longrightarrow> resolve_dots acc cs = rev acc @ cs"
  by (induction acc cs rule: resolve_dots.induct) auto

lemma elements_join:
  assumes "\<forall>c\<in>set cs. CHR ''/'' \<notin> set c \<and> c \<noteq> [] \<and> c \<noteq> ''.''"
  shows "elements (''/'' @ Join cs ''/'') = cs"
proof (cases "cs = []")
  case False
  with assms have "split_byte (CHR ''/'') (Join cs [CHR ''/'']) = cs" by (intro split_Join) auto
  then show ?thesis using assms by (auto simp: elements_def filter_id_conv)
qed (simp add: elements_def)

lemma cleanPath_elements: "elements (cleanPath p) = resolve_dots [] (elements (''/'' @ p))"
  unfolding cleanPath_def
proof (intro elements_join ballI)
  fix c
  assume "c \<in> set (resolve_dots [] (elements (''/'' @ p)))"
  then have "c \<in> set (elements (''/'' @ p))" using resolve_dots_set [of "[]" "elements (''/'' @ p)"] by auto
  then show "CHR ''/'' \<notin> set c \<and> c \<noteq> [] \<and> c \<noteq> ''.''" by (rule elements_no_slash)
qed

lemma elements_slash [simp]: "elements (CHR ''/'' # p) = elements p"
  by (simp add: elements_def)

lemma cleanPath_no_dotdot: "''..'' \<notin> set (elements (cleanPath p))"
  using resolve_dots_set [of "[]" "elements (''/'' @ p)"] by (auto simp: cleanPath_elements)

lemma cleanPath_idem: "cleanPath (cleanPath p) = cleanPath p"
  using resolve_dots_clean [OF cleanPath_no_dotdot [of p], of "[]"] cleanPath_elements [of p]
  by (simp add: cleanPath_def [of "cleanPath p"]) (simp add: cleanPath_def)

definition clean :: "string \<Rightarrow> bool" where
  "clean p \<longleftrightarrow> cleanPath p = p \<and> ''..'' \<notin> set (elements p)"

lemma clean_cleanPath [simp]: "clean (cleanPath p)"
  by (simp add: clean_def cleanPath_idem cleanPath_no_dotdot)

section \<open>What reaches the target\<close>

fun op_paths :: "target_op \<Rightarrow> string list" where
  "op_paths (OpRename p q) = [p, q]"
| "op_paths (OpOpen p) = [p]" | "op_paths (OpCreate p) = [p]" | "op_paths (OpReadDir p) = [p]" | "op_paths (OpStat p) = [p]"
| "op_paths (OpRemove p) = [p]" | "op_paths (OpMkdir p) = [p]" | "op_paths (OpRmdir p) = [p]"

fun destructive :: "target_op \<Rightarrow> string option" where
  "destructive (OpRemove p) = Some ''remove''" | "destructive (OpRename p q) = Some ''rename''"
| "destructive (OpMkdir p) = Some ''mkdir''" | "destructive (OpRmdir p) = Some ''rmdir''"
| "destructive _ = None"

definition op_ok :: "bool \<Rightarrow> target_op \<Rightarrow> bool" where
  "op_ok gated op \<longleftrightarrow> (\<forall>p\<in>set (op_paths op). clean p) \<and> \<not> isReleasesPath (hd (op_paths op)) \<and> (gated \<longrightarrow> op \<noteq> OpCreate (hd (op_paths op)))"

definition op_evidenced :: "remoteFS \<Rightarrow> target_fs \<Rightarrow> Event list \<Rightarrow> target_op \<Rightarrow> bool" where
  "op_evidenced fs target evs op \<longleftrightarrow>
    (case destructive op of None \<Rightarrow> True
     | Some name \<Rightarrow> (\<exists>e\<in>set evs. ev_Type e = TypeTransfer \<and> ev_User e = rf_user fs \<and> ev_Path e = hd (op_paths op)
          \<and> ev_Direction e = name \<and> ev_Allow e = Some (target op = None)))"

lemma op_evidenced_mono: "op_evidenced fs target evs op \<Longrightarrow> set evs \<subseteq> set evs' \<Longrightarrow> op_evidenced fs target evs' op"
  by (auto simp: op_evidenced_def split: option.splits)

lemma Filecmd_ops:
  assumes "Filecmd fs target r = (ops, evs, err)" and "op \<in> set ops"
  shows "op_ok gated op \<and> op_evidenced fs target evs op"
  using assms
  by (auto simp: Filecmd_def run_cmd_def Let_def op_ok_def op_evidenced_def emitFilecmd_def file_event_def BoolPtr_def split: if_splits)

lemma read_ops: "op \<in> set (fst (Fileread s fs target now r)) \<Longrightarrow> op_ok gated op \<and> destructive op = None"
  "op \<in> set (fst (Filelist s fs target now r)) \<Longrightarrow> op_ok gated op \<and> destructive op = None"
  "op \<in> set (fst (Filewrite s target r)) \<Longrightarrow> op_ok (sv_inspect s \<noteq> None) op \<and> destructive op = None"
  by (auto simp: Fileread_def Filelist_def Filewrite_def Let_def op_ok_def split: if_splits option.splits)

lemma doClose_inspect: "sv_inspect (fst (doClose s fs env p c)) = sv_inspect s"
  by (auto simp: doClose_def Let_def split: prod.splits option.splits sum.splits if_splits)

lemma close_upload_inspect: "(sv_inspect (fst (close_upload s fs env genv insp p u)) = None) = (sv_inspect s = None)"
  by (auto simp: close_upload_def doClose_inspect split: prod.splits option.splits)

definition sftp_inv :: "remoteFS \<Rightarrow> target_fs \<Rightarrow> sftp_state \<Rightarrow> bool" where
  "sftp_inv fs target st \<longleftrightarrow> (\<forall>op\<in>set (ss_ops st). op_ok (sv_inspect (ss_server st) \<noteq> None) op \<and> op_evidenced fs target (ss_events st) op)"

lemma op_plain: "destructive op = None \<Longrightarrow> op_evidenced fs target evs op"
  by (simp add: op_evidenced_def)

lemma sftp_step_inv: "sftp_inv fs target st \<Longrightarrow> sftp_inv fs target (sftp_step fs target st c)"
proof (cases c)
  case (CallPut r)
  assume "sftp_inv fs target st"
  moreover obtain ops res where "Filewrite (ss_server st) target r = (ops, res)" by fastforce
  ultimately show ?thesis using CallPut read_ops(3) [of _ "ss_server st" target r]
    by (cases res rule: sum.exhaust) (auto simp: sftp_inv_def op_plain split: write_handle.splits)
next
  case (CallCmd r)
  assume "sftp_inv fs target st"
  moreover obtain ops evs err where f: "Filecmd fs target r = (ops, evs, err)" by (metis prod.exhaust)
  moreover have "op_evidenced fs target (ss_events st @ evs) op" if "op \<in> set ops" for op
    by (rule op_evidenced_mono [of _ _ evs]) (use Filecmd_ops [OF f that] in simp_all)
  ultimately show ?thesis using CallCmd Filecmd_ops [of fs target r ops evs err]
    by (auto simp: sftp_inv_def intro: op_evidenced_mono)
next
  case (CallClose p u env genv insp)
  assume "sftp_inv fs target st"
  with CallClose close_upload_inspect [of "ss_server st" fs env genv insp p u] show ?thesis
    by (auto simp: sftp_inv_def intro: op_evidenced_mono split: prod.splits)
qed (auto simp: sftp_inv_def op_plain dest: read_ops)

interpretation sftp_session: guarded_machine "sftp_step fs target" "sftp_inv fs target" for fs target
  by unfold_locales (rule sftp_step_inv)

text \<open>
  C31.  What an SFTP session does to the target: whatever the client requests, the
  target only sees absolute paths without dot-dot elements, never a path in
  \<^verbatim>\<open>/releases\<close> (but for the destination of a rename), every removal, rename and
  directory change leaves an event with its path and its outcome, and with an
  inspection gate no file is ever created there: uploads end in quarantine.
\<close>

theorem target_operations:
  fixes s :: Server and fs :: remoteFS and target :: target_fs and calls :: "sftp_call list" and evs :: "Event list"
  defines "st \<equiv> run_steps (sftp_step fs target) \<lparr>ss_server = s, ss_open = [], ss_ops = [], ss_events = evs\<rparr> calls"
  assumes "op \<in> set (ss_ops st)"
  shows "(\<forall>p\<in>set (op_paths op). clean p) \<and> \<not> isReleasesPath (hd (op_paths op))
    \<and> op_evidenced fs target (ss_events st) op
    \<and> (sv_inspect s \<noteq> None \<longrightarrow> (\<forall>p. op \<noteq> OpCreate p))"
proof -
  have gate: "(sv_inspect (ss_server (run_steps (sftp_step fs target) x calls)) = None) = (sv_inspect (ss_server x) = None)" for x
  proof (induction calls arbitrary: x)
    case (Cons c calls)
    have "(sv_inspect (ss_server (sftp_step fs target x c)) = None) = (sv_inspect (ss_server x) = None)"
    proof (cases c)
      case (CallClose p u env genv insp)
      with close_upload_inspect [of "ss_server x" fs env genv insp p u] show ?thesis by (auto split: prod.splits)
    qed (auto split: prod.splits sum.splits write_handle.splits)
    with Cons show ?case by simp
  qed simp
  have "sftp_inv fs target st" unfolding st_def by (rule sftp_session.run_invar) (simp add: sftp_inv_def)
  with assms(2) gate [of "\<lparr>ss_server = s, ss_open = [], ss_ops = [], ss_events = evs\<rparr>"] show ?thesis
    by (cases op) (auto simp: sftp_inv_def op_ok_def st_def)
qed

definition lab_sftp_server :: Server where
  "lab_sftp_server = Server_New lab_dialer [WithInspection (Some lab_gate), WithReleases (Some (newReleaseStore [])) 0]"

definition lab_fs :: remoteFS where
  "lab_fs = \<lparr>rf_user = ''alice'', rf_srcIP = ''192.0.2.7'', rf_matchedGroups = [''dba'']\<rparr>"

definition lab_calls :: "sftp_call list" where
  "lab_calls = [CallPut \<lparr>sr_Method = ''Put'', sr_Filepath = ''a/../b'', sr_Target = []\<rparr>,
     CallCmd \<lparr>sr_Method = ''Rename'', sr_Filepath = ''../../etc/x'', sr_Target = ''releases/x''\<rparr>]"

theorem target_operations_witness:
  "clean ''/etc/x'' \<and> op_evidenced lab_fs (\<lambda>_. None) (ss_events (run_steps (sftp_step lab_fs (\<lambda>_. None))
      \<lparr>ss_server = lab_sftp_server, ss_open = [], ss_ops = [], ss_events = []\<rparr> lab_calls)) (OpRename ''/etc/x'' ''/releases/x'')"
proof -
  let ?st = "run_steps (sftp_step lab_fs (\<lambda>_. None)) \<lparr>ss_server = lab_sftp_server, ss_open = [], ss_ops = [], ss_events = []\<rparr> lab_calls"
  have c: "cleanPath ''a/../b'' = ''/b''" "cleanPath ''../../etc/x'' = ''/etc/x''" "cleanPath ''releases/x'' = ''/releases/x''"
    "\<not> isReleasesPath ''/b''" "\<not> isReleasesPath ''/etc/x''" by code_simp+
  have "sv_inspect lab_sftp_server = Some lab_gate"
    by (simp add: lab_sftp_server_def Server_New_def WithInspection_def WithReleases_def)
  with c have "OpRename ''/etc/x'' ''/releases/x'' \<in> set (ss_ops ?st)"
    by (simp add: lab_calls_def Filewrite_def Filecmd_def run_cmd_def Let_def)
  from target_operations [OF this] show ?thesis by simp
qed

section \<open>Released content is what was inspected and approved\<close>

lemma rel_Create_cases:
  assumes "rel_Create rs rel0 ttl uid now now2 wok = (rs', Inr rel)"
  shows "wok \<and> rel = made rel0 ttl uid now"
  using assms by (auto simp: rel_Create_def made_def rel_persist_def Let_def split: if_splits)

lemma doClose_ok:
  assumes "doClose s fs env p (dec, ierr) = (s', evs, None)"
  obtains st req final rs rs' rel where "ierr = None" "sv_approvals s = Some st"
    "ap_Create st (release_request fs p dec) (sv_approvalTTL s) = Inr req" "ap_Wait st (rq_ID req) = (final, None)"
    "Approved final (ce_now env 0)" "sv_releases s = Some rs" "s' = s\<lparr>sv_releases := Some rs'\<rparr>"
    "rel_Create rs \<lparr>rl_ID = [], rl_QuarantineKey = gd_QuarantineKey dec, rl_Requester = rf_user fs, rl_OriginalFilename = p,
       rl_ApprovedAt = 0, rl_ExpiresAt = 0\<rparr> (sv_releaseTTL s) (ce_uid env) (ce_now env 3) (ce_now env 4) (ce_wok env) = (rs', Inr rel)"
    "last evs = released_event fs env p dec rel"
  using assms
  by (auto simp: doClose_def Let_def split: option.splits sum.splits prod.splits if_splits)

lemma release_path: "CHR ''/'' \<notin> set rid \<Longrightarrow> rid \<noteq> [] \<Longrightarrow> rid \<noteq> ''.'' \<Longrightarrow> rid \<noteq> ''..'' \<Longrightarrow>
    cleanPath (''/releases/'' @ rid) = ''/releases/'' @ rid \<and> isReleasesPath (''/releases/'' @ rid) \<and> releaseIDFrom (''/releases/'' @ rid) = rid"
proof (intro conjI)
  assume r: "CHR ''/'' \<notin> set rid" "rid \<noteq> []" "rid \<noteq> ''.''" "rid \<noteq> ''..''"
  have j: "''/releases/'' @ rid = ''/'' @ Join [''releases'', rid] ''/''" by simp
  have "elements (''/'' @ Join [''releases'', rid] ''/'') = [''releases'', rid]" using r by (intro elements_join) auto
  then have "elements (''/'' @ ''/releases/'' @ rid) = [''releases'', rid]" unfolding j by simp
  then show "cleanPath (''/releases/'' @ rid) = ''/releases/'' @ rid" using r by (simp add: cleanPath_def)
  show "isReleasesPath (''/releases/'' @ rid)" by (simp add: isReleasesPath_def releasesPrefix_def HasPrefix_iff)
  show "releaseIDFrom (''/releases/'' @ rid) = rid"
    using r(2) by (simp add: releaseIDFrom_def releasesPrefix_def TrimPrefix_def HasPrefix_iff)
qed

end
