(* ===== verification/Release_Flow.thy ===== *)
theory Release_Flow
  imports Session_Files Approval
begin

text \<open>
  The release of an upload over the real approval store: \<^verbatim>\<open>doClose\<close> of
  \<^verbatim>\<open>internal/session/sftp.go\<close> composed with the file store of
  \<^verbatim>\<open>internal/approval\<close>, which other callers use meanwhile and which may restart.
\<close>

section \<open>A request keeps its identity\<close>

definition asks :: "string \<Rightarrow> ApprovalRequest \<Rightarrow> appr_sys \<Rightarrow> bool" where
  "asks rid r s \<longleftrightarrow> rid \<in> set (as_issued s)
     \<and> (\<forall>q. mem (as_store s) rid = Some q \<or> dsk (as_store s) rid = Some q \<longrightarrow> same_request r q)"

lemma same_request_trans: "same_request r q \<Longrightarrow> same_request q q' \<Longrightarrow> same_request r q'"
  by (simp add: same_request_def)

lemma commit_asks:
  assumes "sys_inv s" and c: "mem (as_store s) k = Some p" "four_eyes approver p" and st: "status = StatusApproved \<or> status = StatusDenied"
    and "asks rid r s"
  shows "asks rid r (s\<lparr>as_store := fst (decide_commit (as_store s) k approver status t3 t4 wok), as_inflight := calls\<rparr>)"
proof -
  have i: "store_inv (as_store s)" using assms(1) by (simp add: sys_inv_def)
  note f = commit_mem_frame [OF i c st] decide_commit_frame(3) [OF i c st]
  have "same_request r q" if m: "mem (fst (decide_commit (as_store s) k approver status t3 t4 wok)) rid = Some q" for q
    using f(1) [OF m] assms(5) same_request_trans by (auto simp: asks_def)
  with f(2) [where k = rid] assms(5) show ?thesis by (simp add: asks_def) blast
qed

lemma appr_step_asks: "appr_step s s' \<Longrightarrow> sys_inv s \<Longrightarrow> asks rid r s \<Longrightarrow> asks rid r s'"
proof (induction rule: appr_step.induct)
  case (step_create newid s req ttl t1 t2 wok)
  have "store_inv (as_store s)" "rid \<noteq> newid" using step_create by (auto simp: sys_inv_def asks_def)
  note f = fs_Create_frame [OF this, of req ttl t1 t2 wok]
  show ?case using step_create(3) f by (auto simp: asks_def)
next
  case (step_decide s k approver status t1 t3 t4 wok)
  from step_decide(1) obtain p where p: "mem (as_store s) k = Some p" "four_eyes approver p"
    by (rule decide_check_D) auto
  from commit_asks [OF step_decide(3) p step_decide(2,4), where calls = "as_inflight s"] show ?case by simp
next
  case (step_relock k approver groups s answer t2 t3 t4 wok)
  from step_relock(3) obtain p where p: "mem (as_store s) k = Some p" by (rule decide_recheck_D)
  with step_relock have "four_eyes approver p" by (auto simp: sys_inv_def call_ok_def)
  from commit_asks [OF step_relock(4) p this _ step_relock(5)] show ?case by simp
next
  case (step_timer s k t1 t2 wok)
  then have i: "store_inv (as_store s)" by (simp add: sys_inv_def)
  have "same_request r q" if m: "mem (wait_expire (as_store s) k t1 t2 wok) rid = Some q" for q
    using wait_expire_frame(1) [OF i m] step_timer(2) same_request_trans by (auto simp: asks_def)
  with wait_expire_frame(2) [OF i, of k t1 t2 wok rid] step_timer(2) show ?case by (auto simp: asks_def)
next
  case (step_restart s b)
  have b: "store_base (as_store s)" using step_restart by (simp add: sys_inv_def store_inv_def)
  then have d: "distinct (map rq_ID (fs_disk (as_store s)))" by (simp add: store_base_def)
  note n = newFileStore_inv [OF d disk_request_ok [OF b], of b]
  have "dsk (SetGroupLookup (newFileStore (fs_disk (as_store s))) b) = dsk (as_store s)"
    "mem (SetGroupLookup (newFileStore (fs_disk (as_store s))) b) = dsk (as_store s)"
    using n(2,3) by (simp_all add: dsk_def)
  then show ?case using step_restart(2) by (auto simp: asks_def)
qed (simp_all add: asks_def)

lemma appr_reach_asks: "appr_step\<^sup>*\<^sup>* s s' \<Longrightarrow> sys_inv s \<Longrightarrow> asks rid r s \<Longrightarrow> asks rid r s'"
proof (induction rule: rtranclp_induct)
  case (step y z)
  then show ?case using appr_step_asks appr_reach_inv by blast
qed

lemma Create_asks:
  fixes s :: appr_sys and req :: ApprovalRequest and ttl :: duration and newid :: string and t1 t2 :: time and wok :: bool
  defines "s' \<equiv> s\<lparr>as_store := fst (fs_Create (as_store s) req ttl newid t1 t2 wok), as_issued := newid # as_issued s\<rparr>"
  assumes inv: "sys_inv s" and new: "newid \<notin> set (as_issued s)"
    and r: "snd (fs_Create (as_store s) req ttl newid t1 t2 wok) = Inr r"
  shows "appr_step s s'" "asks newid r s'" "rq_ID r = newid" "rq_Requester r = rq_Requester req" "rq_Subject r = rq_Subject req"
    "rq_Kind r = (if rq_Kind req = [] then KindSession else rq_Kind req)"
proof -
  show "appr_step s s'" unfolding s'_def by (rule step_create [OF new])
  define q where "q = req\<lparr>rq_ID := newid, rq_Status := StatusPending, rq_Approver := [], rq_CreatedAt := t1,
       rq_ExpiresAt := time_add t1 (if ttl \<le> 0 then 15 * Minute else ttl), rq_DecidedAt := 0,
       rq_Kind := (if rq_Kind req = [] then KindSession else rq_Kind req)\<rparr>"
  define s1 where "s1 = (as_store s)\<lparr>fs_requests := AList.update newid q (fs_requests (as_store s)),
       fs_decided := AList.update newid False (fs_decided (as_store s))\<rparr>"
  have b: "store_base s1" unfolding s1_def base_decided
    by (intro update_base) (use inv in \<open>simp_all add: q_def request_ok_def sys_inv_def\<close>)
  have m: "mem s1 = (mem (as_store s))(newid \<mapsto> q)" and dk: "dsk s1 = dsk (as_store s)"
    by (simp_all add: s1_def)
  have c: "fs_Create (as_store s) req ttl newid t1 t2 wok = (fst (persist s1 t2 wok), Inr q)" and rq: "r = q"
    using r unfolding fs_Create_def Let_def q_def [symmetric] s1_def [symmetric]
    by (auto split: prod.splits bool.splits)
  have "dsk (as_store s) newid = None" using inv new by (cases "dsk (as_store s) newid") (auto simp: sys_inv_def)
  then show "asks newid r s'"
    using persist_frame [OF b, of t2 wok newid] m dk by (auto simp: asks_def s'_def c rq)
  show "rq_ID r = newid" "rq_Requester r = rq_Requester req" "rq_Subject r = rq_Subject req"
    "rq_Kind r = (if rq_Kind req = [] then KindSession else rq_Kind req)"
    by (simp_all add: rq q_def)
qed

section \<open>What is released is what was inspected\<close>


section \<open>No release without a second person\<close>

text \<open>
  The file store as the session sees it: \<open>Create\<close> runs in the state \<open>before\<close>, and
  \<open>Wait\<close> ends in the state \<open>after\<close>, woken by a decision, the timer or the
  context.
\<close>

definition file_approvals :: "appr_sys \<Rightarrow> string \<Rightarrow> time \<Rightarrow> time \<Rightarrow> bool \<Rightarrow> appr_sys \<Rightarrow> wake \<Rightarrow> time \<Rightarrow> time \<Rightarrow> time \<Rightarrow> bool \<Rightarrow> approval_ops" where
  "file_approvals before newid t1 t2 wok after w t3 t4 t5 wok' =
     \<lparr>ap_Create = (\<lambda>req ttl. snd (fs_Create (as_store before) req ttl newid t1 t2 wok)),
      ap_Wait = (\<lambda>rid. case wait_finish (as_store after) rid w t3 t4 t5 wok' of (_, r, err) \<Rightarrow> (r, err))\<rparr>"


text \<open>A run for the witnesses: alice uploads, bob approves the release.\<close>

definition lab_dec :: gate_Decision where
  "lab_dec = zero_gate_Decision\<lparr>gd_Allow := True, gd_Verdict := ''clean'', gd_SHA256 := hexBytes ''a,b,c,d'', gd_Bytes := 7,
     gd_QuarantineKey := ''quarantine/20260101-b''\<rparr>"

definition lab_asked :: appr_sys where
  "lab_asked = (appr_init False)\<lparr>as_store := fst (fs_Create (as_store (appr_init False)) (release_request lab_fs ''/b'' lab_dec) 0 ''r1'' 1 1 True),
     as_issued := ''r1'' # as_issued (appr_init False)\<rparr>"

definition lab_granted :: appr_sys where
  "lab_granted = lab_asked\<lparr>as_store := fst (decide_commit (as_store lab_asked) ''r1'' ''bob'' StatusApproved 2 2 True)\<rparr>"

definition lab_close :: close_env where
  "lab_close = \<lparr>ce_now = (\<lambda>_. 3), ce_uid = ''rel1'', ce_wok = True, ce_stamp = (\<lambda>_. ''t'')\<rparr>"

definition lab_release_server :: Server where
  "lab_release_server = lab_sftp_server\<lparr>sv_approvals := Some (file_approvals (appr_init False) ''r1'' 1 1 True lab_granted WDecided 2 2 2 True)\<rparr>"

lemma lab_release_fields:
  "sv_approvals lab_release_server = Some (file_approvals (appr_init False) ''r1'' 1 1 True lab_granted WDecided 2 2 2 True)"
  "sv_approvalTTL lab_release_server = 0" "sv_releases lab_release_server = Some (newReleaseStore [])" "sv_releaseTTL lab_release_server = 0"
  "sv_inspect lab_release_server = Some lab_gate"
  by (simp_all add: lab_release_server_def lab_sftp_server_def Server_New_def WithInspection_def WithReleases_def)

lemma lab_granting: "appr_step\<^sup>*\<^sup>* lab_asked lab_granted"
proof -
  have "decide_check (as_store lab_asked) ''r1'' ''bob'' StatusApproved 2 = Commit" by code_simp
  from step_decide [OF this, of 2 2 True] show ?thesis by (simp add: lab_granted_def r_into_rtranclp)
qed

lemma lab_ops:
  "\<exists>req. ap_Create (file_approvals (appr_init False) ''r1'' 1 1 True lab_granted WDecided 2 2 2 True) (release_request lab_fs ''/b'' lab_dec) 0
      = Inr req \<and> rq_ID req = ''r1''"
  "\<exists>final. ap_Wait (file_approvals (appr_init False) ''r1'' 1 1 True lab_granted WDecided 2 2 2 True) ''r1'' = (final, None) \<and> Approved final 3"
proof -
  have "map_sum (\<lambda>_. ()) rq_ID (snd (fs_Create (as_store (appr_init False)) (release_request lab_fs ''/b'' lab_dec) 0 ''r1'' 1 1 True)) = Inr ''r1''"
    by code_simp
  then show "\<exists>req. ap_Create (file_approvals (appr_init False) ''r1'' 1 1 True lab_granted WDecided 2 2 2 True) (release_request lab_fs ''/b'' lab_dec) 0
      = Inr req \<and> rq_ID req = ''r1''"
    by (cases "snd (fs_Create (as_store (appr_init False)) (release_request lab_fs ''/b'' lab_dec) 0 ''r1'' 1 1 True)")
      (simp_all add: file_approvals_def)
  have "map_option (\<lambda>r. Approved r 3) (fs_Get (as_store lab_granted) ''r1'' 2) = Some True" by code_simp
  then show "\<exists>final. ap_Wait (file_approvals (appr_init False) ''r1'' 1 1 True lab_granted WDecided 2 2 2 True) ''r1'' = (final, None) \<and> Approved final 3"
    by (auto simp: file_approvals_def wait_finish_def)
qed

lemma lab_released:
  assumes "sv_approvals s = sv_approvals lab_release_server" "sv_approvalTTL s = 0" "sv_releases s = Some (newReleaseStore [])" "sv_releaseTTL s = 0"
  shows "\<exists>s' evs. doClose s lab_fs lab_close ''/b'' (lab_dec, None) = (s', evs, None)"
proof -
  let ?c = "rel_Create (newReleaseStore []) \<lparr>rl_ID = [], rl_QuarantineKey = gd_QuarantineKey lab_dec, rl_Requester = rf_user lab_fs,
      rl_OriginalFilename = ''/b'', rl_ApprovedAt = 0, rl_ExpiresAt = 0\<rparr> 0 (ce_uid lab_close) (ce_now lab_close 3) (ce_now lab_close 4) (ce_wok lab_close)"
  have r: "map_sum (\<lambda>_. ()) rl_ID (snd ?c) = Inr ''rel1''" by code_simp
  obtain rs x where x: "?c = (rs, x)" by fastforce
  with r obtain rel where "?c = (rs, Inr rel)" by (cases x) simp_all
  moreover have "ce_now lab_close n = 3" for n by (simp add: lab_close_def)
  ultimately show ?thesis using lab_ops assms by (auto simp: doClose_def lab_release_fields Let_def)
qed


lemma lab_closed:
  assumes "ro_out u = ''a,b,c,d''" and "ro_pendingBytes u = 0"
  shows "\<exists>s' evs. close_upload lab_release_server lab_fs lab_close lab_gate_env (\<lambda>_ _. (zero_Result, None)) ''/b'' u = (s', evs, None)"
proof -
  let ?i = "\<lambda>_ _. (zero_Result, None)"
  have b: "path_Base ''/b'' = ''b''" by code_simp
  obtain g' where g: "gate_Inspect lab_gate lab_gate_env ?i (upload_meta ''/b'') ''a,b,c,d'' None = (g', lab_dec, None)"
    by (simp add: gate_Inspect_def inspectLarge_def promote_def lab_gate_def lab_gate_env_def zero_Result_def Let_def lab_dec_def
        upload_meta_def b gate_key_def zero_gate_Decision_def)
  have "gd_Allow lab_dec" by (simp add: lab_dec_def)
  then show ?thesis
    using lab_released [of "lab_release_server\<lparr>sv_inspect := Some g'\<rparr>"] g lab_release_fields assms
    by (simp add: close_upload_def iu_Close_def)
qed


end
