(* ===== verification/Scp.thy ===== *)
theory Scp
  imports Release_Flow
begin

text \<open>
  The legacy SCP protocol, \<^verbatim>\<open>internal/session/scp.go\<close>: the accepted command lines,
  the status bytes and control lines, the upload and download of one file over
  the handlers of \<open>Session_Files\<close>, and \<^verbatim>\<open>runSCP\<close>.
\<close>

section \<open>Command lines\<close>

text \<open>
  \<^verbatim>\<open>strings.Fields\<close>: \<open>space_len\<close> is the number of bytes of the white-space
  character a string starts with (0: none), in UTF-8; no byte of such a character
  can start inside another one.
\<close>

definition space_len :: "string \<Rightarrow> nat" where
  "space_len s =
    (case map byte (take 3 s) of [] \<Rightarrow> 0
     | b # bs \<Rightarrow>
        if b \<in> {9, 10, 11, 12, 13, 32} then 1
        else if b = 0xC2 \<and> (take 1 bs = [0x85] \<or> take 1 bs = [0xA0]) then 2
        else if b = 0xE1 \<and> bs = [0x9A, 0x80] then 3
        else if b = 0xE2 \<and> length bs = 2 \<and> (bs ! 0 = 0x80 \<and> (0x80 \<le> bs ! 1 \<and> bs ! 1 \<le> 0x8A \<or> bs ! 1 \<in> {0xA8, 0xA9, 0xAF})
             \<or> bs ! 0 = 0x81 \<and> bs ! 1 = 0x9F) then 3
        else if b = 0xE3 \<and> bs = [0x80, 0x80] then 3
        else 0)"

function fields_from :: "string \<Rightarrow> string \<Rightarrow> string list" where
  "fields_from cur [] = (if cur = [] then [] else [cur])"
| "fields_from cur (c # cs) =
    (if space_len (c # cs) = 0 then fields_from (cur @ [c]) cs
     else (if cur = [] then [] else [cur]) @ fields_from [] (drop (space_len (c # cs) - 1) cs))"
  by pat_completeness auto
termination
  by (relation "measure (\<lambda>(cur, s). length s)") auto

definition Fields :: "string \<Rightarrow> string list" where
  "Fields s = fields_from [] s"

datatype scpDirection = ScpUpload | ScpDownload

definition scp_metachars :: string where
  "scp_metachars = [CHR 0x27, CHR 0x22, CHR ''$'', CHR 0x60, CHR 0x5C, CHR '';'', CHR ''|'', CHR ''&'', CHR ''<'', CHR ''>'',
     CHR ''*'', CHR ''?'', CHR ''['', CHR '']'', CHR ''{'', CHR ''}'', CHR ''~'']"

definition bad_path_char :: "char \<Rightarrow> bool" where
  "bad_path_char c \<longleftrightarrow> c \<in> set scp_metachars \<or> byte c < 0x20 \<or> byte c = 0x7F"

datatype scp_error =
    UnsupportedCommand | ConflictingFlags | RecursiveUnsupported | UnsupportedFlag string | UnsupportedPath
  | MultiplePaths | MissingDirection | MissingPath

fun scp_fields :: "scpDirection option \<Rightarrow> string \<Rightarrow> string list \<Rightarrow> (scp_error, scpDirection \<times> string) result" where
  "scp_fields dir path [] =
    (case dir of None \<Rightarrow> Inl MissingDirection | Some d \<Rightarrow> if path = [] then Inl MissingPath else Inr (d, path))"
| "scp_fields dir path (f # fs) =
    (if f = ''-t'' then (if dir \<noteq> None then Inl ConflictingFlags else scp_fields (Some ScpUpload) path fs)
     else if f = ''-f'' then (if dir \<noteq> None then Inl ConflictingFlags else scp_fields (Some ScpDownload) path fs)
     else if f = ''-r'' then Inl RecursiveUnsupported
     else if f \<in> {''-p'', ''-d'', ''-v'', ''-q'', ''--''} then scp_fields dir path fs
     else if HasPrefix f ''-'' then Inl (UnsupportedFlag f)
     else if list_ex bad_path_char f then Inl UnsupportedPath
     else if path \<noteq> [] then Inl MultiplePaths
     else scp_fields dir f fs)"

definition parseSCPCommand :: "string \<Rightarrow> (scp_error, scpDirection \<times> string) result" where
  "parseSCPCommand cmd =
    (case Fields cmd of
       f # fs \<Rightarrow> if fs = [] \<or> f \<noteq> ''scp'' then Inl UnsupportedCommand else scp_fields None [] fs
     | [] \<Rightarrow> Inl UnsupportedCommand)"

section \<open>Status bytes and control lines\<close>

abbreviation scpOK :: char where "scpOK \<equiv> CHR 0x00"
abbreviation scpError :: char where "scpError \<equiv> CHR 0x01"
abbreviation scpFatal :: char where "scpFatal \<equiv> CHR 0x02"
abbreviation newline :: char where "newline \<equiv> CHR 0x0A"

text \<open>
  The channel: what the client sends before it closes its side, what it was
  sent, and how many writes succeed before the channel breaks.
\<close>

record scp_chan =
  sc_in :: string
  sc_sent :: "string list"
  sc_writes :: nat

definition chan_Write :: "scp_chan \<Rightarrow> string \<Rightarrow> scp_chan \<times> bool" where
  "chan_Write c msg = (if length (sc_sent c) < sc_writes c then (c\<lparr>sc_sent := sc_sent c @ [msg]\<rparr>, True) else (c, False))"

definition scpSendOK :: "scp_chan \<Rightarrow> scp_chan \<times> bool" where
  "scpSendOK c = chan_Write c [scpOK]"

definition scpSendFatal :: "scp_chan \<Rightarrow> string \<Rightarrow> scp_chan" where
  "scpSendFatal c msg = fst (chan_Write c (scpFatal # msg @ [newline]))"

text \<open>\<^verbatim>\<open>ReadString('\n')\<close>: the line with its delimiter, or what was left and an error.\<close>

definition ReadString :: "scp_chan \<Rightarrow> scp_chan \<times> string \<times> bool" where
  "ReadString c =
    (case IndexByte (sc_in c) newline of
       None \<Rightarrow> (c\<lparr>sc_in := []\<rparr>, sc_in c, False)
     | Some i \<Rightarrow> (c\<lparr>sc_in := drop (Suc i) (sc_in c)\<rparr>, take (Suc i) (sc_in c), True))"

definition scpReadAck :: "scp_chan \<Rightarrow> scp_chan \<times> string option" where
  "scpReadAck c =
    (case sc_in c of [] \<Rightarrow> (c, Some ''scp: read ack: EOF'')
     | status # rest \<Rightarrow>
        (let c1 = c\<lparr>sc_in := rest\<rparr> in
         if status = scpOK then (c1, None)
         else case ReadString c1 of (c2, line, ok) \<Rightarrow>
           (c2, Some (if \<not> ok \<and> line = [] then ''scp: peer signalled status '' @ show_nat (byte status) @ '' with no message: EOF''
                      else ''scp: peer error: '' @ TrimSuffix line [newline]))))"

record scpControlLine =
  cl_Perm :: string
  cl_Size :: int
  cl_Name :: string

definition parse_control :: "string \<Rightarrow> (string, scpControlLine) result" where
  "parse_control line =
    (if HasPrefix line ''D'' \<or> HasPrefix line ''E'' then Inl ''scp: recursive transfer (-r) is not supported''
     else if \<not> HasPrefix line ''C'' then Inl ''scp: unexpected control line''
     else case SplitN3 (tl line) of
       [perm, sz, name] \<Rightarrow>
         (case Atoi sz of None \<Rightarrow> Inl ''scp: malformed size in control line''
          | Some n \<Rightarrow> if n < 0 then Inl ''scp: malformed size in control line'' else Inr \<lparr>cl_Perm = perm, cl_Size = n, cl_Name = name\<rparr>)
     | _ \<Rightarrow> Inl ''scp: malformed control line'')"

definition scpReadControlLine :: "scp_chan \<Rightarrow> scp_chan \<times> (string, scpControlLine) result" where
  "scpReadControlLine c =
    (case ReadString c of (c1, line, ok) \<Rightarrow>
     if \<not> ok then (c1, Inl ''scp: read control line: EOF'')
     else if HasPrefix line ''T'' then
       (case scpSendOK c1 of (c2, False) \<Rightarrow> (c2, Inl ''scp: ack T line'')
        | (c2, True) \<Rightarrow>
           (case ReadString c2 of (c3, line2, ok2) \<Rightarrow>
            if \<not> ok2 then (c3, Inl ''scp: read control line after T: EOF'') else (c3, parse_control (TrimSuffix line2 [newline]))))
     else (c1, parse_control (TrimSuffix line [newline])))"

section \<open>Receiving a file\<close>

text \<open>
  The handle \<open>Filewrite\<close> returned: a target file or a quarantined upload, over a
  state of its own.
\<close>

record 'w file_writer =
  fw_WriteAt :: "'w \<Rightarrow> string \<Rightarrow> int \<Rightarrow> 'w \<times> string option"
  fw_Close :: "'w \<Rightarrow> 'w \<times> string option"

definition scpChunk :: nat where
  "scpChunk = 32768"

text \<open>
  The copy loop of \<open>scpUpload\<close>: \<open>sizes\<close> are the byte counts of the successive
  reads (each at least one while there is input).  \<open>None\<close>: still waiting for
  the client; otherwise the error that ended the loop, if any.
\<close>

primrec receive_body :: "'w file_writer \<Rightarrow> int \<Rightarrow> nat list \<Rightarrow> 'w \<Rightarrow> string \<Rightarrow> int \<Rightarrow> ('w \<times> string \<times> string option) option" where
  "receive_body fw want [] w inp written =
    (if written \<ge> want then Some (w, inp, None)
     else if inp = [] then Some (w, inp, Some ''scp: read from client: EOF'') else None)"
| "receive_body fw want (k # ks) w inp written =
    (if written \<ge> want then Some (w, inp, None)
     else if inp = [] then Some (w, inp, Some ''scp: read from client: EOF'')
     else let n = min (max 1 k) (min (length inp) (min scpChunk (nat (want - written)))) in
       case fw_WriteAt fw w (take n inp) written of
         (w', Some e) \<Rightarrow> Some (w', drop n inp, Some (''scp: '' @ e))
       | (w', None) \<Rightarrow> receive_body fw want ks w' (drop n inp) (written + int n))"

definition scp_fail :: "'w file_writer \<Rightarrow> scp_chan \<Rightarrow> 'w \<Rightarrow> string \<Rightarrow> scp_chan \<times> 'w" where
  "scp_fail fw c w msg = (scpSendFatal c msg, fst (fw_Close fw w))"

definition scp_finish :: "'w file_writer \<Rightarrow> scp_chan \<Rightarrow> 'w \<Rightarrow> scp_chan \<times> 'w \<times> bool" where
  "scp_finish fw c w =
    (case sc_in c of [] \<Rightarrow> (case scp_fail fw c w ''scp: read trailer: EOF'' of (c', w') \<Rightarrow> (c', w', False))
     | b # rest \<Rightarrow>
        (let c1 = c\<lparr>sc_in := rest\<rparr> in
         case fw_Close fw w of
           (w', Some e) \<Rightarrow> (scpSendFatal c1 (''scp: '' @ e), w', False)
         | (w', None) \<Rightarrow> (case scpSendOK c1 of (c2, ok) \<Rightarrow> (c2, w', ok))))"

text \<open>\<open>handle\<close> is the handle of \<open>Filewrite\<close>, or its error.\<close>

definition scpUpload :: "(string, 'w file_writer) result \<Rightarrow> nat list \<Rightarrow> scp_chan \<Rightarrow> 'w \<Rightarrow> (scp_chan \<times> 'w \<times> bool) option" where
  "scpUpload handle sizes c w =
    (case scpSendOK c of (c1, False) \<Rightarrow> Some (c1, w, False)
     | (c1, True) \<Rightarrow>
        (case scpReadControlLine c1 of (c2, Inl e) \<Rightarrow> Some (scpSendFatal c2 e, w, False)
         | (c2, Inr cl) \<Rightarrow>
            (case scpSendOK c2 of (c3, False) \<Rightarrow> Some (c3, w, False)
             | (c3, True) \<Rightarrow>
                (case handle of Inl e \<Rightarrow> Some (scpSendFatal c3 (''scp: '' @ e), w, False)
                 | Inr fw \<Rightarrow>
                    (case receive_body fw (cl_Size cl) sizes w (sc_in c3) 0 of
                       None \<Rightarrow> None
                     | Some (w', rest, Some e) \<Rightarrow> (case scp_fail fw (c3\<lparr>sc_in := rest\<rparr>) w' e of (c4, w'') \<Rightarrow> Some (c4, w'', False))
                     | Some (w', rest, None) \<Rightarrow> Some (scp_finish fw (c3\<lparr>sc_in := rest\<rparr>) w'))))))"

section \<open>Sending a file\<close>

text \<open>
  \<open>rd n off\<close> is \<^verbatim>\<open>ReadAt\<close> into a buffer of \<open>n\<close> bytes: what was read, and the
  error.  A reader that returns nothing and no error makes the loop run forever.
\<close>

type_synonym reader_at = "nat \<Rightarrow> int \<Rightarrow> string \<times> read_error option"

definition served :: "int \<Rightarrow> int \<Rightarrow> string option" where
  "served off want = (if off < want then Some (''scp: target served '' @ show_int off @ '' of '' @ show_int want @ '' bytes'') else None)"

text \<open>One iteration: the loop is left with a result, or goes on at the next offset.\<close>

definition copy_step :: "reader_at \<Rightarrow> int \<Rightarrow> scp_chan \<Rightarrow> int \<Rightarrow> (scp_chan \<times> string option) + (scp_chan \<times> int)" where
  "copy_step rd want c off =
    (if \<not> off < want then Inl (c, served off want)
     else case rd (min scpChunk (nat (want - off))) off of (bs, rerr) \<Rightarrow>
       (case (if bs = [] then (c, True) else chan_Write c bs) of
          (c', False) \<Rightarrow> Inl (c', Some ''write error'')
        | (c', True) \<Rightarrow>
           (case rerr of Some EOF \<Rightarrow> Inl (c', served (off + int (length bs)) want)
            | Some ReleaseTooLarge \<Rightarrow> Inl (c', Some ''release exceeds the read limit'')
            | Some (SourceError e) \<Rightarrow> Inl (c', Some e)
            | None \<Rightarrow> Inr (c', off + int (length bs)))))"

partial_function (option) copy_body :: "reader_at \<Rightarrow> int \<Rightarrow> scp_chan \<Rightarrow> int \<Rightarrow> (scp_chan \<times> string option) option" where
  "copy_body rd want c off =
    (case copy_step rd want c off of Inl r \<Rightarrow> Some r | Inr (c', off') \<Rightarrow> copy_body rd want c' off')"

definition scpCopyBody :: "scp_chan \<Rightarrow> reader_at \<Rightarrow> int \<Rightarrow> (scp_chan \<times> string option) option" where
  "scpCopyBody c rd want = copy_body rd want c 0"

text \<open>\<open>stat\<close> is the size the target reports, or the error; \<open>handle\<close> the handle of \<open>Fileread\<close>.\<close>

definition scpDownload :: "(string, int) result \<Rightarrow> (string, reader_at) result \<Rightarrow> string \<Rightarrow> scp_chan \<Rightarrow> (scp_chan \<times> bool) option" where
  "scpDownload stat handle remotePath c =
    (case stat of Inl e \<Rightarrow> Some (scpSendFatal c (''scp: '' @ e), False)
     | Inr want \<Rightarrow>
        (case handle of Inl e \<Rightarrow> Some (scpSendFatal c (''scp: '' @ e), False)
         | Inr rd \<Rightarrow>
            (case scpReadAck c of (c1, Some e) \<Rightarrow> Some (c1, False)
             | (c1, None) \<Rightarrow>
                (case chan_Write c1 (''C0644 '' @ show_int want @ '' '' @ path_Base remotePath @ [newline]) of
                   (c2, False) \<Rightarrow> Some (c2, False)
                 | (c2, True) \<Rightarrow>
                    (case scpReadAck c2 of (c3, Some e) \<Rightarrow> Some (c3, False)
                     | (c3, None) \<Rightarrow>
                        (case scpCopyBody c3 rd want of
                           None \<Rightarrow> None
                         | Some (c4, Some e) \<Rightarrow> Some (scpSendFatal c4 (''scp: '' @ e), False)
                         | Some (c4, None) \<Rightarrow>
                            (case chan_Write c4 [scpOK] of (c5, False) \<Rightarrow> Some (c5, False)
                             | (c5, True) \<Rightarrow> (case scpReadAck c5 of (c6, err) \<Rightarrow> Some (c6, err = None)))))))))"

section \<open>Accepted commands\<close>

definition safe_path :: "string \<Rightarrow> bool" where
  "safe_path p \<longleftrightarrow> p \<noteq> [] \<and> \<not> HasPrefix p ''-'' \<and> \<not> list_ex bad_path_char p"

lemma scp_fields_sound:
  "scp_fields dir path fs = Inr (d, p) \<Longrightarrow> (dir = None \<or> dir = Some d) \<and> (p = path \<or> path = [] \<and> p \<in> set fs \<and> safe_path p) \<and> p \<noteq> []"
proof (induction dir path fs rule: scp_fields.induct)
  case (2 dir path f fs)
  then show ?case by (auto simp: safe_path_def split: if_splits)
qed (auto split: option.splits if_splits)

lemma parse_safe:
  assumes "parseSCPCommand cmd = Inr (d, p)"
  shows "p \<in> set (Fields cmd)" "safe_path p" "hd (Fields cmd) = ''scp''"
proof -
  obtain f fs where "Fields cmd = f # fs" using assms by (cases "Fields cmd") (simp_all add: parseSCPCommand_def)
  moreover from this have "scp_fields None [] fs = Inr (d, p)" "f = ''scp''"
    using assms by (simp_all add: parseSCPCommand_def split: if_splits)
  ultimately show "p \<in> set (Fields cmd)" "safe_path p" "hd (Fields cmd) = ''scp''"
    using scp_fields_sound [of None "[]" fs d p] by auto
qed

text \<open>
  No shell metacharacters: an accepted SCP command names one direction and
  one path, which is a field of the command, is not empty, does not look like a
  flag and has no quoting, expansion, globbing or control character.
\<close>

theorem scp_command_safe:
  assumes "parseSCPCommand cmd = Inr (d, p)"
  shows "p \<in> set (Fields cmd) \<and> safe_path p \<and> hd (Fields cmd) = ''scp''"
  using parse_safe [OF assms] by simp

theorem scp_command_safe_witness:
  "safe_path ''/srv/data.csv'' \<and> parseSCPCommand ''scp -v -t /srv/data.csv'' = Inr (ScpUpload, ''/srv/data.csv'')"
proof -
  have p: "parseSCPCommand ''scp -v -t /srv/data.csv'' = Inr (ScpUpload, ''/srv/data.csv'')" by code_simp
  from scp_command_safe [OF p] p show ?thesis by simp
qed

section \<open>A download ends\<close>

text \<open>
  The contract of \<^verbatim>\<open>io.ReaderAt\<close>: when fewer bytes than asked for are returned,
  there is an error saying why; and never more.
\<close>

definition reader_contract :: "reader_at \<Rightarrow> bool" where
  "reader_contract rd \<longleftrightarrow> (\<forall>n off. length (fst (rd n off)) \<le> n \<and> (length (fst (rd n off)) < n \<longrightarrow> snd (rd n off) \<noteq> None))"

text \<open>The reader of a file with the given contents meets it.\<close>

definition file_reader :: "string \<Rightarrow> reader_at" where
  "file_reader content n off =
    (let p = take n (drop (nat off) content) in (p, if length p < n then Some EOF else None))"

lemma file_reader_contract: "reader_contract (file_reader content)"
  by (simp add: reader_contract_def file_reader_def Let_def)

lemma chan_Write_sent: "chan_Write c msg = (c', True) \<Longrightarrow> sc_sent c' = sc_sent c @ [msg] \<and> sc_writes c' = sc_writes c \<and> sc_in c' = sc_in c"
  "chan_Write c msg = (c', False) \<Longrightarrow> c' = c"
  by (auto simp: chan_Write_def split: if_splits)

text \<open>What the loop has sent: the pieces the reader gave it, in order from the offset on.\<close>

definition sent_since :: "scp_chan \<Rightarrow> scp_chan \<Rightarrow> string" where
  "sent_since c c' = concat (drop (length (sc_sent c)) (sc_sent c'))"

lemma copy_body_total:
  assumes "reader_contract rd"
  shows "\<exists>c' err. copy_body rd want c off = Some (c', err) \<and> sc_in c' = sc_in c
    \<and> (\<exists>ms. sc_sent c' = sc_sent c @ ms \<and> (err = None \<longrightarrow> off + int (length (concat ms)) = max off want))"
proof (induction "nat (want - off)" arbitrary: c off rule: less_induct)
  case less
  show ?case
  proof (cases "off < want")
    case False
    then show ?thesis by (subst copy_body.simps) (auto simp: copy_step_def served_def)
  next
    case True
    let ?n = "min scpChunk (nat (want - off))"
    obtain bs rerr where rd: "rd ?n off = (bs, rerr)" by fastforce
    have n: "0 < ?n" using True by (simp add: scpChunk_def)
    have len: "length bs \<le> ?n" "rerr = None \<Longrightarrow> length bs = ?n"
      using assms rd unfolding reader_contract_def by (metis fst_conv snd_conv le_neq_implies_less)+
    obtain c1 ok where w: "(if bs = [] then (c, True) else chan_Write c bs) = (c1, ok)" by fastforce
    have c1: "ok \<Longrightarrow> sc_sent c1 = sc_sent c @ (if bs = [] then [] else [bs]) \<and> sc_in c1 = sc_in c" "\<not> ok \<Longrightarrow> c1 = c"
      using w chan_Write_sent [of c bs c1] by (auto split: if_splits)
    note eq = copy_body.simps [of rd want c off]
    show ?thesis
    proof (cases ok)
      case False
      then show ?thesis using True rd w c1 by (subst eq) (auto simp: copy_step_def)
    next
      case okT: True
      show ?thesis
      proof (cases rerr)
        case None
        have "nat (want - (off + int (length bs))) < nat (want - off)" using True n len(2) [OF None] by linarith
        from less [OF this, of c1] obtain c' err ms where
          r: "copy_body rd want c1 (off + int (length bs)) = Some (c', err)" "sc_in c' = sc_in c1" "sc_sent c' = sc_sent c1 @ ms"
            "err = None \<longrightarrow> off + int (length bs) + int (length (concat ms)) = max (off + int (length bs)) want" by blast
        have "off + int (length bs) \<le> want" using len(1) True by linarith
        then have "sc_sent c' = sc_sent c @ ((if bs = [] then [] else [bs]) @ ms)"
          "err = None \<longrightarrow> off + int (length (concat ((if bs = [] then [] else [bs]) @ ms))) = max off want"
          using r(3,4) c1(1) okT True by auto
        then show ?thesis using True rd w okT None r c1(1) by (subst eq) (auto simp: copy_step_def)
      next
        case (Some e)
        then show ?thesis using True rd w okT c1(1) len(1)
          by (subst eq; cases e) (auto simp: copy_step_def served_def)
      qed
    qed
  qed
qed

text \<open>
  C34.  A download ends: on every reader that keeps the contract of
  \<^verbatim>\<open>io.ReaderAt\<close> the copy loop returns, whatever size the target claimed, and it
  reports success only if exactly that many bytes were sent.
\<close>

theorem scp_copy_terminates:
  assumes "reader_contract rd"
  shows "\<exists>c' err. scpCopyBody c rd want = Some (c', err) \<and> (err = None \<longrightarrow> int (length (sent_since c c')) = max 0 want)"
  using copy_body_total [OF assms, of want c 0] by (auto simp: scpCopyBody_def sent_since_def)

theorem scp_copy_terminates_witness:
  "reader_contract (file_reader ''abc'') \<and> (\<exists>c' err. scpCopyBody \<lparr>sc_in = [], sc_sent = [], sc_writes = 9\<rparr> (file_reader ''abc'') 5 = Some (c', err)
     \<and> (err = None \<longrightarrow> int (length (sent_since \<lparr>sc_in = [], sc_sent = [], sc_writes = 9\<rparr> c')) = 5))"
  using scp_copy_terminates [OF file_reader_contract [of "''abc''"], of "\<lparr>sc_in = [], sc_sent = [], sc_writes = 9\<rparr>" 5] file_reader_contract
  by simp

text \<open>A reader that breaks the contract, with neither bytes nor an error, is asked forever.\<close>

lemma spinning_reader: "off < want \<Longrightarrow> copy_body (\<lambda>_ _. ([], None)) want c off = None"
proof -
  let ?P = "\<lambda>(rd::reader_at) (want::int) (c::scp_chan) (off::int) (r::scp_chan \<times> string option). rd = (\<lambda>_ _. ([], None)) \<longrightarrow> \<not> off < want"
  have "\<not> off < want" if "copy_body (\<lambda>_ _. ([], None)) want c off = Some r" for r
  proof -
    have "?P (\<lambda>_ _. ([], None)) want c off r"
    proof (rule copy_body.raw_induct [where P = ?P, OF _ that])
      fix cp rd want c off r
      assume ih: "\<And>rd want c off r. cp rd want c off = Some r \<Longrightarrow> ?P rd want c off r"
        and eq: "(case copy_step rd want c off of Inl r \<Rightarrow> Some r | Inr (c', off') \<Rightarrow> cp rd want c' off') = Some r"
      show "?P rd want c off r" using ih [of rd want c off r] eq by (auto simp: copy_step_def)
    qed
    then show ?thesis by simp
  qed
  then show "off < want \<Longrightarrow> copy_body (\<lambda>_ _. ([], None)) want c off = None"
    by (cases "copy_body (\<lambda>_ _. ([], None)) want c off") auto
qed

section \<open>An upload under inspection\<close>

definition quarantine_writer ::
  "remoteFS \<Rightarrow> close_env \<Rightarrow> gate_env \<Rightarrow> Inspector \<Rightarrow> (write_error \<Rightarrow> string) \<Rightarrow> string \<Rightarrow> (reorder \<times> Server \<times> Event list) file_writer" where
  "quarantine_writer fs env genv insp wtext p =
     \<lparr>fw_WriteAt = (\<lambda>(u, s, es) b off. case WriteAt (\<lambda>_. True) u b off of
          (u', Inl e) \<Rightarrow> ((u', s, es), Some (wtext e)) | (u', Inr _) \<Rightarrow> ((u', s, es), None)),
      fw_Close = (\<lambda>(u, s, es). case close_upload s fs env genv insp p u of (s', evs, err) \<Rightarrow> ((u, s', es @ evs), err))\<rparr>"

text \<open>A stream received in order so far, and one more piece of it.\<close>

definition in_order :: "reorder \<Rightarrow> bool" where
  "in_order u \<longleftrightarrow> ro_pending u = [] \<and> ro_pendingBytes u = 0 \<and> 0 \<le> ro_expOff u"

definition advance :: "reorder \<Rightarrow> string \<Rightarrow> reorder" where
  "advance u b = u\<lparr>ro_out := ro_out u @ b, ro_expOff := ro_expOff u + int (length b)\<rparr>"

lemma advance_simps [simp]: "ro_expOff (advance u b) = ro_expOff u + int (length b)" "in_order u \<Longrightarrow> in_order (advance u b)"
  "advance (advance u a) b = advance u (a @ b)" "advance u [] = u"
  by (auto simp: advance_def in_order_def)

lemma WriteAt_in_order:
  assumes "in_order u" and "int (length p) \<le> maxReorderBytes"
  shows "WriteAt (\<lambda>_. True) u p (ro_expOff u) = (advance u p, Inr (length p))"
proof -
  let ?u = "u\<lparr>ro_pendingBytes := int (length p), ro_pending := [(ro_expOff u, p)]\<rparr>"
  have "flush (\<lambda>_. True) ?u = (advance u p, True)"
    using assms(1) by (subst flush.simps, simp add: Let_def in_order_def) (subst flush.simps, simp add: advance_def)
  then show ?thesis using assms by (simp add: WriteAt_def stash_def in_order_def Let_def)
qed

lemma receive_in_order:
  assumes "in_order u" and "length inp \<le> length sizes"
  shows "receive_body (quarantine_writer fs env genv insp wtext p) want sizes (u, s, es) inp (ro_expOff u) =
    Some ((advance u (take (nat (want - ro_expOff u)) inp), s, es), drop (nat (want - ro_expOff u)) inp,
      if int (length inp) < want - ro_expOff u then Some ''scp: read from client: EOF'' else None)"
  using assms
proof (induction sizes arbitrary: u inp)
  case (Cons k ks)
  let ?off = "ro_expOff u"
  consider (fin) "?off \<ge> want" | (eof) "?off < want" "inp = []" | (more) "?off < want" "inp \<noteq> []" by fastforce
  then show ?case
  proof cases
    case more
    define n where "n = min (max 1 k) (min (length inp) (min scpChunk (nat (want - ?off))))"
    have n: "0 < n" "n \<le> length inp" "int n \<le> want - ?off" "n \<le> scpChunk" using more by (auto simp: n_def scpChunk_def)
    then have "int (length (take n inp)) \<le> maxReorderBytes" by (simp add: scpChunk_def maxReorderBytes_def)
    note w = WriteAt_in_order [OF Cons.prems(1) this]
    have l: "?off + int n = ro_expOff (advance u (take n inp))" using n by simp
    have i: "length (drop n inp) \<le> length ks" using n(1,2) Cons.prems(2) by simp
    have m: "nat (want - ?off) = n + nat (want - ?off - int n)" using n(3) by linarith
    have t: "take n inp @ take (nat (want - ?off - int n)) (drop n inp) = take (nat (want - ?off)) inp"
      unfolding m by (simp add: take_add)
    have d: "drop (nat (want - ?off - int n)) (drop n inp) = drop (nat (want - ?off)) inp"
      unfolding m by (simp add: add.commute)
    have "receive_body (quarantine_writer fs env genv insp wtext p) want (k # ks) (u, s, es) inp ?off
        = receive_body (quarantine_writer fs env genv insp wtext p) want ks (advance u (take n inp), s, es) (drop n inp) (?off + int n)"
      using more n(2) w unfolding receive_body.simps n_def [symmetric]
      by (simp add: quarantine_writer_def)
    also have "\<dots> = Some ((advance u (take (nat (want - ?off)) inp), s, es), drop (nat (want - ?off)) inp,
        if int (length inp) < want - ?off then Some ''scp: read from client: EOF'' else None)"
      unfolding l using Cons.IH [OF advance_simps(2) [OF Cons.prems(1)] i, of "take n inp"] t d n(2)
      by (simp add: min_absorb2 algebra_simps)
    finally show ?thesis .
  qed simp_all
qed simp

text \<open>
  An SCP upload under inspection: whatever sizes the reads have, the handle
  is closed on exactly the bytes received of the announced file, and success is
  reported only if they were all there, with the trailing status, and the close
  (inspection, approval, release) succeeded.  But a truncated upload is closed the
  same way: the part that arrived is inspected, put up for approval and, if
  approved, released, although the client is told that the transfer failed.
\<close>

theorem scp_upload_gated:
  fixes s :: Server and body :: string
  assumes "scpSendOK c = (c1, True)" and "scpReadControlLine c1 = (c2, Inr cl)" and "scpSendOK c2 = (c3, True)"
    and "length (sc_in c3) \<le> length sizes" and "body = take (nat (cl_Size cl)) (sc_in c3)"
    and "close_upload s fs env genv insp p (advance empty_reorder body) = (s', evs, err)"
  shows "\<exists>c' ok. scpUpload (Inr (quarantine_writer fs env genv insp wtext p)) sizes c (empty_reorder, s, [])
      = Some (c', (advance empty_reorder body, s', evs), ok)
    \<and> (ok \<longrightarrow> err = None \<and> int (length body) = max 0 (cl_Size cl))
    \<and> (int (length (sc_in c3)) \<le> cl_Size cl \<longrightarrow> \<not> ok)"
proof -
  let ?fw = "quarantine_writer fs env genv insp wtext p"
  have e: "in_order empty_reorder" "ro_expOff empty_reorder = 0" by (simp_all add: in_order_def empty_reorder_def)
  from receive_in_order [OF e(1) assms(4), of fs env genv insp wtext p "cl_Size cl" s "[]"] assms(5)
  have r: "receive_body ?fw (cl_Size cl) sizes (empty_reorder, s, []) (sc_in c3) 0 =
      Some ((advance empty_reorder body, s, []), drop (nat (cl_Size cl)) (sc_in c3),
        if int (length (sc_in c3)) < cl_Size cl then Some ''scp: read from client: EOF'' else None)"
    by (simp add: e(2))
  have cl: "fw_Close ?fw (advance empty_reorder body, s, []) = ((advance empty_reorder body, s', evs), err)"
    using assms(6) by (simp add: quarantine_writer_def)
  show ?thesis
  proof (cases "drop (nat (cl_Size cl)) (sc_in c3)")
    case Nil
    then show ?thesis using assms(1-3) r cl
      by (auto simp: scpUpload_def scp_fail_def scp_finish_def)
  next
    case (Cons b rest)
    then have l: "nat (cl_Size cl) < length (sc_in c3)" by (metis drop_eq_Nil list.distinct(1) not_le)
    then have "int (length body) = max 0 (cl_Size cl)" using assms(5) by simp
    moreover have "\<not> int (length (sc_in c3)) \<le> cl_Size cl" using l by linarith
    ultimately show ?thesis using assms(1-3) r cl Cons l
      by (auto simp: scpUpload_def scp_finish_def Let_def split: option.splits prod.splits)
  qed
qed

definition lab_truncated :: scp_chan where
  "lab_truncated = \<lparr>sc_in = ''C0644 9 b'' @ [newline] @ ''a,b,c,d'', sc_sent = [], sc_writes = 9\<rparr>"

theorem scp_upload_gated_witness:
  "\<exists>c' s' evs. scpUpload (Inr (quarantine_writer lab_fs lab_close lab_gate_env (\<lambda>_ _. (zero_Result, None)) (\<lambda>_. []) ''/b'')) (replicate 7 4)
      lab_truncated (empty_reorder, lab_release_server, []) = Some (c', (advance empty_reorder ''a,b,c,d'', s', evs), False)
    \<and> close_upload lab_release_server lab_fs lab_close lab_gate_env (\<lambda>_ _. (zero_Result, None)) ''/b'' (advance empty_reorder ''a,b,c,d'') = (s', evs, None)"
proof -
  let ?c1 = "fst (scpSendOK lab_truncated)" and ?i = "\<lambda>_ _. (zero_Result, None)" and ?b = "''a,b,c,d''"
  let ?c2 = "fst (scpReadControlLine ?c1)" let ?c3 = "fst (scpSendOK ?c2)"
  have 1: "scpSendOK lab_truncated = (?c1, True)" "scpSendOK ?c2 = (?c3, True)" "sc_in ?c3 = ?b" by code_simp+
  have "map_sum (\<lambda>_. ()) cl_Size (snd (scpReadControlLine ?c1)) = Inr 9" by code_simp
  then obtain cl where 2: "scpReadControlLine ?c1 = (?c2, Inr cl)" "cl_Size cl = 9"
    by (cases "scpReadControlLine ?c1"; cases "snd (scpReadControlLine ?c1)") auto
  obtain s' evs where 3: "close_upload lab_release_server lab_fs lab_close lab_gate_env ?i ''/b'' (advance empty_reorder ?b) = (s', evs, None)"
    using lab_closed [of "advance empty_reorder ?b"] by (auto simp: advance_def empty_reorder_def)
  have l: "length (sc_in ?c3) \<le> length (replicate 7 (4::nat))" "?b = take (nat (cl_Size cl)) (sc_in ?c3)"
    "int (length (sc_in ?c3)) \<le> cl_Size cl" unfolding 1(3) 2(2) by simp_all
  from scp_upload_gated [OF 1(1) 2(1) 1(2) l(1,2) 3, of "\<lambda>_. []"] l(3) 3 show ?thesis by auto
qed

section \<open>Running a command\<close>

text \<open>
  What third-party code and the client contribute: the error of the SFTP client,
  the target's answers and the size it reports, its files as writer and reader,
  the reads of the channel, the state of the download tap at its end, and the
  texts of write errors.
\<close>

type_synonym upload_state = "reorder \<times> Server \<times> Event list"

record scp_env =
  xc_open :: open_env
  xc_clientErr :: "string option"
  xc_target :: target_fs
  xc_size :: int
  xc_writer :: "string \<Rightarrow> upload_state file_writer"
  xc_reader :: "string \<Rightarrow> reader_at"
  xc_sizes :: "nat list"
  xc_tap :: reorder
  xc_sha :: "string \<Rightarrow> string"
  xc_now :: time
  xc_close :: close_env
  xc_gate :: gate_env
  xc_insp :: Inspector
  xc_text :: "write_error \<Rightarrow> string"

definition download_event :: "(string \<Rightarrow> string) \<Rightarrow> remoteFS \<Rightarrow> string \<Rightarrow> reorder \<Rightarrow> Event" where
  "download_event sha fs p u =
     (file_event TypeTransfer fs)\<lparr>ev_Path := p, ev_Direction := ''download'', ev_Bytes := fst (manifest sha u), ev_SHA256 := snd (manifest sha u),
        ev_Detail := ''sftp transfer''\<rparr>"

text \<open>Whether the upload gets as far as asking for its handle.\<close>

definition announced :: "scp_chan \<Rightarrow> bool" where
  "announced c =
    (case scpSendOK c of (c1, ok) \<Rightarrow> ok \<and> (case scpReadControlLine c1 of (c2, Inl _) \<Rightarrow> False | (c2, Inr _) \<Rightarrow> snd (scpSendOK c2)))"

definition file_error_text :: "file_error \<Rightarrow> string" where
  "file_error_text e = (case e of ErrNotExist \<Rightarrow> ''file does not exist'' | SftpError m \<Rightarrow> m)"

record scp_result =
  sx_server :: Server
  sx_chan :: scp_chan
  sx_ops :: "target_op list"
  sx_events :: "Event list"
  sx_ok :: bool

definition scp_put :: "scp_env \<Rightarrow> remoteFS \<Rightarrow> Server \<Rightarrow> string \<Rightarrow> scp_chan \<Rightarrow> scp_result option" where
  "scp_put x fs s remotePath c =
    (case Filewrite s (xc_target x) \<lparr>sr_Method = ''Put'', sr_Filepath = remotePath, sr_Target = []\<rparr> of (ops, h) \<Rightarrow>
     let h' = (case h of Inl e \<Rightarrow> Inl (file_error_text e)
               | Inr (TargetFile p) \<Rightarrow> Inr (xc_writer x p)
               | Inr (QuarantineHandle p) \<Rightarrow> Inr (quarantine_writer fs (xc_close x) (xc_gate x) (xc_insp x) (xc_text x) p))
     in map_option (\<lambda>(c', (u, s', evs), ok). \<lparr>sx_server = s', sx_chan = c', sx_ops = if announced c then ops else [], sx_events = evs, sx_ok = ok\<rparr>)
          (scpUpload h' (xc_sizes x) c (empty_reorder, s, [])))"

definition scp_get :: "scp_env \<Rightarrow> remoteFS \<Rightarrow> Server \<Rightarrow> string \<Rightarrow> scp_chan \<Rightarrow> scp_result option" where
  "scp_get x fs s remotePath c =
    (let stat = (case xc_target x (OpStat remotePath) of Some e \<Rightarrow> Inl e | None \<Rightarrow> Inr (xc_size x));
         opened = (if is_ok stat then Fileread s fs (xc_target x) (xc_now x) \<lparr>sr_Method = ''Get'', sr_Filepath = remotePath, sr_Target = []\<rparr>
                   else ([], Inl ErrNotExist));
         h = (case snd opened of Inl e \<Rightarrow> Inl (file_error_text e)
              | Inr (DownloadTap p) \<Rightarrow> Inr (xc_reader x p)
              | Inr (ReleaseReader rel content) \<Rightarrow> Inr (\<lambda>n off. adapter_ReadAt content None n (nat off)));
         evs = (case snd opened of Inr (DownloadTap p) \<Rightarrow> [download_event (xc_sha x) fs p (xc_tap x)] | _ \<Rightarrow> [])
     in map_option (\<lambda>(c', ok). \<lparr>sx_server = s, sx_chan = c', sx_ops = OpStat remotePath # fst opened, sx_events = evs, sx_ok = ok\<rparr>)
          (scpDownload stat h remotePath c))"

definition runSCPTransfer ::
  "Server \<Rightarrow> scp_env \<Rightarrow> Principal \<Rightarrow> string \<Rightarrow> client_cache \<Rightarrow> scpDirection \<Rightarrow> string \<Rightarrow> scp_chan \<Rightarrow> client_cache \<times> (scp_result \<times> string) option" where
  "runSCPTransfer s x pr srcIP tch dir remotePath c =
    (case open_target s (xc_open x) pr srcIP tch of
       (s', tch', evs, Inl r) \<Rightarrow>
         (tch', Some (\<lparr>sx_server = s', sx_chan = scpSendFatal c (''scp: '' @ refusal_text r), sx_ops = [], sx_events = evs, sx_ok = False\<rparr>,
                      ''scp refused: '' @ refusal_text r))
     | (s', tch', evs, Inr (decision, client)) \<Rightarrow>
        (case xc_clientErr x of
           Some e \<Rightarrow> (tch', Some (\<lparr>sx_server = s', sx_chan = scpSendFatal c (''scp: target sftp client: '' @ e), sx_ops = [], sx_events = evs, sx_ok = False\<rparr>,
                       ''scp refused: target sftp client: '' @ e))
         | None \<Rightarrow>
            (let fs = \<lparr>rf_user = pr_User pr, rf_srcIP = srcIP, rf_matchedGroups = d_MatchedGroups decision\<rparr>
             in (tch', map_option (\<lambda>r. (r\<lparr>sx_events := evs @ sx_events r\<rparr>, []))
                         (if dir = ScpUpload then scp_put x fs s' remotePath c else scp_get x fs s' remotePath c)))))"

text \<open>The evidence of the whole command and the exit status; \<open>None\<close>: it is still waiting for the client.\<close>

definition runSCP ::
  "Server \<Rightarrow> scp_env \<Rightarrow> Principal \<Rightarrow> string \<Rightarrow> client_cache \<Rightarrow> scpDirection \<Rightarrow> string \<Rightarrow> scp_chan
    \<Rightarrow> client_cache \<times> (scp_result \<times> int) option" where
  "runSCP s x pr srcIP tch dir remotePath c =
    (case runSCPTransfer s x pr srcIP tch dir remotePath c of (tch', res) \<Rightarrow>
      (tch', map_option (\<lambda>(r, detail).
         (r\<lparr>sx_events := session_event TypeSessionStart (pr_User pr) srcIP ''scp'' # sx_events r
               @ [session_event TypeSessionEnd (pr_User pr) srcIP detail]\<rparr>, if sx_ok r then 0 else 1)) res))"

text \<open>On a gateway with inspection an SCP upload asks nothing of the target.\<close>

lemma scp_put_gated: "sv_inspect s \<noteq> None \<Longrightarrow> scp_put x fs s remotePath c = Some r \<Longrightarrow> sx_ops r = []"
  by (auto simp: scp_put_def Filewrite_def Let_def split: if_splits)

text \<open>
  The size announced to the client is asked for under the path as written, the
  contents are read under the cleaned path: for a relative path the two can be
  different files.
\<close>

lemma scp_get_paths:
  assumes "scp_get x fs s remotePath c = Some r" and "xc_target x (OpStat remotePath) = None" and "\<not> isReleasesPath (cleanPath remotePath)"
  shows "sx_ops r = [OpStat remotePath, OpOpen (cleanPath remotePath)]"
  using assms by (auto simp: scp_get_def Fileread_def Let_def split: option.splits)

end
