(* ===== verification/Session_Shell.thy ===== *)
theory Session_Shell
  imports Scp Recording
begin

text \<open>
  Session channels, \<^verbatim>\<open>internal/session/interactive.go\<close>: the request loop of
  \<^verbatim>\<open>handleSession\<close>, which dispatches a shell, a tunnel keeper, the SFTP subsystem
  or an SCP command, and \<^verbatim>\<open>runRecordedShell\<close>, which bridges a shell on the target
  and records both directions.
\<close>

section \<open>The request loop\<close>

text \<open>Requests with their decoded payloads; \<open>None\<close> is a payload that does not decode.\<close>

datatype chan_request =
    PtyReq "(32 word \<times> 32 word) option"         \<comment> \<open>columns, rows\<close>
  | WindowChange "(32 word \<times> 32 word) option"
  | EnvReq
  | AgentReq
  | ShellReq
  | SubsystemReq "string option"
  | ExecReq "string option"
  | OtherReq string

datatype dispatch = StartKeeper | StartShell int int | StartSFTP | StartSCP scpDirection string

record session_loop =
  sl_cols :: int
  sl_rows :: int
  sl_resize :: "(int \<times> int) list"              \<comment> \<open>rows, columns, waiting for the shell\<close>
  sl_shell :: bool                            \<comment> \<open>a shell or keeper was dispatched\<close>
  sl_left :: bool                             \<comment> \<open>the loop was left for a file transfer\<close>
  sl_actions :: "dispatch list"
  sl_replies :: "bool list"

definition session_start :: session_loop where
  "session_start = \<lparr>sl_cols = 80, sl_rows = 24, sl_resize = [], sl_shell = False, sl_left = False, sl_actions = [], sl_replies = []\<rparr>"

definition resizeCapacity :: nat where
  "resizeCapacity = 4"

definition resize_offer :: "(int \<times> int) list \<Rightarrow> int \<times> int \<Rightarrow> (int \<times> int) list" where
  "resize_offer q wc = (if length q < resizeCapacity then q @ [wc] else q)"

interpretation resizes: bounded_queue resize_offer "\<lambda>q. q" "\<lambda>_. resizeCapacity"
  by unfold_locales (simp_all add: resize_offer_def)

definition answer :: "session_loop \<Rightarrow> bool \<Rightarrow> session_loop" where
  "answer l ok = l\<lparr>sl_replies := sl_replies l @ [ok]\<rparr>"

definition launch :: "session_loop \<Rightarrow> dispatch \<Rightarrow> session_loop" where
  "launch l a = (answer l True)\<lparr>sl_actions := sl_actions l @ [a]\<rparr>"

fun handle_request :: "Server \<Rightarrow> Principal \<Rightarrow> session_loop \<Rightarrow> chan_request \<Rightarrow> session_loop" where
  "handle_request s pr l (PtyReq p) =
    answer (case p of Some (cols, rows) \<Rightarrow> if 0 < cols then l\<lparr>sl_cols := uint cols, sl_rows := uint rows\<rparr> else l | None \<Rightarrow> l) True"
| "handle_request s pr l (WindowChange p) =
    answer (case p of Some (cols, rows) \<Rightarrow> l\<lparr>sl_resize := resize_offer (sl_resize l) (uint rows, uint cols)\<rparr> | None \<Rightarrow> l) True"
| "handle_request s pr l EnvReq = answer l True"
| "handle_request s pr l AgentReq = answer l True"
| "handle_request s pr l ShellReq =
    (if sl_shell l then answer l False
     else if pr_TargetHost pr = [] \<and> \<not> sv_tunnelDisabled s then (launch l StartKeeper)\<lparr>sl_shell := True\<rparr>
     else if sv_sshDisabled s then answer l False
     else (launch l (StartShell (sl_cols l) (sl_rows l)))\<lparr>sl_shell := True\<rparr>)"
| "handle_request s pr l (SubsystemReq name) =
    (if sl_shell l then answer l False
     else if name = Some ''sftp'' then
       (if sv_sftpDisabled s then answer l False else (launch l StartSFTP)\<lparr>sl_left := True\<rparr>)
     else answer l False)"
| "handle_request s pr l (ExecReq cmd) =
    (if sl_shell l then answer l False
     else if \<not> sv_scpEnabled s then answer l False
     else case cmd of None \<Rightarrow> answer l False
     | Some command \<Rightarrow>
        (case parseSCPCommand command of Inl _ \<Rightarrow> answer l False
         | Inr (dir, remotePath) \<Rightarrow> (launch l (StartSCP dir remotePath))\<lparr>sl_left := True\<rparr>))"
| "handle_request s pr l (OtherReq t) = answer l False"

datatype loop_event = Request chan_request | TakeResize

fun handleSession :: "Server \<Rightarrow> Principal \<Rightarrow> session_loop \<Rightarrow> loop_event \<Rightarrow> session_loop" where
  "handleSession s pr l (Request r) = (if sl_left l then l else handle_request s pr l r)"
| "handleSession s pr l TakeResize = l\<lparr>sl_resize := tl (sl_resize l)\<rparr>"

definition permitted_action :: "Server \<Rightarrow> Principal \<Rightarrow> dispatch \<Rightarrow> bool" where
  "permitted_action s pr a \<longleftrightarrow>
    (case a of StartKeeper \<Rightarrow> pr_TargetHost pr = [] \<and> \<not> sv_tunnelDisabled s
     | StartShell cols rows \<Rightarrow> \<not> sv_sshDisabled s \<and> (pr_TargetHost pr \<noteq> [] \<or> sv_tunnelDisabled s)
         \<and> 0 < cols \<and> cols < 4294967296 \<and> 0 \<le> rows \<and> rows < 4294967296
     | StartSFTP \<Rightarrow> \<not> sv_sftpDisabled s
     | StartSCP dir p \<Rightarrow> sv_scpEnabled s \<and> safe_path p)"

definition session_inv :: "Server \<Rightarrow> Principal \<Rightarrow> session_loop \<Rightarrow> bool" where
  "session_inv s pr l \<longleftrightarrow> 0 < sl_cols l \<and> sl_cols l < 4294967296 \<and> 0 \<le> sl_rows l \<and> sl_rows l < 4294967296
     \<and> length (sl_resize l) \<le> resizeCapacity
     \<and> length (sl_actions l) = (if sl_shell l \<or> sl_left l then 1 else 0) \<and> \<not> (sl_shell l \<and> sl_left l)
     \<and> (\<forall>a\<in>set (sl_actions l). permitted_action s pr a)"

lemma uint_dims: "0 < uint (c::32 word) \<longleftrightarrow> 0 < c" "uint (c::32 word) < 4294967296"
  using uint_lt2p [of c] by (simp_all add: word_less_def)

lemma answer_simps [simp]: "session_inv s pr (answer l ok) = session_inv s pr l"
  by (simp add: session_inv_def answer_def)

lemma handle_request_inv: "session_inv s pr l \<Longrightarrow> \<not> sl_left l \<Longrightarrow> session_inv s pr (handle_request s pr l r)"
proof (cases r)
  case (PtyReq p)
  assume "session_inv s pr l"
  with PtyReq show ?thesis by (cases p) (simp_all add: session_inv_def answer_def uint_dims split: prod.split, auto)
next
  case (WindowChange p)
  assume "session_inv s pr l"
  with WindowChange resizes.put_bounded [of "sl_resize l"] show ?thesis
    by (cases p) (simp_all add: session_inv_def answer_def split: prod.split, auto)
next
  case (ExecReq cmd)
  assume "session_inv s pr l" "\<not> sl_left l"
  with ExecReq show ?thesis
    by (auto simp: session_inv_def launch_def answer_def permitted_action_def dest: parse_safe split: option.splits sum.splits)
qed (auto simp: session_inv_def launch_def answer_def permitted_action_def)

interpretation session_channel: guarded_machine "handleSession s pr" "session_inv s pr" for s pr
proof
  fix l e
  assume "session_inv s pr l"
  then show "session_inv s pr (handleSession s pr l e)"
    by (cases e) (auto simp: handle_request_inv, auto simp: session_inv_def)
qed

text \<open>
  C35.  What a session channel can start: in any sequence of requests at most one
  shell, tunnel keeper, SFTP session or SCP command, and only what the gateway's
  configuration permits: no shell when shells are disabled, a keeper only
  without a target and with tunnels enabled, no SFTP when disabled, SCP only when
  enabled and for a path free of metacharacters; and at most four window changes
  wait for a shell.
\<close>

theorem session_dispatch:
  fixes s :: Server and pr :: Principal and es :: "loop_event list"
  defines "l \<equiv> run_steps (handleSession s pr) session_start es"
  shows "length (sl_actions l) \<le> 1 \<and> list_all (permitted_action s pr) (sl_actions l) \<and> length (sl_resize l) \<le> resizeCapacity"
proof -
  have "session_inv s pr session_start" by (simp add: session_inv_def session_start_def)
  then have "session_inv s pr l" unfolding l_def by (rule session_channel.run_invar)
  then show ?thesis by (auto simp: session_inv_def list_all_iff)
qed

section \<open>The bridge of a shell\<close>

text \<open>
  One read of a direction: the bytes, whether the read failed, whether the write
  to the other side succeeds, and for the recorder the clock and the outcome of
  its write.  \<open>SessionOver\<close>: the handler has seen that a direction ended and
  has closed the recorder.  The other direction goes on until the deferred closes
  of the channels, \<open>BridgeClosed\<close>; what it passes on after the recorder was closed
  is kept apart in the two last fields.
\<close>

datatype pipe_event =
    FromUser string bool bool time write_outcome
  | FromTarget string bool bool time write_outcome
  | SessionOver
  | BridgeClosed

record shell_pipe =
  sp_rec :: "Recorder option"
  sp_log :: "rec_step list"                   \<comment> \<open>what the recorder was given\<close>
  sp_toTarget :: string
  sp_toUser :: string
  sp_userDone :: bool
  sp_targetDone :: bool
  sp_over :: bool
  sp_closed :: bool
  sp_lateTarget :: string
  sp_lateUser :: string

definition pipe_start :: "Recorder option \<Rightarrow> shell_pipe" where
  "pipe_start r = \<lparr>sp_rec = r, sp_log = [], sp_toTarget = [], sp_toUser = [], sp_userDone = False, sp_targetDone = False, sp_over = False,
     sp_closed = False, sp_lateTarget = [], sp_lateUser = []\<rparr>"

text \<open>
  A closed recorder ignores what it is given (\<open>closed_recorder_silent\<close> below), so
  its contents stay what they were at \<open>SessionOver\<close>.
\<close>

definition tell_recorder :: "cast_codec \<Rightarrow> shell_pipe \<Rightarrow> rec_step \<Rightarrow> shell_pipe" where
  "tell_recorder c p st =
    (case sp_rec p of None \<Rightarrow> p
     | Some r \<Rightarrow> if sp_over p then p else p\<lparr>sp_rec := Some (rec_step_run c r st), sp_log := sp_log p @ [st]\<rparr>)"

definition pass_target :: "shell_pipe \<Rightarrow> string \<Rightarrow> shell_pipe" where
  "pass_target p bs = p\<lparr>sp_toTarget := sp_toTarget p @ bs, sp_lateTarget := sp_lateTarget p @ (if sp_over p then bs else [])\<rparr>"

definition pass_user :: "shell_pipe \<Rightarrow> string \<Rightarrow> shell_pipe" where
  "pass_user p bs = p\<lparr>sp_toUser := sp_toUser p @ bs, sp_lateUser := sp_lateUser p @ (if sp_over p then bs else [])\<rparr>"

fun pipe_step :: "cast_codec \<Rightarrow> shell_pipe \<Rightarrow> pipe_event \<Rightarrow> shell_pipe" where
  "pipe_step c p (FromUser bs failed wok now out) =
    (if sp_userDone p \<or> sp_closed p then p
     else let p1 = (if bs = [] then p else tell_recorder c p (''i'', bs, now, out));
              p2 = (if bs \<noteq> [] \<and> wok then pass_target p1 bs else p1)
       in p2\<lparr>sp_userDone := (failed \<or> bs \<noteq> [] \<and> \<not> wok)\<rparr>)"
| "pipe_step c p (FromTarget bs failed wok now out) =
    (if sp_targetDone p \<or> sp_closed p then p
     else let p1 = (if bs = [] then p else tell_recorder c p (''o'', bs, now, out));
              p2 = (if bs \<noteq> [] \<and> wok then pass_user p1 bs else p1)
       in p2\<lparr>sp_targetDone := (failed \<or> bs \<noteq> [] \<and> \<not> wok)\<rparr>)"
| "pipe_step c p SessionOver = (if sp_userDone p \<or> sp_targetDone p then p\<lparr>sp_over := True\<rparr> else p)"
| "pipe_step c p BridgeClosed = (if sp_over p then p\<lparr>sp_closed := True\<rparr> else p)"

text \<open>The outcomes of the calls on the target session and the recording store.\<close>

record shell_env =
  sh_open :: open_env
  sh_newSession :: "string option"
  sh_pty :: "string option"
  sh_stdin :: "string option"
  sh_stdout :: "string option"
  sh_shell :: "string option"
  sh_recKey :: string
  sh_create :: "string option"
  sh_header :: write_outcome
  sh_codec :: cast_codec
  sh_sha :: "string \<Rightarrow> string"
  sh_now :: "nat \<Rightarrow> time"
  sh_closeErr :: "string option"
  sh_duration :: "duration \<Rightarrow> string"

record shell_result =
  sr_server :: Server
  sr_cache :: client_cache
  sr_events :: "Event list"
  sr_pipe :: "shell_pipe option"              \<comment> \<open>None: the session was refused\<close>
  sr_object :: "Recorder option"              \<comment> \<open>the recording, closed\<close>

definition recording_event :: "string \<Rightarrow> string \<Rightarrow> Event" where
  "recording_event user srcIP = zero_event\<lparr>ev_Type := TypeRecording, ev_User := user, ev_SourceIP := srcIP\<rparr>"

definition recorder_start :: "Server \<Rightarrow> shell_env \<Rightarrow> int \<Rightarrow> int \<Rightarrow> (string, Recorder option) result" where
  "recorder_start s x cols rows =
    (if \<not> sv_recordStore s then Inr None
     else case sh_create x of Some e \<Rightarrow> Inl e
     | None \<Rightarrow> map_sum id Some (NewRecorder (sh_codec x) (sh_recKey x) cols rows (sh_now x 0) (sh_header x)))"

definition recorder_finish :: "shell_env \<Rightarrow> string \<Rightarrow> string \<Rightarrow> Recorder \<Rightarrow> Recorder \<times> Event" where
  "recorder_finish x user srcIP r =
    (case rec_Close (sh_sha x) r (sh_now x 1) (sh_closeErr x) of
       (r', Inr m) \<Rightarrow> (r', (recording_event user srcIP)\<lparr>ev_ObjectKey := mf_Key m, ev_SHA256 := mf_SHA256 m, ev_Bytes := mf_Bytes m,
           ev_RecordMode := RecordFull, ev_Detail := ''asciicast duration='' @ sh_duration x (mf_Duration m)\<rparr>)
     | (r', Inl e) \<Rightarrow> (r', (recording_event user srcIP)\<lparr>ev_ObjectKey := sh_recKey x, ev_Detail := ''recording finalize failed: '' @ e\<rparr>))"

definition first_error :: "string option list \<Rightarrow> bool" where
  "first_error es = list_ex (\<lambda>e. e \<noteq> None) es"

definition runRecordedShell ::
  "Server \<Rightarrow> shell_env \<Rightarrow> Principal \<Rightarrow> string \<Rightarrow> client_cache \<Rightarrow> int \<Rightarrow> int \<Rightarrow> pipe_event list \<Rightarrow> shell_result" where
  "runRecordedShell s x pr srcIP tch cols rows traffic =
    (let start = session_event TypeSessionStart (pr_User pr) srcIP ''interactive shell'';
         over = (\<lambda>detail. session_event TypeSessionEnd (pr_User pr) srcIP detail) in
     case open_target s (sh_open x) pr srcIP tch of
       (s', tch', evs, Inl r) \<Rightarrow>
         \<lparr>sr_server = s', sr_cache = tch', sr_events = start # evs @ [over (''refused: '' @ refusal_text r)], sr_pipe = None, sr_object = None\<rparr>
     | (s', tch', evs, Inr (decision, client)) \<Rightarrow>
       let refused = (\<lambda>more. \<lparr>sr_server = s', sr_cache = tch', sr_events = start # evs @ more, sr_pipe = None, sr_object = None\<rparr>) in
       case sh_newSession x of Some e \<Rightarrow> refused [over (''refused: target session: '' @ e)]
       | None \<Rightarrow>
       if first_error [sh_pty x, sh_stdin x, sh_stdout x, sh_shell x] then refused []
       else case recorder_start s' x cols rows of
         Inl e \<Rightarrow> refused [(recording_event (pr_User pr) srcIP)\<lparr>ev_ObjectKey := sh_recKey x, ev_Allow := BoolPtr False,
                             ev_Reason := ''recording unavailable'', ev_Detail := ''recording start failed: '' @ e\<rparr>,
                           over ''refused: recording unavailable'']
       | Inr r \<Rightarrow>
         let p = run_steps (pipe_step (sh_codec x)) (pipe_start r) traffic;
             fin = map_option (recorder_finish x (pr_User pr) srcIP) (sp_rec p)
         in if \<not> sp_over p then
              \<lparr>sr_server = s', sr_cache = tch', sr_events = start # evs, sr_pipe = Some p, sr_object = None\<rparr>
            else \<lparr>sr_server = s', sr_cache = tch',
                  sr_events = start # evs @ (case fin of None \<Rightarrow> [] | Some (_, e) \<Rightarrow> [e]) @ [over []],
                  sr_pipe = Some p, sr_object = map_option fst fin\<rparr>)"

section \<open>Nothing passes unrecorded before the recorder is closed\<close>

definition log_of :: "string \<Rightarrow> rec_step list \<Rightarrow> string" where
  "log_of kind steps = concat (map (\<lambda>st. fst (snd st)) (filter (\<lambda>st. fst st = kind) steps))"

lemma log_of_append [simp]: "log_of k (xs @ ys) = log_of k xs @ log_of k ys" "log_of k [] = []"
  "log_of k ((k', bs, t, out) # xs) = (if k = k' then bs @ log_of k xs else log_of k xs)"
  by (simp_all add: log_of_def)

text \<open>
  The invariant of the bridge: the recorder is the fresh one run over the log,
  each side was sent a prefix of its log, all of it while its direction is open,
  and after that only what came once the recorder was closed.
\<close>

definition bridged :: "string \<Rightarrow> string \<Rightarrow> string \<Rightarrow> bool \<Rightarrow> bool \<Rightarrow> bool" where
  "bridged out late recorded_bytes shut over \<longleftrightarrow>
     (\<exists>early. out = early @ late \<and> prefix early recorded_bytes \<and> (shut \<or> early = recorded_bytes)) \<and> (over \<or> late = [])"

definition pipe_inv :: "cast_codec \<Rightarrow> Recorder \<Rightarrow> shell_pipe \<Rightarrow> bool" where
  "pipe_inv c r0 p \<longleftrightarrow> sp_rec p = Some (foldl (rec_step_run c) r0 (sp_log p))
     \<and> bridged (sp_toTarget p) (sp_lateTarget p) (log_of ''i'' (sp_log p)) (sp_userDone p) (sp_over p)
     \<and> bridged (sp_toUser p) (sp_lateUser p) (log_of ''o'' (sp_log p)) (sp_targetDone p) (sp_over p)
     \<and> list_all (\<lambda>st. fst (snd st) \<noteq> []) (sp_log p)"

lemma pipe_step_inv: "pipe_inv c r0 p \<Longrightarrow> pipe_inv c r0 (pipe_step c p e)"
  by (cases e) (auto simp: pipe_inv_def tell_recorder_def pass_target_def pass_user_def bridged_def Let_def)

lemma closed_recorder_silent: "rd_closed r \<Longrightarrow> rec_step_run c r st = r"
  by (cases st) (simp add: rec_step_run_def rec_event_def)

interpretation bridge: guarded_machine "pipe_step c" "pipe_inv c r0" for c r0
  by unfold_locales (rule pipe_step_inv)

lemma recorder_start_cases:
  assumes "recorder_start s x cols rows = Inr r" and "sv_recordStore s"
  obtains r0 where "r = Some r0" "NewRecorder (sh_codec x) (sh_recKey x) cols rows (sh_now x 0) (sh_header x) = Inr r0"
  using assms
  by (cases "NewRecorder (sh_codec x) (sh_recKey x) cols rows (sh_now x 0) (sh_header x)") (auto simp: recorder_start_def split: option.splits)

lemma recorder_finish_true:
  assumes "NewRecorder c key w h t0 out0 = Inr r0" and "list_all (\<lambda>st. fst (snd st) \<noteq> []) steps" and "c = sh_codec x"
    and "recorder_finish x user srcIP (foldl (rec_step_run c) r0 steps) = (obj, e)" and "ev_RecordMode e = RecordFull"
  shows "rd_dest obj = jc_header c (rd_width r0) (rd_height r0) t0 @ [CHR 0x0A] @ concat (map (rec_line c t0) steps)
    \<and> ev_SHA256 e = hexBytes (sh_sha x (rd_dest obj)) \<and> ev_Bytes e = int (length (rd_dest obj))"
proof -
  have f: "filter (\<lambda>st. fst (snd st) \<noteq> []) steps = steps" using assms(2) by (simp add: filter_id_conv list_all_iff)
  from NewRecorder_recorded [OF assms(1)] have
    r: "rd_start r0 = t0" "recorded c r0 (jc_header c (rd_width r0) (rd_height r0) t0 @ [CHR 0x0A])" by blast+
  from rec_run_recorded [OF r(2), of steps] r(1) assms(4,5) show ?thesis
    by (auto simp: f recorded_def rec_Close_def recorder_finish_def recording_event_def zero_event_def RecordFull_def Let_def
        split: option.splits if_splits)
qed

lemma shell_served:
  assumes "res = runRecordedShell s x pr srcIP tch cols rows traffic" and "sr_pipe res = Some p"
  obtains evs r where "recorder_start (sr_server res) x cols rows = Inr r"
    "p = run_steps (pipe_step (sh_codec x)) (pipe_start r) traffic"
    "sp_over p \<Longrightarrow> sr_events res = session_event TypeSessionStart (pr_User pr) srcIP ''interactive shell'' # evs
        @ (case map_option (recorder_finish x (pr_User pr) srcIP) (sp_rec p) of None \<Rightarrow> [] | Some (_, e) \<Rightarrow> [e])
        @ [session_event TypeSessionEnd (pr_User pr) srcIP []]"
    "sp_over p \<Longrightarrow> sr_object res = map_option (\<lambda>r. fst (recorder_finish x (pr_User pr) srcIP r)) (sp_rec p)"
proof -
  obtain s' tch' evs o' where o: "open_target s (sh_open x) pr srcIP tch = (s', tch', evs, o')" by (metis prod.exhaust)
  from assms o obtain d cl where o': "o' = Inr (d, cl)" by (cases o') (auto simp: runRecordedShell_def Let_def)
  from assms o o' have n: "sh_newSession x = None" "\<not> first_error [sh_pty x, sh_stdin x, sh_stdout x, sh_shell x]"
    by (cases "sh_newSession x"; simp add: runRecordedShell_def Let_def split: if_splits)+
  from assms o o' n obtain r where r: "recorder_start s' x cols rows = Inr r"
    by (cases "recorder_start s' x cols rows") (simp_all add: runRecordedShell_def Let_def)
  show ?thesis
    by (rule that [where evs = evs and r = r])
      (use assms o o' n r in \<open>simp_all add: runRecordedShell_def Let_def option.map_comp comp_def split: if_splits\<close>)
qed

text \<open>
  C36.  Nothing passes unrecorded until the recorder is closed: in a shell session
  with a recording store, what either side received up to then is a prefix of
  what the recorder was given of that direction, and when the evidence at the end
  names a recording, the stored object has the header and a line for every piece
  of the log, in order, and the event has the hash and size of exactly that
  object.
\<close>

theorem shell_recorded:
  assumes "res = runRecordedShell s x pr srcIP tch cols rows traffic" and "sr_pipe res = Some p" and "sv_recordStore (sr_server res)"
  shows "(\<exists>early. sp_toUser p = early @ sp_lateUser p \<and> prefix early (log_of ''o'' (sp_log p)))
    \<and> (\<exists>early. sp_toTarget p = early @ sp_lateTarget p \<and> prefix early (log_of ''i'' (sp_log p)))
    \<and> (\<not> sp_over p \<longrightarrow> sp_lateUser p = [] \<and> sp_lateTarget p = [])
    \<and> (sp_over p \<longrightarrow> (\<exists>pre e obj r0. sr_events res = pre @ [e, session_event TypeSessionEnd (pr_User pr) srcIP []] \<and> sr_object res = Some obj
        \<and> NewRecorder (sh_codec x) (sh_recKey x) cols rows (sh_now x 0) (sh_header x) = Inr r0
        \<and> (ev_RecordMode e = RecordFull \<longrightarrow>
             rd_dest obj = jc_header (sh_codec x) (rd_width r0) (rd_height r0) (sh_now x 0) @ [CHR 0x0A]
                @ concat (map (rec_line (sh_codec x) (sh_now x 0)) (sp_log p))
             \<and> ev_SHA256 e = hexBytes (sh_sha x (rd_dest obj)) \<and> ev_Bytes e = int (length (rd_dest obj)))))"
proof -
  obtain evs r where r: "recorder_start (sr_server res) x cols rows = Inr r"
    and p: "p = run_steps (pipe_step (sh_codec x)) (pipe_start r) traffic"
    and fin0: "sp_over p \<Longrightarrow> sr_events res = session_event TypeSessionStart (pr_User pr) srcIP ''interactive shell'' # evs
        @ (case map_option (recorder_finish x (pr_User pr) srcIP) (sp_rec p) of None \<Rightarrow> [] | Some (_, e) \<Rightarrow> [e])
        @ [session_event TypeSessionEnd (pr_User pr) srcIP []]"
      "sp_over p \<Longrightarrow> sr_object res = map_option (\<lambda>r. fst (recorder_finish x (pr_User pr) srcIP r)) (sp_rec p)"
    by (rule shell_served [OF assms(1,2)]) blast
  obtain r0 where r0: "r = Some r0" "NewRecorder (sh_codec x) (sh_recKey x) cols rows (sh_now x 0) (sh_header x) = Inr r0"
    by (rule recorder_start_cases [OF r assms(3)])
  have "pipe_inv (sh_codec x) r0 (pipe_start r)" by (simp add: pipe_inv_def pipe_start_def bridged_def r0)
  then have inv: "pipe_inv (sh_codec x) r0 p" unfolding p by (rule bridge.run_invar)
  then have rec: "sp_rec p = Some (foldl (rec_step_run (sh_codec x)) r0 (sp_log p))" by (simp add: pipe_inv_def)
  obtain obj e where fin: "recorder_finish x (pr_User pr) srcIP (foldl (rec_step_run (sh_codec x)) r0 (sp_log p)) = (obj, e)" by fastforce
  have "sr_events res = (session_event TypeSessionStart (pr_User pr) srcIP ''interactive shell'' # evs)
        @ [e, session_event TypeSessionEnd (pr_User pr) srcIP []] \<and> sr_object res = Some obj" if "sp_over p"
    using fin0 [OF that] rec fin by simp
  then have "sp_over p \<longrightarrow> (\<exists>pre e obj r0. sr_events res = pre @ [e, session_event TypeSessionEnd (pr_User pr) srcIP []] \<and> sr_object res = Some obj
        \<and> NewRecorder (sh_codec x) (sh_recKey x) cols rows (sh_now x 0) (sh_header x) = Inr r0
        \<and> (ev_RecordMode e = RecordFull \<longrightarrow>
             rd_dest obj = jc_header (sh_codec x) (rd_width r0) (rd_height r0) (sh_now x 0) @ [CHR 0x0A]
                @ concat (map (rec_line (sh_codec x) (sh_now x 0)) (sp_log p))
             \<and> ev_SHA256 e = hexBytes (sh_sha x (rd_dest obj)) \<and> ev_Bytes e = int (length (rd_dest obj))))"
    using inv r0 recorder_finish_true [OF r0(2) _ refl fin] by (fastforce simp: pipe_inv_def)
  moreover from inv have "bridged (sp_toUser p) (sp_lateUser p) (log_of ''o'' (sp_log p)) (sp_targetDone p) (sp_over p)"
    "bridged (sp_toTarget p) (sp_lateTarget p) (log_of ''i'' (sp_log p)) (sp_userDone p) (sp_over p)"
    by (simp_all add: pipe_inv_def)
  ultimately show ?thesis unfolding bridged_def by blast
qed

text \<open>
  Between the close of the recorder and that of the channels the evidence of the
  recording and of the session's end is written; output of the target that
  arrives then reaches the user unrecorded.  A client that closes its input while
  the target still answers is enough.
\<close>

lemma late_output_unrecorded:
  assumes "sp_over p" and "\<not> sp_closed p" and "\<not> sp_targetDone p" and "bs \<noteq> []"
  shows "sp_toUser (pipe_step c p (FromTarget bs False True now out)) = sp_toUser p @ bs
    \<and> sp_log (pipe_step c p (FromTarget bs False True now out)) = sp_log p"
  using assms by (cases "sp_rec p") (simp_all add: tell_recorder_def pass_user_def)

text \<open>A recorder that has failed stays silent, and the session goes on without it.\<close>

lemma recorder_failure_unnoticed:
  assumes "sp_rec p = Some r" and "rd_err r \<noteq> None" and "\<not> sp_targetDone p" and "\<not> sp_closed p" and "bs \<noteq> []"
  shows "sp_toUser (pipe_step c p (FromTarget bs False True now out)) = sp_toUser p @ bs
    \<and> sp_rec (pipe_step c p (FromTarget bs False True now out)) = Some r"
  using assms by (simp add: tell_recorder_def pass_user_def rec_step_run_def rec_event_def)

section \<open>The evidence of a refused shell\<close>

lemma open_target_events:
  assumes "open_target s env pr srcIP tch = (s', tch', evs, Inr (d, cl))" and "e \<in> set evs"
  shows "ev_Type e = TypeCredential"
proof (rule open_target_cases [OF assms(1)])
  fix tried
  assume d: "dialTarget s (oe_target env) pr srcIP d (pr_TargetHost pr) (target_port d) (pr_TargetSecretToken pr) = (s', evs, tried, Inr cl)"
  then have "sv_targetHostKeyCB s \<noteq> None" by (cases "sv_targetHostKeyCB s") (auto simp: dialTarget_def split: sum.splits)
  from dialTarget_evidence [OF d this] assms(2) show ?thesis by auto
qed (use assms(2) in simp)

lemma session_event_type [simp]: "ev_Type (session_event ty u ip d) = ty"
  by (simp add: session_event_def)

text \<open>
  A refused shell session leaves a closing event, except when the target
  refuses the terminal, the pipes or the shell itself: then the evidence has a
  session start without an end.
\<close>

theorem shell_end_evidenced:
  assumes "res = runRecordedShell s x pr srcIP tch cols rows traffic" and "sr_pipe res = None"
  shows "ev_Type (last (sr_events res)) = TypeSessionEnd \<longleftrightarrow>
    \<not> (is_ok (snd (snd (snd (open_target s (sh_open x) pr srcIP tch)))) \<and> sh_newSession x = None
       \<and> first_error [sh_pty x, sh_stdin x, sh_stdout x, sh_shell x])"
proof -
  obtain s' tch' evs o' where o: "open_target s (sh_open x) pr srcIP tch = (s', tch', evs, o')" by (metis prod.exhaust)
  show ?thesis
  proof (cases o')
    case (Inl r)
    with assms o show ?thesis by (simp add: runRecordedShell_def Let_def)
  next
    case (Inr v)
    then obtain d cl where v: "o' = Inr (d, cl)" by (cases v) simp
    have l: "ev_Type (last (session_event TypeSessionStart u ip t # evs)) \<noteq> TypeSessionEnd" for u ip t
      using open_target_events [of s "sh_open x" pr srcIP tch s' tch' evs d cl "last evs"] o v by (cases "evs = []") auto
    show ?thesis
    proof (cases "sh_newSession x = None \<and> first_error [sh_pty x, sh_stdin x, sh_stdout x, sh_shell x]")
      case True
      with assms(1) o v l show ?thesis by (simp add: runRecordedShell_def Let_def del: last.simps)
    next
      case False
      with assms o v show ?thesis
        by (cases "recorder_start s' x cols rows") (auto simp: runRecordedShell_def Let_def split: option.splits if_splits)
    qed
  qed
qed

text \<open>A shell of the lab, for the witnesses; the target client of the connection is already there.\<close>

definition lab_shell_server :: Server where
  "lab_shell_server = Server_New lab_dialer [WithRecording True, WithDialerPeek (Some (\<lambda>_ _. allow_by (lab_user [''dba'']) dba_role lab_rule None))]"

definition lab_shell_user :: Principal where
  "lab_shell_user = (lab_user [''dba''])\<lparr>pr_TargetHost := ''db1.lab.local''\<rparr>"

definition lab_cache :: client_cache where
  "lab_cache = \<lparr>tc_result = Some (Inr (''10.0.0.5:22'', \<lparr>cc_User = ''alice'', cc_Auth = []\<rparr>))\<rparr>"

definition lab_shell :: "string option \<Rightarrow> shell_env" where
  "lab_shell pty = \<lparr>sh_open = \<lparr>oe_target = lab_target_env, oe_text = (\<lambda>_. [])\<rparr>, sh_newSession = None, sh_pty = pty, sh_stdin = None,
     sh_stdout = None, sh_shell = None, sh_recKey = ''k'', sh_create = None, sh_header = None, sh_codec = lab_codec, sh_sha = id,
     sh_now = (\<lambda>_. 5), sh_closeErr = None, sh_duration = (\<lambda>_. ''0s'')\<rparr>"

lemma lab_shell_open:
  "open_target lab_shell_server (sh_open (lab_shell pty)) lab_shell_user ''192.0.2.7'' lab_cache
    = (lab_shell_server, lab_cache, [], Inr (allow_by (lab_user [''dba'']) dba_role lab_rule None, (''10.0.0.5:22'', \<lparr>cc_User = ''alice'', cc_Auth = []\<rparr>)))"
  by (simp add: open_target_def getOrDial_def lab_cache_def lab_shell_user_def peeked_def lab_shell_server_def Server_New_def
      WithRecording_def WithDialerPeek_def Let_def)

lemma lab_shell_store: "sv_recordStore lab_shell_server"
  by (simp add: lab_shell_server_def Server_New_def WithRecording_def WithDialerPeek_def)

theorem shell_end_evidenced_witness:
  "ev_Type (last (sr_events (runRecordedShell lab_shell_server (lab_shell (Some ''no pty'')) lab_shell_user ''192.0.2.7'' lab_cache 80 24 [])))
     \<noteq> TypeSessionEnd"
proof -
  let ?r = "runRecordedShell lab_shell_server (lab_shell (Some ''no pty'')) lab_shell_user ''192.0.2.7'' lab_cache 80 24 []"
  have x: "sh_newSession (lab_shell (Some ''no pty'')) = None" "sh_pty (lab_shell (Some ''no pty'')) = Some ''no pty''"
    by (simp_all add: lab_shell_def)
  have "sr_pipe ?r = None" by (simp add: runRecordedShell_def lab_shell_open x first_error_def Let_def)
  from shell_end_evidenced [OF refl this] show ?thesis by (simp add: lab_shell_open x first_error_def)
qed

theorem shell_recorded_witness:
  "\<exists>p e. sr_pipe (runRecordedShell lab_shell_server (lab_shell None) lab_shell_user ''192.0.2.7'' lab_cache 80 24
        [FromUser ''ls'' False True 6 None, FromTarget ''bin'' True True 7 None, SessionOver]) = Some p
    \<and> e \<in> set (sr_events (runRecordedShell lab_shell_server (lab_shell None) lab_shell_user ''192.0.2.7'' lab_cache 80 24
        [FromUser ''ls'' False True 6 None, FromTarget ''bin'' True True 7 None, SessionOver]))
    \<and> sp_toUser p = ''bin'' \<and> prefix ''bin'' (log_of ''o'' (sp_log p))"
proof -
  let ?t = "[FromUser ''ls'' False True 6 None, FromTarget ''bin'' True True 7 None, SessionOver]"
  let ?r = "runRecordedShell lab_shell_server (lab_shell None) lab_shell_user ''192.0.2.7'' lab_cache 80 24 ?t"
  let ?p = "run_steps (pipe_step lab_codec) (pipe_start (Some lab_recorder)) ?t"
  have n: "NewRecorder lab_codec ''k'' 80 24 5 None = Inr lab_recorder"
    by (simp add: NewRecorder_def writeLine_def lab_codec_def lab_recorder_def Let_def)
  have x: "recorder_start lab_shell_server (lab_shell None) 80 24 = Inr (Some lab_recorder)" "sh_codec (lab_shell None) = lab_codec"
    "sh_newSession (lab_shell None) = None" "\<not> first_error [sh_pty (lab_shell None), sh_stdin (lab_shell None), sh_stdout (lab_shell None), sh_shell (lab_shell None)]"
    using n lab_shell_store by (simp_all add: recorder_start_def lab_shell_def first_error_def)
  have p: "sr_pipe ?r = Some ?p" "sr_server ?r = lab_shell_server"
    by (simp_all add: runRecordedShell_def lab_shell_open x Let_def del: run_steps.simps)
  have o: "sp_over ?p" "sp_toUser ?p = ''bin''" "sp_lateUser ?p = []"
    by (simp_all add: pipe_start_def tell_recorder_def pass_user_def pass_target_def Let_def)
  from shell_recorded [OF refl p(1)] p(2) lab_shell_store o
  obtain pre e where "sr_events ?r = pre @ [e, session_event TypeSessionEnd (pr_User lab_shell_user) ''192.0.2.7'' []]" "prefix ''bin'' (log_of ''o'' (sp_log ?p))"
    by (auto simp del: run_steps.simps)
  with p(1) o(2) show ?thesis by (intro exI [of _ ?p] exI [of _ e]) (simp del: run_steps.simps)
qed

end
