(* ===== verification/Authn_LDAP.thy ===== *)
theory Authn_LDAP
  imports Session Fips
begin

text \<open>
  Password authentication against a directory, \<^verbatim>\<open>internal/authn/ldap.go\<close>: the
  service bind and the search for the user, the bind that checks the password,
  the decoy bind for unknown users, and the two ways groups are read.

  The LDAP client library and the directory behind it are an argument: what a
  bind or a search answers may depend on everything asked before on that
  connection.  The history of these calls is the first component of each result.
\<close>

section \<open>The connection\<close>

record LDAPAuthenticator =
  la_URL :: string
  la_BaseDN :: string
  la_BindDN :: string
  la_BindPassword :: string
  la_UserFilter :: string
  la_InsecureTLS :: bool
  la_NestedGroups :: bool
  la_Mode :: fips_Mode

definition NewLDAP :: "LDAPAuthenticator \<Rightarrow> LDAPAuthenticator" where
  "NewLDAP cfg = (if la_UserFilter cfg = [] then cfg\<lparr>la_UserFilter := ''(sAMAccountName=%s)''\<rparr> else cfg)"

datatype ldap_scope = ScopeBaseObject | ScopeWholeSubtree

text \<open>
  A search has its base, scope, size limit, time limit in seconds, filter and
  attributes.  \<open>SetTimeout\<close> stays in the client.
\<close>

datatype ldap_op =
    SetTimeout duration
  | Bind string string
  | Search string ldap_scope nat int string "string list"

text \<open>An entry by what the library's accessors give.\<close>

record ldap_entry =
  le_DN :: string
  le_memberOf :: "string list"
  le_tokenGroups :: "string list"
  le_cn :: string

text \<open>
  The library with the directory behind it: opening a connection, the answers to
  binds and searches after a history, the escaping of filter values, the parsing
  of distinguished names into their components, the names of cipher suites, and
  how much time the caller's context has left.
\<close>

record directory =
  dir_dial :: "string \<Rightarrow> tls_Config option \<Rightarrow> bool \<Rightarrow> string option"
  dir_bind :: "ldap_op list \<Rightarrow> string \<Rightarrow> string \<Rightarrow> string option"
  dir_search :: "ldap_op list \<Rightarrow> ldap_op \<Rightarrow> (string, ldap_entry list) result"
  EscapeFilter :: "string \<Rightarrow> string"
  ParseDN :: "string \<Rightarrow> (string \<times> string) list list option"
  dir_suite :: "nat \<Rightarrow> string"
  dir_remaining :: "ldap_op list \<Rightarrow> duration option"

text \<open>Every error wraps \<^verbatim>\<open>ErrAuth\<close>; \<^verbatim>\<open>errUserNotFound\<close> is told apart inside the package.\<close>

datatype ldap_error = LDAPAuth string | UserNotFound

definition ldap_dial :: "LDAPAuthenticator \<Rightarrow> directory \<Rightarrow> ldap_error option" where
  "ldap_dial a dir =
    (case Harden (dir_suite dir) (Some \<lparr>tls_MinVersion = 0, tls_CipherSuites = []\<rparr>) (la_Mode a) of
       (c, Some e) \<Rightarrow> Some (LDAPAuth (''fips: '' @ e))
     | (c, None) \<Rightarrow> map_option (\<lambda>e. LDAPAuth (''connect: '' @ e)) (dir_dial dir (la_URL a) c (la_InsecureTLS a)))"

section \<open>Looking up a user\<close>

definition defaultLDAPTimeout :: duration where
  "defaultLDAPTimeout = 10 * Second"

definition ldap_timeout :: "duration option \<Rightarrow> duration" where
  "ldap_timeout remaining =
    (case remaining of None \<Rightarrow> defaultLDAPTimeout
     | Some r \<Rightarrow> if 0 < r \<and> r < defaultLDAPTimeout then r else defaultLDAPTimeout)"

definition applyTimeout :: "directory \<Rightarrow> ldap_op list \<Rightarrow> ldap_op list \<times> int" where
  "applyTimeout dir h =
    (let timeout = ldap_timeout (dir_remaining dir h); secs = timeout div Second
     in (h @ [SetTimeout timeout], if secs < 1 then 1 else secs))"

text \<open>
  \<^verbatim>\<open>fmt.Sprintf\<close> with one string argument, for the verbs a filter template uses:
  \<^verbatim>\<open>%s\<close>, \<^verbatim>\<open>%v\<close> and \<^verbatim>\<open>%%\<close>; any other verb is printed as a bad one.
\<close>

fun sprintf_go :: "string \<Rightarrow> string option \<Rightarrow> string" where
  "sprintf_go [] (Some arg) = ''%!(EXTRA string='' @ arg @ '')''"
| "sprintf_go [] None = []"
| "sprintf_go (c # cs) arg =
    (if c \<noteq> CHR ''%'' then c # sprintf_go cs arg
     else case cs of [] \<Rightarrow> ''%!(NOVERB)'' @ sprintf_go [] arg
     | v # rest \<Rightarrow>
        if v = CHR ''%'' then CHR ''%'' # sprintf_go rest arg
        else case arg of
          None \<Rightarrow> ''%!'' @ [v] @ ''(MISSING)'' @ sprintf_go rest None
        | Some a \<Rightarrow> (if v = CHR ''s'' \<or> v = CHR ''v'' then a else ''%!'' @ [v] @ ''(string='' @ a @ '')'') @ sprintf_go rest None)"

definition user_query :: "LDAPAuthenticator \<Rightarrow> directory \<Rightarrow> int \<Rightarrow> string \<Rightarrow> ldap_op" where
  "user_query a dir secs username =
     Search (la_BaseDN a) ScopeWholeSubtree 1 secs (sprintf_go (la_UserFilter a) (Some (EscapeFilter dir username)))
       [''dn'', ''memberOf'', ''sAMAccountName'']"

definition lookupUser :: "LDAPAuthenticator \<Rightarrow> directory \<Rightarrow> ldap_op list \<Rightarrow> string \<Rightarrow> ldap_op list \<times> (ldap_error, ldap_entry) result" where
  "lookupUser a dir h username =
    (case applyTimeout dir h of (h1, secs) \<Rightarrow>
     let h2 = h1 @ [Bind (la_BindDN a) (la_BindPassword a)] in
     case dir_bind dir h1 (la_BindDN a) (la_BindPassword a) of
       Some e \<Rightarrow> (h2, Inl (LDAPAuth (''service bind: '' @ e)))
     | None \<Rightarrow>
        let q = user_query a dir secs username; h3 = h2 @ [q] in
        case dir_search dir h2 q of
          Inl e \<Rightarrow> (h3, Inl (LDAPAuth (''search: '' @ e)))
        | Inr [entry] \<Rightarrow> (h3, Inr entry)
        | Inr _ \<Rightarrow> (h3, Inl UserNotFound))"

section \<open>Groups\<close>

definition groupCNsFromMemberOf :: "directory \<Rightarrow> string list \<Rightarrow> string list" where
  "groupCNsFromMemberOf dir memberOf =
    concat (map (\<lambda>dn. case ParseDN dir dn of
        Some (((ty, v) # _) # _) \<Rightarrow> if EqualFold ty ''CN'' then [v] else []
      | _ \<Rightarrow> []) memberOf)"

definition escapeBinaryFilter :: "string \<Rightarrow> string" where
  "escapeBinaryFilter b = concat (map (\<lambda>c. [CHR 0x5C, hex_digit (byte c div 16), hex_digit (byte c mod 16)]) b)"

definition sidResolveBatch :: nat where
  "sidResolveBatch = 200"

definition sid_filter :: "string list \<Rightarrow> string" where
  "sid_filter sids = ''(|'' @ concat (map (\<lambda>sid. ''(objectSid='' @ escapeBinaryFilter sid @ '')'') sids) @ '')''"

definition sid_query :: "LDAPAuthenticator \<Rightarrow> int \<Rightarrow> string list \<Rightarrow> ldap_op" where
  "sid_query a secs sids = Search (la_BaseDN a) ScopeWholeSubtree sidResolveBatch secs (sid_filter sids) [''cn'']"

definition entry_cns :: "directory \<Rightarrow> ldap_entry \<Rightarrow> string list" where
  "entry_cns dir e =
    (case groupCNsFromMemberOf dir [le_DN e] of
       [] \<Rightarrow> if le_cn e \<noteq> [] then [le_cn e] else []
     | cns \<Rightarrow> cns)"

text \<open>The loop over batches; \<open>sids\<close> is what is left from \<^verbatim>\<open>start\<close> on.\<close>

function resolve_batches ::
  "LDAPAuthenticator \<Rightarrow> directory \<Rightarrow> int \<Rightarrow> ldap_op list \<Rightarrow> string list \<Rightarrow> string list \<Rightarrow> ldap_op list \<times> (ldap_error, string list) result" where
  "resolve_batches a dir secs h sids out =
    (if sids = [] then (h, Inr out)
     else let q = sid_query a secs (take sidResolveBatch sids) in
       case dir_search dir h q of
         Inl e \<Rightarrow> (h @ [q], Inl (LDAPAuth (''group SID resolution: '' @ e)))
       | Inr es \<Rightarrow> resolve_batches a dir secs (h @ [q]) (drop sidResolveBatch sids) (out @ concat (map (entry_cns dir) es)))"
  by pat_completeness auto
termination
  by (relation "measure (\<lambda>(a, dir, secs, h, sids, out). length sids)") (auto simp: sidResolveBatch_def)

declare resolve_batches.simps [simp del]

definition token_query :: "string \<Rightarrow> int \<Rightarrow> ldap_op" where
  "token_query userDN secs = Search userDN ScopeBaseObject 1 secs ''(objectClass=*)'' [''tokenGroups'']"

definition tokenGroupCNs :: "LDAPAuthenticator \<Rightarrow> directory \<Rightarrow> ldap_op list \<Rightarrow> string \<Rightarrow> ldap_op list \<times> (ldap_error, string list) result" where
  "tokenGroupCNs a dir h userDN =
    (case applyTimeout dir h of (h1, secs) \<Rightarrow>
     let q = token_query userDN secs; h2 = h1 @ [q] in
     case dir_search dir h1 q of
       Inl e \<Rightarrow> (h2, Inl (LDAPAuth (''tokenGroups read: '' @ e)))
     | Inr [e] \<Rightarrow> resolve_batches a dir secs h2 (le_tokenGroups e) []
     | Inr _ \<Rightarrow> (h2, Inl (LDAPAuth ''tokenGroups read: user object not found'')))"

definition resolveGroups :: "LDAPAuthenticator \<Rightarrow> directory \<Rightarrow> ldap_op list \<Rightarrow> ldap_entry \<Rightarrow> ldap_op list \<times> (ldap_error, string list) result" where
  "resolveGroups a dir h entry =
    (if \<not> la_NestedGroups a then (h, Inr (groupCNsFromMemberOf dir (le_memberOf entry)))
     else let h1 = h @ [Bind (la_BindDN a) (la_BindPassword a)] in
       case dir_bind dir h (la_BindDN a) (la_BindPassword a) of
         Some e \<Rightarrow> (h1, Inl (LDAPAuth (''service re-bind for nested groups: '' @ e)))
       | None \<Rightarrow> tokenGroupCNs a dir h1 (le_DN entry))"

section \<open>Authenticating\<close>

definition decoyDN :: "LDAPAuthenticator \<Rightarrow> string" where
  "decoyDN a = ''CN=omni-sag-nonexistent-decoy,'' @ la_BaseDN a"

definition ldap_Authenticate :: "LDAPAuthenticator \<Rightarrow> directory \<Rightarrow> string \<Rightarrow> string \<Rightarrow> ldap_op list \<times> (ldap_error, Identity) result" where
  "ldap_Authenticate a dir username password =
    (if password = [] then ([], Inl (LDAPAuth ''empty password''))
     else case ldap_dial a dir of Some e \<Rightarrow> ([], Inl e)
     | None \<Rightarrow>
     case lookupUser a dir [] username of
       (h, Inl UserNotFound) \<Rightarrow> (h @ [Bind (decoyDN a) password], Inl UserNotFound)
     | (h, Inl e) \<Rightarrow> (h, Inl e)
     | (h, Inr entry) \<Rightarrow>
        let h1 = h @ [Bind (le_DN entry) password] in
        case dir_bind dir h (le_DN entry) password of
          Some e \<Rightarrow> (h1, Inl (LDAPAuth (''user bind: '' @ e)))
        | None \<Rightarrow>
           (case resolveGroups a dir h1 entry of
              (h2, Inl e) \<Rightarrow> (h2, Inl e)
            | (h2, Inr groups) \<Rightarrow> (h2, Inr \<lparr>id_User = username, id_Groups = groups\<rparr>)))"

definition ldap_Groups :: "LDAPAuthenticator \<Rightarrow> directory \<Rightarrow> string \<Rightarrow> ldap_op list \<times> (ldap_error, string list) result" where
  "ldap_Groups a dir username =
    (case ldap_dial a dir of Some e \<Rightarrow> ([], Inl e)
     | None \<Rightarrow>
     case lookupUser a dir [] username of
       (h, Inl e) \<Rightarrow> (h, Inl e)
     | (h, Inr entry) \<Rightarrow> resolveGroups a dir h entry)"

section \<open>Who gets an identity\<close>

lemma lookupUser_found:
  assumes "lookupUser a dir h u = (h', Inr entry)"
  obtains t secs where "h' = h @ [SetTimeout t, Bind (la_BindDN a) (la_BindPassword a), user_query a dir secs u]"
    "dir_bind dir (h @ [SetTimeout t]) (la_BindDN a) (la_BindPassword a) = None"
    "dir_search dir (h @ [SetTimeout t, Bind (la_BindDN a) (la_BindPassword a)]) (user_query a dir secs u) = Inr [entry]"
  using assms
  by (auto simp: lookupUser_def applyTimeout_def Let_def split: option.splits sum.splits list.splits if_splits)

lemma lookupUser_asks:
  "fst (lookupUser a dir h u) \<in> {h @ [SetTimeout t, Bind (la_BindDN a) (la_BindPassword a)] @ qs | t qs. length qs \<le> 1 \<and> (\<forall>q\<in>set qs. \<exists>secs. q = user_query a dir secs u)}"
  by (fastforce simp: lookupUser_def applyTimeout_def Let_def split: option.splits sum.splits list.splits)

text \<open>Which binds a list of calls has.\<close>

fun is_bind :: "ldap_op \<Rightarrow> bool" where
  "is_bind (Bind dn pw) = True"
| "is_bind _ = False"

definition binds :: "ldap_op list \<Rightarrow> ldap_op list" where
  "binds h = filter is_bind h"

lemma binds_simps [simp]: "binds [] = []" "binds (h @ h') = binds h @ binds h'"
  "binds (Bind dn pw # h) = Bind dn pw # binds h" "binds (SetTimeout t # h) = binds h"
  "binds (Search b sc n secs f at # h) = binds h"
  by (simp_all add: binds_def)

lemma query_not_bind [simp]: "binds (user_query a dir secs u # h) = binds h" "binds (sid_query a secs sids # h) = binds h"
    "binds (token_query dn secs # h) = binds h"
  by (simp_all add: user_query_def sid_query_def token_query_def)

lemma resolve_batches_binds: "binds (fst (resolve_batches a dir secs h sids out)) = binds h"
proof (induction a dir secs h sids out rule: resolve_batches.induct)
  case (1 a dir secs h sids out)
  then show ?case by (subst resolve_batches.simps) (auto simp: Let_def split: sum.splits)
qed

lemma tokenGroupCNs_binds: "binds (fst (tokenGroupCNs a dir h dn)) = binds h"
  by (auto simp: tokenGroupCNs_def applyTimeout_def Let_def resolve_batches_binds split: sum.splits list.splits)

lemma resolveGroups_binds:
  "binds (fst (resolveGroups a dir h entry)) = binds h @ (if la_NestedGroups a then [Bind (la_BindDN a) (la_BindPassword a)] else [])"
  by (auto simp: resolveGroups_def Let_def tokenGroupCNs_binds split: option.splits)

lemma resolve_batches_prefix: "prefix h (fst (resolve_batches a dir secs h sids out))"
proof (induction a dir secs h sids out rule: resolve_batches.induct)
  case (1 a dir secs h sids out)
  then show ?case
    by (subst resolve_batches.simps) (auto simp: Let_def split: sum.splits dest: append_prefixD)
qed

lemma tokenGroupCNs_prefix: "prefix h (fst (tokenGroupCNs a dir h dn))"
  by (auto simp: tokenGroupCNs_def applyTimeout_def Let_def intro: append_prefixD [OF resolve_batches_prefix] split: sum.splits list.splits)

lemma resolveGroups_prefix: "prefix h (fst (resolveGroups a dir h entry))"
  by (auto simp: resolveGroups_def Let_def intro: append_prefixD [OF tokenGroupCNs_prefix] split: option.splits)

lemma lookupUser_binds: "binds (fst (lookupUser a dir h u)) = binds h @ [Bind (la_BindDN a) (la_BindPassword a)]"
  using lookupUser_asks [of a dir h u] by (auto simp: length_Suc_conv le_Suc_eq)

lemma ldap_binds:
  "set (binds (fst (ldap_Authenticate a dir u pw))) \<subseteq> {Bind (la_BindDN a) (la_BindPassword a)} \<union> {Bind dn pw | dn. pw \<noteq> []}"
proof -
  have g: "binds h' = binds h @ (if la_NestedGroups a then [Bind (la_BindDN a) (la_BindPassword a)] else [])"
    if "resolveGroups a dir h e = (h', r)" for h h' e r
    using resolveGroups_binds [of a dir h e] that by simp
  show ?thesis using lookupUser_binds [of a dir "[]" u]
    by (auto simp: ldap_Authenticate_def Let_def dest!: g split: option.splits prod.splits sum.splits ldap_error.splits if_splits)
qed

text \<open>The directory accepted the password for the one entry its search gave for the user.\<close>

definition directory_proved :: "LDAPAuthenticator \<Rightarrow> directory \<Rightarrow> string \<Rightarrow> string \<Rightarrow> ldap_op list \<Rightarrow> Identity \<Rightarrow> bool" where
  "directory_proved a dir u pw h ident =
    (\<exists>h0 secs entry. dir_search dir h0 (user_query a dir secs u) = Inr [entry]
       \<and> dir_bind dir (h0 @ [user_query a dir secs u]) (le_DN entry) pw = None
       \<and> prefix (h0 @ [user_query a dir secs u, Bind (le_DN entry) pw]) h
       \<and> (\<not> la_NestedGroups a \<longrightarrow> id_Groups ident = groupCNsFromMemberOf dir (le_memberOf entry)))"

lemma ldap_accepts:
  assumes "ldap_Authenticate a dir u pw = (h, Inr ident)"
  shows "pw \<noteq> [] \<and> id_User ident = u \<and> directory_proved a dir u pw h ident"
proof -
  from assms obtain h1 entry where pw: "pw \<noteq> []" and l: "lookupUser a dir [] u = (h1, Inr entry)"
    and b: "dir_bind dir h1 (le_DN entry) pw = None"
    and g: "resolveGroups a dir (h1 @ [Bind (le_DN entry) pw]) entry = (h, Inr (id_Groups ident))" and i: "id_User ident = u"
    by (auto simp: ldap_Authenticate_def Let_def split: if_splits option.splits prod.splits sum.splits ldap_error.splits)
  from l obtain t secs where h1: "h1 = [SetTimeout t, Bind (la_BindDN a) (la_BindPassword a), user_query a dir secs u]"
    and s: "dir_search dir [SetTimeout t, Bind (la_BindDN a) (la_BindPassword a)] (user_query a dir secs u) = Inr [entry]"
    by (rule lookupUser_found) auto
  have "prefix (h1 @ [Bind (le_DN entry) pw]) h" using resolveGroups_prefix [of "h1 @ [Bind (le_DN entry) pw]" a dir entry] g by simp
  moreover have "\<not> la_NestedGroups a \<longrightarrow> id_Groups ident = groupCNsFromMemberOf dir (le_memberOf entry)"
    using g by (auto simp: resolveGroups_def)
  ultimately show ?thesis using pw i b s unfolding directory_proved_def
    by (intro conjI exI [of _ "[SetTimeout t, Bind (la_BindDN a) (la_BindPassword a)]"] exI [of _ secs] exI [of _ entry])
      (simp_all add: h1)
qed

text \<open>
  An identity is what the directory proved: authentication succeeds only with a
  non-empty password, after the service account's search found exactly one entry
  for the escaped name and the directory accepted that password for that entry's
  name.  Whatever the outcome, the only binds are those of the service account
  and one with the given password, so an empty password, which directories accept
  as an anonymous bind, is never tried for anybody.
\<close>

theorem ldap_identity_proved:
  assumes "ldap_Authenticate a dir u pw = (h, r)"
  shows "(\<forall>dn p. Bind dn p \<in> set h \<longrightarrow> dn = la_BindDN a \<and> p = la_BindPassword a \<or> p = pw \<and> p \<noteq> [])
    \<and> (\<forall>ident. r = Inr ident \<longrightarrow> pw \<noteq> [] \<and> id_User ident = u \<and> directory_proved a dir u pw h ident)"
proof -
  have "dn = la_BindDN a \<and> p = la_BindPassword a \<or> p = pw \<and> p \<noteq> []" if "Bind dn p \<in> set h" for dn p
    using that ldap_binds [of a dir u pw] assms by (force simp: binds_def)
  with ldap_accepts assms show ?thesis by blast
qed

section \<open>Unknown users and wrong passwords look alike\<close>

text \<open>What the client of the gateway can time: the exchanges with the directory.\<close>

datatype exchange_kind = BindTrip | SearchTrip

fun trip :: "ldap_op \<Rightarrow> exchange_kind list" where
  "trip (SetTimeout t) = []"
| "trip (Bind dn pw) = [BindTrip]"
| "trip (Search b sc n secs f at) = [SearchTrip]"

definition trips :: "ldap_op list \<Rightarrow> exchange_kind list" where
  "trips h = concat (map trip h)"

text \<open>
  C27.  A failed login does not show whether the account exists: as long as the
  directory answers the service account's bind and search, an attempt for an
  unknown user and one with a wrong password make the same exchanges, a bind, a
  search and a bind, and both end in an error.
\<close>

theorem failed_logins_alike:
  assumes "pw \<noteq> []" and "ldap_dial a dir = None" and "lookupUser a dir [] u = (h0, r)"
    and "r = Inl UserNotFound \<or> (\<exists>entry. r = Inr entry \<and> dir_bind dir h0 (le_DN entry) pw \<noteq> None)"
  shows "trips (fst (ldap_Authenticate a dir u pw)) = [BindTrip, SearchTrip, BindTrip] \<and> \<not> is_ok (snd (ldap_Authenticate a dir u pw))"
proof -
  have "trips h0 = [BindTrip, SearchTrip]"
    using assms(3,4)
    by (auto simp: lookupUser_def applyTimeout_def Let_def trips_def user_query_def split: option.splits sum.splits list.splits)
  with assms show ?thesis
    by (auto simp: ldap_Authenticate_def Let_def trips_def split: option.splits)
qed

text \<open>
  But a search that fails, as it does on a server that enforces the size limit of
  one when several entries match, is answered without the decoy bind.
\<close>

lemma search_failure_differs:
  assumes "pw \<noteq> []" and "ldap_dial a dir = None" and "lookupUser a dir [] u = (h0, Inl (LDAPAuth (''search: '' @ e)))"
  shows "trips (fst (ldap_Authenticate a dir u pw)) = [BindTrip, SearchTrip]"
  using assms
  by (auto simp: ldap_Authenticate_def lookupUser_def applyTimeout_def Let_def trips_def user_query_def split: option.splits sum.splits list.splits)

section \<open>Nested groups\<close>

lemma escape_parts:
  "escapeBinaryFilter b @ CHR '')'' # r = escapeBinaryFilter b' @ CHR '')'' # r' \<longleftrightarrow> b = b' \<and> r = r'"
proof (induction b arbitrary: b')
  case Nil
  then show ?case by (cases b') (auto simp: escapeBinaryFilter_def)
next
  case (Cons c b)
  have byte_eq: "c = d" if "hex_digit (byte c div 16) = hex_digit (byte d div 16)" "hex_digit (byte c mod 16) = hex_digit (byte d mod 16)" for d
  proof -
    have "byte c div 16 < 16" "byte d div 16 < 16" using byte_less [of c] byte_less [of d] by simp_all
    then have "byte c div 16 = byte d div 16" "byte c mod 16 = byte d mod 16" using that by (auto intro: hex_digit_inj)
    then have "byte c = byte d" by (metis div_mult_mod_eq)
    then show "c = d" by (metis char_of_byte)
  qed
  show ?case
  proof (cases b')
    case Nil
    then show ?thesis by (simp add: escapeBinaryFilter_def)
  next
    case (Cons d b'')
    then show ?thesis using Cons.IH [of b''] byte_eq [of d] by (auto simp: escapeBinaryFilter_def)
  qed
qed

lemma sid_filter_inj: "sid_filter xs = sid_filter ys \<Longrightarrow> xs = ys"
proof -
  let ?f = "\<lambda>xs. concat (map (\<lambda>sid. ''(objectSid='' @ escapeBinaryFilter sid @ '')'') xs) @ '')''"
  have "?f xs = ?f ys \<Longrightarrow> xs = ys" for xs ys
  proof (induction xs arbitrary: ys)
    case Nil
    then show ?case by (cases ys) auto
  next
    case (Cons x xs)
    then obtain y ys' where ys: "ys = y # ys'" by (cases ys) auto
    from Cons.prems show ?case using Cons.IH [of ys'] by (simp add: ys escape_parts)
  qed
  then show "sid_filter xs = sid_filter ys \<Longrightarrow> xs = ys" by (simp add: sid_filter_def)
qed

lemma resolve_batches_complete:
  assumes "resolve_batches a dir secs h sids out = (h', Inr groups)"
  shows "\<exists>batches answers. h' = h @ map (sid_query a secs) batches \<and> concat batches = sids
    \<and> (\<forall>b\<in>set batches. b \<noteq> [] \<and> length b \<le> sidResolveBatch) \<and> length answers = length batches
    \<and> (\<forall>i<length batches. dir_search dir (h @ map (sid_query a secs) (take i batches)) (sid_query a secs (batches ! i)) = Inr (answers ! i))
    \<and> groups = out @ concat (map (entry_cns dir) (concat answers))"
  using assms
proof (induction a dir secs h sids out rule: resolve_batches.induct)
  case (1 a dir secs h sids out)
  show ?case
  proof (cases "sids = []")
    case True
    with "1.prems" show ?thesis by (auto simp: resolve_batches.simps intro!: exI [of _ "[]"])
  next
    case False
    let ?b = "take sidResolveBatch sids"
    from False "1.prems" obtain es where es: "dir_search dir h (sid_query a secs ?b) = Inr es"
      and rest: "resolve_batches a dir secs (h @ [sid_query a secs ?b]) (drop sidResolveBatch sids) (out @ concat (map (entry_cns dir) es)) = (h', Inr groups)"
      by (subst (asm) resolve_batches.simps) (auto simp: Let_def split: sum.splits)
    from "1.IH" [OF False refl es rest] obtain bs as where ih: "h' = (h @ [sid_query a secs ?b]) @ map (sid_query a secs) bs"
      "concat bs = drop sidResolveBatch sids" "\<forall>b\<in>set bs. b \<noteq> [] \<and> length b \<le> sidResolveBatch" "length as = length bs"
      "\<forall>i<length bs. dir_search dir ((h @ [sid_query a secs ?b]) @ map (sid_query a secs) (take i bs)) (sid_query a secs (bs ! i)) = Inr (as ! i)"
      "groups = (out @ concat (map (entry_cns dir) es)) @ concat (map (entry_cns dir) (concat as))"
      by blast
    have "dir_search dir (h @ map (sid_query a secs) (take i (?b # bs))) (sid_query a secs ((?b # bs) ! i)) = Inr ((es # as) ! i)"
      if "i < length (?b # bs)" for i
      using that es ih(5) by (cases i) auto
    with ih False show ?thesis
      by (intro exI [of _ "?b # bs"] exI [of _ "es # as"]) (auto simp: sidResolveBatch_def)
  qed
qed

text \<open>
  Nested groups are complete: when reading them succeeds, the directory was asked
  for every group identifier it named for the user, each once and in order, in
  filters that name exactly these identifiers and at most 200 at a time, and the
  groups are the names of all the entries it answered with.
\<close>

theorem nested_groups_complete:
  assumes "tokenGroupCNs a dir h dn = (h', Inr groups)"
  shows "\<exists>t secs entry batches answers. dir_search dir (h @ [SetTimeout t]) (token_query dn secs) = Inr [entry]
    \<and> h' = h @ [SetTimeout t, token_query dn secs] @ map (sid_query a secs) batches
    \<and> concat batches = le_tokenGroups entry \<and> (\<forall>b\<in>set batches. length b \<le> sidResolveBatch)
    \<and> (\<forall>sids b. b \<in> set batches \<and> sid_query a secs sids = sid_query a secs b \<longrightarrow> sids = b)
    \<and> (\<forall>i<length batches. dir_search dir (h @ [SetTimeout t, token_query dn secs] @ map (sid_query a secs) (take i batches)) (sid_query a secs (batches ! i))
          = Inr (answers ! i))
    \<and> length answers = length batches \<and> groups = concat (map (entry_cns dir) (concat answers))"
proof -
  obtain t secs where ap: "applyTimeout dir h = (h @ [SetTimeout t], secs)" by (simp add: applyTimeout_def Let_def)
  from assms ap obtain entry where e: "dir_search dir (h @ [SetTimeout t]) (token_query dn secs) = Inr [entry]"
    and r: "resolve_batches a dir secs (h @ [SetTimeout t, token_query dn secs]) (le_tokenGroups entry) [] = (h', Inr groups)"
    by (auto simp: tokenGroupCNs_def Let_def split: sum.splits list.splits)
  from resolve_batches_complete [OF r] obtain batches answers where
    "h' = (h @ [SetTimeout t, token_query dn secs]) @ map (sid_query a secs) batches" "concat batches = le_tokenGroups entry"
    "\<forall>b\<in>set batches. b \<noteq> [] \<and> length b \<le> sidResolveBatch" "length answers = length batches"
    "\<forall>i<length batches. dir_search dir ((h @ [SetTimeout t, token_query dn secs]) @ map (sid_query a secs) (take i batches)) (sid_query a secs (batches ! i)) = Inr (answers ! i)"
    "groups = concat (map (entry_cns dir) (concat answers))" by auto
  with e show ?thesis
    by (intro exI [of _ t] exI [of _ secs] exI [of _ entry] exI [of _ batches] exI [of _ answers])
      (auto simp: sid_query_def dest: sid_filter_inj)
qed

section \<open>A directory of the lab\<close>

definition lab_ldap :: "bool \<Rightarrow> LDAPAuthenticator" where
  "lab_ldap nested = NewLDAP \<lparr>la_URL = ''ldaps://dc1.lab.local:636'', la_BaseDN = ''DC=lab'', la_BindDN = ''CN=svc'', la_BindPassword = ''svcpw'',
     la_UserFilter = [], la_InsecureTLS = False, la_NestedGroups = nested, la_Mode = ModeOff\<rparr>"

definition lab_alice :: ldap_entry where
  "lab_alice = \<lparr>le_DN = ''CN=alice,DC=lab'', le_memberOf = [''CN=dba,DC=lab''], le_tokenGroups = [[CHR 0x01], [CHR 0x29]], le_cn = ''alice''\<rparr>"

definition lab_search :: "ldap_op \<Rightarrow> (string, ldap_entry list) result" where
  "lab_search q =
    (case q of Search base sc n secs f attrs \<Rightarrow>
       if f = ''(sAMAccountName=alice)'' \<or> base = le_DN lab_alice then Inr [lab_alice]
       else if attrs = [''cn''] then Inr [lab_alice\<lparr>le_DN := ''CN=dba,DC=lab''\<rparr>] else Inr []
     | _ \<Rightarrow> Inl ''not a search'')"

definition lab_directory :: directory where
  "lab_directory = \<lparr>dir_dial = (\<lambda>_ _ _. None),
     dir_bind = (\<lambda>_ dn pw. if (dn, pw) \<in> set [(''CN=svc'', ''svcpw''), (le_DN lab_alice, ''s3cret'')] then None else Some ''invalid credentials''),
     dir_search = (\<lambda>_ q. lab_search q), EscapeFilter = (\<lambda>s. s),
     ParseDN = (\<lambda>dn. Some [[(''CN'', takeWhile (\<lambda>c. c \<noteq> CHR '','') (drop 3 dn))]]), dir_suite = (\<lambda>_. []), dir_remaining = (\<lambda>_. None)\<rparr>"

definition lab_asked :: "ldap_op list" where
  "lab_asked = [SetTimeout (10 * Second), Bind ''CN=svc'' ''svcpw'',
     Search ''DC=lab'' ScopeWholeSubtree 1 10 ''(sAMAccountName=alice)'' [''dn'', ''memberOf'', ''sAMAccountName'']]"

theorem ldap_identity_proved_witness:
  "ldap_Authenticate (lab_ldap False) lab_directory ''alice'' ''s3cret''
      = (lab_asked @ [Bind (le_DN lab_alice) ''s3cret''], Inr \<lparr>id_User = ''alice'', id_Groups = [''dba'']\<rparr>)
    \<and> directory_proved (lab_ldap False) lab_directory ''alice'' ''s3cret'' (lab_asked @ [Bind (le_DN lab_alice) ''s3cret'']) \<lparr>id_User = ''alice'', id_Groups = [''dba'']\<rparr>"
proof -
  have r: "ldap_Authenticate (lab_ldap False) lab_directory ''alice'' ''s3cret''
      = (lab_asked @ [Bind (le_DN lab_alice) ''s3cret''], Inr \<lparr>id_User = ''alice'', id_Groups = [''dba'']\<rparr>)"
    by code_simp
  with ldap_identity_proved [OF this] show ?thesis by blast
qed

theorem failed_logins_alike_witness:
  "trips (fst (ldap_Authenticate (lab_ldap False) lab_directory ''mallory'' ''guess'')) = [BindTrip, SearchTrip, BindTrip]
    \<and> trips (fst (ldap_Authenticate (lab_ldap False) lab_directory ''alice'' ''guess'')) = [BindTrip, SearchTrip, BindTrip]"
proof
  have d: "ldap_dial (lab_ldap False) lab_directory = None" by code_simp
  have "snd (lookupUser (lab_ldap False) lab_directory [] ''mallory'') = Inl UserNotFound" by code_simp
  then obtain h where "lookupUser (lab_ldap False) lab_directory [] ''mallory'' = (h, Inl UserNotFound)" by (metis prod.collapse)
  from failed_logins_alike [OF _ d this, of "''guess''"]
  show "trips (fst (ldap_Authenticate (lab_ldap False) lab_directory ''mallory'' ''guess'')) = [BindTrip, SearchTrip, BindTrip]" by simp
  have l: "lookupUser (lab_ldap False) lab_directory [] ''alice'' = (lab_asked, Inr lab_alice)" by code_simp
  have "dir_bind lab_directory lab_asked (le_DN lab_alice) ''guess'' = Some ''invalid credentials''" by code_simp
  with failed_logins_alike [OF _ d l, of "''guess''"]
  show "trips (fst (ldap_Authenticate (lab_ldap False) lab_directory ''alice'' ''guess'')) = [BindTrip, SearchTrip, BindTrip]" by simp
qed

theorem nested_groups_complete_witness:
  "tokenGroupCNs (lab_ldap True) lab_directory [] (le_DN lab_alice)
      = ([SetTimeout (10 * Second), token_query (le_DN lab_alice) 10, sid_query (lab_ldap True) 10 (le_tokenGroups lab_alice)], Inr [''dba''])
    \<and> sid_filter (le_tokenGroups lab_alice) = ''(|(objectSid='' @ [CHR 0x5C] @ ''01)(objectSid='' @ [CHR 0x5C] @ ''29))''
    \<and> (\<exists>batches. concat batches = le_tokenGroups lab_alice \<and> (\<forall>b\<in>set batches. length b \<le> sidResolveBatch))"
proof -
  have r: "tokenGroupCNs (lab_ldap True) lab_directory [] (le_DN lab_alice)
      = ([SetTimeout (10 * Second), token_query (le_DN lab_alice) 10, sid_query (lab_ldap True) 10 (le_tokenGroups lab_alice)], Inr [''dba''])"
    by code_simp
  have f: "sid_filter (le_tokenGroups lab_alice) = ''(|(objectSid='' @ [CHR 0x5C] @ ''01)(objectSid='' @ [CHR 0x5C] @ ''29))''" by code_simp
  have s: "dir_search lab_directory ([] @ [SetTimeout t]) (token_query (le_DN lab_alice) secs) = Inr [lab_alice]" for t secs
    by (simp add: lab_directory_def lab_search_def token_query_def)
  from nested_groups_complete [OF r] s have "\<exists>batches. concat batches = le_tokenGroups lab_alice \<and> (\<forall>b\<in>set batches. length b \<le> sidResolveBatch)"
    by auto
  with r f show ?thesis by blast
qed

end
