(* ===== verification/Mschap.thy ===== *)
theory Mschap
  imports Go_Std
begin

unbundle bit_operations_syntax

text \<open>
  The MS-CHAPv2 response of the second factor, \<^verbatim>\<open>internal/authn/mschapv2.go\<close>: the
  NT hash of a password, the challenge hash, the expansion of 56-bit keys and the
  50-byte attribute.  MD4, SHA-1 and DES are arguments.
\<close>

type_synonym bytes = "8 word list"

definition octets :: "string \<Rightarrow> bytes" where
  "octets s = map (\<lambda>c. word_of_nat (byte c)) s"

definition octet_string :: "bytes \<Rightarrow> string" where
  "octet_string b = map (\<lambda>w. char_of (unat w)) b"

section \<open>Runes and UTF-16\<close>

text \<open>
  \<^verbatim>\<open>[]rune(s)\<close>: one step of decoding gives the rune and its width; a byte that
  starts no valid encoding is U+FFFD of width one.
\<close>

definition continuation :: "nat \<Rightarrow> bool" where
  "continuation b \<longleftrightarrow> 0x80 \<le> b \<and> b \<le> 0xBF"

fun rune2 :: "nat list \<Rightarrow> nat option" where
  "rune2 (a # b # _) = (if 0xC2 \<le> a \<and> a \<le> 0xDF \<and> continuation b then Some ((a - 0xC0) * 64 + (b - 0x80)) else None)"
| "rune2 _ = None"

fun rune3 :: "nat list \<Rightarrow> nat option" where
  "rune3 (a # b # c # _) =
    (if 0xE0 \<le> a \<and> a \<le> 0xEF \<and> continuation b \<and> continuation c \<and> (a = 0xE0 \<longrightarrow> 0xA0 \<le> b) \<and> (a = 0xED \<longrightarrow> b \<le> 0x9F)
     then Some ((a - 0xE0) * 4096 + (b - 0x80) * 64 + (c - 0x80)) else None)"
| "rune3 _ = None"

fun rune4 :: "nat list \<Rightarrow> nat option" where
  "rune4 (a # b # c # d # _) =
    (if 0xF0 \<le> a \<and> a \<le> 0xF4 \<and> continuation b \<and> continuation c \<and> continuation d \<and> (a = 0xF0 \<longrightarrow> 0x90 \<le> b) \<and> (a = 0xF4 \<longrightarrow> b \<le> 0x8F)
     then Some ((a - 0xF0) * 262144 + (b - 0x80) * 4096 + (c - 0x80) * 64 + (d - 0x80)) else None)"
| "rune4 _ = None"

definition decode_rune :: "nat list \<Rightarrow> nat \<times> nat" where
  "decode_rune bs =
    (case bs of [] \<Rightarrow> (0xFFFD, 1)
     | a # _ \<Rightarrow>
        if a < 0x80 then (a, 1)
        else case rune2 bs of Some r \<Rightarrow> (r, 2)
        | None \<Rightarrow> case rune3 bs of Some r \<Rightarrow> (r, 3)
        | None \<Rightarrow> case rune4 bs of Some r \<Rightarrow> (r, 4)
        | None \<Rightarrow> (0xFFFD, 1))"

lemma decode_rune_width: "0 < snd (decode_rune bs)"
  by (simp add: decode_rune_def split: list.splits option.splits)

function runes :: "nat list \<Rightarrow> nat list" where
  "runes bs = (if bs = [] then [] else fst (decode_rune bs) # runes (drop (snd (decode_rune bs)) bs))"
  by pat_completeness auto
termination
  by (relation "measure length") (auto simp: decode_rune_width)

declare runes.simps [simp del]

definition utf16_unit :: "nat \<Rightarrow> nat list" where
  "utf16_unit r =
    (if r < 0xD800 \<or> 0xE000 \<le> r \<and> r < 0x10000 then [r]
     else if 0x10000 \<le> r \<and> r \<le> 0x10FFFF then [0xD800 + (r - 0x10000) div 1024, 0xDC00 + (r - 0x10000) mod 1024]
     else [0xFFFD])"

definition utf16_Encode :: "nat list \<Rightarrow> nat list" where
  "utf16_Encode rs = concat (map utf16_unit rs)"

text \<open>\<^verbatim>\<open>PutUint16\<close> for each unit, little-endian.\<close>

definition little_endian :: "nat list \<Rightarrow> bytes" where
  "little_endian us = concat (map (\<lambda>u. [word_of_nat u, word_of_nat (u div 256)]) us)"

section \<open>The response\<close>

definition nt_input :: "string \<Rightarrow> bytes" where
  "nt_input password = little_endian (utf16_Encode (runes (map byte password)))"

definition ntPasswordHash :: "(bytes \<Rightarrow> bytes) \<Rightarrow> string \<Rightarrow> bytes" where
  "ntPasswordHash md4 password = md4 (nt_input password)"

definition challengeHash :: "(bytes \<Rightarrow> bytes) \<Rightarrow> bytes \<Rightarrow> bytes \<Rightarrow> string \<Rightarrow> bytes" where
  "challengeHash sha1 peerChallenge authenticatorChallenge username =
     take 8 (sha1 (peerChallenge @ authenticatorChallenge @ octets username))"

definition expandDESKey :: "bytes \<Rightarrow> bytes" where
  "expandDESKey k =
    [k ! 0,
     push_bit 7 (k ! 0) OR drop_bit 1 (k ! 1),
     push_bit 6 (k ! 1) OR drop_bit 2 (k ! 2),
     push_bit 5 (k ! 2) OR drop_bit 3 (k ! 3),
     push_bit 4 (k ! 3) OR drop_bit 4 (k ! 4),
     push_bit 3 (k ! 4) OR drop_bit 5 (k ! 5),
     push_bit 2 (k ! 5) OR drop_bit 6 (k ! 6),
     push_bit 1 (k ! 6)]"

text \<open>\<^verbatim>\<open>des.NewCipher\<close> refuses a key that is not eight bytes long.\<close>

definition desEncrypt :: "(bytes \<Rightarrow> bytes \<Rightarrow> bytes) \<Rightarrow> bytes \<Rightarrow> bytes \<Rightarrow> (string, bytes) result" where
  "desEncrypt des key7 block8 =
    (let key = expandDESKey key7 in
     if length key \<noteq> 8 then Inl ''crypto/des: invalid key size'' else Inr (des key block8))"

text \<open>\<^verbatim>\<open>copy\<close> into a zeroed array of \<open>n\<close> bytes.\<close>

definition copied :: "nat \<Rightarrow> bytes \<Rightarrow> bytes" where
  "copied n b = take n b @ replicate (n - length b) 0"

fun des_segments :: "(bytes \<Rightarrow> bytes \<Rightarrow> bytes) \<Rightarrow> bytes \<Rightarrow> bytes \<Rightarrow> (nat \<times> nat) list \<Rightarrow> bytes \<Rightarrow> (string, bytes) result" where
  "des_segments des zHash challenge8 [] out = Inr out"
| "des_segments des zHash challenge8 ((i, j) # segs) out =
    (case desEncrypt des (take (j - i) (drop i zHash)) challenge8 of
       Inl e \<Rightarrow> Inl e
     | Inr block \<Rightarrow> des_segments des zHash challenge8 segs (out @ block))"

definition challengeResponse :: "(bytes \<Rightarrow> bytes \<Rightarrow> bytes) \<Rightarrow> bytes \<Rightarrow> bytes \<Rightarrow> (string, bytes) result" where
  "challengeResponse des challenge8 passwordHash16 =
     des_segments des (copied 21 passwordHash16) challenge8 [(0, 7), (7, 14), (14, 21)] []"

record crypto =
  cr_md4 :: "bytes \<Rightarrow> bytes"
  cr_sha1 :: "bytes \<Rightarrow> bytes"
  cr_des :: "bytes \<Rightarrow> bytes \<Rightarrow> bytes"

definition generateNTResponse :: "crypto \<Rightarrow> bytes \<Rightarrow> bytes \<Rightarrow> string \<Rightarrow> string \<Rightarrow> (string, bytes) result" where
  "generateNTResponse cr authenticatorChallenge peerChallenge username password =
     challengeResponse (cr_des cr) (challengeHash (cr_sha1 cr) peerChallenge authenticatorChallenge username)
       (ntPasswordHash (cr_md4 cr) password)"

definition msChap2Response :: "8 word \<Rightarrow> bytes \<Rightarrow> bytes \<Rightarrow> bytes" where
  "msChap2Response ident peerChallenge ntResponse =
     [ident, 0] @ copied 16 peerChallenge @ replicate 8 0 @ copied 24 ntResponse"

section \<open>Key expansion\<close>

definition bits_down :: "nat list \<Rightarrow> bytes \<Rightarrow> bool list" where
  "bits_down ns k = concat (map (\<lambda>w. map (bit w) ns) k)"

lemma bytes7: "length (k :: bytes) = 7 \<Longrightarrow> \<exists>a b c d e f g. k = [a, b, c, d, e, f, g]"
  by (auto simp: length_Suc_conv eval_nat_numeral)

lemma no_high_bit: "8 \<le> n \<Longrightarrow> \<not> bit (w :: 8 word) n"
  by (auto dest: bit_imp_le_length)

lemma expand_bits:
  assumes "length k = 7"
  shows "bits_down [7, 6, 5, 4, 3, 2, 1] (expandDESKey k) = bits_down [7, 6, 5, 4, 3, 2, 1, 0] k"
proof -
  from bytes7 [OF assms] obtain a b c d e f g where "k = [a, b, c, d, e, f, g]" by blast
  then show ?thesis
    by (simp add: expandDESKey_def bits_down_def bit_or_iff bit_push_bit_iff bit_drop_bit_eq no_high_bit bit_double_iff mult.commute [of g])
      (simp add: eval_nat_numeral)
qed

lemma bits_down_inj: "bits_down [7, 6, 5, 4, 3, 2, 1, 0] k = bits_down [7, 6, 5, 4, 3, 2, 1, 0] k' \<Longrightarrow> k = k'"
proof (induction k arbitrary: k')
  case Nil
  then show ?case by (cases k') (auto simp: bits_down_def)
next
  case (Cons w k)
  then obtain w' k'' where k': "k' = w' # k''" by (cases k') (auto simp: bits_down_def)
  have "bit w n = bit w' n" if "n < 8" for n
  proof -
    have "n \<in> {7, 6, 5, 4, 3, 2, 1, 0}" using that by auto
    with Cons.prems show ?thesis by (auto simp: bits_down_def k')
  qed
  then have "w = w'" by (intro bit_word_eqI) simp
  with Cons k' show ?case by (simp add: bits_down_def)
qed

text \<open>
  The key expansion loses no key bit and reorders none: read without the lowest
  (parity) bit of each byte, the eight bytes of the DES key are exactly the 56
  bits of the seven given ones, from the most significant on; so different keys
  stay different.
\<close>

theorem des_key_expansion:
  assumes "length k = 7"
  shows "length (expandDESKey k) = 8
    \<and> bits_down [7, 6, 5, 4, 3, 2, 1] (expandDESKey k) = bits_down [7, 6, 5, 4, 3, 2, 1, 0] k
    \<and> (\<forall>k'. length k' = 7 \<and> expandDESKey k' = expandDESKey k \<longrightarrow> k' = k)"
  using expand_bits [OF assms] expand_bits bits_down_inj by (auto simp: expandDESKey_def [of k]) metis

theorem des_key_expansion_witness:
  "length (expandDESKey [0xFF, 0, 0xFF, 0, 1, 2, 3]) = 8 \<and> expandDESKey [0xFF, 0, 0xFF, 0, 1, 2, 3] = [0xFF, 0x80, 0x3F, 0xE0, 0, 8, 8, 6]"
  using des_key_expansion [of "[0xFF, 0, 0xFF, 0, 1, 2, 3]"] by (simp add: expandDESKey_def)

section \<open>The attribute\<close>

lemma length_copied [simp]: "length (copied n b) = n"
  by (simp add: copied_def)

lemma copied_exact [simp]: "length b = n \<Longrightarrow> copied n b = b"
  by (simp add: copied_def)

lemma desEncrypt_ok: "desEncrypt des key7 block = Inr (des (expandDESKey key7) block)"
  by (simp add: desEncrypt_def expandDESKey_def)

lemma challengeResponse_eq:
  "challengeResponse des ch h = Inr (concat (map (\<lambda>i. des (expandDESKey (take 7 (drop (7 * i) (copied 21 h)))) ch) [0, 1, 2]))"
  by (simp add: challengeResponse_def desEncrypt_ok)

text \<open>
  The response never fails and has the layout of RFC 2759: with a block cipher
  whose blocks are eight bytes, the NT response is 24 bytes and the attribute 50,
  with the peer challenge at offset 2, eight zero bytes at 18 and the NT response
  at 26.
\<close>

theorem response_layout:
  assumes "\<And>k b. length (cr_des cr k b) = 8" and "length peer = 16"
  shows "\<exists>r. generateNTResponse cr auth peer user password = Inr r \<and> length r = 24 \<and> length (msChap2Response i peer r) = 50
    \<and> take 16 (drop 2 (msChap2Response i peer r)) = peer \<and> take 8 (drop 18 (msChap2Response i peer r)) = replicate 8 0
    \<and> drop 26 (msChap2Response i peer r) = r"
  using assms by (auto simp: generateNTResponse_def challengeResponse_eq msChap2Response_def)

definition lab_crypto :: crypto where
  "lab_crypto = \<lparr>cr_md4 = copied 16, cr_sha1 = copied 20, cr_des = (\<lambda>k b. copied 8 k)\<rparr>"

theorem response_layout_witness:
  "\<exists>r. generateNTResponse lab_crypto (replicate 16 1) (replicate 16 2) ''alice'' ''s3cret'' = Inr r \<and> length r = 24
    \<and> drop 26 (msChap2Response 0 (replicate 16 2) r) = r"
  using response_layout [of lab_crypto "replicate 16 2" "replicate 16 1" "''alice''" "''s3cret''" 0] by (auto simp: lab_crypto_def)

section \<open>The hash stands for the password\<close>

definition scalar :: "nat \<Rightarrow> bool" where
  "scalar r \<longleftrightarrow> r < 0xD800 \<or> 0xE000 \<le> r \<and> r \<le> 0x10FFFF"

lemma rune2_scalar: "rune2 bs = Some r \<Longrightarrow> scalar r"
proof (induction bs rule: rune2.induct)
  case (1 a b rest)
  then have "r = (a - 192) * 64 + (b - 128)" "a - 192 \<le> 31" "b - 128 \<le> 63" by (auto simp: continuation_def split: if_splits)
  then have "r \<le> 31 * 64 + 63" by simp
  then show ?case by (simp add: scalar_def)
qed auto

lemma rune3_scalar: "rune3 bs = Some r \<Longrightarrow> scalar r"
proof (induction bs rule: rune3.induct)
  case (1 a b c rest)
  define x y z where xyz: "x = a - 224" "y = b - 128" "z = c - 128"
  from 1 have r: "r = x * 4096 + y * 64 + z" and "x \<le> 15" "y \<le> 63" "z \<le> 63" "x = 13 \<longrightarrow> y \<le> 31"
    by (auto simp: continuation_def xyz split: if_splits)
  then consider "x \<le> 12" | "x = 13" "y \<le> 31" | "14 \<le> x" by fastforce
  then show ?case using r \<open>x \<le> 15\<close> \<open>y \<le> 63\<close> \<open>z \<le> 63\<close> by cases (simp_all add: scalar_def)
qed auto

lemma rune4_scalar: "rune4 bs = Some r \<Longrightarrow> scalar r"
proof (induction bs rule: rune4.induct)
  case (1 a b c d rest)
  define x y z w where xyz: "x = a - 240" "y = b - 128" "z = c - 128" "w = d - 128"
  from 1 have r: "r = x * 262144 + y * 4096 + z * 64 + w" and "x \<le> 4" "y \<le> 63" "z \<le> 63" "w \<le> 63" "x = 0 \<longrightarrow> 16 \<le> y" "x = 4 \<longrightarrow> y \<le> 15"
    by (auto simp: continuation_def xyz split: if_splits)
  then consider "x = 0" "16 \<le> y" | "1 \<le> x" "x \<le> 3" | "x = 4" "y \<le> 15" by fastforce
  then show ?case using r \<open>y \<le> 63\<close> \<open>z \<le> 63\<close> \<open>w \<le> 63\<close> by cases (simp_all add: scalar_def)
qed auto

lemma scalar_small: "r < 0xD800 \<Longrightarrow> scalar r" "scalar 0xFFFD"
  by (simp_all add: scalar_def)

lemma decode_rune_scalar: "scalar (fst (decode_rune bs))"
  by (auto simp: decode_rune_def scalar_small dest: rune2_scalar rune3_scalar rune4_scalar split: list.splits option.splits)

lemma runes_scalar: "r \<in> set (runes bs) \<Longrightarrow> scalar r"
proof (induction bs rule: runes.induct)
  case (1 bs)
  then show ?case using decode_rune_scalar [of bs] by (subst (asm) (2) runes.simps) (auto split: if_splits)
qed

lemma utf16_unit_cases:
  assumes "scalar r"
  obtains (plane0) "utf16_unit r = [r]" "r < 0xD800 \<or> 0xE000 \<le> r" "r < 65536"
  | (pair) hi lo where "utf16_unit r = [0xD800 + hi, 0xDC00 + lo]" "r = 65536 + 1024 * hi + lo" "hi < 1024" "lo < 1024"
proof (cases "r < 65536")
  case True
  with assms show ?thesis by (intro plane0) (auto simp: utf16_unit_def scalar_def)
next
  case False
  with assms have r: "65536 \<le> r" "r \<le> 1114111" by (auto simp: scalar_def)
  have "(r - 65536) div 1024 < 1024" using r by (simp add: less_mult_imp_div_less)
  moreover have "r = 65536 + 1024 * ((r - 65536) div 1024) + (r - 65536) mod 1024" using r(1) by simp
  ultimately show ?thesis using r by (intro pair [of "(r - 65536) div 1024" "(r - 65536) mod 1024"]) (auto simp: utf16_unit_def)
qed

lemma utf16_unit_parts:
  assumes "scalar r" "scalar r'" "utf16_unit r @ us = utf16_unit r' @ us'"
  shows "r = r' \<and> us = us'"
  using assms(1)
proof (cases rule: utf16_unit_cases)
  case plane0
  with assms(2,3) show ?thesis by (cases rule: utf16_unit_cases [OF assms(2)]) auto
next
  case (pair hi lo)
  with assms(2,3) show ?thesis by (cases rule: utf16_unit_cases [OF assms(2)]) auto
qed

lemma utf16_unit_nonempty [simp]: "utf16_unit r \<noteq> []"
  by (simp add: utf16_unit_def)

lemma utf16_Encode_simps [simp]: "utf16_Encode [] = []" "utf16_Encode (r # rs) = utf16_unit r @ utf16_Encode rs"
  by (simp_all add: utf16_Encode_def)

lemma utf16_inj: "\<forall>r\<in>set rs. scalar r \<Longrightarrow> \<forall>r\<in>set rs'. scalar r \<Longrightarrow> utf16_Encode rs = utf16_Encode rs' \<Longrightarrow> rs = rs'"
proof (induction rs arbitrary: rs')
  case Nil
  then show ?case by (cases rs') auto
next
  case (Cons r rs)
  then obtain r' rs'' where rs': "rs' = r' # rs''" by (cases rs') auto
  with Cons.prems utf16_unit_parts [of r r' "utf16_Encode rs" "utf16_Encode rs''"] have "r = r'" "utf16_Encode rs = utf16_Encode rs''" by auto
  with Cons.IH [of rs''] Cons.prems rs' show ?case by simp
qed

lemma utf16_unit_bound: "scalar r \<Longrightarrow> u \<in> set (utf16_unit r) \<Longrightarrow> u < 65536"
  by (erule utf16_unit_cases) auto

lemma utf16_bound: "\<forall>r\<in>set rs. scalar r \<Longrightarrow> u \<in> set (utf16_Encode rs) \<Longrightarrow> u < 65536"
  by (auto simp: utf16_Encode_def dest: utf16_unit_bound)

lemma little_endian_inj: "\<forall>u\<in>set us. u < 65536 \<Longrightarrow> \<forall>u\<in>set us'. u < 65536 \<Longrightarrow> little_endian us = little_endian us' \<Longrightarrow> us = us'"
proof (induction us arbitrary: us')
  case Nil
  then show ?case by (cases us') (auto simp: little_endian_def)
next
  case (Cons u us)
  then obtain v us'' where us': "us' = v # us''" by (cases us') (auto simp: little_endian_def)
  let ?w = "\<lambda>n. word_of_nat n :: 8 word"
  from Cons.prems have w: "?w u = ?w v" "?w (u div 256) = ?w (v div 256)" and us: "little_endian us = little_endian us''"
    by (simp_all add: little_endian_def us')
  have "u div 256 < 256" "v div 256 < 256" using Cons.prems by (auto simp: us' less_mult_imp_div_less)
  moreover from w have "unat (?w u) = unat (?w v)" "unat (?w (u div 256)) = unat (?w (v div 256))" by simp_all
  ultimately have "u mod 256 = v mod 256" "u div 256 = v div 256" by (simp_all add: unat_of_nat)
  then have "u = v" by (metis div_mult_mod_eq)
  with Cons.IH [OF _ _ us] Cons.prems show ?case by (simp add: us')
qed

text \<open>
  The NT hash stands for the password: two passwords with the same NT hash are
  the same sequence of characters (bytes that are not UTF-8 count as the
  replacement character), unless MD4 collides on their encodings.
\<close>

theorem nt_hash_binding:
  assumes "ntPasswordHash md4 p = ntPasswordHash md4 q"
  shows "runes (map byte p) = runes (map byte q) \<or> nt_input p \<noteq> nt_input q \<and> md4 (nt_input p) = md4 (nt_input q)"
proof (cases "nt_input p = nt_input q")
  case True
  have sc: "\<forall>r\<in>set (runes bs). scalar r" for bs by (blast intro: runes_scalar)
  have u: "\<forall>u\<in>set (utf16_Encode (runes (map byte x))). u < 65536" for x using utf16_bound [OF sc] by blast
  from True have "utf16_Encode (runes (map byte p)) = utf16_Encode (runes (map byte q))"
    unfolding nt_input_def by (rule little_endian_inj [OF u u])
  then have "runes (map byte p) = runes (map byte q)" by (rule utf16_inj [OF sc sc])
  then show ?thesis ..
qed (use assms in \<open>simp add: ntPasswordHash_def\<close>)

theorem nt_hash_binding_witness:
  "ntPasswordHash (\<lambda>b. b) [CHR 0xFF] = ntPasswordHash (\<lambda>b. b) [CHR 0xFE] \<and> runes (map byte [CHR 0xFF]) = runes (map byte [CHR 0xFE])"
proof -
  have "runes [n] = [0xFFFD]" if "0x80 \<le> n" for n
    using that by (simp add: runes.simps [of "[n]"] runes.simps [of "[]"] decode_rune_def)
  then have "nt_input [CHR 0xFF] = nt_input [CHR 0xFE]" by (simp add: nt_input_def byte_def)
  then have h: "ntPasswordHash (\<lambda>b. b) [CHR 0xFF] = ntPasswordHash (\<lambda>b. b) [CHR 0xFE]" unfolding ntPasswordHash_def .
  with nt_hash_binding [OF h] \<open>nt_input [CHR 0xFF] = nt_input [CHR 0xFE]\<close> show ?thesis by blast
qed

end
