(* ===== verification/Authn_Radius.thy ===== *)
theory Authn_Radius
  imports Mschap Session
begin

text \<open>
  The second factor over RADIUS, \<^verbatim>\<open>internal/authn/radius.go\<close>: the MS-CHAPv2
  request, retransmission, and the loop over challenges.

  The RADIUS library and the server are an argument: which attributes can be
  encoded, and the answer to a packet after all the packets sent before.  The
  packets sent are the first component of each result.
\<close>

section \<open>Packets\<close>

record RADIUS =
  rd_Server :: string
  rd_Secret :: string
  rd_NASIdentifier :: string
  rd_Timeout :: duration
  rd_Retries :: int
  rd_MaxChallenges :: int
  rd_AllowInteractiveChallenge :: bool

definition NewRADIUS :: "RADIUS \<Rightarrow> RADIUS" where
  "NewRADIUS cfg =
    cfg\<lparr>rd_Timeout := (if rd_Timeout cfg \<le> 0 then 5 * Second else rd_Timeout cfg),
        rd_Retries := (if rd_Retries cfg \<le> 0 then 2 else rd_Retries cfg),
        rd_MaxChallenges := (if rd_MaxChallenges cfg \<le> 0 then 3 else rd_MaxChallenges cfg),
        rd_NASIdentifier := (if rd_NASIdentifier cfg = [] then ''omni-sag'' else rd_NASIdentifier cfg)\<rparr>"

datatype rad_code = CodeAccessRequest | CodeAccessAccept | CodeAccessReject | CodeAccessChallenge | OtherCode nat

datatype rad_attr =
    UserName string | NASIdentifier string | CallingStationID string | MSCHAPChallenge string | MSCHAP2Response string
  | RadState string | UserPassword string | ReplyMessage string

record rad_packet =
  rp_Code :: rad_code
  rp_Attrs :: "rad_attr list"

text \<open>
  \<open>rv_net\<close> answers the last packet of the list.  \<open>rv_done\<close>: whether the caller's
  context is over after that many transmissions.  The prompter is asked after a
  number of transmissions.
\<close>

record radius_env =
  rv_rand :: "nat \<Rightarrow> (string, string) result"
  rv_crypto :: crypto
  rv_setErr :: "rad_attr \<Rightarrow> string option"
  rv_net :: "rad_packet list \<Rightarrow> (string, rad_packet) result"
  rv_done :: "nat \<Rightarrow> bool"
  rv_prompt :: "(nat \<Rightarrow> string \<Rightarrow> (string, string) result) option"

definition new_request :: rad_packet where
  "new_request = \<lparr>rp_Code = CodeAccessRequest, rp_Attrs = []\<rparr>"

definition add_attr :: "rad_packet \<Rightarrow> rad_attr \<Rightarrow> rad_packet" where
  "add_attr p a = p\<lparr>rp_Attrs := rp_Attrs p @ [a]\<rparr>"

text \<open>A setter whose error is ignored, and one whose error ends the call.\<close>

definition set_lax :: "radius_env \<Rightarrow> rad_attr \<Rightarrow> rad_packet \<Rightarrow> rad_packet" where
  "set_lax env a p = (if rv_setErr env a = None then add_attr p a else p)"

definition set_attr :: "radius_env \<Rightarrow> string \<Rightarrow> rad_attr \<Rightarrow> rad_packet \<Rightarrow> (string, rad_packet) result" where
  "set_attr env what a p = (case rv_setErr env a of Some e \<Rightarrow> Inl (what @ '': '' @ e) | None \<Rightarrow> Inr (add_attr p a))"

section \<open>Exchanges\<close>

text \<open>One packet with retransmissions; \<open>n\<close> attempts are left after this one.\<close>

primrec exchange_from :: "radius_env \<Rightarrow> rad_packet \<Rightarrow> nat \<Rightarrow> rad_packet list \<Rightarrow> rad_packet list \<times> (string, rad_packet) result" where
  "exchange_from env p 0 sent = (sent @ [p], rv_net env (sent @ [p]))"
| "exchange_from env p (Suc n) sent =
    (case rv_net env (sent @ [p]) of
       Inr reply \<Rightarrow> (sent @ [p], Inr reply)
     | Inl e \<Rightarrow> if rv_done env (length (sent @ [p])) then (sent @ [p], Inl e) else exchange_from env p n (sent @ [p]))"

definition rad_exchange :: "RADIUS \<Rightarrow> radius_env \<Rightarrow> rad_packet \<Rightarrow> rad_packet list \<Rightarrow> rad_packet list \<times> (string, rad_packet) result" where
  "rad_exchange r env p sent = exchange_from env p (nat (rd_Retries r)) sent"

fun reply_message :: "rad_attr list \<Rightarrow> string" where
  "reply_message (ReplyMessage m # as) = m"
| "reply_message (_ # as) = reply_message as"
| "reply_message [] = []"

fun reply_state :: "rad_attr list \<Rightarrow> string" where
  "reply_state (RadState st # as) = st"
| "reply_state (_ # as) = reply_state as"
| "reply_state [] = []"

definition answerChallenge :: "RADIUS \<Rightarrow> radius_env \<Rightarrow> nat \<Rightarrow> rad_packet \<Rightarrow> MFARequest \<Rightarrow> (string, rad_packet) result" where
  "answerChallenge r env n reply req =
    (if \<not> rd_AllowInteractiveChallenge r then Inl ''interactive challenge not permitted''
     else case rv_prompt env of None \<Rightarrow> Inl ''challenge issued but connection cannot prompt''
     | Some prompt \<Rightarrow>
        let m = reply_message (rp_Attrs reply); msg = (if m = [] then ''Enter your one-time code:'' else m) in
        case prompt n msg of
          Inl e \<Rightarrow> Inl ''no challenge answer''
        | Inr answer \<Rightarrow>
           if answer = [] then Inl ''no challenge answer''
           else let next1 = set_lax env (NASIdentifier (rd_NASIdentifier r)) (set_lax env (UserName (mr_Username req)) new_request);
                    st = reply_state (rp_Attrs reply);
                    next2 = (if st = [] then next1 else set_lax env (RadState st) next1)
                in set_attr env ''set challenge reply'' (UserPassword answer) next2)"

function exchangeLoop :: "RADIUS \<Rightarrow> radius_env \<Rightarrow> MFARequest \<Rightarrow> int \<Rightarrow> rad_packet \<Rightarrow> rad_packet list \<Rightarrow> rad_packet list \<times> string option" where
  "exchangeLoop r env req i packet sent =
    (case rad_exchange r env packet sent of
       (sent', Inl e) \<Rightarrow> (sent', Some (''exchange: '' @ e))
     | (sent', Inr reply) \<Rightarrow>
        (case rp_Code reply of
           CodeAccessAccept \<Rightarrow> (sent', None)
         | CodeAccessReject \<Rightarrow> (sent', Some ''access-reject'')
         | CodeAccessChallenge \<Rightarrow>
            if i \<ge> rd_MaxChallenges r then (sent', Some ''too many challenges'')
            else (case answerChallenge r env (length sent') reply req of
                    Inl e \<Rightarrow> (sent', Some e)
                  | Inr next \<Rightarrow> exchangeLoop r env req (i + 1) next sent')
         | _ \<Rightarrow> (sent', Some ''unexpected code'')))"
  by pat_completeness auto
termination
  by (relation "measure (\<lambda>(r, env, req, i, packet, sent). nat (rd_MaxChallenges r - i))") auto

declare exchangeLoop.simps [simp del]

definition first_request :: "RADIUS \<Rightarrow> radius_env \<Rightarrow> MFARequest \<Rightarrow> (string, rad_packet) result" where
  "first_request r env req =
    (case rv_rand env 0 of Inl e \<Rightarrow> Inl (''entropy: '' @ e)
     | Inr authChallenge \<Rightarrow>
     case rv_rand env 1 of Inl e \<Rightarrow> Inl (''entropy: '' @ e)
     | Inr peerChallenge \<Rightarrow>
     case generateNTResponse (rv_crypto env) (octets authChallenge) (octets peerChallenge) (mr_Username req) (mr_Password req) of
       Inl e \<Rightarrow> Inl (''ntresponse: '' @ e)
     | Inr ntResp \<Rightarrow>
     case set_attr env ''set username'' (UserName (mr_Username req)) new_request of Inl e \<Rightarrow> Inl e
     | Inr p1 \<Rightarrow>
     let p2 = set_lax env (NASIdentifier (rd_NASIdentifier r)) p1;
         p3 = (if mr_SourceIP req = [] then p2 else set_lax env (CallingStationID (mr_SourceIP req)) p2) in
     case set_attr env ''set ms-chap-challenge'' (MSCHAPChallenge authChallenge) p3 of Inl e \<Rightarrow> Inl e
     | Inr p4 \<Rightarrow>
     set_attr env ''set ms-chap2-response'' (MSCHAP2Response (octet_string (msChap2Response 0 (octets peerChallenge) ntResp))) p4)"

definition radius_Verify :: "RADIUS \<Rightarrow> radius_env \<Rightarrow> MFARequest \<Rightarrow> rad_packet list \<times> string option" where
  "radius_Verify r env req =
    (case first_request r env req of Inl e \<Rightarrow> ([], Some e) | Inr p \<Rightarrow> exchangeLoop r env req 0 p [])"

text \<open>
  The provider as the password callback uses it: its request has no prompter.
\<close>

definition radius_provider :: "RADIUS \<Rightarrow> radius_env \<Rightarrow> MFAProvider" where
  "radius_provider r env req = snd (radius_Verify r (env\<lparr>rv_prompt := None\<rparr>) req)"

section \<open>Only an acceptance passes\<close>

definition passwords :: "rad_packet \<Rightarrow> string set" where
  "passwords p = {v. UserPassword v \<in> set (rp_Attrs p)}"

lemma passwords_simps [simp]: "passwords new_request = {}" "passwords (set_lax env a p) = (if rv_setErr env a = None then {v. a = UserPassword v} else {}) \<union> passwords p"
  by (auto simp: passwords_def new_request_def set_lax_def add_attr_def)

lemma set_attr_passwords: "set_attr env w a p = Inr p' \<Longrightarrow> passwords p' = {v. a = UserPassword v} \<union> passwords p"
  by (auto simp: set_attr_def passwords_def add_attr_def split: option.splits)

lemma first_request_passwords: "first_request r env req = Inr p \<Longrightarrow> passwords p = {}"
  by (auto simp: first_request_def Let_def dest!: set_attr_passwords split: sum.splits if_splits)

lemma answerChallenge_passwords:
  assumes "answerChallenge r env n reply req = Inr p"
  shows "rd_AllowInteractiveChallenge r \<and> (\<forall>v\<in>passwords p. \<exists>prompt msg. rv_prompt env = Some prompt \<and> prompt n msg = Inr v)"
  using assms
  by (auto simp: answerChallenge_def Let_def dest!: set_attr_passwords split: if_splits option.splits sum.splits)

lemma exchange_from_sent:
  "exchange_from env p n sent = (sent', res) \<Longrightarrow> \<exists>k\<le>n. sent' = sent @ replicate (Suc k) p \<and> (\<forall>reply. res = Inr reply \<longrightarrow> rv_net env sent' = Inr reply)"
proof (induction n arbitrary: sent)
  case (Suc n)
  show ?case
  proof (cases "rv_net env (sent @ [p])")
    case (Inl e)
    show ?thesis
    proof (cases "rv_done env (length (sent @ [p]))")
      case True
      with Inl Suc.prems show ?thesis by (intro exI [of _ 0]) auto
    next
      case False
      with Inl Suc.prems have "exchange_from env p n (sent @ [p]) = (sent', res)" by simp
      from Suc.IH [OF this] obtain k where "k \<le> n" "sent' = (sent @ [p]) @ replicate (Suc k) p" "\<forall>reply. res = Inr reply \<longrightarrow> rv_net env sent' = Inr reply"
        by blast
      then show ?thesis by (intro exI [of _ "Suc k"]) auto
    qed
  next
    case (Inr reply)
    with Suc.prems show ?thesis by (intro exI [of _ 0]) auto
  qed
qed auto

text \<open>What holds of the packets sent so far: how many, and which passwords they carry.\<close>

definition sent_ok :: "RADIUS \<Rightarrow> radius_env \<Rightarrow> rad_packet list \<Rightarrow> bool" where
  "sent_ok r env sent \<longleftrightarrow>
    (\<forall>p\<in>set sent. \<forall>v\<in>passwords p. rd_AllowInteractiveChallenge r \<and> (\<exists>prompt n msg. rv_prompt env = Some prompt \<and> prompt n msg = Inr v))"

lemma exchangeLoop_sound:
  assumes "exchangeLoop r env req i packet sent = (sent', res)" and "sent_ok r env (sent @ [packet])"
  shows "(res = None \<longrightarrow> (\<exists>reply. rv_net env sent' = Inr reply \<and> rp_Code reply = CodeAccessAccept)) \<and> sent_ok r env sent'
    \<and> length sent' \<le> length sent + Suc (nat (rd_MaxChallenges r - i)) * Suc (nat (rd_Retries r))"
  using assms
proof (induction r env req i packet sent rule: exchangeLoop.induct)
  case (1 r env req i packet sent)
  obtain s1 x where x: "rad_exchange r env packet sent = (s1, x)" by fastforce
  from exchange_from_sent [of env packet "nat (rd_Retries r)" sent s1 x] x obtain k where
    k: "k \<le> nat (rd_Retries r)" "s1 = sent @ replicate (Suc k) packet" "\<forall>reply. x = Inr reply \<longrightarrow> rv_net env s1 = Inr reply"
    by (auto simp: rad_exchange_def)
  have ok: "sent_ok r env s1" using "1.prems"(2) by (auto simp: k(2) sent_ok_def split: if_splits)
  have len: "length s1 \<le> length sent + Suc (nat (rd_Retries r))" using k(1,2) by simp
  show ?case
  proof (cases "\<exists>reply next. x = Inr reply \<and> rp_Code reply = CodeAccessChallenge \<and> i < rd_MaxChallenges r \<and> answerChallenge r env (length s1) reply req = Inr next")
    case True
    then obtain reply nxt where c: "x = Inr reply" "rp_Code reply = CodeAccessChallenge" "i < rd_MaxChallenges r" "answerChallenge r env (length s1) reply req = Inr nxt"
      by blast
    then have step: "exchangeLoop r env req (i + 1) nxt s1 = (sent', res)"
      using "1.prems"(1) x by (subst (asm) exchangeLoop.simps) simp
    have "sent_ok r env (s1 @ [nxt])" using ok answerChallenge_passwords [OF c(4)] by (fastforce simp: sent_ok_def)
    with "1.IH" [OF x [symmetric] c(1,2) _ c(4) step] c(3) have ih:
      "(res = None \<longrightarrow> (\<exists>reply. rv_net env sent' = Inr reply \<and> rp_Code reply = CodeAccessAccept)) \<and> sent_ok r env sent'"
      "length sent' \<le> length s1 + Suc (nat (rd_MaxChallenges r - (i + 1))) * Suc (nat (rd_Retries r))" by auto
    have "nat (rd_MaxChallenges r - i) = Suc (nat (rd_MaxChallenges r - (i + 1)))" using c(3) by simp
    then have "length sent' \<le> length sent + Suc (nat (rd_MaxChallenges r - i)) * Suc (nat (rd_Retries r))"
      using ih(2) len by (simp add: algebra_simps)
    with ih(1) show ?thesis by blast
  next
    case False
    then have "sent' = s1" "res = None \<longrightarrow> (\<exists>reply. x = Inr reply \<and> rp_Code reply = CodeAccessAccept)"
      using "1.prems"(1) x by (subst (asm) exchangeLoop.simps; auto split: sum.splits rad_code.splits if_splits)+
    with k(3) ok len show ?thesis by auto
  qed
qed

lemma exchangeLoop_password: "exchangeLoop r env (req\<lparr>mr_Password := pw\<rparr>) i packet sent = exchangeLoop r env req i packet sent"
proof (induction r env req i packet sent rule: exchangeLoop.induct)
  case (1 r env req i packet sent)
  have a: "answerChallenge r env n reply (req\<lparr>mr_Password := pw\<rparr>) = answerChallenge r env n reply req" for n reply
    by (cases "rv_prompt env") (auto simp: answerChallenge_def Let_def split: sum.splits)
  show ?case
    unfolding exchangeLoop.simps [of r env "req\<lparr>mr_Password := pw\<rparr>" i packet sent] exchangeLoop.simps [of r env req i packet sent] a
    by (auto simp: "1.IH" split: prod.splits sum.splits rad_code.splits)
qed

lemma first_request_password:
  assumes "\<forall>a b. generateNTResponse (rv_crypto env) a b (mr_Username req) pw = generateNTResponse (rv_crypto env) a b (mr_Username req) (mr_Password req)"
  shows "first_request r env (req\<lparr>mr_Password := pw\<rparr>) = first_request r env req"
  by (simp add: first_request_def assms Let_def cong: sum.case_cong if_cong)

lemma radius_sound:
  assumes "radius_Verify r env req = (sent, res)"
  shows "(res = None \<longrightarrow> (\<exists>reply. rv_net env sent = Inr reply \<and> rp_Code reply = CodeAccessAccept)) \<and> sent_ok r env sent
    \<and> length sent \<le> Suc (nat (rd_MaxChallenges r)) * Suc (nat (rd_Retries r))"
proof (cases "first_request r env req")
  case (Inl e)
  with assms show ?thesis by (auto simp: radius_Verify_def sent_ok_def)
next
  case (Inr p)
  with assms have "exchangeLoop r env req 0 p [] = (sent, res)" by (simp add: radius_Verify_def)
  from exchangeLoop_sound [OF this] show ?thesis using first_request_passwords [OF Inr] by (simp add: sent_ok_def)
qed

lemma radius_password_hidden:
  assumes "\<forall>a b. generateNTResponse (rv_crypto env) a b (mr_Username req) pw = generateNTResponse (rv_crypto env) a b (mr_Username req) (mr_Password req)"
  shows "radius_Verify r env (req\<lparr>mr_Password := pw\<rparr>) = radius_Verify r env req"
  using first_request_password [OF assms] by (simp add: radius_Verify_def exchangeLoop_password split: sum.splits)

text \<open>
  Only an acceptance passes the second factor: when it succeeds, the server
  answered the last packet with Access-Accept.  Whatever happens, the number of
  transmissions is bounded by the configured challenges and retries, and the
  password is in no packet: a User-Password attribute only ever carries what the
  user typed at a prompt, and the packets are the same for every password with
  the same MS-CHAPv2 response.
\<close>

theorem radius_second_factor:
  assumes "radius_Verify r env req = (sent, res)"
  shows "(res = None \<longrightarrow> (\<exists>reply. rv_net env sent = Inr reply \<and> rp_Code reply = CodeAccessAccept))
    \<and> length sent \<le> Suc (nat (rd_MaxChallenges r)) * Suc (nat (rd_Retries r))
    \<and> (\<forall>p v. p \<in> set sent \<and> UserPassword v \<in> set (rp_Attrs p) \<longrightarrow>
          rd_AllowInteractiveChallenge r \<and> (\<exists>prompt n msg. rv_prompt env = Some prompt \<and> prompt n msg = Inr v))
    \<and> (\<forall>pw. (\<forall>a b. generateNTResponse (rv_crypto env) a b (mr_Username req) pw = generateNTResponse (rv_crypto env) a b (mr_Username req) (mr_Password req))
          \<longrightarrow> fst (radius_Verify r env (req\<lparr>mr_Password := pw\<rparr>)) = sent)"
  using radius_sound [OF assms] radius_password_hidden [of env req _ r] assms by (fastforce simp: sent_ok_def passwords_def)

text \<open>
  The password callback offers no prompter, so a server that challenges always
  ends in a refusal, whatever \<^verbatim>\<open>allow_interactive_challenge\<close> says.
\<close>

lemma first_request_prompt: "first_request r (env\<lparr>rv_prompt := pr\<rparr>) req = first_request r env req"
proof -
  have "set_attr (env\<lparr>rv_prompt := pr\<rparr>) = set_attr env" "set_lax (env\<lparr>rv_prompt := pr\<rparr>) = set_lax env"
    by (simp_all add: set_attr_def set_lax_def fun_eq_iff)
  then show ?thesis by (simp add: first_request_def Let_def cong: sum.case_cong if_cong)
qed

lemma challenge_always_refused:
  assumes "first_request r env req = Inr p" and "rad_exchange r (env\<lparr>rv_prompt := None\<rparr>) p [] = (sent, Inr reply)" and "rp_Code reply = CodeAccessChallenge"
  shows "radius_provider r env req \<noteq> None"
proof -
  have "first_request r (env\<lparr>rv_prompt := None\<rparr>) req = Inr p" using assms(1) by (simp add: first_request_prompt)
  with assms(2,3) show ?thesis
    by (simp add: radius_provider_def radius_Verify_def exchangeLoop.simps [of r _ req 0] answerChallenge_def)
qed

lemma radius_accepted:
  assumes "radius_provider r env req = None"
  shows "\<exists>sent reply. radius_Verify r (env\<lparr>rv_prompt := None\<rparr>) req = (sent, None) \<and> rv_net env sent = Inr reply \<and> rp_Code reply = CodeAccessAccept"
proof -
  obtain sent where s: "radius_Verify r (env\<lparr>rv_prompt := None\<rparr>) req = (sent, None)"
    using assms unfolding radius_provider_def by (metis prod.collapse)
  with radius_sound [OF s] show ?thesis by auto
qed

definition lab_radius :: RADIUS where
  "lab_radius = NewRADIUS \<lparr>rd_Server = ''10.0.0.2:1812'', rd_Secret = ''shared'', rd_NASIdentifier = [], rd_Timeout = 0, rd_Retries = 0,
     rd_MaxChallenges = 0, rd_AllowInteractiveChallenge = True\<rparr>"

text \<open>A server that loses the first packet, then asks for a code and accepts it.\<close>

definition lab_radius_env :: radius_env where
  "lab_radius_env = \<lparr>rv_rand = (\<lambda>n. Inr (replicate 16 (if n = 0 then CHR ''a'' else CHR ''p''))), rv_crypto = lab_crypto, rv_setErr = (\<lambda>_. None),
     rv_net = (\<lambda>sent. if length sent < 2 then Inl ''timeout''
        else if UserPassword ''123456'' \<in> set (rp_Attrs (last sent)) then Inr \<lparr>rp_Code = CodeAccessAccept, rp_Attrs = []\<rparr>
        else Inr \<lparr>rp_Code = CodeAccessChallenge, rp_Attrs = [RadState ''s1'']\<rparr>),
     rv_done = (\<lambda>_. False), rv_prompt = Some (\<lambda>_ _. Inr ''123456'')\<rparr>"

definition lab_mfa :: MFARequest where
  "lab_mfa = \<lparr>mr_Username = ''alice'', mr_Password = ''s3cret'', mr_SourceIP = ''192.0.2.7''\<rparr>"

lemma lab_first: "\<exists>p. first_request lab_radius lab_radius_env lab_mfa = Inr p \<and> UserPassword ''123456'' \<notin> set (rp_Attrs p)"
  by (simp add: first_request_def lab_radius_env_def generateNTResponse_def challengeResponse_eq set_attr_def set_lax_def add_attr_def
      new_request_def lab_mfa_def Let_def)

theorem radius_second_factor_witness:
  "\<exists>sent reply. radius_Verify lab_radius lab_radius_env lab_mfa = (sent, None)
    \<and> length sent = 3 \<and> rv_net lab_radius_env sent = Inr reply \<and> rp_Code reply = CodeAccessAccept"
proof -
  let ?env = lab_radius_env
  obtain p where p: "first_request lab_radius ?env lab_mfa = Inr p" "UserPassword ''123456'' \<notin> set (rp_Attrs p)" using lab_first by blast
  let ?c = "\<lparr>rp_Code = CodeAccessChallenge, rp_Attrs = [RadState ''s1'']\<rparr>"
  let ?q = "\<lparr>rp_Code = CodeAccessRequest, rp_Attrs = [UserName ''alice'', NASIdentifier ''omni-sag'', RadState ''s1'', UserPassword ''123456'']\<rparr>"
  have r: "rd_Retries lab_radius = 2" "rd_MaxChallenges lab_radius = 3" "rd_NASIdentifier lab_radius = ''omni-sag''" "rd_AllowInteractiveChallenge lab_radius"
    by (simp_all add: lab_radius_def NewRADIUS_def)
  have x1: "rad_exchange lab_radius ?env p [] = ([p, p], Inr ?c)"
    using p(2) by (simp add: rad_exchange_def r lab_radius_env_def numeral_2_eq_2)
  have a: "answerChallenge lab_radius ?env (Suc (Suc 0)) ?c lab_mfa = Inr ?q"
    by (simp add: answerChallenge_def r lab_radius_env_def lab_mfa_def set_attr_def set_lax_def add_attr_def new_request_def)
  have x2: "rad_exchange lab_radius ?env ?q [p, p] = ([p, p, ?q], Inr \<lparr>rp_Code = CodeAccessAccept, rp_Attrs = []\<rparr>)"
    by (simp add: rad_exchange_def r lab_radius_env_def numeral_2_eq_2)
  have "exchangeLoop lab_radius ?env lab_mfa 1 ?q [p, p] = ([p, p, ?q], None)"
    by (subst exchangeLoop.simps) (simp add: x2)
  then have v: "radius_Verify lab_radius ?env lab_mfa = ([p, p, ?q], None)"
    by (simp add: radius_Verify_def p exchangeLoop.simps [of lab_radius ?env lab_mfa 0] x1 a r)
  from radius_second_factor [OF v] v show ?thesis by force
qed

end
