(* ===== verification/Policy_Source.thy ===== *)
theory Policy_Source
  imports Config Dialer
begin

text \<open>
  Where the policy comes from, \<^verbatim>\<open>internal/policysource\<close>: the file source with its
  initial load and its polling loop, the stub of the CRD source, and the
  callback with which \<^verbatim>\<open>cmd/omni-sag/main.go\<close> puts a reloaded policy in force.

  The hash (SHA-256) and the YAML decoder are arguments.  A tick of the loop comes
  with what reading the file gave.
\<close>

section \<open>The file source\<close>

record FileSource =
  fs_path :: string
  fs_interval :: duration
  fs_lastHash :: string

definition NewFileSource :: "string \<Rightarrow> duration \<Rightarrow> FileSource" where
  "NewFileSource path interval =
     \<lparr>fs_path = path, fs_interval = (if interval \<le> 0 then 2 * Second else interval), fs_lastHash = []\<rparr>"

definition FileSource_Load ::
  "(string \<Rightarrow> string) \<Rightarrow> (string \<Rightarrow> PolicyConfig option) \<Rightarrow> (string \<Rightarrow> string option) \<Rightarrow> FileSource \<Rightarrow> FileSource \<times> (load_error, Policy) result" where
  "FileSource_Load hash yaml read s =
    (case read (fs_path s) of None \<Rightarrow> (s, Inl (ReadError (fs_path s)))
     | Some data \<Rightarrow>
       (case CompilePolicyBytes yaml data of Inl e \<Rightarrow> (s, Inl e)
        | Inr p \<Rightarrow> (s\<lparr>fs_lastHash := hash data\<rparr>, Inr p)))"

text \<open>What wakes the loop: the ticker, with the outcome of reading the file, or the end of the context.\<close>

datatype watch_event = Tick "string option" | Done

definition watch_tick ::
  "(string \<Rightarrow> string) \<Rightarrow> (string \<Rightarrow> PolicyConfig option) \<Rightarrow> string \<Rightarrow> string option \<Rightarrow> string \<times> Policy option" where
  "watch_tick hash yaml baseline data =
    (case data of None \<Rightarrow> (baseline, None)
     | Some d \<Rightarrow>
       if hash d = baseline then (baseline, None)
       else (hash d, case CompilePolicyBytes yaml d of Inl e \<Rightarrow> None | Inr p \<Rightarrow> Some p))"

fun watch_loop ::
  "(string \<Rightarrow> string) \<Rightarrow> (string \<Rightarrow> PolicyConfig option) \<Rightarrow> ('s \<Rightarrow> Policy \<Rightarrow> 's) \<Rightarrow> string \<Rightarrow> watch_event list \<Rightarrow> 's \<Rightarrow> 's" where
  "watch_loop hash yaml onChange baseline [] st = st"
| "watch_loop hash yaml onChange baseline (Done # evs) st = st"
| "watch_loop hash yaml onChange baseline (Tick data # evs) st =
    (let t = watch_tick hash yaml baseline data in
     watch_loop hash yaml onChange (fst t) evs (case snd t of None \<Rightarrow> st | Some p \<Rightarrow> onChange st p))"

definition FileSource_Watch ::
  "(string \<Rightarrow> string) \<Rightarrow> (string \<Rightarrow> PolicyConfig option) \<Rightarrow> FileSource \<Rightarrow> ('s \<Rightarrow> Policy \<Rightarrow> 's) \<Rightarrow> watch_event list \<Rightarrow> 's \<Rightarrow> 's" where
  "FileSource_Watch hash yaml s onChange evs st = watch_loop hash yaml onChange (fs_lastHash s) evs st"

section \<open>The CRD source\<close>

definition ErrCRDUnavailable :: string where
  "ErrCRDUnavailable = ''policysource: CRD source requires a Kubernetes cluster and client-go informer (not implemented in this build)''"

definition NewCRDSource :: "string \<Rightarrow> (string, unit) result" where
  "NewCRDSource namespace = Inl ErrCRDUnavailable"

definition CRDSource_Load :: "(string, Policy) result" where
  "CRDSource_Load = Inl ErrCRDUnavailable"

definition CRDSource_Watch :: "('s \<Rightarrow> Policy \<Rightarrow> 's) \<Rightarrow> 's \<Rightarrow> 's" where
  "CRDSource_Watch onChange st = st"

section \<open>The gateway's callback\<close>

text \<open>The holder is the view of the control API, the dialer decides on connections.\<close>

definition reload_policy :: "Holder \<times> Dialer \<Rightarrow> Policy \<Rightarrow> Holder \<times> Dialer" where
  "reload_policy st p = (Holder_Store (fst st) p, SetPolicy (snd st) p)"

section \<open>The reference: compile at every read\<close>

text \<open>
  What an operator may assume of hot reload, without hashes: every successful read
  is compiled, and a document that does not compile changes nothing.
\<close>

fun reads :: "watch_event list \<Rightarrow> string list" where
  "reads [] = []"
| "reads (Done # evs) = []"
| "reads (Tick None # evs) = reads evs"
| "reads (Tick (Some d) # evs) = d # reads evs"

definition recompile :: "(string \<Rightarrow> PolicyConfig option) \<Rightarrow> Policy \<Rightarrow> string \<Rightarrow> Policy" where
  "recompile yaml p d = (case CompilePolicyBytes yaml d of Inl e \<Rightarrow> p | Inr q \<Rightarrow> q)"

definition policy_after :: "(string \<Rightarrow> PolicyConfig option) \<Rightarrow> Policy \<Rightarrow> string list \<Rightarrow> Policy" where
  "policy_after yaml p ds = foldl (recompile yaml) p ds"

definition collision :: "(string \<Rightarrow> string) \<Rightarrow> string set \<Rightarrow> bool" where
  "collision hash D \<longleftrightarrow> (\<exists>d\<in>D. \<exists>d'\<in>D. d \<noteq> d' \<and> hash d = hash d')"

lemma recompile_idem [simp]: "recompile yaml (recompile yaml p d) d = recompile yaml p d"
  by (simp add: recompile_def split: sum.splits)

lemma policy_after_simps [simp]:
  "policy_after yaml p [] = p" "policy_after yaml p (d # ds) = policy_after yaml (recompile yaml p d) ds"
  by (simp_all add: policy_after_def)

lemma collision_insert: "collision hash D \<Longrightarrow> D \<subseteq> E \<Longrightarrow> collision hash E"
  by (auto simp: collision_def)

text \<open>A component whose policy the callback replaces.\<close>

locale policy_view =
  fixes view :: "'s \<Rightarrow> Policy"
    and onChange :: "'s \<Rightarrow> Policy \<Rightarrow> 's"
  assumes view_onChange: "view (onChange st p) = p"
begin

text \<open>
  \<open>D\<close> holds what was read before: the baseline is its last element's hash, and
  that document's policy, when it compiled, is in force.
\<close>

lemma hot_reload:
  assumes "\<forall>d. length (hash d) = 32"
    and "b = [] \<or> (\<exists>d\<in>D. b = hash d \<and> recompile yaml (view st) d = view st)"
  shows "view (watch_loop hash yaml onChange b evs st) = policy_after yaml (view st) (reads evs) \<or> collision hash (D \<union> set (reads evs))"
  using assms(2)
proof (induction evs arbitrary: b st D)
  case Nil
  show ?case by simp
next
  case (Cons e evs)
  show ?case
  proof (cases "e = Done \<or> e = Tick None")
    case True
    with Cons.IH [OF Cons.prems] show ?thesis by (auto simp: watch_tick_def)
  next
    case False
    then obtain d where e: "e = Tick (Some d)" by (metis not_None_eq watch_event.exhaust)
    show ?thesis
    proof (cases "hash d = b")
      case False
      let ?st = "case CompilePolicyBytes yaml d of Inl e \<Rightarrow> st | Inr p \<Rightarrow> onChange st p"
      have v: "view ?st = recompile yaml (view st) d" by (auto simp: recompile_def view_onChange split: sum.splits)
      have "watch_loop hash yaml onChange b (e # evs) st = watch_loop hash yaml onChange (hash d) evs ?st"
        using False e by (auto simp: watch_tick_def Let_def split: sum.splits)
      moreover have "view (watch_loop hash yaml onChange (hash d) evs ?st) = policy_after yaml (view ?st) (reads evs) \<or> collision hash (insert d D \<union> set (reads evs))"
        by (rule Cons.IH) (auto simp: v)
      ultimately show ?thesis using e v by simp
    next
      case True
      then have "b \<noteq> []" using assms(1) [rule_format, of d] by auto
      with Cons.prems obtain d0 where d0: "d0 \<in> D" "b = hash d0" "recompile yaml (view st) d0 = view st" by blast
      show ?thesis
      proof (cases "d = d0")
        case True
        with Cons.IH [of b D st] Cons.prems e d0 show ?thesis
          by (auto simp: watch_tick_def Let_def intro: collision_insert)
      next
        case False
        with d0 \<open>hash d = b\<close> e show ?thesis by (auto simp: collision_def)
      qed
    qed
  qed
qed

end

interpretation held: policy_view Holder_Load Holder_Store
  by unfold_locales (simp add: Holder_Load_def Holder_Store_def)

interpretation dialed: policy_view currentPolicy SetPolicy
  by unfold_locales (simp add: currentPolicy_def SetPolicy_def)

interpretation gateway_view: policy_view "\<lambda>st. Holder_Load (fst st)" reload_policy
  by unfold_locales (simp add: reload_policy_def Holder_Load_def Holder_Store_def)

interpretation gateway_dialed: policy_view "\<lambda>st. currentPolicy (snd st)" reload_policy
  by unfold_locales (simp add: reload_policy_def currentPolicy_def SetPolicy_def)

section \<open>Hot reload\<close>

text \<open>The callback changes the policy and nothing else, whatever the events.\<close>

lemma watch_loop_keeps:
  assumes "\<And>st p. keep st \<Longrightarrow> keep (onChange st p)" and "keep st"
  shows "keep (watch_loop hash yaml onChange b evs st)"
  using assms(2)
proof (induction evs arbitrary: b st)
  case (Cons e evs)
  then show ?case by (cases e) (auto simp: Let_def assms(1) split: option.splits)
qed simp

text \<open>
  Hot reload does what compiling the file at every read would do: after any
  sequence of ticks, with unreadable files, unchanged content and broken edits in
  any order, the control API's view and the dialer's policy are both that of the
  last document read that compiled, or the one in force at boot when none did;
  nothing else in the dialer changed.  The alternative is a collision of the hash
  between two documents that were read.
\<close>

theorem hot_reload_last_good:
  assumes "\<forall>d. length (hash d) = 32" and "Holder_Load h = currentPolicy dl"
    and "FileSource_Watch hash yaml (NewFileSource path interval) reload_policy evs (h, dl) = (h', dl')"
  shows "(Holder_Load h' = policy_after yaml (currentPolicy dl) (reads evs)
      \<and> dl' = dl\<lparr>dl_policy := policy_after yaml (currentPolicy dl) (reads evs)\<rparr>)
    \<or> collision hash (set (reads evs))"
proof (rule disjCI)
  assume n: "\<not> collision hash (set (reads evs))"
  have w: "watch_loop hash yaml reload_policy [] evs (h, dl) = (h', dl')"
    using assms(3) by (simp add: FileSource_Watch_def NewFileSource_def)
  have "Holder_Load h' = policy_after yaml (currentPolicy dl) (reads evs)"
    using gateway_view.hot_reload [OF assms(1), of "[]" "{}" yaml "(h, dl)" evs] n w assms(2) by simp
  moreover have p: "currentPolicy dl' = policy_after yaml (currentPolicy dl) (reads evs)"
    using gateway_dialed.hot_reload [OF assms(1), of "[]" "{}" yaml "(h, dl)" evs] n w by simp
  moreover have "dl'\<lparr>dl_policy := dl_policy dl\<rparr> = dl"
    using watch_loop_keeps [of "\<lambda>st. (snd st)\<lparr>dl_policy := dl_policy dl\<rparr> = dl" reload_policy "(h, dl)" hash yaml "[]" evs] w
    by (simp add: reload_policy_def SetPolicy_def)
  then have "\<exists>p. dl' = dl\<lparr>dl_policy := p\<rparr>" by (cases dl', cases dl) auto
  ultimately show "Holder_Load h' = policy_after yaml (currentPolicy dl) (reads evs)
      \<and> dl' = dl\<lparr>dl_policy := policy_after yaml (currentPolicy dl) (reads evs)\<rparr>"
    by (auto simp: currentPolicy_def)
qed

text \<open>A loop started after an initial load, as the source's interface has it.\<close>

lemma loaded_then_watched:
  assumes "\<forall>d. length (hash d) = 32" and "FileSource_Load hash yaml read s0 = (s, Inr p)" and "read (fs_path s0) = Some d"
    and "Holder_Load h = p"
  shows "Holder_Load (FileSource_Watch hash yaml s Holder_Store evs h) = policy_after yaml p (reads evs) \<or> collision hash (insert d (set (reads evs)))"
proof -
  from assms(2,3) have "CompilePolicyBytes yaml d = Inr p" "fs_lastHash s = hash d"
    by (auto simp: FileSource_Load_def split: sum.splits)
  then have "recompile yaml (Holder_Load h) d = Holder_Load h" "fs_lastHash s = hash d"
    using assms(4) by (simp_all add: recompile_def)
  then show ?thesis
    using held.hot_reload [OF assms(1), of "fs_lastHash s" "{d}" yaml h evs] assms(4) by (simp add: FileSource_Watch_def)
qed

definition lab_hash :: "string \<Rightarrow> string" where
  "lab_hash d = take 32 (d @ replicate 32 CHR ''.'')"

definition lab_yaml :: "string \<Rightarrow> PolicyConfig option" where
  "lab_yaml d = (if d = ''v2'' then Some lab_policy_config else None)"

definition lab_ticks :: "watch_event list" where
  "lab_ticks = [Tick None, Tick (Some ''v2''), Tick (Some ''v2''), Tick (Some ''broken''), Done, Tick (Some ''late'')]"

theorem hot_reload_last_good_witness:
  "\<exists>h' dl'. FileSource_Watch lab_hash lab_yaml (NewFileSource ''policy.yaml'' 0) reload_policy lab_ticks (NewHolder (dl_policy lab_dialer), lab_dialer) = (h', dl')
    \<and> Holder_Load h' = CompilePolicy lab_policy_config \<and> currentPolicy dl' = CompilePolicy lab_policy_config"
proof -
  obtain h' dl' where w: "FileSource_Watch lab_hash lab_yaml (NewFileSource ''policy.yaml'' 0) reload_policy lab_ticks
      (NewHolder (dl_policy lab_dialer), lab_dialer) = (h', dl')" by fastforce
  have l: "\<forall>d. length (lab_hash d) = 32" by (auto simp: lab_hash_def min_def)
  have h: "Holder_Load (NewHolder (dl_policy lab_dialer)) = currentPolicy lab_dialer"
    by (simp add: NewHolder_def Holder_Load_def Holder_Store_def currentPolicy_def)
  have r: "reads lab_ticks = [''v2'', ''v2'', ''broken'']" by (simp add: lab_ticks_def)
  have c: "\<not> collision lab_hash (set (reads lab_ticks))" unfolding r by (simp add: collision_def) code_simp
  have "validatePolicyRoles (pc_Roles lab_policy_config) = None" by code_simp
  then have "policy_after lab_yaml (currentPolicy lab_dialer) (reads lab_ticks) = CompilePolicy lab_policy_config"
    by (simp add: r recompile_def CompilePolicyBytes_def lab_yaml_def)
  with hot_reload_last_good [OF l h w] c w show ?thesis by (simp add: currentPolicy_def)
qed

end
