(* ===== verification/Gateway.thy ===== *)
theory Gateway
  imports Authn_LDAP Authn_Radius Policy_Source Api Session_Shell Evidence_Verify
begin

text \<open>
  The daemon's boot, \<^verbatim>\<open>cmd/omni-sag/main.go\<close>: from the configuration document to the
  wired components, in the order of \<^verbatim>\<open>run\<close>, every early return an error.  What the
  system answers (files, certificates, listeners, object stores, the collector)
  is the argument \<open>boot_env\<close>.
\<close>

section \<open>The environment and the errors\<close>

text \<open>The settings handed to the OpenTelemetry exporter.\<close>

record otel_settings =
  oe_Mode :: fips_Mode
  oe_Endpoint :: string
  oe_Protocol :: string
  oe_Insecure :: bool
  oe_TLS :: OTelTLS
  oe_Headers :: "(string \<times> string) list"
  oe_Resource :: "(string \<times> string) list"
  oe_TracesEnabled :: bool
  oe_Sampler :: string
  oe_SampleRatio :: rat
  oe_MaxQueueSize :: int
  oe_MaxExportBatchSize :: int
  oe_ExportTimeoutSeconds :: int
  oe_MetricsEnabled :: bool
  oe_IntervalSeconds :: int
  oe_LogsEnabled :: bool

record boot_env =
  bt_read :: "string \<Rightarrow> string option"
  bt_yaml :: "string \<Rightarrow> ConfigFile option"
  bt_runtimeFIPS :: bool
  bt_selfTest :: "selftest_error option"
  bt_suite :: "nat \<Rightarrow> string"
  bt_keyPair :: "string \<Rightarrow> string \<Rightarrow> string option"        \<comment> \<open>\<^verbatim>\<open>tls.LoadX509KeyPair\<close>\<close>
  bt_pem :: "string \<Rightarrow> bool"                               \<comment> \<open>\<^verbatim>\<open>AppendCertsFromPEM\<close>\<close>
  bt_hostKey :: "string \<Rightarrow> string option"
  bt_signer :: "string \<Rightarrow> (string, Signer) result"
  bt_uploader :: "EvidenceWORMConf \<Rightarrow> string \<Rightarrow> string option"
  bt_codec :: codec
  bt_dataDir :: "string \<Rightarrow> Dir"
  bt_epochWritten :: bool
  bt_sink :: "EvidenceS3Conf option \<Rightarrow> string \<Rightarrow> string option"
  bt_ccp :: "CyberArkConfig \<Rightarrow> fips_Mode \<Rightarrow> (string, Fetcher) result"
  bt_requests :: "string \<Rightarrow> (string, ApprovalRequest list) result"
  bt_ops :: "FileStore \<Rightarrow> approval_ops"                   \<comment> \<open>the store with its other callers\<close>
  bt_releases :: "string \<Rightarrow> (string, Release list) result"  \<comment> \<open>\<^verbatim>\<open>releases.json\<close> beside an approval store\<close>
  bt_collector :: "otel_settings \<Rightarrow> string option"          \<comment> \<open>\<^verbatim>\<open>otelexport.Setup\<close>\<close>
  bt_recordings :: "EvidenceS3Conf option \<Rightarrow> string \<Rightarrow> string option"
  bt_bucket :: "string \<Rightarrow> string \<Rightarrow> bool \<Rightarrow> (string, blobs) result"
  bt_knownHosts :: "string \<Rightarrow> (string, string \<Rightarrow> bool) result"
  bt_listen :: "string \<Rightarrow> string option"
  bt_lookup :: ResolverFunc
  bt_radius :: radius_env

datatype boot_error =
    BootConfig load_error | BootFIPS fips_error | BootEvidence string | BootHostKey string | BootCyberArk string
  | BootApproval string | BootOTel string | BootExport string | BootRecording string | BootInspection string
  | BootReleases string | BootKnownHosts string | BootListen string | BootTLS string
  | BootPanic                                                \<comment> \<open>a nil pointer is dereferenced\<close>

section \<open>TLS\<close>

text \<open>The parts of \<^verbatim>\<open>tls.Config\<close> that are set: certificate, FIPS-relevant parameters, and the client CA.\<close>

record server_tls =
  sl_Certificate :: "string \<times> string"
  sl_params :: tls_Config
  sl_ClientCAs :: "string option"
  sl_RequireClientCert :: bool

definition build_server_tls :: "boot_env \<Rightarrow> string \<Rightarrow> string \<Rightarrow> string \<Rightarrow> string \<Rightarrow> fips_Mode \<Rightarrow> (string, server_tls) result" where
  "build_server_tls env cert key clientCA badCA mode =
    (case bt_keyPair env cert key of Some e \<Rightarrow> Inl e
     | None \<Rightarrow>
       let harden = (\<lambda>tc. case Harden (bt_suite env) (Some (sl_params tc)) mode of
             (_, Some e) \<Rightarrow> Inl e | (None, None) \<Rightarrow> Inr tc | (Some p, None) \<Rightarrow> Inr (tc\<lparr>sl_params := p\<rparr>));
           tc = \<lparr>sl_Certificate = (cert, key), sl_params = \<lparr>tls_MinVersion = VersionTLS12, tls_CipherSuites = []\<rparr>,
                 sl_ClientCAs = None, sl_RequireClientCert = False\<rparr>
       in if clientCA = [] then harden tc
          else case bt_read env clientCA of None \<Rightarrow> Inl (''open '' @ clientCA)
          | Some caPEM \<Rightarrow>
             if \<not> bt_pem env caPEM then Inl badCA
             else harden (tc\<lparr>sl_ClientCAs := Some caPEM, sl_RequireClientCert := True\<rparr>))"

definition gatewayTLSConfig :: "boot_env \<Rightarrow> GatewayTLSConfig option \<Rightarrow> fips_Mode \<Rightarrow> (string, server_tls option) result" where
  "gatewayTLSConfig env cfg mode =
    (case cfg of None \<Rightarrow> Inr None
     | Some c \<Rightarrow> map_sum id Some (build_server_tls env (gt_Cert c) (gt_Key c) (gt_ClientCA c) ''tls: client_ca is not valid PEM'' mode))"

definition apiTLSConfig :: "boot_env \<Rightarrow> APIConfig \<Rightarrow> fips_Mode \<Rightarrow> (string, server_tls option) result" where
  "apiTLSConfig env cfg mode =
    (if ap_TLSCert cfg = [] then Inr None
     else map_sum id Some (build_server_tls env (ap_TLSCert cfg) (ap_TLSKey cfg) (ap_ClientCA cfg) ''api: client_ca is not valid PEM'' mode))"

section \<open>The control API\<close>

text \<open>Later entries of the document replace earlier ones with the same key.\<close>

definition buildAuthorizer :: "APIConfig \<Rightarrow> Authorizer" where
  "buildAuthorizer cfg =
    (if ap_CNRoles cfg \<noteq> [] then mtls_Authorize (rev (map (\<lambda>c. (cn_CN c, cn_Role c)) (ap_CNRoles cfg)))
     else token_Authorize (rev (map (\<lambda>t. (at_Token t, \<lparr>ai_Subject = at_Subject t, ai_Role = at_Role t\<rparr>)) (ap_Tokens cfg))))"

definition startAPIServer ::
  "boot_env \<Rightarrow> APIConfig \<Rightarrow> fips_Mode \<Rightarrow> 'c Registry \<Rightarrow> Holder \<Rightarrow> api_store \<Rightarrow> (string, 'c api_Server \<times> server_tls option) result" where
  "startAPIServer env cfg mode reg holder approvals =
    (let apiSrv = \<lparr>ax_reg = reg, ax_policy = Holder_Load holder, ax_authz = buildAuthorizer cfg,
                   ax_approvals = approvals, ax_ready = True\<rparr>
     in case apiTLSConfig env cfg mode of Inl e \<Rightarrow> Inl e
     | Inr tlsCfg \<Rightarrow> (case bt_listen env (ap_Listen cfg) of Some e \<Rightarrow> Inl e | None \<Rightarrow> Inr (apiSrv, tlsCfg)))"

section \<open>Evidence\<close>

datatype ev_sink =
    BusEmitter string | S3Sink EvidenceS3Conf | FileSink string
  | FanoutSink ev_sink                                       \<comment> \<open>\<^verbatim>\<open>fanout.Wrap\<close>\<close>

record evidenceSystem =
  es_dialerSink :: ev_sink
  es_sessionSink :: ev_sink
  es_bus :: "Bus option"
  es_export :: "asyncExporter list option"                   \<comment> \<open>set with \<^verbatim>\<open>exportCloser\<close>\<close>

datatype close_action = CloseExporters | CloseBus | CloseSink

definition evidence_close :: "evidenceSystem \<Rightarrow> close_action list" where
  "evidence_close e = (if es_export e = None then [] else [CloseExporters]) @ [if es_bus e = None then CloseSink else CloseBus]"

definition buildEvidence :: "boot_env \<Rightarrow> EvidenceConfig \<Rightarrow> (string, evidenceSystem) result" where
  "buildEvidence env ec =
    (case ec_Pipeline ec of
       Some p \<Rightarrow>
        (case bt_signer env (ep_SigningKey p) of Inl e \<Rightarrow> Inl e
         | Inr signer \<Rightarrow>
         case (case ep_WORM p of None \<Rightarrow> None
               | Some w \<Rightarrow> bt_uploader env w (if wo_Mode w = ''GOVERNANCE'' then ''GOVERNANCE'' else ''COMPLIANCE'')) of
           Some e \<Rightarrow> Inl e
         | None \<Rightarrow>
         case NewBus (bt_codec env) (bt_dataDir env (ep_DataDir p)) (Some signer) (ep_SegmentSize p) (ep_WORM p \<noteq> None) (bt_epochWritten env) of
           None \<Rightarrow> Inl ''evidence bus''
         | Some bus \<Rightarrow> Inr \<lparr>es_dialerSink = BusEmitter ''dialer'', es_sessionSink = BusEmitter ''session'', es_bus = Some bus, es_export = None\<rparr>)
     | None \<Rightarrow>
        (let sink = (case ec_S3 ec of Some s \<Rightarrow> S3Sink s | None \<Rightarrow> FileSink (ec_File ec))
         in case bt_sink env (ec_S3 ec) (ec_File ec) of Some e \<Rightarrow> Inl e
         | None \<Rightarrow> Inr \<lparr>es_dialerSink = sink, es_sessionSink = sink, es_bus = None, es_export = None\<rparr>))"

text \<open>One fan-out wraps both handles; a shared sink is wrapped once and used for both.\<close>

definition with_export :: "ConfigFile \<Rightarrow> evidenceSystem \<Rightarrow> (boot_error, evidenceSystem) result" where
  "with_export f ev =
    (case f_Export f of None \<Rightarrow> Inr ev
     | Some x \<Rightarrow>
       if \<not> ex_Enabled x then Inr ev
       else let ecfg = (ToEventExport (Some x))\<lparr>xg_Mode := FIPSMode f\<rparr> in
       case buildExporters (xg_Exporters ecfg) of Inl e \<Rightarrow> Inl (BootExport e)
       | Inr xs \<Rightarrow>
          if es_dialerSink ev = es_sessionSink ev then
            let wrapped = FanoutSink (es_dialerSink ev)
            in Inr (ev\<lparr>es_dialerSink := wrapped, es_sessionSink := wrapped, es_export := Some xs\<rparr>)
          else Inr (ev\<lparr>es_dialerSink := FanoutSink (es_dialerSink ev), es_sessionSink := FanoutSink (es_sessionSink ev),
                      es_export := Some xs\<rparr>))"

section \<open>Back ends\<close>

record WORMStore =
  ws_bucket :: string
  ws_compliance :: bool
  ws_retentionDays :: int

definition NewWORMStore :: "boot_env \<Rightarrow> string \<Rightarrow> string \<Rightarrow> bool \<Rightarrow> int \<Rightarrow> (string, WORMStore \<times> blobs) result" where
  "NewWORMStore env endpoint bucket compliance days =
    map_sum id (\<lambda>objs. (\<lparr>ws_bucket = bucket, ws_compliance = compliance, ws_retentionDays = (if days \<le> 0 then 3650 else days)\<rparr>, objs))
      (bt_bucket env endpoint bucket True)"

definition NewPlainStore :: "boot_env \<Rightarrow> EvidenceS3Conf \<Rightarrow> (string, blobs) result" where
  "NewPlainStore env c = bt_bucket env (s3_Endpoint c) (s3_Bucket c) False"

definition buildInspection :: "boot_env \<Rightarrow> InspectionConfig \<Rightarrow> (boot_error, icap_Config \<times> WORMStore \<times> Gate) result" where
  "buildInspection env ic =
    (let insp = icap_New \<lparr>cl_Endpoint = ic_Endpoint (in_ICAP ic), cl_Service = ic_Service (in_ICAP ic), cl_Method = [],
                  cl_PreviewBytes = ic_PreviewBytes (in_ICAP ic), cl_Timeout = wrap64 (ic_TimeoutSeconds (in_ICAP ic) * Second),
                  cl_OriginHost = []\<rparr>
     in case in_Quarantine ic of None \<Rightarrow> Inl BootPanic
     | Some q \<Rightarrow>
        (case NewWORMStore env (wo_Endpoint q) (wo_Bucket q) (wo_Mode q \<noteq> ''GOVERNANCE'') (wo_RetentionDays q) of
           Inl e \<Rightarrow> Inl (BootInspection e)
         | Inr (quar, objs) \<Rightarrow>
            (case (case in_Holding ic of None \<Rightarrow> Inr None | Some h \<Rightarrow> map_sum id Some (NewPlainStore env h)) of
               Inl e \<Rightarrow> Inl (BootInspection e)
             | Inr holding \<Rightarrow>
                (case gate_New True holding (Some objs) (in_ThresholdBytes ic) of
                   Inl e \<Rightarrow> Inl (BootInspection e) | Inr gate \<Rightarrow> Inr (insp, quar, gate)))))"

definition buildRecordingStore :: "boot_env \<Rightarrow> RecordingConfig \<Rightarrow> string option" where
  "buildRecordingStore env rc = bt_recordings env (re_S3 rc) (re_LocalDir rc)"

definition ldap_of :: "ConfigFile \<Rightarrow> LDAPAuthenticator" where
  "ldap_of f =
    (let l = f_LDAP f in
     NewLDAP \<lparr>la_URL = ld_URL l, la_BaseDN = ld_BaseDN l, la_BindDN = ld_BindDN l, la_BindPassword = ld_BindPassword l,
              la_UserFilter = ld_UserFilter l, la_InsecureTLS = ld_InsecureTLS l, la_NestedGroups = ld_NestedGroups l,
              la_Mode = FIPSMode f\<rparr>)"

definition radius_of :: "RADIUSConfig \<Rightarrow> RADIUS" where
  "radius_of rc =
     NewRADIUS \<lparr>rd_Server = ra_Server rc, rd_Secret = ra_Secret rc, rd_NASIdentifier = ra_NASIdentifier rc,
       rd_Timeout = wrap64 (ra_TimeoutSeconds rc * Second), rd_Retries = ra_Retries rc, rd_MaxChallenges = 0,
       rd_AllowInteractiveChallenge = ra_AllowInteractiveChallenge rc\<rparr>"

section \<open>Options of the dialer and the session server\<close>

definition dialer_wiring :: "boot_env \<Rightarrow> ConfigFile \<Rightarrow> bool \<Rightarrow> (boot_error, Option list \<times> ServerOption list) result" where
  "dialer_wiring env f debug =
    (let dopts = [WithDebug debug] @ (if pc_DisableCIDRHostnameResolution (f_Policy f) then [WithHostnameResolutionDisabled] else [])
     in case f_CyberArk f of None \<Rightarrow> Inr (dopts, [])
     | Some ca \<Rightarrow>
        (case bt_ccp env ca (FIPSMode f) of Inl e \<Rightarrow> Inl (BootCyberArk e)
         | Inr ccp \<Rightarrow>
            let prov = NewCyberArkProvider ccp (cy_AppID ca) (cy_Safe ca) (cy_ObjectTemplate ca) (cy_BreakerFails ca) (cy_BreakerCoolSec ca)
            in Inr (dopts @ [WithCredentialProvider (Some prov)], [sess_WithCredentialProvider (Some prov)])))"

definition crd_ops :: approval_ops where
  "crd_ops = \<lparr>ap_Create = crd_Create, ap_Wait = (\<lambda>rid. case crd_Wait rid of Inl e \<Rightarrow> (zero_request, Some e) | Inr r \<Rightarrow> (r, None))\<rparr>"

definition approval_wiring :: "boot_env \<Rightarrow> ConfigFile \<Rightarrow> (boot_error, api_store \<times> Option list \<times> ServerOption list) result" where
  "approval_wiring env f =
    (case f_Approval f of None \<Rightarrow> Inr (NoStore, [], [])
     | Some a \<Rightarrow>
       let wired = (\<lambda>store ops. (store, [WithApprovals (Some ops) (wrap64 (ApprovalTTL (Some a) * Second))],
                                 [sess_WithApprovals (Some ops) (wrap64 (ReleaseTTL (Some a) * Second))]))
       in if ac_UseCRD a then Inr (wired CRDApprovals crd_ops)
          else case bt_requests env (ac_StorePath a) of Inl e \<Rightarrow> Inl (BootApproval e)
          | Inr reqs \<Rightarrow> let fs = SetGroupLookup (newFileStore reqs) True in Inr (wired (FileApprovals fs) (bt_ops env fs)))"

definition otel_wiring :: "boot_env \<Rightarrow> ConfigFile \<Rightarrow> boot_error option" where
  "otel_wiring env f =
    (case f_OTel f of None \<Rightarrow> None
     | Some oc \<Rightarrow>
       if \<not> oc_Enabled oc then None
       else map_option BootOTel (bt_collector env
         \<lparr>oe_Mode = FIPSMode f, oe_Endpoint = oc_Endpoint oc, oe_Protocol = otel_Protocol (Some oc), oe_Insecure = oc_Insecure oc,
          oe_TLS = oc_TLS oc, oe_Headers = oc_Headers oc, oe_Resource = oc_Resource oc,
          oe_TracesEnabled = otel_TracesEnabled (Some oc), oe_Sampler = otel_Sampler (Some oc), oe_SampleRatio = otel_SampleRatio (Some oc),
          oe_MaxQueueSize = otel_MaxQueueSize (Some oc), oe_MaxExportBatchSize = otel_MaxExportBatchSize (Some oc),
          oe_ExportTimeoutSeconds = otel_ExportTimeout (Some oc), oe_MetricsEnabled = otel_MetricsEnabled (Some oc),
          oe_IntervalSeconds = otel_MetricsIntervalSeconds (Some oc), oe_LogsEnabled = otel_LogsEnabled (Some oc)\<rparr>))"

definition mfa_wiring :: "boot_env \<Rightarrow> ConfigFile \<Rightarrow> (boot_error, ServerOption list) result" where
  "mfa_wiring env f =
    (if \<not> mf_Enabled (f_MFA f) then Inr []
     else case mf_RADIUS (f_MFA f) of None \<Rightarrow> Inl BootPanic
     | Some rc \<Rightarrow> Inr [WithMFA (Some (radius_provider (radius_of rc) (bt_radius env)))])"

definition recording_wiring :: "boot_env \<Rightarrow> ConfigFile \<Rightarrow> (boot_error, ServerOption list) result" where
  "recording_wiring env f =
    (case f_Recording f of None \<Rightarrow> Inr []
     | Some rc \<Rightarrow> (case buildRecordingStore env rc of Some e \<Rightarrow> Inl (BootRecording e) | None \<Rightarrow> Inr [WithRecording True]))"

definition inspection_wiring :: "boot_env \<Rightarrow> ConfigFile \<Rightarrow> (boot_error, ServerOption list) result" where
  "inspection_wiring env f =
    (case f_Inspection f of None \<Rightarrow> Inr []
     | Some ic \<Rightarrow>
       if \<not> in_Enabled ic then Inr []
       else case buildInspection env ic of Inl e \<Rightarrow> Inl e | Inr (insp, quar, gate) \<Rightarrow> Inr [WithInspection (Some gate)])"

definition tunnel_wiring :: "ConfigFile \<Rightarrow> ServerOption list" where
  "tunnel_wiring f =
    (case f_TunnelInspection f of None \<Rightarrow> []
     | Some ti \<Rightarrow>
       if tc_Enabled ti then
         [WithTunnelInspection \<lparr>ti_Enabled = True, ti_MaxPrefixBytes = tc_MaxPrefixBytes ti, ti_Enforce = tc_Enforce ti,
            ti_UnknownDeny = (tc_UnknownAction ti = ''deny'')\<rparr>]
       else [])"

definition release_wiring :: "boot_env \<Rightarrow> ConfigFile \<Rightarrow> (boot_error, ServerOption list) result" where
  "release_wiring env f =
    (case f_Approval f of None \<Rightarrow> Inr []
     | Some a \<Rightarrow> (case bt_releases env (ac_StorePath a) of Inl e \<Rightarrow> Inl (BootReleases e)
        | Inr rels \<Rightarrow> Inr [WithReleases (Some (newReleaseStore rels)) (6 * Hour)]))"

definition hostkey_wiring :: "boot_env \<Rightarrow> ConfigFile \<Rightarrow> (boot_error, ServerOption list) result" where
  "hostkey_wiring env f =
    (if f_TargetKnownHosts f \<noteq> [] then
       (case bt_knownHosts env (f_TargetKnownHosts f) of Inl e \<Rightarrow> Inl (BootKnownHosts e)
        | Inr cb \<Rightarrow> Inr [WithTargetHostKeyCallback (Some cb)])
     else if f_TargetInsecureHostKey f then Inr [WithInsecureTargetHostKey]
     else Inr [])"

text \<open>The options in order; the first error ends the boot.\<close>

primrec collect :: "('e, 'a list) result list \<Rightarrow> ('e, 'a list) result" where
  "collect [] = Inr []"
| "collect (r # rs) =
    (case r of Inl e \<Rightarrow> Inl e | Inr xs \<Rightarrow> (case collect rs of Inl e \<Rightarrow> Inl e | Inr ys \<Rightarrow> Inr (xs @ ys)))"

definition session_wiring :: "boot_env \<Rightarrow> ConfigFile \<Rightarrow> bool \<Rightarrow> Dialer \<Rightarrow> ServerOption list \<Rightarrow> (boot_error, ServerOption list) result" where
  "session_wiring env f debug d sessOpts =
    collect
     [Inr [WithDialerPeek (Some (PeekHost d)), sess_WithDebug debug, WithSSHDisabled (f_DisableSSH f),
           WithTunnelDisabled (f_DisableTunnel f), WithSFTPDisabled (f_DisableSFTP f), WithSCPEnabled (f_EnableSCP f)],
      Inr sessOpts,
      mfa_wiring env f,
      recording_wiring env f,
      inspection_wiring env f,
      Inr (tunnel_wiring f),
      release_wiring env f,
      hostkey_wiring env f,
      Inr (if f_TargetAllowLoopback f then [sess_WithLoopbackTargetsAllowed] else [])]"

section \<open>Boot\<close>

record 'c gateway =
  gw_config :: ConfigFile
  gw_auth :: LDAPAuthenticator
  gw_source :: FileSource
  gw_holder :: Holder
  gw_server :: Server
  gw_api :: "('c api_Server \<times> server_tls option) option"
  gw_evidence :: evidenceSystem
  gw_listeners :: "(string \<times> server_tls option) list"
  gw_grace :: duration

definition open_listeners :: "boot_env \<Rightarrow> ConfigFile \<Rightarrow> (boot_error, (string \<times> server_tls option) list) result" where
  "open_listeners env f =
    (case bt_listen env (f_Listen f) of Some e \<Rightarrow> Inl (BootListen e)
     | None \<Rightarrow>
       (case gatewayTLSConfig env (f_TLS f) (FIPSMode f) of Inl e \<Rightarrow> Inl (BootTLS e)
        | Inr None \<Rightarrow> Inr [(f_Listen f, None)]
        | Inr (Some gwTLS) \<Rightarrow>
          (case f_TLS f of None \<Rightarrow> Inl BootPanic
           | Some t \<Rightarrow>
             if gt_Listen t \<noteq> [] then
               (case bt_listen env (gt_Listen t) of Some e \<Rightarrow> Inl (BootListen e)
                | None \<Rightarrow> Inr [(f_Listen f, None), (gt_Listen t, Some gwTLS)])
             else Inr [(f_Listen f, Some gwTLS)])))"

definition policy_path :: "string \<Rightarrow> ConfigFile \<Rightarrow> string" where
  "policy_path cfgPath f = (case f_PolicySrc f of None \<Rightarrow> cfgPath | Some file \<Rightarrow> if file \<noteq> [] then file else cfgPath)"

text \<open>The early returns of \<^verbatim>\<open>run\<close>: a step's result is used only when it has no error.\<close>

definition and_then :: "('e, 'a) result \<Rightarrow> ('a \<Rightarrow> ('e, 'b) result) \<Rightarrow> ('e, 'b) result" where
  "and_then r k = (case r of Inl e \<Rightarrow> Inl e | Inr x \<Rightarrow> k x)"

definition none_or :: "('d \<Rightarrow> 'e) \<Rightarrow> 'd option \<Rightarrow> ('e, unit) result" where
  "none_or err r = (case r of Some e \<Rightarrow> Inl (err e) | None \<Rightarrow> Inr ())"

definition boot_core ::
  "boot_env \<Rightarrow> ConfigFile \<Rightarrow> bool \<Rightarrow> (boot_error, evidenceSystem \<times> api_store \<times> Dialer \<times> ServerOption list) result" where
  "boot_core env f debug =
     and_then (none_or BootFIPS (snd (Check (FIPSMode f) (bt_runtimeFIPS env) (bt_selfTest env)))) (\<lambda>_.
     and_then (map_sum BootEvidence id (buildEvidence env (f_Evidence f))) (\<lambda>ev0.
     and_then (none_or BootHostKey (bt_hostKey env (f_HostKey f))) (\<lambda>_.
     and_then (dialer_wiring env f debug) (\<lambda>(dopts, sopts).
     and_then (approval_wiring env f) (\<lambda>(store, adopts, asopts).
     and_then (none_or id (otel_wiring env f)) (\<lambda>_.
     and_then (with_export f ev0) (\<lambda>ev.
     Inr (ev, store, Dialer_New (bt_lookup env) (CompilePolicy (f_Policy f)) (dopts @ adopts), sopts @ asopts))))))))"

definition boot :: "boot_env \<Rightarrow> string \<Rightarrow> bool \<Rightarrow> (boot_error, 'c gateway) result" where
  "boot env cfgPath debug =
     and_then (map_sum BootConfig id (Load (bt_read env) (bt_yaml env) cfgPath)) (\<lambda>f.
     and_then (boot_core env f debug) (\<lambda>(ev, store, d, sessOpts).
     and_then (session_wiring env f debug d sessOpts) (\<lambda>opts.
     let holder = NewHolder (CompilePolicy (f_Policy f));
         api = (case f_API f of None \<Rightarrow> None
                | Some a \<Rightarrow> (case startAPIServer env a (FIPSMode f) NewRegistry holder store of Inl e \<Rightarrow> None | Inr x \<Rightarrow> Some x)) in
     and_then (open_listeners env f) (\<lambda>lns.
        Inr \<lparr>gw_config = f, gw_auth = ldap_of f, gw_source = NewFileSource (policy_path cfgPath f) 0, gw_holder = holder,
             gw_server = Server_New d opts, gw_api = api, gw_evidence = ev, gw_listeners = lns,
             gw_grace = wrap64 (DrainGraceSeconds f * Second)\<rparr>))))"

text \<open>
  The callback of the policy watcher on the running gateway.  The session server's
  peek is a method of the dialer, and the control API reads the holder.
\<close>

definition gw_reload :: "'c gateway \<Rightarrow> Policy \<Rightarrow> 'c gateway" where
  "gw_reload gw p =
    (case reload_policy (gw_holder gw, sv_dialer (gw_server gw)) p of (holder, d) \<Rightarrow>
     gw\<lparr>gw_holder := holder,
        gw_server := (gw_server gw)\<lparr>sv_dialer := d, sv_dialerPeek := map_option (\<lambda>_. PeekHost d) (sv_dialerPeek (gw_server gw))\<rparr>,
        gw_api := map_option (\<lambda>(a, t). (a\<lparr>ax_policy := Holder_Load holder\<rparr>, t)) (gw_api gw)\<rparr>)"

text \<open>The directory as the session server's authenticator.\<close>

definition directory_auth :: "LDAPAuthenticator \<Rightarrow> directory \<Rightarrow> Authenticator" where
  "directory_auth a dir u pw = map_sum (\<lambda>_. ''authentication failed'') id (snd (ldap_Authenticate a dir u pw))"

section \<open>The parts of a booted gateway\<close>

lemma collect_Inr:
  "collect (r # rs) = Inr zs \<longleftrightarrow> (\<exists>xs ys. r = Inr xs \<and> collect rs = Inr ys \<and> zs = xs @ ys)"
  by (auto split: sum.splits)

lemma and_then_Inr: "and_then r k = Inr y \<longleftrightarrow> (\<exists>x. r = Inr x \<and> k x = Inr y)"
  by (auto simp: and_then_def split: sum.splits)

lemma and_then_Inl: "and_then r k = Inl e \<longleftrightarrow> r = Inl e \<or> (\<exists>x. r = Inr x \<and> k x = Inl e)"
  by (auto simp: and_then_def split: sum.splits)

lemma none_or_Inr [simp]: "none_or err r = Inr u \<longleftrightarrow> r = None"
  by (auto simp: none_or_def split: option.splits)

lemma map_sum_Inr [simp]: "map_sum f g r = Inr y \<longleftrightarrow> (\<exists>x. r = Inr x \<and> y = g x)"
  by (cases r) auto

text \<open>What a list of options does, for each list the boot builds.\<close>

definition apply_options :: "ServerOption list \<Rightarrow> Server \<Rightarrow> Server" where
  "apply_options opts s = foldl (\<lambda>s opt. opt s) s opts"

lemma apply_options_simps [simp]:
  "apply_options [] s = s" "apply_options (opt # opts) s = apply_options opts (opt s)"
  "apply_options (xs @ ys) s = apply_options ys (apply_options xs s)"
  by (simp_all add: apply_options_def)

lemma mfa_applied:
  "mfa_wiring env f = Inr os \<Longrightarrow> apply_options os s = s\<lparr>sv_mfa :=
     (if mf_Enabled (f_MFA f) then map_option (\<lambda>rc. radius_provider (radius_of rc) (bt_radius env)) (mf_RADIUS (f_MFA f)) else sv_mfa s)\<rparr>"
  by (auto simp: mfa_wiring_def WithMFA_def split: if_splits option.splits)

lemma recording_applied:
  "recording_wiring env f = Inr os \<Longrightarrow> apply_options os s = s\<lparr>sv_recordStore := (f_Recording f \<noteq> None \<or> sv_recordStore s)\<rparr>"
  by (auto simp: recording_wiring_def WithRecording_def split: option.splits)

definition inspection_on :: "ConfigFile \<Rightarrow> bool" where
  "inspection_on f \<longleftrightarrow> (\<exists>ic. f_Inspection f = Some ic \<and> in_Enabled ic)"

lemma inspection_applied:
  assumes "inspection_wiring env f = Inr os"
  shows "\<exists>g. (g = None \<longleftrightarrow> \<not> inspection_on f) \<and> apply_options os s = s\<lparr>sv_inspect := (if g = None then sv_inspect s else g)\<rparr>"
  using assms by (auto simp: inspection_wiring_def inspection_on_def WithInspection_def split: option.splits if_splits sum.splits)

definition tunnel_settings :: "ConfigFile \<Rightarrow> TunnelInspectConfig option" where
  "tunnel_settings f =
    (case f_TunnelInspection f of None \<Rightarrow> None
     | Some ti \<Rightarrow> if tc_Enabled ti then Some \<lparr>ti_Enabled = True, ti_MaxPrefixBytes = tc_MaxPrefixBytes ti, ti_Enforce = tc_Enforce ti,
            ti_UnknownDeny = (tc_UnknownAction ti = ''deny'')\<rparr> else None)"

lemma tunnel_applied:
  "apply_options (tunnel_wiring f) s = s\<lparr>sv_tunnelInspect := (case tunnel_settings f of None \<Rightarrow> sv_tunnelInspect s | Some c \<Rightarrow> c)\<rparr>"
  by (simp add: tunnel_wiring_def tunnel_settings_def WithTunnelInspection_def split: option.splits)

lemma release_applied:
  assumes "release_wiring env f = Inr os"
  shows "\<exists>r ttl. (r = None \<longleftrightarrow> f_Approval f = None) \<and> apply_options os s = s\<lparr>sv_releases := (if r = None then sv_releases s else r), sv_releaseTTL := ttl\<rparr>"
proof (cases "f_Approval f")
  case None
  with assms show ?thesis by (intro exI [of _ None] exI [of _ "sv_releaseTTL s"]) (simp add: release_wiring_def)
next
  case (Some a)
  with assms obtain rels where "os = [WithReleases (Some (newReleaseStore rels)) (6 * Hour)]"
    by (auto simp: release_wiring_def split: sum.splits)
  with Some show ?thesis by (intro exI [of _ "Some (newReleaseStore rels)"] exI [of _ "6 * Hour"]) (simp add: WithReleases_def)
qed

lemma hostkey_applied:
  assumes "hostkey_wiring env f = Inr os" and "sv_targetHostKeyCB s = None"
  shows "apply_options os s = s\<lparr>sv_targetHostKeyCB :=
     (if f_TargetKnownHosts f \<noteq> [] then (case bt_knownHosts env (f_TargetKnownHosts f) of Inl e \<Rightarrow> None | Inr cb \<Rightarrow> Some cb)
      else if f_TargetInsecureHostKey f then Some (\<lambda>_. True) else None)\<rparr>"
  using assms
  by (auto simp: hostkey_wiring_def WithTargetHostKeyCallback_def WithInsecureTargetHostKey_def split: if_splits sum.splits)

lemma dialer_applied:
  assumes "dialer_wiring env f debug = Inr (dopts, sopts)"
  shows "\<exists>prov. (prov = None \<longleftrightarrow> f_CyberArk f = None) \<and> (\<forall>p. prov = Some p \<longrightarrow> p_fetcher p \<noteq> None)
    \<and> (\<forall>s. apply_options sopts s = s\<lparr>sv_cred := (if prov = None then sv_cred s else prov)\<rparr>)
    \<and> (\<forall>d. foldl (\<lambda>d opt. opt d) d dopts = d\<lparr>dl_debug := debug, dl_cred := (if prov = None then dl_cred d else prov),
          dl_resolver := (if pc_DisableCIDRHostnameResolution (f_Policy f) then None else dl_resolver d)\<rparr>)"
proof (cases "f_CyberArk f")
  case None
  with assms show ?thesis
    by (intro exI [of _ None]) (auto simp: dialer_wiring_def WithDebug_def WithHostnameResolutionDisabled_def Let_def)
next
  case (Some ca)
  with assms obtain ccp where "bt_ccp env ca (FIPSMode f) = Inr ccp" by (auto simp: dialer_wiring_def Let_def split: sum.splits)
  with assms Some show ?thesis
    by (intro exI [of _ "Some (NewCyberArkProvider ccp (cy_AppID ca) (cy_Safe ca) (cy_ObjectTemplate ca) (cy_BreakerFails ca) (cy_BreakerCoolSec ca))"])
      (auto simp: dialer_wiring_def WithDebug_def WithHostnameResolutionDisabled_def WithCredentialProvider_def sess_WithCredentialProvider_def
        NewCyberArkProvider_def NewProvider_def Let_def)
qed

lemma approval_applied:
  assumes "approval_wiring env f = Inr (store, adopts, asopts)"
  shows "\<exists>ops t1 t2. (ops = None \<longleftrightarrow> f_Approval f = None)
    \<and> (\<forall>s. apply_options asopts s = s\<lparr>sv_approvals := (if ops = None then sv_approvals s else ops), sv_approvalTTL := (if ops = None then sv_approvalTTL s else t2)\<rparr>)
    \<and> (\<forall>d. foldl (\<lambda>d opt. opt d) d adopts = d\<lparr>dl_approvals := (if ops = None then dl_approvals d else ops), dl_approvalTTL := (if ops = None then dl_approvalTTL d else t1)\<rparr>)"
proof (cases "f_Approval f")
  case None
  with assms show ?thesis by (intro exI [of _ None]) (auto simp: approval_wiring_def)
next
  case (Some a)
  with assms obtain ops where "adopts = [WithApprovals (Some ops) (wrap64 (ApprovalTTL (Some a) * Second))]"
      "asopts = [sess_WithApprovals (Some ops) (wrap64 (ReleaseTTL (Some a) * Second))]"
    by (auto simp: approval_wiring_def Let_def split: sum.splits if_splits)
  with Some show ?thesis
    by (intro exI [of _ "Some ops"] exI [of _ "wrap64 (ApprovalTTL (Some a) * Second)"] exI [of _ "wrap64 (ReleaseTTL (Some a) * Second)"])
      (auto simp: WithApprovals_def sess_WithApprovals_def)
qed

lemma boot_parts:
  assumes "boot env path debug = Inr gw"
  obtains store d sessOpts opts where
    "Load (bt_read env) (bt_yaml env) path = Inr (gw_config gw)"
    "boot_core env (gw_config gw) debug = Inr (gw_evidence gw, store, d, sessOpts)"
    "session_wiring env (gw_config gw) debug d sessOpts = Inr opts"
    "gw_server gw = Server_New d opts"
    "open_listeners env (gw_config gw) = Inr (gw_listeners gw)"
    "gw_auth gw = ldap_of (gw_config gw)" "gw_holder gw = NewHolder (CompilePolicy (f_Policy (gw_config gw)))"
    "gw_source gw = NewFileSource (policy_path path (gw_config gw)) 0"
    "gw_api gw = (case f_API (gw_config gw) of None \<Rightarrow> None
       | Some a \<Rightarrow> (case startAPIServer env a (FIPSMode (gw_config gw)) NewRegistry (gw_holder gw) store of Inl e \<Rightarrow> None | Inr x \<Rightarrow> Some x))"
proof -
  from assms obtain f ev store d so opts lns where "Load (bt_read env) (bt_yaml env) path = Inr f" "boot_core env f debug = Inr (ev, store, d, so)"
    "session_wiring env f debug d so = Inr opts" "open_listeners env f = Inr lns"
    "gw = \<lparr>gw_config = f, gw_auth = ldap_of f, gw_source = NewFileSource (policy_path path f) 0, gw_holder = NewHolder (CompilePolicy (f_Policy f)),
       gw_server = Server_New d opts, gw_api = (case f_API f of None \<Rightarrow> None
          | Some a \<Rightarrow> (case startAPIServer env a (FIPSMode f) NewRegistry (NewHolder (CompilePolicy (f_Policy f))) store of Inl e \<Rightarrow> None | Inr x \<Rightarrow> Some x)),
       gw_evidence = ev, gw_listeners = lns, gw_grace = wrap64 (DrainGraceSeconds f * Second)\<rparr>"
    by (auto simp: boot_def and_then_Inr Let_def)
  then show thesis by (intro that [of store d so opts]) (simp_all cong: option.case_cong)
qed

lemma boot_core_parts:
  assumes "boot_core env f debug = Inr (ev, store, d, sessOpts)"
  obtains dopts sopts adopts asopts ev0 where
    "snd (Check (FIPSMode f) (bt_runtimeFIPS env) (bt_selfTest env)) = None"
    "buildEvidence env (f_Evidence f) = Inr ev0" "with_export f ev0 = Inr ev"
    "dialer_wiring env f debug = Inr (dopts, sopts)" "approval_wiring env f = Inr (store, adopts, asopts)"
    "d = Dialer_New (bt_lookup env) (CompilePolicy (f_Policy f)) (dopts @ adopts)" "sessOpts = sopts @ asopts"
  using assms by (auto simp: boot_core_def and_then_Inr)

text \<open>The session server's fields, from the document.\<close>

definition server_wired :: "boot_env \<Rightarrow> ConfigFile \<Rightarrow> bool \<Rightarrow> Server \<Rightarrow> bool" where
  "server_wired env f debug s \<longleftrightarrow>
     sv_sshDisabled s = f_DisableSSH f \<and> sv_tunnelDisabled s = f_DisableTunnel f \<and> sv_sftpDisabled s = f_DisableSFTP f
   \<and> sv_scpEnabled s = f_EnableSCP f \<and> sv_debug s = debug
   \<and> sv_mfa s = (if mf_Enabled (f_MFA f) then map_option (\<lambda>rc. radius_provider (radius_of rc) (bt_radius env)) (mf_RADIUS (f_MFA f)) else None)
   \<and> sv_recordStore s = (f_Recording f \<noteq> None) \<and> (sv_inspect s = None \<longleftrightarrow> \<not> inspection_on f)
   \<and> sv_tunnelInspect s = (case tunnel_settings f of None \<Rightarrow> no_inspection | Some c \<Rightarrow> c)
   \<and> sv_targetHostKeyCB s = (if f_TargetKnownHosts f \<noteq> [] then (case bt_knownHosts env (f_TargetKnownHosts f) of Inl e \<Rightarrow> None | Inr cb \<Rightarrow> Some cb)
        else if f_TargetInsecureHostKey f then Some (\<lambda>_. True) else None)
   \<and> sv_allowLoopbackTargets s = f_TargetAllowLoopback f
   \<and> sv_dialerPeek s = Some (PeekHost (sv_dialer s)) \<and> sv_bfLimiter s = rl_New DefaultConfig \<and> sv_pendingSecrets s = []
   \<and> (sv_cred s = None \<longleftrightarrow> f_CyberArk f = None) \<and> (sv_approvals s = None \<longleftrightarrow> f_Approval f = None) \<and> (sv_releases s = None \<longleftrightarrow> f_Approval f = None)"

lemma session_wired:
  assumes "session_wiring env f debug d (sopts @ asopts) = Inr opts"
    and "dialer_wiring env f debug = Inr (dopts, sopts)" and "approval_wiring env f = Inr (store, adopts, asopts)"
  shows "server_wired env f debug (Server_New d opts) \<and> sv_dialer (Server_New d opts) = d"
proof -
  from assms(1) obtain m rc ins rel hk where w: "mfa_wiring env f = Inr m" "recording_wiring env f = Inr rc" "inspection_wiring env f = Inr ins"
      "release_wiring env f = Inr rel" "hostkey_wiring env f = Inr hk"
    and opts: "opts = [WithDialerPeek (Some (PeekHost d)), sess_WithDebug debug, WithSSHDisabled (f_DisableSSH f),
           WithTunnelDisabled (f_DisableTunnel f), WithSFTPDisabled (f_DisableSFTP f), WithSCPEnabled (f_EnableSCP f)]
        @ (sopts @ asopts) @ m @ rc @ ins @ tunnel_wiring f @ rel @ hk
        @ (if f_TargetAllowLoopback f then [sess_WithLoopbackTargetsAllowed] else [])"
    unfolding session_wiring_def collect_Inr by auto
  obtain prov where prov: "prov = None \<longleftrightarrow> f_CyberArk f = None" "\<forall>s. apply_options sopts s = s\<lparr>sv_cred := (if prov = None then sv_cred s else prov)\<rparr>"
    using dialer_applied [OF assms(2)] by (elim exE conjE)
  obtain ops t2 where ops: "ops = None \<longleftrightarrow> f_Approval f = None"
      "\<forall>s. apply_options asopts s = s\<lparr>sv_approvals := (if ops = None then sv_approvals s else ops), sv_approvalTTL := (if ops = None then sv_approvalTTL s else t2)\<rparr>"
    using approval_applied [OF assms(3)] by (elim exE conjE)
  have new: "Server_New d opts = apply_options opts (Server_New d [])" by (simp add: Server_New_def apply_options_def)
  define s1 where "s1 = apply_options rc (apply_options m (apply_options asopts (apply_options sopts ((Server_New d [])\<lparr>sv_dialerPeek := Some (PeekHost d),
     sv_debug := debug, sv_sshDisabled := f_DisableSSH f, sv_tunnelDisabled := f_DisableTunnel f, sv_sftpDisabled := f_DisableSFTP f, sv_scpEnabled := f_EnableSCP f\<rparr>))))"
  obtain g where g: "g = None \<longleftrightarrow> \<not> inspection_on f" "apply_options ins s1 = s1\<lparr>sv_inspect := (if g = None then sv_inspect s1 else g)\<rparr>"
    using inspection_applied [OF w(3), of s1] by (elim exE conjE)
  define s2 where "s2 = apply_options (tunnel_wiring f) (apply_options ins s1)"
  obtain r ttl where r: "r = None \<longleftrightarrow> f_Approval f = None" "apply_options rel s2 = s2\<lparr>sv_releases := (if r = None then sv_releases s2 else r), sv_releaseTTL := ttl\<rparr>"
    using release_applied [OF w(4), of s2] by (elim exE conjE)
  define s3 where "s3 = apply_options rel s2"
  note one = s1_def recording_applied [OF w(2)] mfa_applied [OF w(1)] ops(2) [rule_format] prov(2) [rule_format] Server_New_def
  have "sv_tunnelInspect s1 = no_inspection" by (simp add: one)
  then have s2: "s2 = s1\<lparr>sv_inspect := (if g = None then sv_inspect s1 else g), sv_tunnelInspect := (case tunnel_settings f of None \<Rightarrow> no_inspection | Some c \<Rightarrow> c)\<rparr>"
    by (simp add: s2_def tunnel_applied g(2) split: option.splits)
  note fields = s3_def [unfolded r(2)] s2 one
  have cb: "sv_targetHostKeyCB s3 = None" by (simp add: fields)
  have "Server_New d opts = (let s4 = apply_options hk s3 in s4\<lparr>sv_allowLoopbackTargets := (f_TargetAllowLoopback f \<or> sv_allowLoopbackTargets s4)\<rparr>)"
    unfolding new
    by (simp add: opts s3_def s2_def s1_def WithDialerPeek_def sess_WithDebug_def WithSSHDisabled_def WithTunnelDisabled_def WithSFTPDisabled_def
        WithSCPEnabled_def sess_WithLoopbackTargetsAllowed_def Let_def)
  then have e: "Server_New d opts = s3\<lparr>sv_targetHostKeyCB := (if f_TargetKnownHosts f \<noteq> [] then (case bt_knownHosts env (f_TargetKnownHosts f) of Inl e \<Rightarrow> None | Inr cb \<Rightarrow> Some cb)
      else if f_TargetInsecureHostKey f then Some (\<lambda>_. True) else None), sv_allowLoopbackTargets := (f_TargetAllowLoopback f \<or> sv_allowLoopbackTargets s3)\<rparr>"
    by (simp add: hostkey_applied [OF w(5) cb])
  have "server_wired env f debug (Server_New d opts)" "sv_dialer (Server_New d opts) = d"
    unfolding e server_wired_def using prov(1) ops(1) r(1) g(1) by (simp_all add: fields)
  then show ?thesis by blast
qed

section \<open>What boots is what was configured\<close>

lemma Load_validated: "Load read yaml path = Inr f \<longleftrightarrow> (\<exists>raw f0. read path = Some raw \<and> yaml raw = Some f0 \<and> validate f0 = Inr f)"
  by (auto simp: Load_def split: option.splits)

lemma inspection_has_quarantine:
  assumes "validate f0 = Inr f" and "f_Inspection f = Some ic" and "in_Enabled ic"
  shows "in_Quarantine ic \<noteq> None"
proof
  assume "in_Quarantine ic = None"
  moreover have "f_Inspection f0 = Some ic" using validate_fields [OF assms(1)] assms(2) by simp
  ultimately show False
    using validate_ok(1) [OF assms(1), unfolded validate_checks_def first_error_split] assms(3) by (simp add: first_error_split)
qed

lemma dialer_wired:
  assumes "dialer_wiring env f debug = Inr (dopts, sopts)" and "approval_wiring env f = Inr (store, adopts, asopts)"
    and "d = Dialer_New (bt_lookup env) p (dopts @ adopts)"
  shows "currentPolicy d = p" "dl_dialControl d = Some guardResolvedAddr" "dl_debug d = debug"
    "dl_resolver d = None \<longleftrightarrow> pc_DisableCIDRHostnameResolution (f_Policy f)"
    "dl_approvals d = None \<longleftrightarrow> f_Approval f = None" "f_CyberArk f \<noteq> None \<Longrightarrow> \<exists>pr. dl_cred d = Some pr \<and> p_fetcher pr \<noteq> None"
proof -
  obtain prov where prov: "prov = None \<longleftrightarrow> f_CyberArk f = None" "\<forall>p. prov = Some p \<longrightarrow> p_fetcher p \<noteq> None"
    "\<forall>d. foldl (\<lambda>d opt. opt d) d dopts = d\<lparr>dl_debug := debug, dl_cred := (if prov = None then dl_cred d else prov),
          dl_resolver := (if pc_DisableCIDRHostnameResolution (f_Policy f) then None else dl_resolver d)\<rparr>"
    using dialer_applied [OF assms(1)] by (elim exE conjE)
  obtain ops t1 where ops: "ops = None \<longleftrightarrow> f_Approval f = None"
    "\<forall>d. foldl (\<lambda>d opt. opt d) d adopts = d\<lparr>dl_approvals := (if ops = None then dl_approvals d else ops), dl_approvalTTL := (if ops = None then dl_approvalTTL d else t1)\<rparr>"
    using approval_applied [OF assms(2)] by (elim exE conjE)
  note d = assms(3) [unfolded Dialer_New_def Let_def foldl_append prov(3) [rule_format] ops(2) [rule_format]]
  show "currentPolicy d = p" "dl_dialControl d = Some guardResolvedAddr" "dl_debug d = debug"
    "dl_resolver d = None \<longleftrightarrow> pc_DisableCIDRHostnameResolution (f_Policy f)" "dl_approvals d = None \<longleftrightarrow> f_Approval f = None"
    using ops(1) by (simp_all add: d currentPolicy_def)
  show "\<exists>pr. dl_cred d = Some pr \<and> p_fetcher pr \<noteq> None" if "f_CyberArk f \<noteq> None"
    using that prov(1,2) by (cases prov) (auto simp: d)
qed

lemma boot_wired:
  assumes "boot env path debug = Inr gw"
  obtains store dopts sopts adopts asopts where "config_complete (gw_config gw)" "server_wired env (gw_config gw) debug (gw_server gw)"
    "dialer_wiring env (gw_config gw) debug = Inr (dopts, sopts)" "approval_wiring env (gw_config gw) = Inr (store, adopts, asopts)"
    "sv_dialer (gw_server gw) = Dialer_New (bt_lookup env) (CompilePolicy (f_Policy (gw_config gw))) (dopts @ adopts)"
    "Holder_Load (gw_holder gw) = CompilePolicy (f_Policy (gw_config gw))"
proof -
  let ?f = "gw_config gw"
  from assms obtain store d sessOpts opts where l: "Load (bt_read env) (bt_yaml env) path = Inr ?f"
    and core: "boot_core env ?f debug = Inr (gw_evidence gw, store, d, sessOpts)"
    and sw: "session_wiring env ?f debug d sessOpts = Inr opts" and srv: "gw_server gw = Server_New d opts"
    and h: "gw_holder gw = NewHolder (CompilePolicy (f_Policy ?f))"
    by (rule boot_parts)
  from core obtain dopts sopts adopts asopts where w: "dialer_wiring env ?f debug = Inr (dopts, sopts)"
    "approval_wiring env ?f = Inr (store, adopts, asopts)" and so: "sessOpts = sopts @ asopts"
    and d: "d = Dialer_New (bt_lookup env) (CompilePolicy (f_Policy ?f)) (dopts @ adopts)"
    by (rule boot_core_parts)
  have "server_wired env ?f debug (gw_server gw)" "sv_dialer (gw_server gw) = d"
    using session_wired [OF sw [unfolded so] w] srv by simp_all
  moreover have "config_complete ?f" using l validate_complete by (auto simp: Load_validated)
  moreover have "Holder_Load (gw_holder gw) = CompilePolicy (f_Policy ?f)" by (simp add: h NewHolder_def Holder_Load_def Holder_Store_def)
  ultimately show thesis using that w d by blast
qed

text \<open>
  C25.  What boots is what was configured: the document in force is complete, every
  switch of the session server is the document's, its second factor is the
  configured RADIUS server, targets' host keys are checked against the configured
  file (and, without one, refused unless the document asks for no check), the
  dialer decides on the document's policy with the address guard in place, and
  the vault and the approval store are there when a rule of that policy needs
  them.
\<close>

theorem boot_as_configured:
  assumes "boot env path debug = Inr gw"
  shows "config_complete (gw_config gw) \<and> server_wired env (gw_config gw) debug (gw_server gw)
    \<and> Holder_Load (gw_holder gw) = CompilePolicy (f_Policy (gw_config gw))
    \<and> currentPolicy (sv_dialer (gw_server gw)) = CompilePolicy (f_Policy (gw_config gw))
    \<and> dl_dialControl (sv_dialer (gw_server gw)) = Some guardResolvedAddr
    \<and> (usesInject (gw_config gw) \<longrightarrow> (\<exists>pr. dl_cred (sv_dialer (gw_server gw)) = Some pr \<and> p_fetcher pr \<noteq> None))
    \<and> (usesApproval (gw_config gw) \<longrightarrow> dl_approvals (sv_dialer (gw_server gw)) \<noteq> None)"
proof -
  let ?f = "gw_config gw"
  from assms obtain store dopts sopts adopts asopts where c: "config_complete ?f" and s: "server_wired env ?f debug (gw_server gw)"
    and w: "dialer_wiring env ?f debug = Inr (dopts, sopts)" "approval_wiring env ?f = Inr (store, adopts, asopts)"
    and d: "sv_dialer (gw_server gw) = Dialer_New (bt_lookup env) (CompilePolicy (f_Policy ?f)) (dopts @ adopts)"
    and h: "Holder_Load (gw_holder gw) = CompilePolicy (f_Policy ?f)"
    by (rule boot_wired)
  have n: "usesInject ?f \<longrightarrow> f_CyberArk ?f \<noteq> None" "usesApproval ?f \<longrightarrow> f_Approval ?f \<noteq> None"
    using c by (auto simp: config_complete_def)
  show ?thesis using dialer_wired [OF w d] s c n h by auto
qed

lemma collect_Inl: "collect rs = Inl e \<Longrightarrow> Inl e \<in> set rs"
  by (induction rs) (auto split: sum.splits)

lemma core_no_panic: "boot_core env f debug \<noteq> Inl BootPanic"
proof -
  have "dialer_wiring env f debug \<noteq> Inl BootPanic" "approval_wiring env f \<noteq> Inl BootPanic"
    "otel_wiring env f \<noteq> Some BootPanic" "with_export f ev \<noteq> Inl BootPanic" for ev
    by (auto simp: dialer_wiring_def approval_wiring_def otel_wiring_def with_export_def Let_def split: option.splits sum.splits if_splits)
  moreover have "map_sum BootEvidence id r \<noteq> Inl BootPanic" for r :: "(string, evidenceSystem) result" by (cases r) auto
  ultimately show ?thesis by (auto simp: boot_core_def and_then_Inl none_or_def split: option.splits)
qed

text \<open>
  C26.  The wiring follows pointers of the document without looking (the RADIUS block of
  an enabled second factor, the quarantine store of an enabled inspection, the TLS
  block); validation makes sure they are there, so no document and no environment
  makes the boot panic.
\<close>

theorem boot_never_panics: "boot env path debug \<noteq> Inl BootPanic"
proof
  assume b: "boot env path debug = Inl BootPanic"
  have "map_sum BootConfig id r \<noteq> Inl BootPanic" for r :: "(load_error, ConfigFile) result" by (cases r) auto
  with b core_no_panic obtain f d so where l: "Load (bt_read env) (bt_yaml env) path = Inr f"
    and p: "session_wiring env f debug d so = Inl BootPanic \<or> open_listeners env f = Inl BootPanic"
    by (fastforce simp: boot_def and_then_Inl Let_def)
  from l obtain f0 where v: "validate f0 = Inr f" by (auto simp: Load_validated)
  then have c: "config_complete f" by (rule validate_complete)
  have "mfa_wiring env f \<noteq> Inl BootPanic" using c by (auto simp: mfa_wiring_def config_complete_def split: option.splits)
  moreover have "inspection_wiring env f \<noteq> Inl BootPanic"
    using inspection_has_quarantine [OF v] by (auto simp: inspection_wiring_def buildInspection_def Let_def split: option.splits sum.splits)
  moreover have "recording_wiring env f \<noteq> Inl BootPanic" "release_wiring env f \<noteq> Inl BootPanic" "hostkey_wiring env f \<noteq> Inl BootPanic"
    by (auto simp: recording_wiring_def release_wiring_def hostkey_wiring_def split: option.splits sum.splits)
  ultimately have "session_wiring env f debug d so \<noteq> Inl BootPanic" by (auto simp: session_wiring_def dest!: collect_Inl simp del: collect.simps)
  moreover have "open_listeners env f \<noteq> Inl BootPanic"
    by (auto simp: open_listeners_def gatewayTLSConfig_def split: option.splits sum.splits)
  ultimately show False using p by blast
qed

section \<open>Logging in to a booted gateway\<close>

text \<open>
  C22.  Nobody gets past the login of a booted gateway without the configured factors:
  an attempt that is not refused carries a non-empty password that the configured
  directory accepted for the one entry it has for the user, and, where the
  document enables the second factor, the configured RADIUS server answered the
  last packet sent to it with Access-Accept.  The account name that goes on is
  the one the directory was asked about.
\<close>

theorem booted_login_proved:
  assumes "boot env path debug = Inr gw"
    and "passwordCallback (gw_server gw) aenv (directory_auth (gw_auth gw) dir) addr user pw = (s', evs, r)" and "r \<noteq> AuthFail"
  shows "\<exists>lr ident h. parse_login user = Some lr \<and> pw \<noteq> [] \<and> id_User ident = lr_user lr
    \<and> ldap_Authenticate (ldap_of (gw_config gw)) dir (lr_user lr) pw = (h, Inr ident)
    \<and> directory_proved (ldap_of (gw_config gw)) dir (lr_user lr) pw h ident
    \<and> (mf_Enabled (f_MFA (gw_config gw)) \<longrightarrow> (\<exists>rc sent reply. mf_RADIUS (f_MFA (gw_config gw)) = Some rc
        \<and> radius_Verify (radius_of rc) ((bt_radius env)\<lparr>rv_prompt := None\<rparr>)
            \<lparr>mr_Username = id_User ident, mr_Password = pw, mr_SourceIP = hostOf addr\<rparr> = (sent, None)
        \<and> rv_net (bt_radius env) sent = Inr reply \<and> rp_Code reply = CodeAccessAccept))"
proof -
  let ?f = "gw_config gw"
  from assms(1) have c: "config_complete ?f" and s: "server_wired env ?f debug (gw_server gw)" by (auto elim: boot_wired)
  have a: "gw_auth gw = ldap_of ?f" using assms(1) by (rule boot_parts)
  from passwordCallback_cases [OF assms(2)] assms(3) obtain ident lr
    where au: "authenticated (gw_server gw) aenv (directory_auth (gw_auth gw) dir) addr user pw ident lr" by blast
  then have lr: "parse_login user = Some lr" and "directory_auth (gw_auth gw) dir (lr_user lr) pw = Inr ident"
    and f2: "second_factor_ok (gw_server gw) ident pw (hostOf addr)" by (simp_all add: authenticated_def)
  then obtain h where h: "ldap_Authenticate (ldap_of ?f) dir (lr_user lr) pw = (h, Inr ident)"
    by (cases "ldap_Authenticate (ldap_of ?f) dir (lr_user lr) pw") (auto simp: directory_auth_def a)
  have "\<exists>rc sent reply. mf_RADIUS (f_MFA ?f) = Some rc
        \<and> radius_Verify (radius_of rc) ((bt_radius env)\<lparr>rv_prompt := None\<rparr>) \<lparr>mr_Username = id_User ident, mr_Password = pw, mr_SourceIP = hostOf addr\<rparr> = (sent, None)
        \<and> rv_net (bt_radius env) sent = Inr reply \<and> rp_Code reply = CodeAccessAccept" if "mf_Enabled (f_MFA ?f)"
  proof -
    from c that obtain rc where rc: "mf_RADIUS (f_MFA ?f) = Some rc" by (auto simp: config_complete_def)
    then have "sv_mfa (gw_server gw) = Some (radius_provider (radius_of rc) (bt_radius env))" using s that by (simp add: server_wired_def)
    then have "radius_provider (radius_of rc) (bt_radius env) \<lparr>mr_Username = id_User ident, mr_Password = pw, mr_SourceIP = hostOf addr\<rparr> = None"
      using f2 by (simp add: second_factor_ok_def)
    from radius_accepted [OF this] rc show ?thesis by blast
  qed
  with lr h ldap_accepts [OF h] show ?thesis by blast
qed

section \<open>The transport a booted gateway offers\<close>

definition tls_as_asked :: "boot_env \<Rightarrow> fips_Mode \<Rightarrow> string \<Rightarrow> string \<Rightarrow> string \<Rightarrow> server_tls \<Rightarrow> bool" where
  "tls_as_asked env mode cert key clientCA tc \<longleftrightarrow>
     sl_Certificate tc = (cert, key) \<and> TLSVersionApproved (tls_MinVersion (sl_params tc))
   \<and> (sl_RequireClientCert tc \<longleftrightarrow> clientCA \<noteq> [])
   \<and> (clientCA \<noteq> [] \<longrightarrow> (\<exists>ca. bt_read env clientCA = Some ca \<and> bt_pem env ca \<and> sl_ClientCAs tc = Some ca))
   \<and> (mode \<noteq> ModeOff \<longrightarrow> set (tls_CipherSuites (sl_params tc)) = set approvedCipherSuites)"

lemma server_tls_as_asked: "build_server_tls env cert key clientCA bad mode = Inr tc \<Longrightarrow> tls_as_asked env mode cert key clientCA tc"
  by (auto simp: build_server_tls_def tls_as_asked_def Harden_def Let_def TLSVersionApproved_def split: option.splits if_splits)

lemma listeners_opened:
  assumes "open_listeners env f = Inr lns"
  shows "(addr, Some tc) \<in> set lns \<Longrightarrow> \<exists>t. f_TLS f = Some t \<and> tls_as_asked env (FIPSMode f) (gt_Cert t) (gt_Key t) (gt_ClientCA t) tc"
    and "(addr, None) \<in> set lns \<Longrightarrow> addr = f_Listen f \<and> (\<forall>t. f_TLS f = Some t \<longrightarrow> gt_Listen t \<noteq> [])"
    and "f_TLS f = Some t \<Longrightarrow> \<exists>tc. (if gt_Listen t = [] then f_Listen f else gt_Listen t, Some tc) \<in> set lns"
  using assms by (auto simp: open_listeners_def gatewayTLSConfig_def dest: server_tls_as_asked split: option.splits sum.splits if_splits)


section \<open>Hot reload of a booted gateway\<close>

interpretation gateway_policy: policy_view "\<lambda>gw. currentPolicy (sv_dialer (gw_server gw))" gw_reload
  by unfold_locales (simp add: gw_reload_def reload_policy_def currentPolicy_def SetPolicy_def)

text \<open>One policy everywhere: the dialer, the session server's peek, the holder and the control API.\<close>

definition one_policy :: "'c gateway \<Rightarrow> bool" where
  "one_policy gw \<longleftrightarrow> Holder_Load (gw_holder gw) = currentPolicy (sv_dialer (gw_server gw))
     \<and> sv_dialerPeek (gw_server gw) = Some (PeekHost (sv_dialer (gw_server gw)))
     \<and> (\<forall>a tl. gw_api gw = Some (a, tl) \<longrightarrow> ax_policy a = currentPolicy (sv_dialer (gw_server gw)))"

lemma reload_one_policy: "one_policy gw \<Longrightarrow> one_policy (gw_reload gw p)"
  by (auto simp: one_policy_def gw_reload_def reload_policy_def Holder_Load_def Holder_Store_def currentPolicy_def SetPolicy_def)

lemma booted_one_policy:
  assumes "boot env path debug = Inr gw"
  shows "one_policy gw"
proof -
  let ?p = "CompilePolicy (f_Policy (gw_config gw))"
  from assms obtain store dopts sopts adopts asopts where s: "server_wired env (gw_config gw) debug (gw_server gw)"
    and w: "dialer_wiring env (gw_config gw) debug = Inr (dopts, sopts)" "approval_wiring env (gw_config gw) = Inr (store, adopts, asopts)"
    and d: "sv_dialer (gw_server gw) = Dialer_New (bt_lookup env) ?p (dopts @ adopts)" and h: "Holder_Load (gw_holder gw) = ?p"
    by (rule boot_wired)
  have "ax_policy a = ?p" if "gw_api gw = Some (a, tl)" for a tl
  proof -
    from assms obtain store where "gw_api gw = (case f_API (gw_config gw) of None \<Rightarrow> None
       | Some a \<Rightarrow> (case startAPIServer env a (FIPSMode (gw_config gw)) NewRegistry (gw_holder gw) store of Inl e \<Rightarrow> None | Inr x \<Rightarrow> Some x))"
      by (rule boot_parts)
    with that h show ?thesis by (auto simp: startAPIServer_def Let_def split: option.splits sum.splits)
  qed
  with s h dialer_wired(1) [OF w d] show ?thesis by (simp add: one_policy_def server_wired_def)
qed

text \<open>What a reload leaves alone.\<close>

definition fixed_parts :: "'c gateway \<Rightarrow> 'c gateway \<Rightarrow> bool" where
  "fixed_parts gw gw' \<longleftrightarrow> gw_config gw' = gw_config gw \<and> gw_auth gw' = gw_auth gw \<and> gw_listeners gw' = gw_listeners gw
     \<and> gw_evidence gw' = gw_evidence gw
     \<and> (gw_server gw')\<lparr>sv_dialer := sv_dialer (gw_server gw), sv_dialerPeek := sv_dialerPeek (gw_server gw)\<rparr> = gw_server gw
     \<and> (sv_dialer (gw_server gw'))\<lparr>dl_policy := dl_policy (sv_dialer (gw_server gw))\<rparr> = sv_dialer (gw_server gw)"

lemma fixed_parts_refl: "fixed_parts gw gw"
  by (simp add: fixed_parts_def)

lemma reload_fixed: "fixed_parts gw0 gw \<Longrightarrow> fixed_parts gw0 (gw_reload gw p)"
  by (auto simp: fixed_parts_def gw_reload_def reload_policy_def SetPolicy_def)


section \<open>Exported once\<close>

text \<open>How often an event emitted to a sink is offered to every exporter.\<close>

primrec offers :: "ev_sink \<Rightarrow> nat" where
  "offers (BusEmitter e) = 0"
| "offers (S3Sink c) = 0"
| "offers (FileSink p) = 0"
| "offers (FanoutSink s) = Suc (offers s)"

text \<open>
  With export enabled, an event of either subsystem is offered to every exporter
  once, a shared sink stays shared, and at shutdown the exporters are drained
  before the durable sink is closed.
\<close>

lemma exported_once:
  assumes "buildEvidence env ec = Inr ev0" and "with_export f ev0 = Inr ev" and "f_Export f = Some x" and "ex_Enabled x"
  shows "offers (es_dialerSink ev) = 1 \<and> offers (es_sessionSink ev) = 1
    \<and> (es_dialerSink ev = es_sessionSink ev \<longleftrightarrow> ec_Pipeline ec = None) \<and> hd (evidence_close ev) = CloseExporters"
  using assms
  by (auto simp: buildEvidence_def with_export_def evidence_close_def Let_def split: option.splits sum.splits if_splits)

section \<open>A gateway that boots\<close>

definition lab_gateway_config :: ConfigFile where
  "lab_gateway_config = lab_config_validated\<lparr>
     f_LDAP := \<lparr>ld_URL = ''ldaps://dc1.lab.local:636'', ld_BaseDN = ''DC=lab'', ld_BindDN = ''CN=svc'', ld_BindPassword = ''svcpw'',
        ld_UserFilter = [], ld_InsecureTLS = False, ld_NestedGroups = False\<rparr>,
     f_MFA := \<lparr>mf_Enabled = True, mf_RADIUS = Some \<lparr>ra_Server = ''10.0.0.2:1812'', ra_Secret = ''shared'', ra_NASIdentifier = [],
        ra_TimeoutSeconds = 0, ra_Retries = 0, ra_AllowInteractiveChallenge = False\<rparr>\<rparr>,
     f_TLS := Some \<lparr>gt_Listen = '':2223'', gt_Cert = ''gw.pem'', gt_Key = ''gw.key'', gt_ClientCA = ''clients.pem''\<rparr>,
     f_API := Some \<lparr>ap_Listen = '':8443'', ap_TLSCert = ''api.pem'', ap_TLSKey = ''api.key'', ap_ClientCA = ''clients.pem'', ap_Tokens = [],
        ap_CNRoles = [\<lparr>cn_CN = ''ops'', cn_Role = ''operator''\<rparr>]\<rparr>,
     f_TargetKnownHosts := ''known_hosts''\<rparr>"

definition lab_boot_env :: boot_env where
  "lab_boot_env = \<lparr>bt_read = (\<lambda>p. Some p), bt_yaml = (\<lambda>_. Some lab_gateway_config), bt_runtimeFIPS = True, bt_selfTest = None, bt_suite = (\<lambda>_. []),
     bt_keyPair = (\<lambda>_ _. None), bt_pem = (\<lambda>_. True), bt_hostKey = (\<lambda>_. None), bt_signer = (\<lambda>_. Inl ''no key''), bt_uploader = (\<lambda>_ _. None),
     bt_codec = Evidence_Verify.lab_codec, bt_dataDir = (\<lambda>_. \<lparr>dir_epoch = None, dir_segments = [], dir_ckpts = []\<rparr>), bt_epochWritten = True,
     bt_sink = (\<lambda>_ _. None), bt_ccp = (\<lambda>_ _. Inl ''no vault''), bt_requests = (\<lambda>_. Inr []), bt_ops = (\<lambda>_. crd_ops), bt_releases = (\<lambda>_. Inr []),
     bt_collector = (\<lambda>_. None), bt_recordings = (\<lambda>_ _. None), bt_bucket = (\<lambda>_ _ _. Inr []), bt_knownHosts = (\<lambda>_. Inr (\<lambda>k. k = ''db1'')),
     bt_listen = (\<lambda>_. None), bt_lookup = (\<lambda>_. Some []),
     bt_radius = lab_radius_env\<lparr>rv_net := (\<lambda>_. Inr \<lparr>rp_Code = CodeAccessAccept, rp_Attrs = []\<rparr>)\<rparr>\<rparr>"

lemma lab_gateway_fields:
  "f_Listen lab_gateway_config = '':2222''" "f_HostKey lab_gateway_config = ''hostkey.pem''" "f_FIPS lab_gateway_config = Some ''enforce''"
  "f_TLS lab_gateway_config = Some \<lparr>gt_Listen = '':2223'', gt_Cert = ''gw.pem'', gt_Key = ''gw.key'', gt_ClientCA = ''clients.pem''\<rparr>"
  "f_Evidence lab_gateway_config = \<lparr>ec_File = ''evidence.jsonl'', ec_S3 = None, ec_Pipeline = None\<rparr>"
  "f_CyberArk lab_gateway_config = None" "f_Approval lab_gateway_config = None" "f_OTel lab_gateway_config = None" "f_Export lab_gateway_config = None"
  "f_Recording lab_gateway_config = None" "f_Inspection lab_gateway_config = None" "f_Policy lab_gateway_config = lab_policy_config"
  "\<not> f_DisableSSH lab_gateway_config" "\<not> ld_InsecureTLS (f_LDAP lab_gateway_config)"
  "f_TunnelInspection lab_gateway_config = Some \<lparr>tc_Enabled = True, tc_MaxPrefixBytes = 512, tc_ClassifyTimeoutSeconds = 5, tc_Enforce = True, tc_UnknownAction = ''allow''\<rparr>"
  "mf_Enabled (f_MFA lab_gateway_config)" "\<exists>rc. mf_RADIUS (f_MFA lab_gateway_config) = Some rc \<and> ra_Server rc \<noteq> [] \<and> ra_Secret rc \<noteq> []"
  "\<exists>a. f_API lab_gateway_config = Some a \<and> ap_TLSCert a \<noteq> []" "f_TargetKnownHosts lab_gateway_config = ''known_hosts''"
  by (simp_all add: lab_gateway_config_def lab_config_validated_def lab_config_def)

lemma lab_gateway_mode: "FIPSMode lab_gateway_config = ModeEnforce" "snd (ParseMode ''enforce'') = False"
proof -
  have "ParseMode ''enforce'' = (ModeEnforce, False)" by code_simp
  then show "FIPSMode lab_gateway_config = ModeEnforce" "snd (ParseMode ''enforce'') = False" by (simp_all add: FIPSMode_def lab_gateway_fields)
qed

lemma lab_gateway_validates: "validate lab_gateway_config = Inr lab_gateway_config"
proof -
  have p: "validatePolicyRoles (pc_Roles lab_policy_config) = None" by code_simp
  have r: "\<not> usesInject lab_gateway_config" "\<not> usesApproval lab_gateway_config"
    by (simp_all add: usesInject_def usesApproval_def all_rules_def lab_gateway_fields lab_policy_config_def)
  have v: "validateFIPS lab_gateway_config = None"
    using lab_gateway_fields(14,18) by (auto simp: validateFIPS_def first_error_None)
  have "Config.first_error (validate_checks lab_gateway_config) = None"
  proof -
    obtain rc where "mf_RADIUS (f_MFA lab_gateway_config) = Some rc" "ra_Server rc \<noteq> []" "ra_Secret rc \<noteq> []" using lab_gateway_fields(17) by blast
    then show ?thesis
      by (simp add: validate_checks_def first_error_split r v lab_gateway_fields(1-16) p lab_gateway_mode evidence_count_def tunnel_defaults_def)
  qed
  then show ?thesis
    by (simp add: validate_def lab_gateway_fields tunnel_defaults_def)
qed

lemma lab_boots: "\<exists>gw. boot lab_boot_env ''config.yaml'' False = Inr (gw :: nat gateway) \<and> gw_config gw = lab_gateway_config"
proof -
  let ?f = lab_gateway_config
  note f = lab_gateway_fields
  have "Load (bt_read lab_boot_env) (bt_yaml lab_boot_env) ''config.yaml'' = Inr ?f"
    using lab_gateway_validates by (simp add: Load_def lab_boot_env_def)
  moreover have "\<exists>x. boot_core lab_boot_env ?f False = Inr x"
    by (simp add: boot_core_def and_then_def none_or_def Check_def buildEvidence_def dialer_wiring_def approval_wiring_def otel_wiring_def with_export_def
        Let_def f) (simp add: lab_boot_env_def)
  moreover have "\<exists>opts. session_wiring lab_boot_env ?f False d so = Inr opts" for d so
  proof -
    obtain rc where "mf_RADIUS (f_MFA ?f) = Some rc" using f(17) by blast
    then have "\<exists>m. mfa_wiring lab_boot_env ?f = Inr m" by (simp add: mfa_wiring_def)
    moreover have "\<exists>k. hostkey_wiring lab_boot_env ?f = Inr k" by (simp add: hostkey_wiring_def lab_boot_env_def)
    ultimately show ?thesis
      by (auto simp: session_wiring_def recording_wiring_def inspection_wiring_def release_wiring_def f)
  qed
  moreover have "\<exists>lns. open_listeners lab_boot_env ?f = Inr lns"
  proof -
    have l: "bt_listen lab_boot_env a = None" for a by (simp add: lab_boot_env_def)
    have "\<exists>tc. build_server_tls lab_boot_env c k ca bad ModeEnforce = Inr tc" for c k ca bad
      using ApprovedTLSConfig_valid by (auto simp: build_server_tls_def lab_boot_env_def Harden_def ApprovedTLSConfig_def Let_def)
    then obtain tc where "gatewayTLSConfig lab_boot_env (f_TLS ?f) (FIPSMode ?f) = Inr (Some tc)"
      unfolding gatewayTLSConfig_def f(4) lab_gateway_mode by fastforce
    then show ?thesis by (simp add: open_listeners_def l f(4))
  qed
  ultimately show ?thesis by (fastforce simp: boot_def and_then_Inr Let_def)
qed

theorem boot_as_configured_witness:
  "\<exists>gw :: nat gateway. boot lab_boot_env ''config.yaml'' False = Inr gw \<and> server_wired lab_boot_env lab_gateway_config False (gw_server gw)
    \<and> sv_mfa (gw_server gw) \<noteq> None \<and> sv_targetHostKeyCB (gw_server gw) = Some (\<lambda>k. k = ''db1'')"
proof -
  obtain gw :: "nat gateway" where gw: "boot lab_boot_env ''config.yaml'' False = Inr gw" "gw_config gw = lab_gateway_config" using lab_boots by blast
  note w = boot_as_configured [OF gw(1), unfolded gw(2)]
  then have "sv_mfa (gw_server gw) \<noteq> None \<and> sv_targetHostKeyCB (gw_server gw) = Some (\<lambda>k. k = ''db1'')"
    by (simp add: server_wired_def) (simp add: lab_gateway_config_def lab_boot_env_def)
  with w gw show ?thesis by blast
qed

lemma lab_ldap_of: "ldap_of lab_gateway_config = (lab_ldap False)\<lparr>la_Mode := ModeEnforce\<rparr>"
  by (simp add: ldap_of_def lab_gateway_mode) (simp add: NewLDAP_def lab_ldap_def lab_gateway_config_def)

lemma accepting_server:
  assumes "\<forall>sent. rv_net env sent = Inr acc" and "rp_Code acc = CodeAccessAccept"
  shows "snd (exchangeLoop r env req i p sent) = None"
  using assms by (cases "nat (rd_Retries r)") (simp_all add: exchangeLoop.simps [of r env req i p sent] rad_exchange_def)

lemma lab_second_factor: "radius_provider r (bt_radius lab_boot_env) lab_mfa = None"
proof -
  let ?env = "(bt_radius lab_boot_env)\<lparr>rv_prompt := None\<rparr>"
  have a: "\<forall>sent. rv_net ?env sent = Inr \<lparr>rp_Code = CodeAccessAccept, rp_Attrs = []\<rparr>" by (simp add: lab_boot_env_def)
  have "\<exists>p. first_request r ?env lab_mfa = Inr p"
    by (simp add: first_request_def lab_boot_env_def lab_radius_env_def generateNTResponse_def challengeResponse_eq
        set_attr_def set_lax_def add_attr_def new_request_def lab_mfa_def Let_def)
  with accepting_server [OF a] show ?thesis by (auto simp: radius_provider_def radius_Verify_def)
qed

lemma lab_authenticates:
  "snd (ldap_Authenticate ((lab_ldap False)\<lparr>la_Mode := ModeEnforce\<rparr>) lab_directory ''alice'' ''s3cret'') = Inr \<lparr>id_User = ''alice'', id_Groups = [''dba'']\<rparr>"
proof -
  let ?a = "(lab_ldap False)\<lparr>la_Mode := ModeEnforce\<rparr>"
  have d: "ldap_dial ?a lab_directory = None"
    using ApprovedTLSConfig_valid by (simp add: ldap_dial_def Harden_def ApprovedTLSConfig_def lab_directory_def)
  have l: "lookupUser ?a lab_directory [] ''alice'' = (Authn_LDAP.lab_asked, Inr lab_alice)" by code_simp
  have b: "dir_bind lab_directory Authn_LDAP.lab_asked (le_DN lab_alice) ''s3cret'' = None" by code_simp
  have "snd (resolveGroups ?a lab_directory h lab_alice) = Inr [''dba'']" for h
  proof -
    have "groupCNsFromMemberOf lab_directory (le_memberOf lab_alice) = [''dba'']" by code_simp
    then show ?thesis by (simp add: resolveGroups_def lab_ldap_def NewLDAP_def)
  qed
  then obtain h2 where "resolveGroups ?a lab_directory (Authn_LDAP.lab_asked @ [Bind (le_DN lab_alice) ''s3cret'']) lab_alice = (h2, Inr [''dba''])"
    by (metis prod.collapse)
  then show ?thesis by (simp add: ldap_Authenticate_def d l b Let_def)
qed

lemma lab_boot_login:
  fixes gw :: "nat gateway"
  assumes "boot lab_boot_env ''config.yaml'' False = Inr gw" and "gw_config gw = lab_gateway_config"
  shows "\<exists>s' evs r. passwordCallback (gw_server gw) lab_auth_env (directory_auth (gw_auth gw) lab_directory) (Some ''192.0.2.7:4022'') ''alice'' ''s3cret'' = (s', evs, r) \<and> r \<noteq> AuthFail"
proof -
  let ?id = "\<lparr>id_User = ''alice'', id_Groups = [''dba'']\<rparr>"
  obtain s' evs r where p: "passwordCallback (gw_server gw) lab_auth_env (directory_auth (gw_auth gw) lab_directory) (Some ''192.0.2.7:4022'') ''alice'' ''s3cret'' = (s', evs, r)"
    by (metis prod.exhaust)
  have s: "server_wired lab_boot_env lab_gateway_config False (gw_server gw)" using assms by (auto elim: boot_wired)
  have g: "gw_auth gw = ldap_of lab_gateway_config" using assms by (auto elim: boot_parts)
  have src: "hostOf (Some ''192.0.2.7:4022'') = ''192.0.2.7''" by code_simp
  obtain lr where lr: "parse_login ''alice'' = Some lr" "lr_user lr = ''alice''" "\<not> lr_hasTarget lr"
  proof -
    have "parse_login ''alice'' = Some \<lparr>lr_user = ''alice'', lr_pcode = [], lr_hasTarget = False, lr_targetUser = [], lr_host = [], lr_port = 0\<rparr>" by code_simp
    then show thesis by (rule that) simp_all
  qed
  have d: "directory_auth (gw_auth gw) lab_directory ''alice'' ''s3cret'' = Inr ?id" by (simp add: directory_auth_def g lab_ldap_of lab_authenticates)
  have "sv_mfa (gw_server gw) = (if mf_Enabled (f_MFA lab_gateway_config) then map_option (\<lambda>rc. radius_provider (radius_of rc) (bt_radius lab_boot_env)) (mf_RADIUS (f_MFA lab_gateway_config)) else None)"
    using s by (simp only: server_wired_def)
  then have "second_factor_ok (gw_server gw) ?id ''s3cret'' ''192.0.2.7''"
    using lab_second_factor by (auto simp: second_factor_ok_def lab_gateway_config_def lab_mfa_def)
  moreover have "admitted (gw_server gw) lab_auth_env (Some ''192.0.2.7:4022'')" using s by (simp add: admitted_def server_wired_def lab_Allow)
  moreover have "account_ok (gw_server gw) ?id lr" using lr(3) by (simp add: account_ok_def)
  ultimately have "authenticated (gw_server gw) lab_auth_env (directory_auth (gw_auth gw) lab_directory) (Some ''192.0.2.7:4022'') ''alice'' ''s3cret'' ?id lr"
    using lr d src by (simp add: authenticated_def)
  with passwordCallback_cases [OF p] p show ?thesis by blast
qed

theorem booted_login_proved_witness:
  "\<exists>(gw :: nat gateway) h ident. boot lab_boot_env ''config.yaml'' False = Inr gw
    \<and> snd (snd (passwordCallback (gw_server gw) lab_auth_env (directory_auth (gw_auth gw) lab_directory) (Some ''192.0.2.7:4022'') ''alice'' ''s3cret'')) \<noteq> AuthFail
    \<and> directory_proved (ldap_of lab_gateway_config) lab_directory ''alice'' ''s3cret'' h ident"
proof -
  obtain gw :: "nat gateway" where gw: "boot lab_boot_env ''config.yaml'' False = Inr gw" "gw_config gw = lab_gateway_config" using lab_boots by blast
  from lab_boot_login [OF gw] obtain s' evs r where p: "passwordCallback (gw_server gw) lab_auth_env (directory_auth (gw_auth gw) lab_directory)
      (Some ''192.0.2.7:4022'') ''alice'' ''s3cret'' = (s', evs, r)" "r \<noteq> AuthFail" by blast
  have "parse_login ''alice'' = Some \<lparr>lr_user = ''alice'', lr_pcode = [], lr_hasTarget = False, lr_targetUser = [], lr_host = [], lr_port = 0\<rparr>" by code_simp
  with booted_login_proved [OF gw(1) p] gw(2) have "\<exists>h ident. directory_proved (ldap_of lab_gateway_config) lab_directory ''alice'' ''s3cret'' h ident" by auto
  with gw(1) p show ?thesis by auto
qed



end
