(* ===== verification/Omni_Verify.thy ===== *)
theory Omni_Verify
  imports Evidence_Complete
begin

text \<open>
  The offline verifier's command, \<^verbatim>\<open>cmd/omni-verify/main.go\<close>: its arguments, which
  may name files, and its exit codes.
\<close>

section \<open>Arguments\<close>

text \<open>What \<^verbatim>\<open>os.Stat\<close> and \<^verbatim>\<open>os.ReadFile\<close> find at a path; \<open>None\<close> is an error of \<^verbatim>\<open>Stat\<close>.\<close>

datatype fs_entry = FsDir | FsFile "string option"

definition resolveArg :: "(string \<Rightarrow> fs_entry option) \<Rightarrow> string \<Rightarrow> (string, string) result" where
  "resolveArg stat v =
    (if v = [] then Inr []
     else case stat v of
       Some (FsFile None) \<Rightarrow> Inl ''read pubkey file''
     | Some (FsFile (Some data)) \<Rightarrow> Inr (TrimSpace data)
     | _ \<Rightarrow> Inr (TrimSpace v))"

section \<open>Exit codes\<close>

definition omni_verify :: "codec \<Rightarrow> (string \<Rightarrow> fs_entry option) \<Rightarrow> (string \<Rightarrow> Dir) \<Rightarrow> string \<Rightarrow> string \<Rightarrow> string \<Rightarrow> int" where
  "omni_verify c stat dirs bundle pubkey head =
    (if bundle = [] then 2
     else case resolveArg stat pubkey of Inl e \<Rightarrow> 2
     | Inr pinned \<Rightarrow>
     case resolveArg stat head of Inl e \<Rightarrow> 2
     | Inr expectedHead \<Rightarrow>
     case VerifyBundle c (dirs bundle) pinned expectedHead of None \<Rightarrow> 2
     | Some rep \<Rightarrow> if \<not> vr_OK rep then 1 else if \<not> vr_KeyPinned rep then 3 else 0)"

lemma VerifyBundle_pins:
  "VerifyBundle c d key head = Some rep \<Longrightarrow> vr_KeyPinned rep = (key \<noteq> []) \<and> vr_HeadPinned rep = (head \<noteq> [])"
  by (auto simp: VerifyBundle_def Let_def split: option.splits)

lemma omni_verify_zero:
  "omni_verify c stat dirs bundle pubkey head = 0 \<longleftrightarrow> bundle \<noteq> []
     \<and> (\<exists>key hd rep. resolveArg stat pubkey = Inr key \<and> resolveArg stat head = Inr hd \<and> key \<noteq> []
          \<and> VerifyBundle c (dirs bundle) key hd = Some rep \<and> vr_OK rep)"
  by (auto simp: omni_verify_def dest: VerifyBundle_pins split: sum.splits option.splits)

lemma chain_ok_signed: "chain_ok c segs key prev ks \<Longrightarrow> key \<noteq> [] \<Longrightarrow> k \<in> set ks \<Longrightarrow> ck_PublicKey k = key \<and> VerifySig c k"
  by (induction ks arbitrary: prev) (auto simp: checkpoint_ok_iff)

text \<open>
  Exit code 0 means intact and authentic: it is returned exactly when a non-empty
  key was resolved and the bundle verifies under it, and then every checkpoint of
  the bundle names that key and carries a signature that verifies under it, every
  segment is covered by a checkpoint, and with a non-empty head the last
  checkpoint hashes to it.  A bundle that verifies without a pinned key ends in
  3, one with a problem in 1.
\<close>

theorem exit_zero_authentic:
  "(omni_verify c stat dirs bundle pubkey head = 0 \<longrightarrow>
      (\<exists>key hd segs ks. resolveArg stat pubkey = Inr key \<and> key \<noteq> [] \<and> resolveArg stat head = Inr hd \<and> accepts c (dirs bundle) key hd segs ks
        \<and> (\<forall>k\<in>set ks. ck_PublicKey k = key \<and> VerifySig c k) \<and> sf_key ` set segs \<subseteq> ck_key ` set ks
        \<and> (hd \<noteq> [] \<longrightarrow> head_after c [] ks = hd)))
   \<and> (\<forall>key hd rep. bundle \<noteq> [] \<and> resolveArg stat pubkey = Inr key \<and> resolveArg stat head = Inr hd \<and> VerifyBundle c (dirs bundle) key hd = Some rep \<longrightarrow>
        omni_verify c stat dirs bundle pubkey head = (if \<not> vr_OK rep then 1 else if key = [] then 3 else 0))"
proof (intro conjI impI allI)
  assume "omni_verify c stat dirs bundle pubkey head = 0"
  then obtain key hd rep where r: "resolveArg stat pubkey = Inr key" "resolveArg stat head = Inr hd" "key \<noteq> []"
    and "VerifyBundle c (dirs bundle) key hd = Some rep" "vr_OK rep" by (auto simp: omni_verify_zero)
  then obtain segs ks where a: "accepts c (dirs bundle) key hd segs ks" using accepts_iff_OK by blast
  have "\<forall>k\<in>set ks. ck_PublicKey k = key \<and> VerifySig c k" using accepts_chain [OF a] chain_ok_signed r(3) by blast
  moreover have "sf_key ` set segs \<subseteq> ck_key ` set ks" using accepts_covered [OF a] by blast
  ultimately show "\<exists>key hd segs ks. resolveArg stat pubkey = Inr key \<and> key \<noteq> [] \<and> resolveArg stat head = Inr hd \<and> accepts c (dirs bundle) key hd segs ks
        \<and> (\<forall>k\<in>set ks. ck_PublicKey k = key \<and> VerifySig c k) \<and> sf_key ` set segs \<subseteq> ck_key ` set ks
        \<and> (hd \<noteq> [] \<longrightarrow> head_after c [] ks = hd)"
    using r a accepts_chain [OF a] by blast
next
  fix key hd rep
  assume "bundle \<noteq> [] \<and> resolveArg stat pubkey = Inr key \<and> resolveArg stat head = Inr hd \<and> VerifyBundle c (dirs bundle) key hd = Some rep"
  then show "omni_verify c stat dirs bundle pubkey head = (if \<not> vr_OK rep then 1 else if key = [] then 3 else 0)"
    using VerifyBundle_pins [of c "dirs bundle" key hd rep] by (auto simp: omni_verify_def)
qed

text \<open>The log of the bus passes under the signer's key, given as text or in a file.\<close>

lemma bus_log_exit_zero:
  assumes "codec_laws c sg" and "evidence_log c sg (dirs bundle) h" and "dir_segments (dirs bundle) \<noteq> []" and "bundle \<noteq> []"
    and "resolveArg stat pubkey = Inr (PublicKeyHex sg)" and "resolveArg stat head = Inr h"
  shows "omni_verify c stat dirs bundle pubkey head = 0"
proof -
  obtain rep where "VerifyBundle c (dirs bundle) (PublicKeyHex sg) h = Some rep" "vr_OK rep"
    using evidence_log_dir [OF assms(2,1)] dir_log_accepted [OF assms(1) _ assms(3)] by blast
  moreover have "length (PublicKeyHex sg) = 64" using assms(1) by (simp add: PublicKeyHex_def codec_laws_def)
  then have "PublicKeyHex sg \<noteq> []" by auto
  ultimately show ?thesis using assms(4-6) by (auto simp: omni_verify_zero)
qed

text \<open>
  A head argument that names an empty file pins nothing: the command passes as if
  the argument were absent, on a bundle whose newest checkpoints may be gone.
\<close>

lemma empty_head_file_ignored:
  assumes "stat head = Some (FsFile (Some data))" and "TrimSpace data = []"
  shows "omni_verify c stat dirs bundle pubkey head = omni_verify c stat dirs bundle pubkey []"
proof -
  have "resolveArg stat head = resolveArg stat []" using assms by (simp add: resolveArg_def)
  then show ?thesis unfolding omni_verify_def by (simp only:)
qed

theorem exit_zero_authentic_witness:
  "omni_verify lab_codec (\<lambda>p. if p = ''key.hex'' then Some (FsFile (Some (lab_key @ [CHR 0x0A]))) else None) (\<lambda>_. lab_dir) ''bundle'' ''key.hex'' [] = 0
    \<and> (\<exists>segs ks. accepts lab_codec lab_dir lab_key [] segs ks \<and> (\<forall>k\<in>set ks. ck_PublicKey k = lab_key))"
proof -
  let ?stat = "\<lambda>p. if p = ''key.hex'' then Some (FsFile (Some (lab_key @ [CHR 0x0A]))) else None"
  have k: "resolveArg ?stat ''key.hex'' = Inr lab_key" and h: "resolveArg ?stat [] = Inr []" and ne: "lab_key \<noteq> []" by code_simp+
  have "verify_loaded lab_codec [lab_segment] [lab_ckpt] lab_key [] = []"
    using lab_loaded by (auto simp: verify_loaded_def verifyCheckpoints_def Let_def split: if_splits)
  then have "accepts lab_codec lab_dir lab_key [] [lab_segment] [lab_ckpt]"
    unfolding accepts_def using lab_load by (auto simp: sorted_ckpts_def)
  then obtain rep where "VerifyBundle lab_codec lab_dir lab_key [] = Some rep" "vr_OK rep" using accepts_iff_OK by blast
  then have z: "omni_verify lab_codec ?stat (\<lambda>_. lab_dir) ''bundle'' ''key.hex'' [] = 0"
    using k h ne unfolding omni_verify_zero by blast
  with exit_zero_authentic [of lab_codec ?stat "\<lambda>_. lab_dir" "''bundle''" "''key.hex''" "[]"] k h show ?thesis by auto
qed

end
