(* ===== verification/Metrics.thy ===== *)
theory Metrics
  imports Complex_Main Event Go_Std "HOL-Library.List_Lexorder" "HOL-Library.Char_ord"
begin

text \<open>
  The gateway's counters and latency histograms, \<^verbatim>\<open>internal/metrics\<close>: what each event
  counts as, the histogram's updates as the atomic steps they are, a scrape that
  reads while they run, and the text it renders.

  Counters wrap at 64 bits.  Seconds are exact rationals, where the code has
  rounded floats.  Go's \<^verbatim>\<open>%q\<close> and \<^verbatim>\<open>FormatFloat\<close> are arguments of the rendering.
\<close>

section \<open>Counters\<close>

type_synonym counter = int

definition ctr_inc :: "counter \<Rightarrow> counter" where
  "ctr_inc v = wrap64 (v + 1)"

section \<open>Histograms\<close>

record histogram =
  hi_bounds :: "rat list"
  hi_buckets :: "counter list"
  hi_sum :: rat
  hi_count :: counter

definition SetupBuckets :: "rat list" where
  "SetupBuckets = [5/1000, 1/100, 25/1000, 5/100, 1/10, 25/100, 1/2, 1, 5/2, 5, 10, 30, 60]"

definition LifetimeBuckets :: "rat list" where
  "LifetimeBuckets = [1, 5, 15, 30, 60, 300, 900, 1800, 3600, 14400, 28800]"

definition newHistogram :: "rat list \<Rightarrow> histogram" where
  "newHistogram bounds = \<lparr>hi_bounds = bounds, hi_buckets = replicate (length bounds) 0, hi_sum = 0, hi_count = 0\<rparr>"

text \<open>\<^verbatim>\<open>sort.SearchFloat64s\<close> on ascending bounds: the first one that is not below \<open>v\<close>.\<close>

definition SearchFloat64s :: "rat list \<Rightarrow> rat \<Rightarrow> nat" where
  "SearchFloat64s bounds v = length (takeWhile (\<lambda>b. b < v) bounds)"

definition Seconds :: "duration \<Rightarrow> rat" where
  "Seconds d = rat_of_int d / 1000000000"

text \<open>The atomic operations of \<^verbatim>\<open>observe\<close>, in its order.  The loop around the sum ends with one successful swap.\<close>

datatype hist_op = IncBucket nat | AddSum rat | IncCount

definition observe_ops :: "rat list \<Rightarrow> duration \<Rightarrow> hist_op list" where
  "observe_ops bounds d =
    (let v = Seconds d; i = SearchFloat64s bounds v
     in (if i < length bounds then [IncBucket i] else []) @ [AddSum v, IncCount])"

fun hist_apply :: "histogram \<Rightarrow> hist_op \<Rightarrow> histogram" where
  "hist_apply h (IncBucket i) = h\<lparr>hi_buckets := (hi_buckets h)[i := ctr_inc (hi_buckets h ! i)]\<rparr>"
| "hist_apply h (AddSum v) = h\<lparr>hi_sum := hi_sum h + v\<rparr>"
| "hist_apply h IncCount = h\<lparr>hi_count := ctr_inc (hi_count h)\<rparr>"

definition hist_observe :: "histogram \<Rightarrow> duration \<Rightarrow> histogram" where
  "hist_observe h d = foldl hist_apply h (observe_ops (hi_bounds h) d)"

section \<open>The gateway's metrics\<close>

record Metrics =
  mt_authSuccess :: counter
  mt_authFailure :: counter
  mt_mfaApproved :: counter
  mt_mfaDenied :: counter
  mt_tunnelAllow :: counter
  mt_tunnelDeny :: counter
  mt_approvalGranted :: counter
  mt_approvalRefused :: counter
  mt_inspectClean :: counter
  mt_inspectBlocked :: counter
  mt_recordings :: counter
  mt_transfers :: counter
  mt_evidenceEmitFailures :: counter
  mt_exportDropped :: "(string \<times> counter) list"
  mt_authOK :: histogram
  mt_authFail :: histogram
  mt_setupOK :: histogram
  mt_setupFail :: histogram
  mt_sessionLifetime :: histogram

definition Metrics_New :: Metrics where
  "Metrics_New =
     \<lparr>mt_authSuccess = 0, mt_authFailure = 0, mt_mfaApproved = 0, mt_mfaDenied = 0, mt_tunnelAllow = 0, mt_tunnelDeny = 0,
      mt_approvalGranted = 0, mt_approvalRefused = 0, mt_inspectClean = 0, mt_inspectBlocked = 0, mt_recordings = 0,
      mt_transfers = 0, mt_evidenceEmitFailures = 0, mt_exportDropped = [],
      mt_authOK = newHistogram SetupBuckets, mt_authFail = newHistogram SetupBuckets, mt_setupOK = newHistogram SetupBuckets,
      mt_setupFail = newHistogram SetupBuckets, mt_sessionLifetime = newHistogram LifetimeBuckets\<rparr>"

definition IncExportDrop :: "Metrics \<Rightarrow> string \<Rightarrow> Metrics" where
  "IncExportDrop m exporter =
     m\<lparr>mt_exportDropped := AList.update exporter
        (ctr_inc (case map_of (mt_exportDropped m) exporter of None \<Rightarrow> 0 | Some v \<Rightarrow> v)) (mt_exportDropped m)\<rparr>"

definition ObserveAuth :: "Metrics \<Rightarrow> duration \<Rightarrow> bool \<Rightarrow> Metrics" where
  "ObserveAuth m d ok = (if ok then m\<lparr>mt_authOK := hist_observe (mt_authOK m) d\<rparr> else m\<lparr>mt_authFail := hist_observe (mt_authFail m) d\<rparr>)"

definition ObserveSessionSetup :: "Metrics \<Rightarrow> duration \<Rightarrow> bool \<Rightarrow> Metrics" where
  "ObserveSessionSetup m d ok = (if ok then m\<lparr>mt_setupOK := hist_observe (mt_setupOK m) d\<rparr> else m\<lparr>mt_setupFail := hist_observe (mt_setupFail m) d\<rparr>)"

definition ObserveSessionLifetime :: "Metrics \<Rightarrow> duration \<Rightarrow> Metrics" where
  "ObserveSessionLifetime m d = m\<lparr>mt_sessionLifetime := hist_observe (mt_sessionLifetime m) d\<rparr>"

definition allowed :: "Event \<Rightarrow> bool" where
  "allowed e = (ev_Allow e = Some True)"

definition record_event :: "Metrics \<Rightarrow> Event \<Rightarrow> Metrics" where
  "record_event m e =
    (if ev_Type e = TypeAuth then
       (if allowed e then m\<lparr>mt_authSuccess := ctr_inc (mt_authSuccess m)\<rparr> else m\<lparr>mt_authFailure := ctr_inc (mt_authFailure m)\<rparr>)
     else if ev_Type e = TypeMFA then
       (if allowed e then m\<lparr>mt_mfaApproved := ctr_inc (mt_mfaApproved m)\<rparr> else m\<lparr>mt_mfaDenied := ctr_inc (mt_mfaDenied m)\<rparr>)
     else if ev_Type e = TypeTunnelDecision then
       (if allowed e then m\<lparr>mt_tunnelAllow := ctr_inc (mt_tunnelAllow m)\<rparr> else m\<lparr>mt_tunnelDeny := ctr_inc (mt_tunnelDeny m)\<rparr>)
     else if ev_Type e = TypeApproval then
       (if ev_Outcome e = ''granted'' then m\<lparr>mt_approvalGranted := ctr_inc (mt_approvalGranted m)\<rparr>
        else if ev_Outcome e = ''refused'' then m\<lparr>mt_approvalRefused := ctr_inc (mt_approvalRefused m)\<rparr> else m)
     else if ev_Type e = TypeInspection then
       (if ev_Verdict e = ''clean'' then m\<lparr>mt_inspectClean := ctr_inc (mt_inspectClean m)\<rparr>
        else m\<lparr>mt_inspectBlocked := ctr_inc (mt_inspectBlocked m)\<rparr>)
     else if ev_Type e = TypeRecording then m\<lparr>mt_recordings := ctr_inc (mt_recordings m)\<rparr>
     else if ev_Type e = TypeTransfer then m\<lparr>mt_transfers := ctr_inc (mt_transfers m)\<rparr>
     else m)"

text \<open>\<^verbatim>\<open>Emit\<close> of the decorated sink; \<open>inner\<close> is the wrapped sink's error for the event.\<close>

definition counting_Emit :: "(Event \<Rightarrow> string option) \<Rightarrow> Metrics \<Rightarrow> Event \<Rightarrow> Metrics \<times> string option" where
  "counting_Emit inner m e =
    (let m1 = record_event m e; err = inner e
     in (if err = None then m1 else m1\<lparr>mt_evidenceEmitFailures := ctr_inc (mt_evidenceEmitFailures m1)\<rparr>, err))"

section \<open>Reading\<close>

text \<open>The two gauges are functions wired by the gateway; their values are arguments.\<close>

definition Snapshot :: "Metrics \<Rightarrow> counter \<Rightarrow> (string \<times> counter) list" where
  "Snapshot m otelFailures =
    [(''auth_success_total'', mt_authSuccess m), (''auth_failure_total'', mt_authFailure m),
     (''mfa_approved_total'', mt_mfaApproved m), (''mfa_denied_total'', mt_mfaDenied m),
     (''tunnel_allow_total'', mt_tunnelAllow m), (''tunnel_deny_total'', mt_tunnelDeny m),
     (''approval_granted_total'', mt_approvalGranted m), (''approval_refused_total'', mt_approvalRefused m),
     (''inspection_clean_total'', mt_inspectClean m), (''inspection_blocked_total'', mt_inspectBlocked m),
     (''recordings_total'', mt_recordings m), (''transfers_total'', mt_transfers m),
     (''evidence_emit_failures_total'', mt_evidenceEmitFailures m), (''otel_export_failures_total'', otelFailures)]"

record text_fmt =
  tf_quote :: "string \<Rightarrow> string"
  tf_float :: "rat \<Rightarrow> string"

text \<open>The bucket lines: running totals, then the count.\<close>

fun cumulative :: "counter \<Rightarrow> counter list \<Rightarrow> counter list" where
  "cumulative acc [] = []"
| "cumulative acc (b # bs) = wrap64 (acc + b) # cumulative (wrap64 (acc + b)) bs"

definition hist_write :: "text_fmt \<Rightarrow> histogram \<Rightarrow> string \<Rightarrow> string \<Rightarrow> string list" where
  "hist_write tf h name labels =
    (let le = (\<lambda>v. if labels = [] then ''{le='' @ tf_quote tf v @ ''}'' else ''{'' @ labels @ '',le='' @ tf_quote tf v @ ''}'');
         suffix = (if labels = [] then [] else ''{'' @ labels @ ''}'')
     in map (\<lambda>(b, cum). ''omnisag_'' @ name @ ''_bucket'' @ le (tf_float tf b) @ '' '' @ show_int cum) (zip (hi_bounds h) (cumulative 0 (hi_buckets h)))
        @ [''omnisag_'' @ name @ ''_bucket'' @ le ''+Inf'' @ '' '' @ show_int (hi_count h),
           ''omnisag_'' @ name @ ''_sum'' @ suffix @ '' '' @ tf_float tf (hi_sum h),
           ''omnisag_'' @ name @ ''_count'' @ suffix @ '' '' @ show_int (hi_count h)])"

definition writeHistogram :: "text_fmt \<Rightarrow> string \<Rightarrow> string \<Rightarrow> (string \<times> histogram) list \<Rightarrow> string list" where
  "writeHistogram tf name help series =
    [''# HELP omnisag_'' @ name @ '' '' @ help, ''# TYPE omnisag_'' @ name @ '' histogram'']
    @ concat (map (\<lambda>(labels, h). hist_write tf h name labels) series)"

definition ctr_lines :: "string \<Rightarrow> string \<Rightarrow> counter \<Rightarrow> string list" where
  "ctr_lines name help v =
    [''# HELP omnisag_'' @ name @ '' '' @ help, ''# TYPE omnisag_'' @ name @ '' counter'', ''omnisag_'' @ name @ '' '' @ show_int v]"

definition counter_help :: "(string \<times> string) list" where
  "counter_help =
    [(''auth_success_total'', ''Successful authentications''), (''auth_failure_total'', ''Failed authentications''),
     (''mfa_approved_total'', ''MFA second factor approved''), (''mfa_denied_total'', ''MFA second factor denied''),
     (''tunnel_allow_total'', ''Tunnel decisions allowed''), (''tunnel_deny_total'', ''Tunnel decisions denied''),
     (''approval_granted_total'', ''Four-eyes approvals granted''), (''approval_refused_total'', ''Four-eyes approvals refused''),
     (''inspection_clean_total'', ''Content inspections clean''), (''inspection_blocked_total'', ''Content inspections blocked/quarantined''),
     (''recordings_total'', ''Session recordings produced''), (''transfers_total'', ''SFTP transfers''),
     (''evidence_emit_failures_total'', ''Evidence emit failures''), (''otel_export_failures_total'', ''OTLP export failures/drops'')]"

definition WriteText :: "text_fmt \<Rightarrow> Metrics \<Rightarrow> counter \<Rightarrow> counter \<Rightarrow> string list" where
  "WriteText tf m active otelFailures =
    [''# HELP omnisag_active_sessions Current active SSH sessions'', ''# TYPE omnisag_active_sessions gauge'',
     ''omnisag_active_sessions '' @ show_int active]
    @ concat (map (\<lambda>((name, v), help). ctr_lines name help v) (zip (Snapshot m otelFailures) (map snd counter_help)))
    @ writeHistogram tf ''auth_duration_seconds'' ''Time from connection accepted to authentication decision''
        [(''result=\"success\"'', mt_authOK m), (''result=\"failure\"'', mt_authFail m)]
    @ writeHistogram tf ''session_setup_duration_seconds'' ''Time to establish the target connection for a shell/SFTP/scp session (excludes -L tunnel dials)''
        [(''result=\"success\"'', mt_setupOK m), (''result=\"failure\"'', mt_setupFail m)]
    @ writeHistogram tf ''session_duration_seconds'' ''Lifetime of an authenticated connection, handshake to teardown''
        [([], mt_sessionLifetime m)]
    @ [''# HELP omnisag_eventexport_dropped_total Events dropped by a SIEM export destination'', ''# TYPE omnisag_eventexport_dropped_total counter'']
    @ map (\<lambda>name. ''omnisag_eventexport_dropped_total{exporter='' @ tf_quote tf name @ ''} ''
          @ show_int (case map_of (mt_exportDropped m) name of None \<Rightarrow> 0 | Some v \<Rightarrow> v)) (sort (map fst (mt_exportDropped m)))"

section \<open>The counters count\<close>

definition counted :: "(Event \<Rightarrow> bool) \<Rightarrow> Event list \<Rightarrow> counter" where
  "counted P es = wrap64 (int (length (filter P es)))"

lemma wrap64_inc [simp]: "wrap64 (wrap64 a + b) = wrap64 (a + b)"
  by (simp add: wrap64_def mod_simps algebra_simps)

lemma wrap64_inc' [simp]: "wrap64 (b + wrap64 a) = wrap64 (b + a)"
  using wrap64_inc [of a b] by (simp add: add.commute)

lemma counted_snoc: "counted P (es @ [e]) = (if P e then ctr_inc (counted P es) else counted P es)"
  by (simp add: counted_def ctr_inc_def algebra_simps)

lemma counter_run:
  assumes "\<And>m e. fld (step m e) = (if P e then ctr_inc (fld m) else fld m)" and "fld m0 = 0"
  shows "fld (foldl step m0 es) = counted P es"
proof (induction es rule: rev_induct)
  case Nil
  show ?case using assms(2) by (simp add: counted_def wrap64_def)
next
  case (snoc e es)
  then show ?case by (simp add: assms(1) counted_snoc)
qed

definition emit_all :: "(Event \<Rightarrow> string option) \<Rightarrow> Event list \<Rightarrow> Metrics" where
  "emit_all inner es = foldl (\<lambda>m e. fst (counting_Emit inner m e)) Metrics_New es"

lemmas emit_fields = counting_Emit_def record_event_def Let_def Metrics_New_def

text \<open>
  The counters count what was emitted: after any events through the decorated
  sink each counter is the number (modulo 64 bits) of the events of its kind, so
  a denied or undecided event never counts as allowed, a pending approval counts
  as neither granted nor refused, and every inspection that is not clean counts as
  blocked.  The sink's error is the wrapped sink's, and each is counted.
\<close>

theorem counters_count_events:
  "mt_authSuccess (emit_all inner es) = counted (\<lambda>e. ev_Type e = TypeAuth \<and> allowed e) es
   \<and> mt_authFailure (emit_all inner es) = counted (\<lambda>e. ev_Type e = TypeAuth \<and> \<not> allowed e) es
   \<and> mt_mfaApproved (emit_all inner es) = counted (\<lambda>e. ev_Type e = TypeMFA \<and> allowed e) es
   \<and> mt_mfaDenied (emit_all inner es) = counted (\<lambda>e. ev_Type e = TypeMFA \<and> \<not> allowed e) es
   \<and> mt_tunnelAllow (emit_all inner es) = counted (\<lambda>e. ev_Type e = TypeTunnelDecision \<and> allowed e) es
   \<and> mt_tunnelDeny (emit_all inner es) = counted (\<lambda>e. ev_Type e = TypeTunnelDecision \<and> \<not> allowed e) es
   \<and> mt_approvalGranted (emit_all inner es) = counted (\<lambda>e. ev_Type e = TypeApproval \<and> ev_Outcome e = ''granted'') es
   \<and> mt_approvalRefused (emit_all inner es) = counted (\<lambda>e. ev_Type e = TypeApproval \<and> ev_Outcome e = ''refused'') es
   \<and> mt_inspectClean (emit_all inner es) = counted (\<lambda>e. ev_Type e = TypeInspection \<and> ev_Verdict e = ''clean'') es
   \<and> mt_inspectBlocked (emit_all inner es) = counted (\<lambda>e. ev_Type e = TypeInspection \<and> ev_Verdict e \<noteq> ''clean'') es
   \<and> mt_recordings (emit_all inner es) = counted (\<lambda>e. ev_Type e = TypeRecording) es
   \<and> mt_transfers (emit_all inner es) = counted (\<lambda>e. ev_Type e = TypeTransfer) es
   \<and> mt_evidenceEmitFailures (emit_all inner es) = counted (\<lambda>e. inner e \<noteq> None) es
   \<and> snd (counting_Emit inner m e) = inner e"
  unfolding emit_all_def
  by (intro conjI counter_run) (simp_all add: emit_fields)

section \<open>Histograms\<close>

text \<open>With ascending bounds, the bucket search is the comparison with a bound.\<close>

lemma Search_le:
  assumes "sorted bounds" and "i < length bounds"
  shows "SearchFloat64s bounds v \<le> i \<longleftrightarrow> v \<le> bounds ! i"
proof -
  let ?k = "length (takeWhile (\<lambda>b. b < v) bounds)"
  show ?thesis
  proof
    assume "SearchFloat64s bounds v \<le> i"
    then have k: "?k \<le> i" by (simp add: SearchFloat64s_def)
    then have "\<not> bounds ! ?k < v" using assms(2) by (intro nth_length_takeWhile) simp
    moreover have "bounds ! ?k \<le> bounds ! i" using k assms by (simp add: sorted_nth_mono)
    ultimately show "v \<le> bounds ! i" by simp
  next
    assume v: "v \<le> bounds ! i"
    have "\<not> i < ?k"
    proof
      assume "i < ?k"
      then have "takeWhile (\<lambda>b. b < v) bounds ! i \<in> set (takeWhile (\<lambda>b. b < v) bounds)" by (rule nth_mem)
      then have "bounds ! i < v" using \<open>i < ?k\<close> by (auto simp: takeWhile_nth dest: set_takeWhileD)
      with v show False by simp
    qed
    then show "SearchFloat64s bounds v \<le> i" by (simp add: SearchFloat64s_def)
  qed
qed

lemma observe_fields:
  "hi_bounds (hist_observe h d) = hi_bounds h" "hi_count (hist_observe h d) = ctr_inc (hi_count h)" "hi_sum (hist_observe h d) = hi_sum h + Seconds d"
  "length (hi_buckets (hist_observe h d)) = length (hi_buckets h)"
  "j < length (hi_buckets h) \<Longrightarrow> length (hi_buckets h) = length (hi_bounds h) \<Longrightarrow>
     hi_buckets (hist_observe h d) ! j = (if SearchFloat64s (hi_bounds h) (Seconds d) = j then ctr_inc (hi_buckets h ! j) else hi_buckets h ! j)"
  by (auto simp: hist_observe_def observe_ops_def Let_def)

definition observed :: "rat list \<Rightarrow> duration list \<Rightarrow> histogram" where
  "observed bounds ds = foldl hist_observe (newHistogram bounds) ds"

lemma observed_fields:
  assumes "length ds < 2 ^ 63"
  shows "hi_bounds (observed bounds ds) = bounds \<and> hi_count (observed bounds ds) = int (length ds) \<and> length (hi_buckets (observed bounds ds)) = length bounds
    \<and> (\<forall>j<length bounds. hi_buckets (observed bounds ds) ! j = int (length (filter (\<lambda>d. SearchFloat64s bounds (Seconds d) = j) ds)))"
  using assms
proof (induction ds rule: rev_induct)
  case Nil
  show ?case by (simp add: observed_def newHistogram_def)
next
  case (snoc d ds)
  have o: "observed bounds (ds @ [d]) = hist_observe (observed bounds ds) d" by (simp add: observed_def)
  have inc: "ctr_inc (int n) = int (Suc n)" if "n \<le> length ds" for n
    using that snoc.prems by (simp add: ctr_inc_def wrap64_id int64_min_def int64_max_def)
  from snoc show ?case unfolding o by (auto simp: observe_fields inc length_filter_le)
qed

lemma cumulative_nth:
  assumes "i < length bs" and "\<forall>b\<in>set bs. 0 \<le> b" and "0 \<le> acc" and "acc + sum_list bs \<le> int64_max"
  shows "cumulative acc bs ! i = acc + sum_list (take (Suc i) bs)"
  using assms
proof (induction bs arbitrary: i acc)
  case (Cons b bs)
  have n: "0 \<le> sum_list bs" using Cons.prems(2) by (simp add: sum_list_nonneg)
  then have w: "wrap64 (acc + b) = acc + b" using Cons.prems by (intro wrap64_id) (auto simp: int64_min_def)
  show ?case
  proof (cases i)
    case 0
    with w show ?thesis by simp
  next
    case (Suc k)
    with Cons.IH [of k "acc + b"] Cons.prems w show ?thesis by simp
  qed
qed simp

lemma count_upto: "(\<Sum>j\<le>i. length (filter (\<lambda>d. f d = j) ds)) = length (filter (\<lambda>d. f d \<le> (i :: nat)) ds)"
proof (induction ds)
  case (Cons d ds)
  have "(\<Sum>j\<le>i. length (filter (\<lambda>d. f d = j) (d # ds))) = (\<Sum>j\<le>i. (if f d = j then 1 else 0) + length (filter (\<lambda>d. f d = j) ds))"
    by (intro sum.cong) auto
  with Cons show ?case by (simp add: sum.distrib)
qed simp

lemma sum_list_take: "i < length bs \<Longrightarrow> sum_list (take (Suc i) bs) = (\<Sum>j\<le>i. bs ! j)"
  by (simp add: sum_list_sum_nth atLeast0AtMost [symmetric] atLeastLessThanSuc_atLeastAtMost)

text \<open>
  C39.  A histogram is what Prometheus expects of one: after any observations the line
  for a bound is the number of observations not above it, the last line and the
  count are the number of all observations, and no bucket exceeds the count.
\<close>

theorem histogram_le_counts:
  assumes "sorted bounds" and "length ds < 2 ^ 63" and "i < length bounds"
  shows "cumulative 0 (hi_buckets (observed bounds ds)) ! i = int (length (filter (\<lambda>d. Seconds d \<le> bounds ! i) ds))
    \<and> hi_count (observed bounds ds) = int (length ds)
    \<and> cumulative 0 (hi_buckets (observed bounds ds)) ! i \<le> hi_count (observed bounds ds)"
proof -
  let ?bs = "hi_buckets (observed bounds ds)" and ?f = "\<lambda>d. SearchFloat64s bounds (Seconds d)"
  note o = observed_fields [OF assms(2), of bounds]
  have sub: "(\<Sum>j\<le>k. ?bs ! j) = int (length (filter (\<lambda>d. ?f d \<le> k) ds))" if "k < length bounds" for k
  proof -
    have "(\<Sum>j\<le>k. ?bs ! j) = (\<Sum>j\<le>k. int (length (filter (\<lambda>d. ?f d = j) ds)))" using o that by (intro sum.cong) auto
    then show ?thesis by (simp add: count_upto [symmetric])
  qed
  have "sum_list ?bs = int (length (filter (\<lambda>d. ?f d \<le> length bounds - 1) ds))"
    using sub [of "length bounds - 1"] sum_list_take [of "length bounds - 1" ?bs] o assms(3) by simp
  also have "\<dots> \<le> int (length ds)" by simp
  finally have "sum_list ?bs \<le> int64_max" using assms(2) by (simp add: int64_max_def)
  moreover have "\<forall>b\<in>set ?bs. 0 \<le> b" using o by (auto simp: in_set_conv_nth)
  ultimately have "cumulative 0 ?bs ! i = sum_list (take (Suc i) ?bs)" using o assms(3) by (subst cumulative_nth) auto
  also have "\<dots> = int (length (filter (\<lambda>d. Seconds d \<le> bounds ! i) ds))"
    using sub [OF assms(3)] sum_list_take [of i ?bs] o assms by (simp add: Search_le)
  finally show ?thesis using o by simp
qed

definition lab_durations :: "duration list" where
  "lab_durations = [3000000, 2000000000, 90000000000]"

theorem histogram_le_counts_witness:
  "cumulative 0 (hi_buckets (observed SetupBuckets lab_durations)) ! 8 = 2 \<and> hi_count (observed SetupBuckets lab_durations) = 3"
proof -
  have "sorted SetupBuckets" by (simp add: SetupBuckets_def)
  moreover have "8 < length SetupBuckets" by (simp add: SetupBuckets_def)
  moreover have "length (filter (\<lambda>d. Seconds d \<le> SetupBuckets ! 8) lab_durations) = 2"
    by (simp add: SetupBuckets_def lab_durations_def Seconds_def)
  moreover have "length lab_durations = 3" by (simp add: lab_durations_def)
  ultimately show ?thesis using histogram_le_counts [of SetupBuckets lab_durations 8] by simp
qed

section \<open>A scrape while observations run\<close>

text \<open>
  One histogram, the observations in flight with the operations they have left,
  and a scrape, which reads the buckets one by one and then the count.
\<close>

record hist_sys =
  hy_hist :: histogram
  hy_running :: "hist_op list list"
  hy_cum :: "counter list"
  hy_inf :: "counter option"

definition hist_init :: "rat list \<Rightarrow> hist_sys" where
  "hist_init bounds = \<lparr>hy_hist = newHistogram bounds, hy_running = [], hy_cum = [], hy_inf = None\<rparr>"

inductive hist_step :: "hist_sys \<Rightarrow> hist_sys \<Rightarrow> bool" where
  observe_starts: "hist_step s (s\<lparr>hy_running := hy_running s @ [observe_ops (hi_bounds (hy_hist s)) d]\<rparr>)"
| observe_runs: "hy_running s = xs @ (op # ops) # ys \<Longrightarrow> hist_step s (s\<lparr>hy_hist := hist_apply (hy_hist s) op, hy_running := xs @ ops # ys\<rparr>)"
| scrape_starts: "hist_step s (s\<lparr>hy_cum := [], hy_inf := None\<rparr>)"
| scrape_bucket: "hy_inf s = None \<Longrightarrow> length (hy_cum s) < length (hi_buckets (hy_hist s)) \<Longrightarrow>
    hist_step s (s\<lparr>hy_cum := hy_cum s @ [wrap64 ((if hy_cum s = [] then 0 else last (hy_cum s)) + hi_buckets (hy_hist s) ! length (hy_cum s))]\<rparr>)"
| scrape_count: "hy_inf s = None \<Longrightarrow> length (hy_cum s) = length (hi_buckets (hy_hist s)) \<Longrightarrow> hist_step s (s\<lparr>hy_inf := Some (hi_count (hy_hist s))\<rparr>)"

text \<open>A scrape that nothing disturbs reads the running totals.\<close>

lemma length_cumulative [simp]: "length (cumulative acc bs) = length bs"
  by (induction bs arbitrary: acc) auto

lemma cumulative_Nil [simp]: "cumulative acc bs = [] \<longleftrightarrow> bs = []"
  by (cases bs) simp_all

lemma one_bucket: "i < n \<Longrightarrow> sum_list ((replicate n 0)[i := (x :: int)]) = x"
  by (simp add: upd_conv_take_nth_drop sum_list_replicate)

lemma cumulative_snoc:
  "cumulative acc (bs @ [b]) = cumulative acc bs @ [wrap64 ((if bs = [] then acc else last (cumulative acc bs)) + b)]"
  by (induction bs arbitrary: acc) (auto split: if_splits)

lemma scrape_reads:
  assumes "hy_inf s = None" and "hy_cum s = []" and "n \<le> length (hi_buckets (hy_hist s))"
  shows "hist_step\<^sup>*\<^sup>* s (s\<lparr>hy_cum := cumulative 0 (take n (hi_buckets (hy_hist s)))\<rparr>)"
  using assms(3)
proof (induction n)
  case 0
  have "s\<lparr>hy_cum := []\<rparr> = s" using assms(2) by simp
  then show ?case by simp
next
  case (Suc n)
  let ?bs = "hi_buckets (hy_hist s)"
  let ?s = "s\<lparr>hy_cum := cumulative 0 (take n ?bs)\<rparr>"
  have "hist_step ?s (?s\<lparr>hy_cum := hy_cum ?s @ [wrap64 ((if hy_cum ?s = [] then 0 else last (hy_cum ?s)) + hi_buckets (hy_hist ?s) ! length (hy_cum ?s))]\<rparr>)"
    by (rule scrape_bucket) (use assms(1) Suc.prems in simp_all)
  moreover have "hy_cum ?s @ [wrap64 ((if hy_cum ?s = [] then 0 else last (hy_cum ?s)) + hi_buckets (hy_hist ?s) ! length (hy_cum ?s))] = cumulative 0 (take (Suc n) ?bs)"
    using Suc.prems by (simp add: take_Suc_conv_app_nth cumulative_snoc)
  ultimately have "hist_step ?s (s\<lparr>hy_cum := cumulative 0 (take (Suc n) ?bs)\<rparr>)" by simp
  with Suc show ?case by (simp add: rtranclp.rtrancl_into_rtrancl)
qed

text \<open>
  C40.  The order of \<^verbatim>\<open>observe\<close> does not protect a scrape: the bucket is incremented before
  the count, so a scrape between the two shows a bucket above the total, for every
  set of bounds and every duration within them.
\<close>

theorem scrape_may_exceed_count:
  assumes "SearchFloat64s bounds (Seconds d) < length bounds"
  shows "\<exists>s. hist_step\<^sup>*\<^sup>* (hist_init bounds) s \<and> hy_inf s = Some 0 \<and> last (hy_cum s) = 1"
proof -
  let ?i = "SearchFloat64s bounds (Seconds d)"
  let ?s0 = "hist_init bounds"
  let ?bs = "(replicate (length bounds) (0 :: int))[?i := 1]"
  let ?s1 = "?s0\<lparr>hy_running := [IncBucket ?i # [AddSum (Seconds d), IncCount]]\<rparr>"
  let ?s2 = "?s1\<lparr>hy_hist := (newHistogram bounds)\<lparr>hi_buckets := ?bs\<rparr>, hy_running := [[AddSum (Seconds d), IncCount]]\<rparr>"
  have "hist_step ?s0 ?s1" using observe_starts [of ?s0 d] assms by (simp add: hist_init_def newHistogram_def observe_ops_def Let_def)
  moreover have "hist_step ?s1 ?s2"
    using observe_runs [of ?s1 "[]" "IncBucket ?i" "[AddSum (Seconds d), IncCount]" "[]"] assms
    by (simp add: hist_init_def newHistogram_def ctr_inc_def wrap64_def)
  moreover have "hist_step\<^sup>*\<^sup>* ?s2 (?s2\<lparr>hy_cum := cumulative 0 ?bs\<rparr>)"
    using scrape_reads [of ?s2 "length bounds"] by (simp add: hist_init_def newHistogram_def)
  moreover have "hist_step (?s2\<lparr>hy_cum := cumulative 0 ?bs\<rparr>) (?s2\<lparr>hy_cum := cumulative 0 ?bs, hy_inf := Some 0\<rparr>)"
    using scrape_count [of "?s2\<lparr>hy_cum := cumulative 0 ?bs\<rparr>"] by (simp add: hist_init_def newHistogram_def)
  ultimately have r: "hist_step\<^sup>*\<^sup>* ?s0 (?s2\<lparr>hy_cum := cumulative 0 ?bs, hy_inf := Some 0\<rparr>)"
    by (meson converse_rtranclp_into_rtranclp rtranclp.rtrancl_into_rtrancl)
  have "last (cumulative 0 ?bs) = sum_list ?bs"
  proof -
    have n: "?bs \<noteq> []" "\<forall>b\<in>set ?bs. 0 \<le> b" using assms by (auto dest: set_update_subset_insert [THEN subsetD])
    have one: "sum_list ?bs = 1" using assms by (rule one_bucket)
    have "cumulative 0 ?bs ! (length bounds - 1) = sum_list (take (Suc (length bounds - 1)) ?bs)"
      using n assms one by (subst cumulative_nth) (auto simp: int64_max_def)
    then show ?thesis using assms by (subst last_conv_nth) (auto simp: n)
  qed
  moreover have "sum_list ?bs = 1" using assms by (rule one_bucket)
  ultimately show ?thesis by (intro exI conjI) (rule r, simp_all)
qed

theorem scrape_may_exceed_count_witness:
  "\<exists>s. hist_step\<^sup>*\<^sup>* (hist_init SetupBuckets) s \<and> hy_inf s = Some 0 \<and> last (hy_cum s) = 1"
  by (rule scrape_may_exceed_count [of SetupBuckets 3000000]) (simp add: SearchFloat64s_def SetupBuckets_def Seconds_def)

end
