(* ===== verification/Spec2Isabelle.thy ===== *)
theory Spec2Isabelle
  imports Policy Ratelimit Credential Approval Durable Release Dialer Evidence_Complete Config Upload Session_Target
    Explain Recording Session_Shell Gateway Omni_Verify Metrics
begin

text \<open>
  A model of \<^emph>\<open>omni-sag\<close>, an SSH access gateway: users connect to it over SSH, and it
  connects them to targets the policy allows, with recording, content inspection,
  four-eyes approval and a tamper-evident log of what happened.

  \<^bold>\<open>The program and its interactions.\<close>  A connection is accepted and authenticated
  (\<^verbatim>\<open>internal/session/session.go\<close>, with \<^verbatim>\<open>internal/ratelimit\<close> throttling sources and
  \<^verbatim>\<open>internal/authn\<close> deciding on passwords and second factors).  Its channels are
  gated and counted, and published to the registry of live sessions
  (\<^verbatim>\<open>internal/sessions\<close>) that the control API (\<^verbatim>\<open>internal/api\<close>) serves.  A channel is an
  \<^verbatim>\<open>-L\<close> tunnel, a shell, an SFTP subsystem or an SCP command.  A tunnel goes through
  the dialer (\<^verbatim>\<open>internal/dialer\<close>), which asks the policy (\<^verbatim>\<open>internal/policy\<close>), waits
  for an approval where a rule requires it (\<^verbatim>\<open>internal/approval\<close>), resolves the
  target credential (\<^verbatim>\<open>internal/credential\<close>), guards the resolved address and emits
  evidence; its first bytes may be identified and enforced
  (\<^verbatim>\<open>internal/protoident\<close>, \<^verbatim>\<open>tunnelinspect.go\<close>).  Shell, SFTP and SCP share a second SSH
  leg to the target (\<^verbatim>\<open>target.go\<close>).  Uploads are reassembled, inspected over ICAP
  (\<^verbatim>\<open>internal/inspect\<close>, \<^verbatim>\<open>internal/inspectgate\<close>), kept in quarantine and, once a second
  person approves, handed back through \<^verbatim>\<open>/releases\<close> (\<^verbatim>\<open>internal/release\<close>).  Every step
  emits events to the evidence bus (\<^verbatim>\<open>internal/evidence\<close>), which an offline verifier
  checks and exporters copy to other systems (\<^verbatim>\<open>internal/eventexport\<close>).  \<^verbatim>\<open>cmd/omni-sag\<close>
  builds all of this from one document and reloads the policy while it runs.

  \<^bold>\<open>Foundations.\<close>
  \<^item> \<open>Omni_Prelude\<close>: results of fallible functions, association lists, and the locales
    the stateful components interpret: \<open>guarded_machine\<close> (a step function that keeps
    an invariant, lifted to all histories), \<open>monotone_machine\<close>, \<open>bounded_queue\<close>.
  \<^item> \<open>Go_Std\<close>, \<open>Net_IP\<close>: what the source uses of Go's \<^verbatim>\<open>strings\<close>, \<^verbatim>\<open>strconv\<close>, \<^verbatim>\<open>time\<close> and
    \<^verbatim>\<open>net\<close>; durations wrap at 64 bits, addresses are bytes.

  \<^bold>\<open>Deciding.\<close>
  \<^item> \<open>Policy\<close> (\<^verbatim>\<open>policy.go\<close>, \<^verbatim>\<open>targetuser.go\<close>, \<^verbatim>\<open>holder.go\<close>): \<open>Decide\<close> is characterised
    exactly, and the port-free \<open>DecideHost\<close> refines it.
  \<^item> \<open>Ratelimit\<close> (\<^verbatim>\<open>bruteforce.go\<close>): lockouts are bounded in every reachable state.
  \<^item> \<open>Credential\<close> (\<^verbatim>\<open>credential.go\<close>, \<^verbatim>\<open>breaker.go\<close>, \<^verbatim>\<open>secret.go\<close>, \<^verbatim>\<open>redact.go\<close>, \<^verbatim>\<open>ccp.go\<close>):
    no fallback from a failed injection.
  \<^item> \<open>Config\<close>, \<open>Fips\<close> (\<^verbatim>\<open>internal/config\<close>, \<^verbatim>\<open>internal/fips\<close>): a validated document is
    complete and in force as written.
  \<^item> \<open>Policy_Source\<close> (\<^verbatim>\<open>internal/policysource\<close>): polling by content hash is compiling at
    every read.  The locale \<open>policy_view\<close> is a component whose policy the watcher
    replaces: the holder, the dialer and the whole gateway are instances.
  \<^item> \<open>Authn_LDAP\<close>, \<open>Mschap\<close>, \<open>Authn_Radius\<close> (\<^verbatim>\<open>internal/authn\<close>): an identity is what the
    directory proved, failed logins look alike, nested groups are complete, and
    only an acceptance passes the second factor.
  \<^item> \<open>Explain\<close> (\<^verbatim>\<open>internal/tui/explain.go\<close>): the offline rule trace is the gateway's own
    decision.

  \<^bold>\<open>Durable stores.\<close>
  \<^item> \<open>Durable\<close>: atomic replacement of a file, crash point by crash point.
  \<^item> \<open>Approval\<close>: the file store as a transition system of concurrent callers,
    timers, failing writes and restarts (\<open>appr_step\<close>); four eyes, finality, and
    exactly when a decision succeeds.  The locale \<open>approval_store\<close> is the contract
    the clients use.
  \<^item> \<open>Release\<close>: releases per requester, with expiry and pruning.

  \<^bold>\<open>Evidence.\<close>
  \<^item> \<open>Event\<close>, \<open>Merkle\<close>, \<open>Evidence\<close> (\<^verbatim>\<open>bus.go\<close>, \<^verbatim>\<open>record.go\<close>, \<^verbatim>\<open>checkpoint.go\<close>, \<^verbatim>\<open>hash.go\<close>),
    \<open>Evidence_Verify\<close> (\<^verbatim>\<open>verify.go\<close>), \<open>Evidence_Complete\<close>: a Merkle root binds its
    leaves, an accepted head binds the log, and what the bus wrote is accepted.
    Hash functions, signatures and JSON are arguments; collisions appear in the
    conclusions instead of being assumed away.
  \<^item> \<open>Event_Export\<close> (\<^verbatim>\<open>internal/eventexport\<close>): formatters without forged fields and a
    bounded queue with counted drops.
  \<^item> \<open>Omni_Verify\<close> (\<^verbatim>\<open>cmd/omni-verify\<close>): exit code 0 means intact and authentic.
  \<^item> \<open>Metrics\<close> (\<^verbatim>\<open>internal/metrics\<close>): counters count events, histograms count
    observations, and what a scrape can see in between.

  \<^bold>\<open>Connections.\<close>
  \<^item> \<open>Dialer\<close> (\<^verbatim>\<open>dialer.go\<close>, \<^verbatim>\<open>guard.go\<close>): a socket is connected only if authorised, and
    evidence does not depend on the secret.
  \<^item> \<open>Session\<close> (\<^verbatim>\<open>session.go\<close>): options, login names and the authentication callbacks.
  \<^item> \<open>Session_Target\<close> (\<^verbatim>\<open>target.go\<close>, \<^verbatim>\<open>agentfwd.go\<close>): the second SSH leg.
  \<^item> \<open>Session_Channel\<close> (\<^verbatim>\<open>Serve\<close>, \<^verbatim>\<open>Drain\<close>, \<^verbatim>\<open>handleConn\<close>, \<^verbatim>\<open>handleDirectTCPIP\<close>,
    \<^verbatim>\<open>tunnelkeeper.go\<close>): bounded handshakes, channel accounting, authorised tunnels.
  \<^item> \<open>Protoident\<close>, \<open>Tunnel_Inspect\<close>: identification with out-of-range indexing as a
    value, and enforcement that neither loses nor reorders bytes.
  \<^item> \<open>Session_Open\<close>, \<open>Session_Shell\<close> (\<^verbatim>\<open>interactive.go\<close>): what a session channel may
    start, and that a shell's traffic is recorded.
  \<^item> \<open>Registry\<close>, \<open>Api\<close> (\<^verbatim>\<open>internal/sessions\<close>, \<^verbatim>\<open>internal/api\<close>): supervision streams and
    the access rules of the control plane.
  \<^item> \<open>Recording\<close> (\<^verbatim>\<open>internal/recording\<close>, \<^verbatim>\<open>internal/tui/player.go\<close>): what was recorded
    is what is played.

  \<^bold>\<open>Transfers.\<close>
  \<^item> \<open>Inspect\<close>, \<open>Inspect_Gate\<close>: the ICAP client and the gate; a clean verdict is about
    the complete content.  The locale \<open>inspector\<close> is what the gate relies on, and the
    ICAP client is its instance.
  \<^item> \<open>Upload\<close>, \<open>Session_Files\<close> (\<^verbatim>\<open>sftp.go\<close>): reassembly by offset, and every handler of
    an SFTP session.
  \<^item> \<open>Scp\<close> (\<^verbatim>\<open>scp.go\<close>): the command grammar and both directions of the protocol.
  \<^item> \<open>Release_Flow\<close>: upload, inspection, approval and release composed over the
    approval store's transition system.

  \<^bold>\<open>The daemon.\<close>
  \<^item> \<open>Gateway\<close> (\<^verbatim>\<open>cmd/omni-sag/main.go\<close>): \<open>boot\<close> is \<^verbatim>\<open>run\<close> up to the listeners, from the
    validated document through every constructor above.  What boots is what was
    configured, a login passes only the configured factors, the transport is never
    weaker than the document, and a reload changes one policy everywhere and
    nothing else.

  \<^bold>\<open>Conventions.\<close>  A Go function returning \<^verbatim>\<open>(T, error)\<close> gives a sum with the error on the
  left; code under a mutex is one step; goroutines are machines over explicit
  sequences of events, so a theorem about all sequences is about all
  interleavings.  Clocks, fresh identifiers, the outcomes of reads, writes and
  fsyncs, and the answers of libraries and remote services are arguments.  There
  is no fuel: loops are structural or have termination proofs, and the one loop
  that may run forever, the copy of an SCP download, is a partial function whose
  termination is proved for readers that keep the contract of \<^verbatim>\<open>io.ReaderAt\<close>.

  \<^bold>\<open>Not modelled.\<close>  The LDAP, RADIUS, SSH, SFTP, HTTP, TLS, S3, YAML and JSON libraries,
  which are arguments; the OpenTelemetry exporter, whose settings alone are built
  by the boot; the screens of the terminal interface and the remaining commands
  (\<^verbatim>\<open>omnisag-ctl\<close>, \<^verbatim>\<open>omnisag-operator\<close>), which render and forward; signal handling and
  logging.  The copies of a pointer that several components share (the credential
  provider with its breaker) are equal values at boot and are followed separately
  by the components that own them.
\<close>

end
